(* ===== verification/Prelude.thy ===== *)
theory Prelude
  imports Main "HOL-Library.Word"
begin

text \<open>
  What every component shares: the C integer types at their width, the error values that
  \<open>elog\<close>/\<open>ereport\<close> raise, sequencing of fallible calls, and generic facts about lists,
  least members and bits of words.
\<close>

unbundle bit_operations_syntax

section \<open>C types and errors\<close>

type_synonym uint8 = "8 word"
type_synonym uint16 = "16 word"
type_synonym uint32 = "32 word"
type_synonym uint64 = "64 word"

text \<open>\<open>elog(ERROR, msg)\<close> carries only a message; \<open>ereport(ERROR, errcode(c), ...)\<close> is kept
  by its error code.  Either one abandons the function.\<close>

datatype pg_error = Elog string | Ereport string

type_synonym 'a result = "pg_error + 'a"

definition rbind :: "'a result \<Rightarrow> ('a \<Rightarrow> 'b result) \<Rightarrow> 'b result" where
  "rbind r f = (case r of Inl e \<Rightarrow> Inl e | Inr a \<Rightarrow> f a)"

lemma rbind_simps [simp]:
  "rbind (Inl e) f = Inl e" "rbind (Inr a) f = f a"
  by (simp_all add: rbind_def)

lemma rbind_eq_Inr:
  "rbind r f = Inr b \<longleftrightarrow> (\<exists>a. r = Inr a \<and> f a = Inr b)"
  by (cases r) auto

lemma rbind_eq_Inl:
  "rbind r f = Inl e \<longleftrightarrow> r = Inl e \<or> (\<exists>a. r = Inr a \<and> f a = Inl e)"
  by (cases r) auto

named_theorems bit_facts \<open>bits of words, as facts about positions\<close>

lemma Collect_bot [simp]: "Collect bot = {}"
  by (simp add: bot_fun_def)

end
