(* ===== verification/BitUtils.thy ===== *)
theory BitUtils
  imports Prelude
begin

text \<open>
  \<^verbatim>\<open>src/include/port/pg_bitutils.h\<close> and \<^verbatim>\<open>src/port/pg_bitutils.c\<close>: the portable
  (table-driven) position and population-count routines on 64-bit words.  The tables are the
  source's, byte for byte.  Where the build has the compiler builtins or the \<open>popcnt\<close>
  instruction the same functions are single instructions; those branches are not modelled.
\<close>

section \<open>The byte tables\<close>

text \<open>Sixteen entries to a row, as in the source.\<close>

definition pg_leftmost_one_pos :: "nat list" where
  "pg_leftmost_one_pos = concat [
    [0, 0, 1, 1, 2, 2, 2, 2, 3, 3, 3, 3, 3, 3, 3, 3],
    [4, 4, 4, 4, 4, 4, 4, 4, 4, 4, 4, 4, 4, 4, 4, 4],
    [5, 5, 5, 5, 5, 5, 5, 5, 5, 5, 5, 5, 5, 5, 5, 5],
    [5, 5, 5, 5, 5, 5, 5, 5, 5, 5, 5, 5, 5, 5, 5, 5],
    [6, 6, 6, 6, 6, 6, 6, 6, 6, 6, 6, 6, 6, 6, 6, 6],
    [6, 6, 6, 6, 6, 6, 6, 6, 6, 6, 6, 6, 6, 6, 6, 6],
    [6, 6, 6, 6, 6, 6, 6, 6, 6, 6, 6, 6, 6, 6, 6, 6],
    [6, 6, 6, 6, 6, 6, 6, 6, 6, 6, 6, 6, 6, 6, 6, 6],
    [7, 7, 7, 7, 7, 7, 7, 7, 7, 7, 7, 7, 7, 7, 7, 7],
    [7, 7, 7, 7, 7, 7, 7, 7, 7, 7, 7, 7, 7, 7, 7, 7],
    [7, 7, 7, 7, 7, 7, 7, 7, 7, 7, 7, 7, 7, 7, 7, 7],
    [7, 7, 7, 7, 7, 7, 7, 7, 7, 7, 7, 7, 7, 7, 7, 7],
    [7, 7, 7, 7, 7, 7, 7, 7, 7, 7, 7, 7, 7, 7, 7, 7],
    [7, 7, 7, 7, 7, 7, 7, 7, 7, 7, 7, 7, 7, 7, 7, 7],
    [7, 7, 7, 7, 7, 7, 7, 7, 7, 7, 7, 7, 7, 7, 7, 7],
    [7, 7, 7, 7, 7, 7, 7, 7, 7, 7, 7, 7, 7, 7, 7, 7]]"

definition pg_rightmost_one_pos :: "nat list" where
  "pg_rightmost_one_pos = concat [
    [0, 0, 1, 0, 2, 0, 1, 0, 3, 0, 1, 0, 2, 0, 1, 0],
    [4, 0, 1, 0, 2, 0, 1, 0, 3, 0, 1, 0, 2, 0, 1, 0],
    [5, 0, 1, 0, 2, 0, 1, 0, 3, 0, 1, 0, 2, 0, 1, 0],
    [4, 0, 1, 0, 2, 0, 1, 0, 3, 0, 1, 0, 2, 0, 1, 0],
    [6, 0, 1, 0, 2, 0, 1, 0, 3, 0, 1, 0, 2, 0, 1, 0],
    [4, 0, 1, 0, 2, 0, 1, 0, 3, 0, 1, 0, 2, 0, 1, 0],
    [5, 0, 1, 0, 2, 0, 1, 0, 3, 0, 1, 0, 2, 0, 1, 0],
    [4, 0, 1, 0, 2, 0, 1, 0, 3, 0, 1, 0, 2, 0, 1, 0],
    [7, 0, 1, 0, 2, 0, 1, 0, 3, 0, 1, 0, 2, 0, 1, 0],
    [4, 0, 1, 0, 2, 0, 1, 0, 3, 0, 1, 0, 2, 0, 1, 0],
    [5, 0, 1, 0, 2, 0, 1, 0, 3, 0, 1, 0, 2, 0, 1, 0],
    [4, 0, 1, 0, 2, 0, 1, 0, 3, 0, 1, 0, 2, 0, 1, 0],
    [6, 0, 1, 0, 2, 0, 1, 0, 3, 0, 1, 0, 2, 0, 1, 0],
    [4, 0, 1, 0, 2, 0, 1, 0, 3, 0, 1, 0, 2, 0, 1, 0],
    [5, 0, 1, 0, 2, 0, 1, 0, 3, 0, 1, 0, 2, 0, 1, 0],
    [4, 0, 1, 0, 2, 0, 1, 0, 3, 0, 1, 0, 2, 0, 1, 0]]"

definition pg_number_of_ones :: "nat list" where
  "pg_number_of_ones = concat [
    [0, 1, 1, 2, 1, 2, 2, 3, 1, 2, 2, 3, 2, 3, 3, 4],
    [1, 2, 2, 3, 2, 3, 3, 4, 2, 3, 3, 4, 3, 4, 4, 5],
    [1, 2, 2, 3, 2, 3, 3, 4, 2, 3, 3, 4, 3, 4, 4, 5],
    [2, 3, 3, 4, 3, 4, 4, 5, 3, 4, 4, 5, 4, 5, 5, 6],
    [1, 2, 2, 3, 2, 3, 3, 4, 2, 3, 3, 4, 3, 4, 4, 5],
    [2, 3, 3, 4, 3, 4, 4, 5, 3, 4, 4, 5, 4, 5, 5, 6],
    [2, 3, 3, 4, 3, 4, 4, 5, 3, 4, 4, 5, 4, 5, 5, 6],
    [3, 4, 4, 5, 4, 5, 5, 6, 4, 5, 5, 6, 5, 6, 6, 7],
    [1, 2, 2, 3, 2, 3, 3, 4, 2, 3, 3, 4, 3, 4, 4, 5],
    [2, 3, 3, 4, 3, 4, 4, 5, 3, 4, 4, 5, 4, 5, 5, 6],
    [2, 3, 3, 4, 3, 4, 4, 5, 3, 4, 4, 5, 4, 5, 5, 6],
    [3, 4, 4, 5, 4, 5, 5, 6, 4, 5, 5, 6, 5, 6, 6, 7],
    [2, 3, 3, 4, 3, 4, 4, 5, 3, 4, 4, 5, 4, 5, 5, 6],
    [3, 4, 4, 5, 4, 5, 5, 6, 4, 5, 5, 6, 5, 6, 6, 7],
    [3, 4, 4, 5, 4, 5, 5, 6, 4, 5, 5, 6, 5, 6, 6, 7],
    [4, 5, 5, 6, 5, 6, 6, 7, 5, 6, 6, 7, 6, 7, 7, 8]]"


section \<open>Positions\<close>

text \<open>
  Both position routines require a nonzero word (\<open>Assert(word != 0)\<close>): on zero the C loops
  would not stop.  The model stops there (first guard of \<open>rightmost_loop\<close>, the shift
  reaching 0 in \<open>leftmost_loop\<close>) so that it is total; every lemma about a position has
  \<open>w \<noteq> 0\<close> as its hypothesis.
\<close>

function rightmost_loop :: "'a::len word \<Rightarrow> nat \<Rightarrow> nat" where
  "rightmost_loop w res =
     (if w \<noteq> 0 \<and> w AND 255 = 0 then rightmost_loop (drop_bit 8 w) (res + 8)
      else res + pg_rightmost_one_pos ! unat (w AND 255))"
  by pat_completeness auto

lemma drop_bit_8_less: "w \<noteq> 0 \<Longrightarrow> unat (drop_bit 8 w) < unat (w :: 'a::len word)"
  using div_less_dividend [of 256 "unat w"] unat_gt_0 [of w] by (simp only: unat_drop_bit_eq drop_bit_eq_div [where 'a = nat]) simp

termination rightmost_loop
  by (relation "measure (\<lambda>(w, res). unat w)") (auto simp: drop_bit_8_less)

declare rightmost_loop.simps [simp del]

definition pg_rightmost_one_pos64 :: "uint64 \<Rightarrow> nat" where
  "pg_rightmost_one_pos64 w = rightmost_loop w 0"

definition pg_rightmost_one_pos32 :: "uint32 \<Rightarrow> nat" where
  "pg_rightmost_one_pos32 w = rightmost_loop w 0"

fun leftmost_loop :: "'a::len word \<Rightarrow> nat \<Rightarrow> nat" where
  "leftmost_loop w shift =
     (if drop_bit shift w = 0 \<and> 8 \<le> shift then leftmost_loop w (shift - 8) else shift)"

declare leftmost_loop.simps [simp del]

definition pg_leftmost_one_pos64 :: "uint64 \<Rightarrow> nat" where
  "pg_leftmost_one_pos64 w =
     (let shift = leftmost_loop w (64 - 8)
      in shift + pg_leftmost_one_pos ! unat (drop_bit shift w AND 255))"

definition pg_leftmost_one_pos32 :: "uint32 \<Rightarrow> nat" where
  "pg_leftmost_one_pos32 w =
     (let shift = leftmost_loop w (32 - 8)
      in shift + pg_leftmost_one_pos ! unat (drop_bit shift w AND 255))"

section \<open>Population count\<close>

function popcount_loop :: "'a::len word \<Rightarrow> nat \<Rightarrow> nat" where
  "popcount_loop w res =
     (if w \<noteq> 0 then popcount_loop (drop_bit 8 w) (res + pg_number_of_ones ! unat (w AND 255))
      else res)"
  by pat_completeness auto
termination
  by (relation "measure (\<lambda>(w, res). unat w)") (auto simp: drop_bit_8_less)

declare popcount_loop.simps [simp del]

definition pg_popcount32_slow :: "uint32 \<Rightarrow> nat" where
  "pg_popcount32_slow w = popcount_loop w 0"

definition pg_popcount64_slow :: "uint64 \<Rightarrow> nat" where
  "pg_popcount64_slow w = popcount_loop w 0"

section \<open>The tables hold what they say\<close>

fun table_ok :: "(nat \<Rightarrow> 'a \<Rightarrow> bool) \<Rightarrow> nat \<Rightarrow> 'a list \<Rightarrow> bool" where
  "table_ok P i [] = True"
| "table_ok P i (x # xs) = (P i x \<and> table_ok P (Suc i) xs)"

lemma table_ok_nth: "table_ok P i xs \<Longrightarrow> j < length xs \<Longrightarrow> P (i + j) (xs ! j)"
proof (induction xs arbitrary: i j)
  case (Cons x xs)
  then show ?case by (cases j) (auto dest: Cons.IH [of "Suc i"])
qed simp

lemma table_ok_append: "table_ok P i (xs @ ys) \<longleftrightarrow> table_ok P i xs \<and> table_ok P (i + length xs) ys"
  by (induction xs arbitrary: i) auto

lemma table_ok_row:
  assumes "table_ok P i r" "n = i + length r" "table_ok P n (concat rs)"
  shows "table_ok P i (concat (r # rs))"
  using assms by (simp add: table_ok_append)

lemma table_ok_end: "table_ok P i (concat [])"
  by simp

definition rightmost_entry :: "nat \<Rightarrow> nat \<Rightarrow> bool" where
  "rightmost_entry b p \<longleftrightarrow> b = 0 \<or> p < 8 \<and> odd (b div 2 ^ p) \<and> b mod 2 ^ p = 0"

definition leftmost_entry :: "nat \<Rightarrow> nat \<Rightarrow> bool" where
  "leftmost_entry b p \<longleftrightarrow> b = 0 \<or> p < 8 \<and> 2 ^ p \<le> b \<and> b < 2 ^ Suc p"

lemma rightmost_table: "table_ok rightmost_entry 0 pg_rightmost_one_pos"
  unfolding pg_rightmost_one_pos_def
  by (rule table_ok_row, simp add: rightmost_entry_def, simp)+ (rule table_ok_end)

lemma leftmost_table: "table_ok leftmost_entry 0 pg_leftmost_one_pos"
  unfolding pg_leftmost_one_pos_def
  by (rule table_ok_row, simp add: leftmost_entry_def, simp)+ (rule table_ok_end)

section \<open>What the routines compute\<close>

lemma word_255_mask: "(255 :: 'a::len word) = mask 8"
  by (simp add: mask_eq_exp_minus_1)

lemma word_and_255: "w AND 255 = take_bit 8 (w :: 'a::len word)"
  by (simp add: word_255_mask take_bit_eq_mask del: mask_numeral)

lemma bit_and_255: "bit (w AND 255 :: 'a::len word) i \<longleftrightarrow> i < 8 \<and> bit w i"
  by (simp only: word_and_255 bit_take_bit_iff)

lemma unat_and_255_less: "unat (w AND 255 :: 'a::len word) < 256"
  unfolding word_and_255 unsigned_take_bit_eq by (simp add: take_bit_eq_mod)

lemma odd_unat_and_255:
  "odd (unat (w AND 255 :: 'a::len word) div 2 ^ i) \<longleftrightarrow> i < 8 \<and> bit w i"
  using bit_and_255 [of w i] by (simp add: bit_iff_odd [symmetric] bit_unsigned_iff)

lemma length_tables:
  "length pg_rightmost_one_pos = 256" "length pg_leftmost_one_pos = 256"
  by (simp_all add: pg_rightmost_one_pos_def pg_leftmost_one_pos_def)

lemma length_ones_table: "length pg_number_of_ones = 256"
  by (simp add: pg_number_of_ones_def)

lemma number_of_ones_table:
  "pg_number_of_ones = concat (map (\<lambda>p. [p, Suc p]) (take 128 pg_number_of_ones))"
  by (simp add: pg_number_of_ones_def)

lemma nth_concat_pairs:
  "b < 2 * length xs \<Longrightarrow> concat (map (\<lambda>p. [p, Suc p]) xs) ! b = xs ! (b div 2) + b mod 2"
proof (induction xs arbitrary: b)
  case (Cons x xs)
  show ?case
  proof (cases "b < 2")
    case True
    then have "b = 0 \<or> b = 1" by auto
    then show ?thesis by auto
  next
    case False
    then obtain c where "b = Suc (Suc c)" by (metis add_2_eq_Suc le_add_diff_inverse not_less)
    with Cons show ?thesis by simp
  qed
qed simp

lemma number_of_ones_half:
  assumes "b < 256"
  shows "pg_number_of_ones ! b = pg_number_of_ones ! (b div 2) + b mod 2"
proof -
  have "length (take 128 pg_number_of_ones) = 128" "b div 2 < 128"
    using assms by (simp_all add: length_ones_table)
  with assms show ?thesis
    by (subst number_of_ones_table) (simp add: nth_concat_pairs)
qed

lemma card_odd_digits:
  "card {i. odd ((b :: nat) div 2 ^ i)} = b mod 2 + card {i. odd (b div 2 div 2 ^ i)}"
proof -
  have fin: "finite {i. odd ((c :: nat) div 2 ^ i)}" for c
  proof (rule finite_subset)
    show "{i. odd (c div 2 ^ i)} \<subseteq> {..c}"
    proof
      fix i assume "i \<in> {i. odd (c div 2 ^ i)}"
      then have "c div 2 ^ i \<noteq> 0" by (cases "c div 2 ^ i = 0") auto
      then have "2 ^ i \<le> c" by (meson div_less not_less)
      moreover have "i < 2 ^ i" by (rule less_exp)
      ultimately show "i \<in> {..c}" by (metis atMost_iff less_imp_le less_le_trans)
    qed
  qed simp
  have eq: "{i. odd (b div 2 ^ i)} = {i. i = 0 \<and> odd b} \<union> Suc ` {i. odd (b div 2 div 2 ^ i)}"
  proof (rule set_eqI)
    fix i show "i \<in> {i. odd (b div 2 ^ i)} \<longleftrightarrow> i \<in> {i. i = 0 \<and> odd b} \<union> Suc ` {i. odd (b div 2 div 2 ^ i)}"
      by (cases i) (auto simp: div_mult2_eq)
  qed
  have "card {i. odd (b div 2 ^ i)} = card {i :: nat. i = 0 \<and> odd b} + card (Suc ` {i. odd (b div 2 div 2 ^ i)})"
    unfolding eq by (rule card_Un_disjoint) (auto intro: fin)
  also have "card {i :: nat. i = 0 \<and> odd b} = b mod 2" by (cases "odd b") (auto simp: odd_iff_mod_2_eq_one)
  finally show ?thesis by (simp add: card_image)
qed

lemma number_of_ones_nth: "b < 256 \<Longrightarrow> pg_number_of_ones ! b = card {i. odd (b div 2 ^ i)}"
proof (induction b rule: less_induct)
  case (less b)
  show ?case
  proof (cases "b = 0")
    case True
    then show ?thesis by (simp add: pg_number_of_ones_def)
  next
    case False
    then have "b div 2 < b" "b div 2 < 256" using less.prems by simp_all
    from less.IH [OF this] number_of_ones_half [OF less.prems] card_odd_digits [of b]
    show ?thesis by (simp only: add.commute)
  qed
qed

lemma card_bits_split:
  "card {i. bit (w :: 'a::len word) i} = card {i. i < 8 \<and> bit w i} + card {i. bit (drop_bit 8 w) i}"
proof -
  have fin: "finite {i. bit w i}"
    by (rule finite_subset [of _ "{..<LENGTH('a)}"]) (auto dest: bit_imp_le_length)
  have "{i. bit w i} = {i. i < 8 \<and> bit w i} \<union> (\<lambda>i. i + 8) ` {i. bit (drop_bit 8 w) i}"
    by (auto simp: bit_drop_bit_eq image_iff) (metis add.commute le_add_diff_inverse not_less)+
  moreover have "card ((\<lambda>i. i + 8) ` {i. bit (drop_bit 8 w) i}) = card {i. bit (drop_bit 8 w) i}"
    by (rule card_image) simp
  moreover have "finite {i. i < 8 \<and> bit w i}" "finite ((\<lambda>i. i + 8) ` {i. bit (drop_bit 8 w) i})"
    using fin calculation(1) finite_Un by metis+
  ultimately show ?thesis by (subst \<open>{i. bit w i} = _\<close>) (subst card_Un_disjoint, auto)
qed

lemma popcount_loop_eq: "popcount_loop w res = res + card {i. bit (w :: 'a::len word) i}"
proof (induction w res rule: popcount_loop.induct)
  case (1 w res)
  have "pg_number_of_ones ! unat (w AND 255) = card {i. i < 8 \<and> bit w i}"
    by (simp add: number_of_ones_nth unat_and_255_less odd_unat_and_255)
  with 1 show ?case
    by (subst popcount_loop.simps) (simp add: card_bits_split [of w])
qed

lemma rightmost_byte:
  assumes "w AND 255 \<noteq> (0 :: 'a::len word)"
  defines "p \<equiv> pg_rightmost_one_pos ! unat (w AND 255)"
  shows "bit w p \<and> (\<forall>i<p. \<not> bit w i)"
proof -
  let ?b = "unat (w AND 255)"
  have "?b \<noteq> 0" using assms(1) by (simp add: unat_eq_zero)
  then have "p < 8 \<and> odd (?b div 2 ^ p) \<and> ?b mod 2 ^ p = 0"
    using table_ok_nth [OF rightmost_table, of ?b] unat_and_255_less [of w]
    by (simp add: length_tables p_def rightmost_entry_def)
  moreover have "\<not> bit w i" if "i < p" for i
  proof
    assume "bit w i"
    then have "odd (?b div 2 ^ i)" using that calculation by (simp add: odd_unat_and_255)
    then have "bit (take_bit p ?b) i" using that by (simp only: bit_take_bit_iff) (simp add: bit_iff_odd)
    then show False using calculation by (simp add: take_bit_eq_mod)
  qed
  ultimately show ?thesis by (auto simp: odd_unat_and_255)
qed

lemma rightmost_loop_spec:
  assumes "w \<noteq> (0 :: 'a::len word)"
  shows "res \<le> rightmost_loop w res \<and> bit w (rightmost_loop w res - res)
    \<and> (\<forall>i < rightmost_loop w res - res. \<not> bit w i)"
  using assms
proof (induction w res rule: rightmost_loop.induct)
  case (1 w res)
  show ?case
  proof (cases "w AND 255 = 0")
    case False
    then show ?thesis using rightmost_byte [OF False] by (subst (1 2 3) rightmost_loop.simps) simp
  next
    case True
    let ?w = "drop_bit 8 w"
    have low: "\<not> bit w i" if "i < 8" for i
      using True that bit_and_255 [of w i] by simp
    have nz: "?w \<noteq> 0"
    proof
      assume "?w = 0"
      then have "\<not> bit w (8 + i)" for i by (metis bit_drop_bit_eq bit_0_eq comp_apply bot_apply bot_bool_def)
      then have "\<not> bit w i" for i using low by (metis le_add_diff_inverse not_less)
      then have "w = 0" by (simp add: bit_eq_iff)
      with 1(2) show False by simp
    qed
    let ?r = "rightmost_loop ?w (res + 8)"
    have IH: "res + 8 \<le> ?r \<and> bit ?w (?r - (res + 8)) \<and> (\<forall>i < ?r - (res + 8). \<not> bit ?w i)"
      using 1 True nz by blast
    have eq: "rightmost_loop w res = ?r" using True 1(2) by (subst rightmost_loop.simps) simp
    have "\<not> bit w i" if "i < ?r - res" for i
    proof (cases "i < 8")
      case False
      then have "i - 8 < ?r - (res + 8)" using that by arith
      then have "\<not> bit ?w (i - 8)" using IH by blast
      then show ?thesis using False by (simp add: bit_drop_bit_eq)
    qed (rule low)
    moreover have "?r - res = 8 + (?r - (res + 8))" using IH by arith
    then have "bit w (?r - res)" using IH by (simp only: bit_drop_bit_eq comp_apply)
    ultimately show ?thesis using IH by (simp add: eq)
  qed
qed

lemma pg_rightmost_one_pos64_least:
  assumes "w \<noteq> 0"
  shows "pg_rightmost_one_pos64 w = (LEAST i. bit w i)"
  using rightmost_loop_spec [OF assms, of 0] unfolding pg_rightmost_one_pos64_def
  by (intro Least_equality [symmetric]) (auto simp: not_less [symmetric])


lemma leftmost_loop_spec:
  assumes "w \<noteq> (0 :: 'a::len word)" "8 dvd shift"
    "drop_bit (shift + 8) w = 0"
  shows "let s = leftmost_loop w shift in drop_bit s w \<noteq> 0 \<and> drop_bit (s + 8) w = 0"
  using assms
proof (induction w shift rule: leftmost_loop.induct)
  case (1 w shift)
  show ?case
  proof (cases "drop_bit shift w = 0 \<and> 8 \<le> shift")
    case True
    then have "shift - 8 + 8 = shift" "8 dvd shift - 8" using 1(3) by (auto simp: dvd_diff_nat)
    then have "let s = leftmost_loop w (shift - 8) in drop_bit s w \<noteq> 0 \<and> drop_bit (s + 8) w = 0"
      using 1(1) [OF True 1(2)] True by simp
    moreover have "leftmost_loop w shift = leftmost_loop w (shift - 8)"
      using True by (subst leftmost_loop.simps) simp
    ultimately show ?thesis by simp
  next
    case False
    have "shift = 0 \<or> 8 \<le> shift" using 1(3) by (auto elim: dvdE)
    then have "drop_bit shift w \<noteq> 0" using False 1(2) by auto
    moreover have "leftmost_loop w shift = shift" using False by (subst leftmost_loop.simps) auto
    ultimately show ?thesis using 1(4) by simp
  qed
qed

lemma leftmost_byte:
  assumes "b \<noteq> 0" "b < 256"
  shows "2 ^ (pg_leftmost_one_pos ! b) \<le> b \<and> b < 2 ^ Suc (pg_leftmost_one_pos ! b)"
  using table_ok_nth [OF leftmost_table, of b] assms by (simp add: length_tables leftmost_entry_def)

lemma bit_pow_range:
  fixes b :: nat
  assumes "2 ^ p \<le> b" "b < 2 ^ Suc p"
  shows "bit b p" "\<And>i. p < i \<Longrightarrow> \<not> bit b i"
proof -
  have "b div 2 ^ p = 1" using assms by (simp add: div_nat_eqI)
  then show "bit b p" by (simp add: bit_iff_odd)
  show "\<not> bit b i" if "p < i" for i
  proof -
    have "(2::nat) ^ Suc p \<le> 2 ^ i" using that by (intro power_increasing) auto
    then have "b div 2 ^ i = 0" using assms by simp
    then show ?thesis by (simp add: bit_iff_odd)
  qed
qed

lemma leftmost_pos_spec:
  assumes "w \<noteq> (0 :: 'a::len word)" "8 dvd s" "drop_bit (s + 8) w = 0"
  defines "t \<equiv> leftmost_loop w s"
  defines "p \<equiv> t + pg_leftmost_one_pos ! unat (drop_bit t w AND 255)"
  shows "bit w p \<and> (\<forall>i. bit w i \<longrightarrow> i \<le> p)"
proof -
  have t: "drop_bit t w \<noteq> 0" "drop_bit (t + 8) w = 0"
    using leftmost_loop_spec [OF assms(1-3)] by (simp_all add: t_def Let_def)
  have high: "\<not> bit w (t + 8 + i)" for i
    using t(2) by (metis bit_drop_bit_eq bit_0_eq comp_apply bot_apply bot_bool_def)
  let ?b = "unat (drop_bit t w AND 255)"
  have byte: "bit ?b i \<longleftrightarrow> bit w (t + i)" for i
    using bit_and_255 [of "drop_bit t w" i] high [of "i - 8"]
    by (cases "i < 8") (auto simp: bit_unsigned_iff bit_drop_bit_eq dest: bit_imp_le_length)
  obtain i where "bit (drop_bit t w) i" using t(1) by (auto simp: bit_eq_iff)
  then have "bit ?b i" by (simp add: byte bit_drop_bit_eq)
  then have "?b \<noteq> 0" by (metis bit_0_eq bot_apply bot_bool_def)
  note * = leftmost_byte [OF this unat_and_255_less]
  have "bit w p" using bit_pow_range(1) [OF *[THEN conjunct1] *[THEN conjunct2]] by (simp add: byte p_def)
  moreover have "i \<le> p" if "bit w i" for i
  proof (rule ccontr)
    assume "\<not> i \<le> p"
    then have "i = t + (i - t)" "pg_leftmost_one_pos ! ?b < i - t" by (auto simp: p_def)
    then have "\<not> bit w (t + (i - t))"
      using bit_pow_range(2) [OF *[THEN conjunct1] *[THEN conjunct2], of "i - t"] by (simp add: byte)
    with \<open>i = t + (i - t)\<close> that show False by simp
  qed
  ultimately show ?thesis by blast
qed

lemma pg_leftmost_one_pos64_greatest:
  assumes "w \<noteq> 0"
  shows "bit w (pg_leftmost_one_pos64 w) \<and> (\<forall>i. bit w i \<longrightarrow> i \<le> pg_leftmost_one_pos64 w)"
proof -
  have "drop_bit (56 + 8) w = 0" by (rule bit_word_eqI) (simp add: bit_drop_bit_eq)
  from leftmost_pos_spec [OF assms _ this] show ?thesis
    by (simp add: pg_leftmost_one_pos64_def Let_def)
qed

lemma pg_popcount64_slow_card: "pg_popcount64_slow w = card {i. bit w i}"
  by (simp add: pg_popcount64_slow_def popcount_loop_eq)

section \<open>Counting the bits of a buffer\<close>

text \<open>A buffer is its bytes; reading a \<open>uint64\<close> from it is a little-endian load.\<close>

fun load_le :: "uint8 list \<Rightarrow> uint64" where
  "load_le [] = 0"
| "load_le (b # bs) = ucast b OR push_bit 8 (load_le bs)"

fun popcount_chunks :: "uint8 list \<Rightarrow> nat \<Rightarrow> nat \<times> uint8 list" where
  "popcount_chunks buf popcnt =
     (if 8 \<le> length buf
      then popcount_chunks (drop 8 buf) (popcnt + pg_popcount64_slow (load_le (take 8 buf)))
      else (popcnt, buf))"

declare popcount_chunks.simps [simp del]

fun popcount_bytes :: "uint8 list \<Rightarrow> nat \<Rightarrow> nat" where
  "popcount_bytes [] popcnt = popcnt"
| "popcount_bytes (b # buf) popcnt = popcount_bytes buf (popcnt + pg_number_of_ones ! unat b)"

definition pg_popcount :: "bool \<Rightarrow> uint8 list \<Rightarrow> nat" where
  "pg_popcount aligned buf =
     (case (if aligned then popcount_chunks buf 0 else (0, buf)) of
        (popcnt, rest) \<Rightarrow> popcount_bytes rest popcnt)"

definition bits_of_bytes :: "uint8 list \<Rightarrow> nat" where
  "bits_of_bytes buf = (\<Sum>b\<leftarrow>buf. card {i. bit b i})"

lemma bits_of_bytes_simps [simp]:
  "bits_of_bytes [] = 0" "bits_of_bytes (b # buf) = card {i. bit b i} + bits_of_bytes buf"
  "bits_of_bytes (xs @ ys) = bits_of_bytes xs + bits_of_bytes ys"
  by (simp_all add: bits_of_bytes_def)

lemma pg_number_of_ones_byte: "pg_number_of_ones ! unat (b :: uint8) = card {i. bit b i}"
proof -
  have "{i. odd (unat b div 2 ^ i)} = {i. bit b i}"
    by (auto simp: bit_iff_odd [symmetric] bit_unsigned_iff)
  moreover have "unat b < 256" using unsigned_less [of b, where 'a = nat] by simp
  ultimately show ?thesis by (simp add: number_of_ones_nth)
qed

lemma popcount_bytes_eq: "popcount_bytes buf n = n + bits_of_bytes buf"
  by (induction buf arbitrary: n) (simp_all add: pg_number_of_ones_byte)

lemma bit_load_le_high: "length bs \<le> k \<Longrightarrow> bit (load_le bs) i \<Longrightarrow> i < 8 * k"
proof (induction bs arbitrary: i k)
  case (Cons b bs)
  then obtain m where "k = Suc m" by (cases k) auto
  with Cons.prems Cons.IH [of m "i - 8"] show ?case
    by (auto simp: bit_or_iff bit_unsigned_iff bit_push_bit_iff dest: bit_imp_le_length)
qed simp

lemma card_bits_load_le: "length bs \<le> 8 \<Longrightarrow> card {i. bit (load_le bs) i} = bits_of_bytes bs"
proof (induction bs)
  case (Cons b bs)
  have "{i. i < 8 \<and> bit (load_le (b # bs)) i} = {i. bit b i}"
    by (auto simp: bit_or_iff bit_unsigned_iff bit_push_bit_iff dest: bit_imp_le_length)
  moreover have "drop_bit 8 (load_le (b # bs)) = load_le bs"
  proof (rule bit_word_eqI)
    fix n
    show "bit (drop_bit 8 (load_le (b # bs))) n = bit (load_le bs) n"
      using bit_load_le_high [of bs 7 n] Cons.prems
      by (auto simp: bit_drop_bit_eq bit_or_iff bit_unsigned_iff bit_push_bit_iff dest: bit_imp_le_length)
  qed
  ultimately have "card {i. bit (load_le (b # bs)) i} = card {i. bit b i} + card {i. bit (load_le bs) i}"
    by (simp only: card_bits_split [of "load_le (b # bs)"])
  with Cons show ?case by simp
qed (simp add: bot_fun_def)

lemma popcount_chunks_eq:
  "popcount_chunks buf n = (m, rest) \<Longrightarrow> m + bits_of_bytes rest = n + bits_of_bytes buf"
proof (induction buf n arbitrary: m rest rule: popcount_chunks.induct)
  case (1 buf n)
  show ?case
  proof (cases "8 \<le> length buf")
    case True
    have "bits_of_bytes buf = bits_of_bytes (take 8 buf) + bits_of_bytes (drop 8 buf)"
      by (simp flip: bits_of_bytes_simps(3))
    with 1 True show ?thesis
      by (simp add: popcount_chunks.simps [of buf] pg_popcount64_slow_card card_bits_load_le)
  next
    case False
    with 1 show ?thesis by (simp add: popcount_chunks.simps [of buf])
  qed
qed

lemma pg_popcount_eq: "pg_popcount aligned buf = bits_of_bytes buf"
  by (auto simp: pg_popcount_def popcount_bytes_eq dest: popcount_chunks_eq split: prod.splits)

end
