(* ===== verification/SetSpecs.thy ===== *)
theory SetSpecs
  imports Prelude
begin

text \<open>
  The contracts under which the rest of the system uses a set of nonnegative integers:
  insertion, deletion and membership (which refuse negative numbers), the algebra of sets, and
  the two documented ways of running through the members.  Each contract is a locale; what a
  client may conclude from it is proved once, inside the locale.
\<close>

section \<open>Loops over the members\<close>

text \<open>
  The idiom of \<open>bms_next_member\<close> and \<open>bms_prev_member\<close>:
  \<^verbatim>\<open>x = -1; while ((x = next(set, x)) >= 0) process x;\<close>
  with the processed numbers collected.  \<open>None\<close> means the fuel ran out.
\<close>

fun scan_loop :: "nat \<Rightarrow> (int \<Rightarrow> int) \<Rightarrow> int \<Rightarrow> int list option" where
  "scan_loop 0 next x = None"
| "scan_loop (Suc fuel) next x =
     (let y = next x in if y < 0 then Some [] else map_option (Cons y) (scan_loop fuel next y))"

text \<open>The destructive idiom: \<^verbatim>\<open>while ((x = first(set)) >= 0) process x;\<close>\<close>

fun drain_loop :: "nat \<Rightarrow> ('s \<Rightarrow> int \<times> 's) \<Rightarrow> 's \<Rightarrow> int list option" where
  "drain_loop 0 first s = None"
| "drain_loop (Suc fuel) first s =
     (case first s of (x, s') \<Rightarrow>
        if x < 0 then Some [] else map_option (Cons x) (drain_loop fuel first s'))"

text \<open>Adding the members of a list one by one, stopping at the first error.\<close>

fun add_all :: "('s \<Rightarrow> int \<Rightarrow> 's result) \<Rightarrow> 's \<Rightarrow> int list \<Rightarrow> 's result" where
  "add_all add s [] = Inr s"
| "add_all add s (x # xs) = rbind (add s x) (\<lambda>s'. add_all add s' xs)"

section \<open>Contracts\<close>

locale member_set =
  fixes empty :: 's
    and add :: "'s \<Rightarrow> int \<Rightarrow> 's result"
    and del :: "'s \<Rightarrow> int \<Rightarrow> 's result"
    and mem :: "int \<Rightarrow> 's \<Rightarrow> bool result"
    and refused :: pg_error
    and members :: "'s \<Rightarrow> nat set"
  assumes members_empty: "members empty = {}"
    and add_ok: "0 \<le> x \<Longrightarrow> \<exists>s'. add s x = Inr s' \<and> members s' = insert (nat x) (members s)"
    and del_ok: "0 \<le> x \<Longrightarrow> \<exists>s'. del s x = Inr s' \<and> members s' = members s - {nat x}"
    and mem_ok: "0 \<le> x \<Longrightarrow> mem x s = Inr (nat x \<in> members s)"
    and refuses: "x < 0 \<Longrightarrow> add s x = Inl refused \<and> del s x = Inl refused \<and> mem x s = Inl refused"
begin

lemma add_all_ok:
  "\<forall>x \<in> set xs. 0 \<le> x \<Longrightarrow>
   \<exists>s'. add_all add s xs = Inr s' \<and> members s' = members s \<union> nat ` set xs"
proof (induction xs arbitrary: s)
  case (Cons x xs)
  then obtain s1 where s1: "add s x = Inr s1" "members s1 = insert (nat x) (members s)"
    using add_ok [of x s] by auto
  with Cons.IH [of s1] Cons.prems show ?case by auto
qed simp

lemma add_all_refused:
  "\<exists>x \<in> set xs. x < 0 \<Longrightarrow> add_all add s xs = Inl refused"
proof (induction xs arbitrary: s)
  case (Cons x xs)
  show ?case
  proof (cases "x < 0")
    case True
    then show ?thesis by (simp add: refuses)
  next
    case False
    with add_ok [of x s] Cons show ?thesis by auto
  qed
qed simp

lemma built_set:
  "\<forall>x \<in> set xs. 0 \<le> x \<Longrightarrow> \<exists>s. add_all add empty xs = Inr s \<and> members s = nat ` set xs"
  using add_all_ok [of xs empty] by (simp add: members_empty)

end

locale member_set_algebra = member_set +
  fixes un :: "'s \<Rightarrow> 's \<Rightarrow> 's" and inter :: "'s \<Rightarrow> 's \<Rightarrow> 's" and diff :: "'s \<Rightarrow> 's \<Rightarrow> 's"
    and sub :: "'s \<Rightarrow> 's \<Rightarrow> bool" and same :: "'s \<Rightarrow> 's \<Rightarrow> bool"
  assumes members_un: "members (un s t) = members s \<union> members t"
    and members_inter: "members (inter s t) = members s \<inter> members t"
    and members_diff: "members (diff s t) = members s - members t"
    and sub_iff: "sub s t \<longleftrightarrow> members s \<subseteq> members t"
    and same_iff: "same s t \<longleftrightarrow> members s = members t"
begin

lemma un_comm: "same (un s t) (un t s)"
  by (auto simp: same_iff members_un)

lemma absorb: "same (un s (inter s t)) s"
  by (auto simp: same_iff members_un members_inter)

lemma distrib: "same (inter s (un t u)) (un (inter s t) (inter s u))"
  by (auto simp: same_iff members_un members_inter)

lemma diff_un_inter: "same (un (diff s t) (inter s t)) s"
  by (auto simp: same_iff members_un members_inter members_diff)

lemma sub_antisym: "sub s t \<Longrightarrow> sub t s \<Longrightarrow> same s t"
  by (simp add: sub_iff same_iff)

end

locale ascending_scan =
  fixes nxt :: "'s \<Rightarrow> int \<Rightarrow> int" and members :: "'s \<Rightarrow> nat set"
  assumes finite_members: "finite (members s)"
    and nxt_eq: "-1 \<le> p \<Longrightarrow> nxt s p =
      (if {n \<in> members s. p < int n} = {} then -2 else int (Min {n \<in> members s. p < int n}))"
begin

lemma scan_from:
  "-1 \<le> p \<Longrightarrow> card {n \<in> members s. p < int n} < fuel \<Longrightarrow>
   scan_loop fuel (nxt s) p = Some (map int (sorted_list_of_set {n \<in> members s. p < int n}))"
proof (induction fuel arbitrary: p)
  case (Suc fuel)
  let ?S = "{n \<in> members s. p < int n}"
  have fin: "finite ?S" by (simp add: finite_members)
  show ?case
  proof (cases "?S = {}")
    case True
    then show ?thesis using Suc.prems by (simp only: nxt_eq scan_loop.simps Let_def) simp
  next
    case False
    define m where "m = Min ?S"
    have m: "m \<in> ?S" using Min_in [OF fin False] by (simp only: m_def)
    have rest: "{n \<in> members s. int m < int n} = ?S - {m}"
      using m Min_le [OF fin] by (force simp: m_def order_le_less)
    have "nxt s p = int m" using Suc.prems False by (simp only: nxt_eq m_def if_False)
    moreover have "scan_loop fuel (nxt s) (int m) = Some (map int (sorted_list_of_set (?S - {m})))"
    proof -
      have "card ?S \<noteq> 0" using fin False by simp
      moreover have "card (?S - {m}) = card ?S - 1" using m by (rule card_Diff_singleton)
      ultimately have "card (?S - {m}) < fuel" using Suc.prems(2) by linarith
      moreover have "-1 \<le> int m" by simp
      ultimately show ?thesis using Suc.IH [of "int m"] unfolding rest by blast
    qed
    moreover have "sorted_list_of_set ?S = m # sorted_list_of_set (?S - {m})"
      unfolding m_def using fin False by (rule sorted_list_of_set_nonempty)
    ultimately show ?thesis by (simp add: Let_def)
  qed
qed simp

lemma scan_all:
  "scan_loop (Suc (card (members s))) (nxt s) (-1) = Some (map int (sorted_list_of_set (members s)))"
proof -
  have "{n \<in> members s. -1 < int n} = members s" by auto
  then show ?thesis using scan_from [of "-1" s "Suc (card (members s))"] by simp
qed

end

locale draining =
  fixes first :: "'s \<Rightarrow> int \<times> 's" and members :: "'s \<Rightarrow> nat set"
  assumes finite_drained: "finite (members s)"
    and first_empty: "members s = {} \<Longrightarrow> fst (first s) = -1"
    and first_min: "members s \<noteq> {} \<Longrightarrow> fst (first s) = int (Min (members s))
      \<and> members (snd (first s)) = members s - {Min (members s)}"
begin

lemma drain_all:
  "drain_loop (Suc (card (members s))) first s = Some (map int (sorted_list_of_set (members s)))"
proof (induction "card (members s)" arbitrary: s)
  case 0
  then have "members s = {}" by (simp add: finite_drained)
  with first_empty [of s] show ?case by (simp split: prod.split) (metis fst_conv neg_less_0_iff_less zero_less_one)
next
  case (Suc n)
  then have ne: "members s \<noteq> {}" by auto
  obtain x t where xt: "first s = (x, t)" by fastforce
  with first_min [OF ne] have "x = int (Min (members s))" "members t = members s - {Min (members s)}"
    by simp_all
  moreover have "n = card (members t)"
    using Suc(2) calculation(2) finite_drained [of s] ne by (simp add: card_Diff_singleton)
  moreover note Suc(1) [OF this]
  moreover have "drain_loop (Suc (Suc n)) first s = map_option (Cons x) (drain_loop (Suc n) first t)"
    using calculation(1) by (subst drain_loop.simps(2)) (simp add: xt del: drain_loop.simps)
  ultimately show ?case
    using Suc(2) sorted_list_of_set_nonempty [OF finite_drained ne] by (simp del: drain_loop.simps)
qed

end

end
