(* ===== verification/Bitmapset.thy ===== *)
theory Bitmapset
  imports BitUtils SetSpecs
begin

text \<open>
  \<^verbatim>\<open>src/backend/nodes/bitmapset.c\<close>: sets of nonnegative integers as arrays of
  64-bit words.  A \<open>Bitmapset *\<close> is a \<open>Bitmapset option\<close>, \<open>None\<close> for \<open>NULL\<close>; the
  struct's \<open>nwords\<close> is the length of its flexible array, so it is \<open>length (words a)\<close>
  here.  Every function returns its result; the functions that recycle an input return what
  the C pointer holds afterwards.  A member is an \<open>int\<close>; \<open>x / 64\<close> and \<open>x % 64\<close> are only
  taken of nonnegative values.  A \<open>for\<close> loop over word indices is a recursion over the
  two word lists.

  \<open>bms_set\<close> is the set a value stands for.  The lemmas of the first part relate the word
  loops to sets; the rest states each operation as the set operation it implements.
\<close>

section \<open>The data type\<close>

type_synonym bitmapword = uint64

record Bitmapset =
  words :: "bitmapword list"

type_synonym bms = "Bitmapset option"

abbreviation nwords :: "Bitmapset \<Rightarrow> nat" where
  "nwords a \<equiv> length (words a)"

datatype BMS_Comparison = BMS_EQUAL | BMS_SUBSET1 | BMS_SUBSET2 | BMS_DIFFERENT

datatype BMS_Membership = BMS_EMPTY_SET | BMS_SINGLETON | BMS_MULTIPLE

definition WORDNUM :: "int \<Rightarrow> nat" where
  "WORDNUM x = nat (x div 64)"

definition BITNUM :: "int \<Rightarrow> nat" where
  "BITNUM x = nat (x mod 64)"

definition RIGHTMOST_ONE :: "bitmapword \<Rightarrow> bitmapword" where
  "RIGHTMOST_ONE x = x AND - x"

definition HAS_MULTIPLE_ONES :: "bitmapword \<Rightarrow> bool" where
  "HAS_MULTIPLE_ONES x \<longleftrightarrow> RIGHTMOST_ONE x \<noteq> x"

abbreviation negative_member :: pg_error where
  "negative_member \<equiv> Elog ''negative bitmapset member not allowed''"

section \<open>Loops over the words\<close>

text \<open>\<open>for (i = 0; i < otherlen; i++) result->words[i] |= other->words[i];\<close>\<close>

fun words_or :: "bitmapword list \<Rightarrow> bitmapword list \<Rightarrow> bitmapword list" where
  "words_or (r # rs) (w # ws) = (r OR w) # words_or rs ws"
| "words_or rs [] = rs"
| "words_or [] ws = []"

text \<open>\<open>for (i = 0; i < resultlen; i++) result->words[i] &= other->words[i];\<close>\<close>

fun words_and :: "bitmapword list \<Rightarrow> bitmapword list \<Rightarrow> bitmapword list" where
  "words_and (r # rs) (w # ws) = (r AND w) # words_and rs ws"
| "words_and [] ws = []"
| "words_and rs [] = rs"

text \<open>\<open>for (i = 0; i < shortlen; i++) result->words[i] &= ~b->words[i];\<close>\<close>

fun words_andnot :: "bitmapword list \<Rightarrow> bitmapword list \<Rightarrow> bitmapword list" where
  "words_andnot (r # rs) (w # ws) = (r AND NOT w) # words_andnot rs ws"
| "words_andnot rs [] = rs"
| "words_andnot [] ws = []"

text \<open>The two loops of \<open>bms_int_members\<close>: the common words are masked, the rest zeroed.\<close>

fun words_and_zero :: "bitmapword list \<Rightarrow> bitmapword list \<Rightarrow> bitmapword list" where
  "words_and_zero (r # rs) (w # ws) = (r AND w) # words_and_zero rs ws"
| "words_and_zero (r # rs) [] = 0 # words_and_zero rs []"
| "words_and_zero [] ws = []"

fun words_all_zero :: "bitmapword list \<Rightarrow> bool" where
  "words_all_zero [] = True"
| "words_all_zero (w # ws) = (if w \<noteq> 0 then False else words_all_zero ws)"

fun words_equal :: "bitmapword list \<Rightarrow> bitmapword list \<Rightarrow> bool" where
  "words_equal (s # ss) (l # ls) = (if s \<noteq> l then False else words_equal ss ls)"
| "words_equal [] ls = words_all_zero ls"
| "words_equal ss [] = words_all_zero ss"

fun words_subset :: "bitmapword list \<Rightarrow> bitmapword list \<Rightarrow> bool" where
  "words_subset (a # as) (b # bs) = (if a AND NOT b \<noteq> 0 then False else words_subset as bs)"
| "words_subset as [] = words_all_zero as"
| "words_subset [] bs = True"

fun words_overlap :: "bitmapword list \<Rightarrow> bitmapword list \<Rightarrow> bool" where
  "words_overlap (a # as) (b # bs) = (if a AND b \<noteq> 0 then True else words_overlap as bs)"
| "words_overlap _ _ = False"

fun words_compare_down :: "bitmapword list \<Rightarrow> bitmapword list \<Rightarrow> int" where
  "words_compare_down (aw # as) (bw # bs) =
     (if aw \<noteq> bw then (if aw > bw then 1 else -1) else words_compare_down as bs)"
| "words_compare_down _ _ = 0"

text \<open>One word pair of \<open>bms_subset_compare\<close>; \<open>None\<close> is the early return of
  \<open>BMS_DIFFERENT\<close>.\<close>

definition note_not_subset1 :: "BMS_Comparison \<Rightarrow> BMS_Comparison option" where
  "note_not_subset1 res = (if res = BMS_SUBSET1 then None else Some BMS_SUBSET2)"

definition note_not_subset2 :: "BMS_Comparison \<Rightarrow> BMS_Comparison option" where
  "note_not_subset2 res = (if res = BMS_SUBSET2 then None else Some BMS_SUBSET1)"

fun words_subset_compare :: "BMS_Comparison \<Rightarrow> bitmapword list \<Rightarrow> bitmapword list \<Rightarrow> BMS_Comparison" where
  "words_subset_compare res (a # as) (b # bs) =
     (case (if a AND NOT b \<noteq> 0 then note_not_subset1 res else Some res) of
        None \<Rightarrow> BMS_DIFFERENT
      | Some res1 \<Rightarrow>
          (case (if b AND NOT a \<noteq> 0 then note_not_subset2 res1 else Some res1) of
             None \<Rightarrow> BMS_DIFFERENT
           | Some res2 \<Rightarrow> words_subset_compare res2 as bs))"
| "words_subset_compare res (a # as) [] =
     (case (if a \<noteq> 0 then note_not_subset1 res else Some res) of
        None \<Rightarrow> BMS_DIFFERENT | Some res1 \<Rightarrow> words_subset_compare res1 as [])"
| "words_subset_compare res [] (b # bs) =
     (case (if b \<noteq> 0 then note_not_subset2 res else Some res) of
        None \<Rightarrow> BMS_DIFFERENT | Some res1 \<Rightarrow> words_subset_compare res1 [] bs)"
| "words_subset_compare res [] [] = res"

text \<open>\<open>if (w != 0) result += bmw_popcount(w);\<close> over the words.\<close>

fun words_popcount :: "bitmapword list \<Rightarrow> int \<Rightarrow> int" where
  "words_popcount [] result = result"
| "words_popcount (w # ws) result =
     words_popcount ws (if w \<noteq> 0 then result + int (pg_popcount64_slow w) else result)"

text \<open>The scan for a sole member, from word \<open>wordnum\<close> on: \<open>None\<close> as soon as there are two,
  otherwise the member found, or -1.\<close>

fun words_sole_member :: "nat \<Rightarrow> bitmapword list \<Rightarrow> int \<Rightarrow> int option" where
  "words_sole_member wordnum [] result = Some result"
| "words_sole_member wordnum (w # ws) result =
     (if w \<noteq> 0
      then (if 0 \<le> result \<or> HAS_MULTIPLE_ONES w then None
            else words_sole_member (Suc wordnum) ws
                   (int wordnum * 64 + int (pg_rightmost_one_pos64 w)))
      else words_sole_member (Suc wordnum) ws result)"

fun words_membership :: "BMS_Membership \<Rightarrow> bitmapword list \<Rightarrow> BMS_Membership" where
  "words_membership result [] = result"
| "words_membership result (w # ws) =
     (if w \<noteq> 0
      then (if result \<noteq> BMS_EMPTY_SET \<or> HAS_MULTIPLE_ONES w then BMS_MULTIPLE
            else words_membership BMS_SINGLETON ws)
      else words_membership result ws)"

text \<open>\<open>bms_first_member\<close>: clear the lowest bit of the first nonzero word and report it.\<close>

fun words_first :: "nat \<Rightarrow> bitmapword list \<Rightarrow> int \<times> bitmapword list" where
  "words_first wordnum [] = (-1, [])"
| "words_first wordnum (w # ws) =
     (if w \<noteq> 0
      then (let r = RIGHTMOST_ONE w
            in (int wordnum * 64 + int (pg_rightmost_one_pos64 r), (w AND NOT r) # ws))
      else (case words_first (Suc wordnum) ws of (x, ws') \<Rightarrow> (x, w # ws')))"

text \<open>\<open>bms_next_member\<close>: the words from \<open>wordnum\<close> on, the first one under \<open>msk\<close>.\<close>

fun words_next :: "nat \<Rightarrow> bitmapword list \<Rightarrow> bitmapword \<Rightarrow> int" where
  "words_next wordnum [] msk = -2"
| "words_next wordnum (w0 # ws) msk =
     (let w = w0 AND msk
      in if w \<noteq> 0 then int wordnum * 64 + int (pg_rightmost_one_pos64 w)
         else words_next (Suc wordnum) ws (NOT 0))"

text \<open>\<open>bms_prev_member\<close>: the words from number \<open>wordnum - 1\<close> down to 0.\<close>

fun words_prev :: "nat \<Rightarrow> bitmapword list \<Rightarrow> bitmapword \<Rightarrow> int" where
  "words_prev 0 ws msk = -2"
| "words_prev (Suc wordnum) ws msk =
     (let w = ws ! wordnum AND msk
      in if w \<noteq> 0 then int wordnum * 64 + int (pg_leftmost_one_pos64 w)
         else words_prev wordnum ws (NOT 0))"

text \<open>The enlargement of \<open>bms_add_member\<close> and \<open>bms_add_range\<close>: new words are zero.\<close>

definition words_enlarge :: "nat \<Rightarrow> bitmapword list \<Rightarrow> bitmapword list" where
  "words_enlarge wordnum ws =
     (if length ws \<le> wordnum then ws @ replicate (Suc wordnum - length ws) 0 else ws)"

section \<open>The operations\<close>

definition bms_copy :: "bms \<Rightarrow> bms" where
  "bms_copy a = (case a of None \<Rightarrow> None | Some s \<Rightarrow> Some \<lparr>words = words s\<rparr>)"

definition bms_is_empty :: "bms \<Rightarrow> bool" where
  "bms_is_empty a = (case a of None \<Rightarrow> True | Some s \<Rightarrow> words_all_zero (words s))"

definition bms_equal :: "bms \<Rightarrow> bms \<Rightarrow> bool" where
  "bms_equal a b =
     (case (a, b) of
        (None, None) \<Rightarrow> True
      | (None, Some _) \<Rightarrow> bms_is_empty b
      | (Some _, None) \<Rightarrow> bms_is_empty a
      | (Some s, Some t) \<Rightarrow>
          if nwords s \<le> nwords t then words_equal (words s) (words t)
          else words_equal (words t) (words s))"

definition bms_compare :: "bms \<Rightarrow> bms \<Rightarrow> int" where
  "bms_compare a b =
     (case (a, b) of
        (None, _) \<Rightarrow> if bms_is_empty b then 0 else -1
      | (Some _, None) \<Rightarrow> if bms_is_empty a then 0 else 1
      | (Some s, Some t) \<Rightarrow>
          let shortlen = min (nwords s) (nwords t)
          in if \<not> words_all_zero (drop shortlen (words s)) then 1
             else if \<not> words_all_zero (drop shortlen (words t)) then -1
             else words_compare_down (rev (take shortlen (words s))) (rev (take shortlen (words t))))"

definition bms_make_singleton :: "int \<Rightarrow> bms result" where
  "bms_make_singleton x =
     (if x < 0 then Inl negative_member
      else let wordnum = WORDNUM x; bitnum = BITNUM x
           in Inr (Some \<lparr>words = (replicate (wordnum + 1) 0)[wordnum := push_bit bitnum 1]\<rparr>))"

definition bms_union :: "bms \<Rightarrow> bms \<Rightarrow> bms" where
  "bms_union a b =
     (case (a, b) of
        (None, _) \<Rightarrow> bms_copy b
      | (Some _, None) \<Rightarrow> bms_copy a
      | (Some s, Some t) \<Rightarrow>
          if nwords s \<le> nwords t then Some \<lparr>words = words_or (words t) (words s)\<rparr>
          else Some \<lparr>words = words_or (words s) (words t)\<rparr>)"

definition bms_intersect :: "bms \<Rightarrow> bms \<Rightarrow> bms" where
  "bms_intersect a b =
     (case (a, b) of
        (Some s, Some t) \<Rightarrow>
          if nwords s \<le> nwords t then Some \<lparr>words = words_and (words s) (words t)\<rparr>
          else Some \<lparr>words = words_and (words t) (words s)\<rparr>
      | _ \<Rightarrow> None)"

definition bms_difference :: "bms \<Rightarrow> bms \<Rightarrow> bms" where
  "bms_difference a b =
     (case (a, b) of
        (None, _) \<Rightarrow> None
      | (Some _, None) \<Rightarrow> bms_copy a
      | (Some s, Some t) \<Rightarrow> Some \<lparr>words = words_andnot (words s) (words t)\<rparr>)"

definition bms_is_subset :: "bms \<Rightarrow> bms \<Rightarrow> bool" where
  "bms_is_subset a b =
     (case (a, b) of
        (None, _) \<Rightarrow> True
      | (Some _, None) \<Rightarrow> bms_is_empty a
      | (Some s, Some t) \<Rightarrow> words_subset (words s) (words t))"

definition bms_subset_compare :: "bms \<Rightarrow> bms \<Rightarrow> BMS_Comparison" where
  "bms_subset_compare a b =
     (case (a, b) of
        (None, None) \<Rightarrow> BMS_EQUAL
      | (None, Some _) \<Rightarrow> if bms_is_empty b then BMS_EQUAL else BMS_SUBSET1
      | (Some _, None) \<Rightarrow> if bms_is_empty a then BMS_EQUAL else BMS_SUBSET2
      | (Some s, Some t) \<Rightarrow> words_subset_compare BMS_EQUAL (words s) (words t))"

definition bms_is_member :: "int \<Rightarrow> bms \<Rightarrow> bool result" where
  "bms_is_member x a =
     (if x < 0 then Inl negative_member
      else case a of
        None \<Rightarrow> Inr False
      | Some s \<Rightarrow>
          let wordnum = WORDNUM x; bitnum = BITNUM x
          in if nwords s \<le> wordnum then Inr False
             else if (words s ! wordnum) AND push_bit bitnum 1 \<noteq> 0 then Inr True
             else Inr False)"

definition bms_member_index :: "bms \<Rightarrow> int \<Rightarrow> int result" where
  "bms_member_index a x =
     rbind (bms_is_member x a) (\<lambda>isin.
       if \<not> isin then Inr (-1)
       else case a of
         None \<Rightarrow> Inr (-1)
       | Some s \<Rightarrow>
           let wordnum = WORDNUM x; bitnum = BITNUM x;
               result = words_popcount (take wordnum (words s)) 0;
               msk = push_bit bitnum 1 - 1
           in Inr (result + int (pg_popcount64_slow ((words s ! wordnum) AND msk))))"

definition bms_overlap :: "bms \<Rightarrow> bms \<Rightarrow> bool" where
  "bms_overlap a b =
     (case (a, b) of
        (Some s, Some t) \<Rightarrow> words_overlap (words s) (words t)
      | _ \<Rightarrow> False)"

fun overlap_list_loop :: "Bitmapset \<Rightarrow> int list \<Rightarrow> bool result" where
  "overlap_list_loop s [] = Inr False"
| "overlap_list_loop s (x # xs) =
     (if x < 0 then Inl negative_member
      else let wordnum = WORDNUM x; bitnum = BITNUM x
           in if wordnum < nwords s \<and> (words s ! wordnum) AND push_bit bitnum 1 \<noteq> 0 then Inr True
              else overlap_list_loop s xs)"

definition bms_overlap_list :: "bms \<Rightarrow> int list \<Rightarrow> bool result" where
  "bms_overlap_list a b =
     (case a of None \<Rightarrow> Inr False
      | Some s \<Rightarrow> if b = [] then Inr False else overlap_list_loop s b)"

definition bms_nonempty_difference :: "bms \<Rightarrow> bms \<Rightarrow> bool" where
  "bms_nonempty_difference a b =
     (case (a, b) of
        (None, _) \<Rightarrow> False
      | (Some _, None) \<Rightarrow> \<not> bms_is_empty a
      | (Some s, Some t) \<Rightarrow> \<not> words_subset (words s) (words t))"

definition bms_singleton_member :: "bms \<Rightarrow> int result" where
  "bms_singleton_member a =
     (case a of
        None \<Rightarrow> Inl (Elog ''bitmapset is empty'')
      | Some s \<Rightarrow>
          (case words_sole_member 0 (words s) (-1) of
             None \<Rightarrow> Inl (Elog ''bitmapset has multiple members'')
           | Some result \<Rightarrow>
               if result < 0 then Inl (Elog ''bitmapset is empty'') else Inr result))"

text \<open>\<open>bms_get_singleton_member(a, &member)\<close>: the result and what \<open>member\<close> then holds.\<close>

definition bms_get_singleton_member :: "bms \<Rightarrow> int \<Rightarrow> bool \<times> int" where
  "bms_get_singleton_member a member =
     (case a of
        None \<Rightarrow> (False, member)
      | Some s \<Rightarrow>
          (case words_sole_member 0 (words s) (-1) of
             None \<Rightarrow> (False, member)
           | Some result \<Rightarrow> if result < 0 then (False, member) else (True, result)))"

definition bms_num_members :: "bms \<Rightarrow> int" where
  "bms_num_members a = (case a of None \<Rightarrow> 0 | Some s \<Rightarrow> words_popcount (words s) 0)"

definition bms_membership :: "bms \<Rightarrow> BMS_Membership" where
  "bms_membership a =
     (case a of None \<Rightarrow> BMS_EMPTY_SET | Some s \<Rightarrow> words_membership BMS_EMPTY_SET (words s))"

section \<open>The operations that recycle an input\<close>

definition bms_add_member :: "bms \<Rightarrow> int \<Rightarrow> bms result" where
  "bms_add_member a x =
     (if x < 0 then Inl negative_member
      else case a of
        None \<Rightarrow> bms_make_singleton x
      | Some s \<Rightarrow>
          let wordnum = WORDNUM x; bitnum = BITNUM x; ws = words_enlarge wordnum (words s)
          in Inr (Some \<lparr>words = ws[wordnum := ws ! wordnum OR push_bit bitnum 1]\<rparr>))"

definition bms_del_member :: "bms \<Rightarrow> int \<Rightarrow> bms result" where
  "bms_del_member a x =
     (if x < 0 then Inl negative_member
      else case a of
        None \<Rightarrow> Inr None
      | Some s \<Rightarrow>
          let wordnum = WORDNUM x; bitnum = BITNUM x
          in if wordnum < nwords s
             then Inr (Some \<lparr>words = (words s)[wordnum := words s ! wordnum AND NOT (push_bit bitnum 1)]\<rparr>)
             else Inr (Some s))"

definition bms_add_members :: "bms \<Rightarrow> bms \<Rightarrow> bms" where
  "bms_add_members a b =
     (case (a, b) of
        (None, _) \<Rightarrow> bms_copy b
      | (Some _, None) \<Rightarrow> a
      | (Some s, Some t) \<Rightarrow>
          if nwords s < nwords t then Some \<lparr>words = words_or (words t) (words s)\<rparr>
          else Some \<lparr>words = words_or (words s) (words t)\<rparr>)"

definition bms_add_range :: "bms \<Rightarrow> int \<Rightarrow> int \<Rightarrow> bms result" where
  "bms_add_range a lower upper =
     (if upper < lower then Inr a
      else if lower < 0 then Inl negative_member
      else
        let uwordnum = WORDNUM upper;
            ws = (case a of None \<Rightarrow> replicate (uwordnum + 1) 0
                          | Some s \<Rightarrow> words_enlarge uwordnum (words s));
            lwordnum = WORDNUM lower;
            lbitnum = BITNUM lower;
            ushiftbits = 64 - (BITNUM upper + 1);
            from_lower = NOT (push_bit lbitnum 1 - 1);
            to_upper = drop_bit ushiftbits (NOT 0)
        in if lwordnum = uwordnum
           then Inr (Some \<lparr>words = ws[lwordnum := ws ! lwordnum OR (from_lower AND to_upper)]\<rparr>)
           else
             let ws1 = ws[lwordnum := ws ! lwordnum OR from_lower];
                 ws2 = take (lwordnum + 1) ws1
                       @ replicate (uwordnum - (lwordnum + 1)) (NOT 0)
                       @ drop uwordnum ws1
             in Inr (Some \<lparr>words = ws2[uwordnum := ws2 ! uwordnum OR to_upper]\<rparr>))"

definition bms_int_members :: "bms \<Rightarrow> bms \<Rightarrow> bms" where
  "bms_int_members a b =
     (case (a, b) of
        (Some s, Some t) \<Rightarrow> Some \<lparr>words = words_and_zero (words s) (words t)\<rparr>
      | _ \<Rightarrow> None)"

definition bms_del_members :: "bms \<Rightarrow> bms \<Rightarrow> bms" where
  "bms_del_members a b =
     (case (a, b) of
        (None, _) \<Rightarrow> None
      | (Some _, None) \<Rightarrow> a
      | (Some s, Some t) \<Rightarrow> Some \<lparr>words = words_andnot (words s) (words t)\<rparr>)"

definition bms_join :: "bms \<Rightarrow> bms \<Rightarrow> bms" where
  "bms_join a b =
     (case (a, b) of
        (None, _) \<Rightarrow> b
      | (Some _, None) \<Rightarrow> a
      | (Some s, Some t) \<Rightarrow>
          if nwords s < nwords t then Some \<lparr>words = words_or (words t) (words s)\<rparr>
          else Some \<lparr>words = words_or (words s) (words t)\<rparr>)"

definition bms_first_member :: "bms \<Rightarrow> int \<times> bms" where
  "bms_first_member a =
     (case a of
        None \<Rightarrow> (-1, None)
      | Some s \<Rightarrow> (case words_first 0 (words s) of (x, ws) \<Rightarrow> (x, Some \<lparr>words = ws\<rparr>)))"

definition bms_next_member :: "bms \<Rightarrow> int \<Rightarrow> int" where
  "bms_next_member a prevbit =
     (case a of
        None \<Rightarrow> -2
      | Some s \<Rightarrow>
          let prevbit = prevbit + 1; wordnum = WORDNUM prevbit
          in words_next wordnum (drop wordnum (words s)) (push_bit (BITNUM prevbit) (NOT 0)))"

definition bms_prev_member :: "bms \<Rightarrow> int \<Rightarrow> int" where
  "bms_prev_member a prevbit =
     (case a of
        None \<Rightarrow> -2
      | Some s \<Rightarrow>
          if prevbit = 0 then -2
          else
            let prevbit = (if prevbit = -1 then int (nwords s) * 64 - 1 else prevbit - 1);
                ushiftbits = 64 - (BITNUM prevbit + 1)
            in words_prev (Suc (WORDNUM prevbit)) (words s) (drop_bit ushiftbits (NOT 0)))"

section \<open>The set a value stands for\<close>

definition words_set :: "bitmapword list \<Rightarrow> nat set" where
  "words_set ws = {n. n div 64 < length ws \<and> bit (ws ! (n div 64)) (n mod 64)}"

definition bms_set :: "bms \<Rightarrow> nat set" where
  "bms_set a = (case a of None \<Rightarrow> {} | Some s \<Rightarrow> words_set (words s))"

lemma words_set_Nil [simp]: "words_set [] = {}"
  by (simp add: words_set_def)

lemma words_set_Cons:
  "n \<in> words_set (w # ws) \<longleftrightarrow> (if n < 64 then bit w n else n - 64 \<in> words_set ws)"
proof (cases "n < 64")
  case False
  then have "n div 64 = Suc ((n - 64) div 64)" "n mod 64 = (n - 64) mod 64"
    by (simp_all add: le_div_geq le_mod_geq)
  then show ?thesis using False by (simp add: words_set_def)
qed (simp add: words_set_def)

lemma words_set_Cons_eq: "words_set (w # ws) = {i. bit w i} \<union> (\<lambda>n. n + 64) ` words_set ws"
proof (rule set_eqI)
  fix n
  show "n \<in> words_set (w # ws) \<longleftrightarrow> n \<in> {i. bit w i} \<union> (\<lambda>n. n + 64) ` words_set ws"
    using bit_imp_le_length [of w n]
    by (auto simp: words_set_Cons image_iff intro!: bexI [of _ "n - 64"])
qed

lemma finite_bits: "finite {i. bit (w :: 'a::len word) i}"
  by (rule finite_subset [of _ "{..<LENGTH('a)}"]) (auto dest: bit_imp_le_length)

lemma finite_words_set [simp]: "finite (words_set ws)"
  by (induction ws) (simp_all add: words_set_Cons_eq finite_bits)

lemma bms_set_simps [simp]:
  "bms_set None = {}" "bms_set (Some s) = words_set (words s)"
  by (simp_all add: bms_set_def)

lemma finite_bms_set [simp]: "finite (bms_set a)"
  by (cases a) simp_all

lemma words_set_bound: "n \<in> words_set ws \<Longrightarrow> n < 64 * length ws"
  by (auto simp: words_set_def)

lemma words_set_append:
  "n \<in> words_set (us @ vs) \<longleftrightarrow>
     (if n < 64 * length us then n \<in> words_set us else n - 64 * length us \<in> words_set vs)"
  by (induction us arbitrary: n) (auto simp: words_set_Cons)

lemma word_zero_bits: "w = 0 \<longleftrightarrow> (\<forall>i. \<not> bit w i)" for w :: "'a::len word"
  by (auto intro: bit_word_eqI)

subsection \<open>Word loops as set operations\<close>

lemma words_set_or:
  "length ws \<le> length rs \<Longrightarrow> words_set (words_or rs ws) = words_set rs \<union> words_set ws"
  by (induction rs ws rule: words_or.induct) (auto simp: words_set_Cons bit_or_iff split: if_splits)

lemma words_set_and:
  "length rs \<le> length ws \<Longrightarrow> words_set (words_and rs ws) = words_set rs \<inter> words_set ws"
  by (induction rs ws rule: words_and.induct) (auto simp: words_set_Cons bit_and_iff split: if_splits)

lemma words_set_and_zero: "words_set (words_and_zero rs ws) = words_set rs \<inter> words_set ws"
  by (induction rs ws rule: words_and_zero.induct) (auto simp: words_set_Cons bit_and_iff split: if_splits)

lemma words_set_andnot: "words_set (words_andnot rs ws) = words_set rs - words_set ws"
  by (induction rs ws rule: words_andnot.induct)
    (auto simp: words_set_Cons bit_and_iff bit_not_iff split: if_splits dest: bit_imp_le_length)

lemma words_set_empty_Cons: "words_set (w # ws) = {} \<longleftrightarrow> w = 0 \<and> words_set ws = {}"
  by (auto simp: words_set_Cons_eq word_zero_bits)

lemma words_all_zero_iff: "words_all_zero ws \<longleftrightarrow> words_set ws = {}"
  by (induction ws) (simp_all add: words_set_empty_Cons)

lemma words_set_eq_Cons:
  "words_set (v # vs) = words_set (w # ws) \<longleftrightarrow> v = w \<and> words_set vs = words_set ws"
proof
  assume eq: "words_set (v # vs) = words_set (w # ws)"
  have "bit v n = bit w n" if "n < 64" for n
    using eq words_set_Cons [of n v vs] words_set_Cons [of n w ws] that by simp
  then have "v = w" by (intro bit_word_eqI) simp
  moreover have "n \<in> words_set vs \<longleftrightarrow> n \<in> words_set ws" for n
    using eq words_set_Cons [of "n + 64" v vs] words_set_Cons [of "n + 64" w ws] by simp
  ultimately show "v = w \<and> words_set vs = words_set ws" by blast
qed (auto simp: words_set_Cons_eq)

lemma words_equal_iff: "words_equal ss ls \<longleftrightarrow> words_set ss = words_set ls"
  by (induction ss ls rule: words_equal.induct)
    (auto simp: words_set_eq_Cons words_all_zero_iff simp del: words_all_zero.simps)

lemma word_andnot_zero: "a AND NOT b = 0 \<longleftrightarrow> (\<forall>i. bit a i \<longrightarrow> bit b i)" for a b :: "'a::len word"
  by (auto simp: word_zero_bits bit_and_iff bit_not_iff dest: bit_imp_le_length)

lemma words_set_subset_Cons:
  "words_set (a # as) \<subseteq> words_set (b # bs) \<longleftrightarrow> a AND NOT b = 0 \<and> words_set as \<subseteq> words_set bs"
proof
  assume sub: "words_set (a # as) \<subseteq> words_set (b # bs)"
  have "bit a n \<Longrightarrow> bit b n" for n
    using sub [THEN subsetD, of n] bit_imp_le_length [of a n] by (simp add: words_set_Cons)
  moreover have "n \<in> words_set as \<Longrightarrow> n \<in> words_set bs" for n
    using sub [THEN subsetD, of "n + 64"] by (simp add: words_set_Cons)
  ultimately show "a AND NOT b = 0 \<and> words_set as \<subseteq> words_set bs" by (auto simp: word_andnot_zero)
qed (auto simp: words_set_Cons_eq word_andnot_zero)

lemma words_subset_iff: "words_subset as bs \<longleftrightarrow> words_set as \<subseteq> words_set bs"
  by (induction as bs rule: words_subset.induct)
    (auto simp: words_set_subset_Cons words_all_zero_iff simp del: words_all_zero.simps)

lemma words_overlap_iff: "words_overlap as bs \<longleftrightarrow> words_set as \<inter> words_set bs \<noteq> {}"
proof (induction as bs rule: words_overlap.induct)
  case (1 a as b bs)
  have "words_set (a # as) \<inter> words_set (b # bs) = {i. bit (a AND b) i} \<union> (\<lambda>n. n + 64) ` (words_set as \<inter> words_set bs)"
    by (auto simp: words_set_Cons_eq bit_and_iff dest: bit_imp_le_length)
  with 1 show ?case by (auto simp: word_zero_bits)
qed auto

lemma words_popcount_card: "words_popcount ws r = r + int (card (words_set ws))"
proof (induction ws arbitrary: r)
  case (Cons w ws)
  have "card (words_set (w # ws)) = card {i. bit w i} + card ((\<lambda>n. n + 64) ` words_set ws)"
    unfolding words_set_Cons_eq
    by (rule card_Un_disjoint) (auto simp: finite_bits dest: bit_imp_le_length)
  also have "card ((\<lambda>n. n + 64) ` words_set ws) = card (words_set ws)"
    by (rule card_image) simp
  finally show ?case using Cons by (auto simp: pg_popcount64_slow_card)
qed simp

section \<open>Each operation is the set operation it is named after\<close>

lemma bms_copy_eq [simp]: "bms_copy a = a"
  by (cases a) (simp_all add: bms_copy_def)

lemma bms_is_empty_iff: "bms_is_empty a \<longleftrightarrow> bms_set a = {}"
  by (cases a) (simp_all add: bms_is_empty_def words_all_zero_iff)

lemma bms_equal_iff: "bms_equal a b \<longleftrightarrow> bms_set a = bms_set b"
  by (cases a; cases b) (auto simp: bms_equal_def bms_is_empty_iff words_equal_iff)

lemma bms_set_union: "bms_set (bms_union a b) = bms_set a \<union> bms_set b"
  by (cases a; cases b) (auto simp: bms_union_def words_set_or)

lemma bms_set_intersect: "bms_set (bms_intersect a b) = bms_set a \<inter> bms_set b"
  by (cases a; cases b) (auto simp: bms_intersect_def words_set_and)

lemma bms_set_difference: "bms_set (bms_difference a b) = bms_set a - bms_set b"
  by (cases a; cases b) (auto simp: bms_difference_def words_set_andnot)

lemma bms_set_add_members: "bms_set (bms_add_members a b) = bms_set a \<union> bms_set b"
  by (cases a; cases b) (auto simp: bms_add_members_def words_set_or)

lemma bms_set_join: "bms_set (bms_join a b) = bms_set a \<union> bms_set b"
  by (cases a; cases b) (auto simp: bms_join_def words_set_or)

lemma bms_set_int_members: "bms_set (bms_int_members a b) = bms_set a \<inter> bms_set b"
  by (cases a; cases b) (auto simp: bms_int_members_def words_set_and_zero)

lemma bms_set_del_members: "bms_set (bms_del_members a b) = bms_set a - bms_set b"
  by (cases a; cases b) (auto simp: bms_del_members_def words_set_andnot)

lemma bms_is_subset_iff: "bms_is_subset a b \<longleftrightarrow> bms_set a \<subseteq> bms_set b"
  by (cases a; cases b) (auto simp: bms_is_subset_def bms_is_empty_iff words_subset_iff)

lemma bms_nonempty_difference_iff: "bms_nonempty_difference a b \<longleftrightarrow> bms_set a - bms_set b \<noteq> {}"
  by (cases a; cases b) (auto simp: bms_nonempty_difference_def bms_is_empty_iff words_subset_iff)

lemma bms_overlap_iff: "bms_overlap a b \<longleftrightarrow> bms_set a \<inter> bms_set b \<noteq> {}"
  by (cases a; cases b) (auto simp: bms_overlap_def words_overlap_iff)

lemma bms_num_members_card: "bms_num_members a = int (card (bms_set a))"
  by (cases a) (simp_all add: bms_num_members_def words_popcount_card)

subsection \<open>Single members\<close>

lemma WORDNUM_nat: "0 \<le> x \<Longrightarrow> WORDNUM x = nat x div 64"
  by (simp add: WORDNUM_def nat_div_distrib)

lemma BITNUM_nat: "0 \<le> x \<Longrightarrow> BITNUM x = nat x mod 64"
  by (simp add: BITNUM_def nat_mod_distrib)

lemma BITNUM_less [simp]: "BITNUM x < 64"
  by (simp add: BITNUM_def nat_less_iff)

lemma bit_exp_word: "bit (2 ^ m :: 'a::len word) n \<longleftrightarrow> m = n \<and> n < LENGTH('a)"
  by (auto simp: bit_exp_iff possible_bit_word)

lemma word_and_bit: "w AND 2 ^ n = 0 \<longleftrightarrow> \<not> bit w n" for w :: "'a::len word"
  by (auto simp: word_zero_bits bit_and_iff bit_exp_word dest: bit_imp_le_length)

lemma bms_is_member_eq:
  "bms_is_member x a = (if x < 0 then Inl negative_member else Inr (nat x \<in> bms_set a))"
  by (cases a) (auto simp: bms_is_member_def Let_def words_set_def WORDNUM_nat BITNUM_nat word_and_bit)

lemma overlap_list_loop_eq:
  "overlap_list_loop s xs =
     (case dropWhile (\<lambda>x. 0 \<le> x \<and> nat x \<notin> words_set (words s)) xs of
        [] \<Rightarrow> Inr False | x # _ \<Rightarrow> if x < 0 then Inl negative_member else Inr True)"
  by (induction xs) (auto simp: Let_def words_set_def WORDNUM_nat BITNUM_nat word_and_bit)

lemma words_set_update:
  assumes "k < length ws"
  shows "n \<in> words_set (ws[k := w]) \<longleftrightarrow> (if n div 64 = k then bit w (n mod 64) else n \<in> words_set ws)"
  using assms by (auto simp: words_set_def nth_list_update)

lemma words_set_replicate_zero [simp]: "words_set (replicate k 0) = {}"
  by (auto simp: words_set_def)

lemma bms_make_singleton_set:
  "0 \<le> x \<Longrightarrow> \<exists>s. bms_make_singleton x = Inr (Some s) \<and> words_set (words s) = {nat x}"
proof -
  assume x: "0 \<le> x"
  let ?ws = "(replicate (WORDNUM x + 1) 0)[WORDNUM x := push_bit (BITNUM x) (1 :: bitmapword)]"
  have "words_set ?ws = {nat x}"
  proof (rule set_eqI)
    fix n
    have "n = nat x \<longleftrightarrow> n div 64 = nat x div 64 \<and> n mod 64 = nat x mod 64"
      by (metis div_mult_mod_eq)
    moreover have "nat x mod 64 < 64" by simp
    ultimately show "n \<in> words_set ?ws \<longleftrightarrow> n \<in> {nat x}"
      using x by (subst words_set_update)
        (auto simp: WORDNUM_nat BITNUM_nat bit_exp_word simp del: replicate_Suc)
  qed
  with x show ?thesis by (simp add: bms_make_singleton_def Let_def del: replicate_Suc)
qed

lemma words_set_enlarge [simp]: "words_set (words_enlarge k ws) = words_set ws"
  by (auto simp: words_enlarge_def words_set_append dest: words_set_bound split: if_splits)

lemma length_enlarge [simp]: "k < length (words_enlarge k ws)"
  by (simp add: words_enlarge_def)

lemma words_set_nth: "k < length ws \<Longrightarrow> b < 64 \<Longrightarrow> bit (ws ! k) b \<longleftrightarrow> 64 * k + b \<in> words_set ws"
  by (simp add: words_set_def)

lemma words_set_add:
  assumes "0 \<le> x" "WORDNUM x < length ws"
  shows "words_set (ws[WORDNUM x := ws ! WORDNUM x OR 2 ^ BITNUM x]) = insert (nat x) (words_set ws)"
proof (rule set_eqI)
  fix n
  have eq: "n = nat x \<longleftrightarrow> n div 64 = nat x div 64 \<and> n mod 64 = nat x mod 64"
    by (metis div_mult_mod_eq)
  have n: "64 * (n div 64) + n mod 64 = n" by simp
  have "n mod 64 < 64" by simp
  then show "n \<in> words_set (ws[WORDNUM x := ws ! WORDNUM x OR 2 ^ BITNUM x])
      \<longleftrightarrow> n \<in> insert (nat x) (words_set ws)"
    using assms words_set_nth [of "n div 64" ws "n mod 64"]
    by (subst words_set_update)
      (auto simp: eq WORDNUM_nat BITNUM_nat bit_or_iff bit_exp_word)
qed

lemma words_set_del:
  assumes "0 \<le> x" "WORDNUM x < length ws"
  shows "words_set (ws[WORDNUM x := ws ! WORDNUM x AND NOT (2 ^ BITNUM x)]) = words_set ws - {nat x}"
proof (rule set_eqI)
  fix n
  have eq: "n = nat x \<longleftrightarrow> n div 64 = nat x div 64 \<and> n mod 64 = nat x mod 64"
    by (metis div_mult_mod_eq)
  have n: "64 * (n div 64) + n mod 64 = n" by simp
  have "n mod 64 < 64" by simp
  then show "n \<in> words_set (ws[WORDNUM x := ws ! WORDNUM x AND NOT (2 ^ BITNUM x)])
      \<longleftrightarrow> n \<in> words_set ws - {nat x}"
    using assms words_set_nth [of "n div 64" ws "n mod 64"]
    by (subst words_set_update)
      (auto simp: eq WORDNUM_nat BITNUM_nat bit_and_iff bit_not_iff bit_exp_word)
qed

lemma bms_add_member_set:
  "0 \<le> x \<Longrightarrow> \<exists>s. bms_add_member a x = Inr (Some s) \<and> words_set (words s) = insert (nat x) (bms_set a)"
  using bms_make_singleton_set [of x]
  by (cases a) (auto simp: bms_add_member_def Let_def words_set_add)

lemma bms_del_member_set:
  "0 \<le> x \<Longrightarrow> \<exists>b. bms_del_member a x = Inr b \<and> bms_set b = bms_set a - {nat x}"
proof (cases a)
  case (Some s)
  assume x: "0 \<le> x"
  show ?thesis
  proof (cases "WORDNUM x < nwords s")
    case False
    then have "nat x \<notin> words_set (words s)" using x by (simp add: words_set_def WORDNUM_nat)
    with False x Some show ?thesis by (simp add: bms_del_member_def Let_def)
  qed (use x Some in \<open>simp add: bms_del_member_def Let_def words_set_del\<close>)
qed (simp add: bms_del_member_def)

lemma bms_member_index_eq:
  assumes "0 \<le> x"
  shows "bms_member_index a x =
    Inr (if nat x \<in> bms_set a then int (card {y \<in> bms_set a. y < nat x}) else -1)"
proof (cases "nat x \<in> bms_set a")
  case True
  then obtain s where a: "a = Some s" by (cases a) auto
  define k where "k = nat x div 64"
  define b where "b = nat x mod 64"
  have x: "nat x = 64 * k + b" and b: "b < 64" by (simp_all add: k_def b_def)
  let ?ws = "words s"
  let ?m = "push_bit b 1 - 1 :: bitmapword"
  have k: "k < length ?ws" using True by (simp add: a words_set_def k_def)
  have "(2 ^ b - 1 :: bitmapword) = mask b" by (simp add: mask_eq_exp_minus_1)
  then have m: "bit (2 ^ b - 1 :: bitmapword) i \<longleftrightarrow> i < b" for i
    using b by (auto simp: bit_mask_iff possible_bit_word)
  have split: "{y \<in> words_set ?ws. y < nat x} =
      words_set (take k ?ws) \<union> (\<lambda>n. n + 64 * k) ` {i. bit (?ws ! k AND ?m) i}" (is "?L = ?R")
  proof (rule set_eqI)
    fix n
    have ws: "?ws = take k ?ws @ (?ws ! k) # drop (Suc k) ?ws" using k by (simp add: Cons_nth_drop_Suc)
    have mem: "n \<in> words_set ?ws \<longleftrightarrow> (if n < 64 * k then n \<in> words_set (take k ?ws)
        else if n - 64 * k < 64 then bit (?ws ! k) (n - 64 * k)
        else n - 64 * k - 64 \<in> words_set (drop (Suc k) ?ws))"
      using k by (subst ws, subst words_set_append) (simp add: words_set_Cons)
    have img: "n \<in> (\<lambda>n. n + 64 * k) ` {i. bit (?ws ! k AND ?m) i} \<longleftrightarrow>
        64 * k \<le> n \<and> n < nat x \<and> bit (?ws ! k) (n - 64 * k)"
      using b by (auto simp: m x image_iff bit_and_iff intro!: exI [of _ "n - 64 * k"])
    have "n \<in> words_set (take k ?ws) \<Longrightarrow> n < 64 * k"
      using words_set_bound [of n "take k ?ws"] k by simp
    moreover have "n < nat x \<Longrightarrow> n - 64 * k < 64" using x b by linarith
    moreover have "n < 64 * k \<Longrightarrow> n < nat x" using x b by linarith
    ultimately show "n \<in> ?L \<longleftrightarrow> n \<in> ?R"
      unfolding Un_iff mem_Collect_eq img mem by (meson not_less)
  qed
  have "card ?R = card (words_set (take k ?ws)) + card {i. bit (?ws ! k AND ?m) i}"
    using words_set_bound [of _ "take k ?ws"] k
    by (subst card_Un_disjoint) (auto simp: finite_bits card_image)
  with assms True a split show ?thesis
    by (simp add: bms_member_index_def bms_is_member_eq Let_def WORDNUM_nat BITNUM_nat
        words_popcount_card pg_popcount64_slow_card flip: k_def b_def)
qed (use assms in \<open>simp add: bms_member_index_def bms_is_member_eq\<close>)

subsection \<open>Comparing\<close>

text \<open>A value read as a binary number.  \<open>bms_compare\<close> compares these numbers.\<close>

fun words_val :: "bitmapword list \<Rightarrow> nat" where
  "words_val [] = 0"
| "words_val (w # ws) = unat w + 2 ^ 64 * words_val ws"

definition bms_val :: "bms \<Rightarrow> nat" where
  "bms_val a = (case a of None \<Rightarrow> 0 | Some s \<Rightarrow> words_val (words s))"

lemma bms_val_simps [simp]: "bms_val None = 0" "bms_val (Some s) = words_val (words s)"
  by (simp_all add: bms_val_def)

lemma bit_words_val: "bit (words_val ws) n \<longleftrightarrow> n \<in> words_set ws"
proof (induction ws arbitrary: n)
  case (Cons w ws)
  have low: "unat w < 2 ^ 64" using unsigned_less [of w, where 'a = nat] by simp
  have "words_val (w # ws) = push_bit 64 (words_val ws) OR unat w"
  proof -
    have "push_bit 64 (words_val ws) AND unat w = 0"
      using low by (intro bit_eqI) (auto simp: bit_and_iff bit_push_bit_iff bit_unsigned_iff dest: bit_imp_le_length)
    then show ?thesis by (simp add: disjunctive_add_eq_or [symmetric] push_bit_eq_mult)
  qed
  then show ?case using Cons [of "n - 64"] bit_imp_le_length [of w n]
    by (auto simp: words_set_Cons bit_or_iff bit_push_bit_iff bit_unsigned_iff)
qed simp

lemma bit_bms_val: "bit (bms_val a) n \<longleftrightarrow> n \<in> bms_set a"
  by (cases a) (simp_all add: bit_words_val)

lemma words_all_zero_val: "words_all_zero ws \<longleftrightarrow> words_val ws = 0"
  by (metis bit_words_val words_all_zero_iff bit_eq_iff bit_0_eq bot_apply bot_bool_def equals0I equals0D)

lemma words_val_append: "words_val (us @ vs) = words_val us + 2 ^ (64 * length us) * words_val vs"
  by (induction us) (simp_all add: algebra_simps power_add)

lemma words_val_less: "words_val ws < 2 ^ (64 * length ws)"
proof (induction ws)
  case (Cons w ws)
  have "unat w < 2 ^ 64" using unsigned_less [of w, where 'a = nat] by simp
  moreover have "words_val ws + 1 \<le> 2 ^ (64 * length ws)" using Cons by simp
  then have "2 ^ 64 * (words_val ws + 1) \<le> 2 ^ 64 * 2 ^ (64 * length ws)" by (rule mult_le_mono2)
  ultimately show ?case by (simp add: power_add algebra_simps del: of_nat_power)
qed simp

lemma words_compare_down_val:
  "length us = length vs \<Longrightarrow>
   words_compare_down (rev us) (rev vs) = sgn (int (words_val us) - int (words_val vs))"
proof (induction us vs rule: rev_induct2)
  case (4 u us v vs)
  let ?M = "2 ^ (64 * length us) :: nat"
  have len: "length us = length vs" using 4 by simp
  have lt: "words_val us < ?M" "words_val vs < ?M"
    using words_val_less [of us] words_val_less [of vs] len by simp_all
  show ?case
  proof (cases "u = v")
    case True
    with 4 len show ?thesis by (simp add: words_val_append)
  next
    case False
    have *: "words_val us + ?M * unat u < words_val vs + ?M * unat v"
      if "words_val us < ?M" "unat u < unat v" for us vs and u v :: bitmapword
    proof -
      have "words_val us + ?M * unat u < ?M * (unat u + 1)" using that by (simp add: algebra_simps)
      also have "\<dots> \<le> ?M * unat v" using that by (intro mult_le_mono2) simp
      finally show ?thesis by simp
    qed
    from False consider "unat u < unat v" | "unat v < unat u" by (metis linorder_cases word_unat_eq_iff)
    then show ?thesis
    proof cases
      case 1
      then have "words_val (us @ [u]) < words_val (vs @ [v])"
        using *[OF lt(1) 1, of vs] len by (simp add: words_val_append)
      with 1 False show ?thesis by (simp add: word_less_nat_alt)
    next
      case 2
      then have "words_val (vs @ [v]) < words_val (us @ [u])"
        using *[OF lt(2) 2, of us] len by (simp add: words_val_append)
      with 2 False show ?thesis by (simp add: word_less_nat_alt)
    qed
  qed
qed simp_all

lemma bms_compare_val: "bms_compare a b = sgn (int (bms_val a) - int (bms_val b))"
proof (cases "a = None \<or> b = None")
  case True
  then show ?thesis
    by (cases a; cases b) (auto simp: bms_compare_def bms_is_empty_def words_all_zero_val)
next
  case False
  then obtain s t where ab: "a = Some s" "b = Some t" by auto
  define n where "n = min (nwords s) (nwords t)"
  let ?s = "words_val (take n (words s))" and ?t = "words_val (take n (words t))"
  let ?s' = "words_val (drop n (words s))" and ?t' = "words_val (drop n (words t))"
  have len: "length (take n (words s)) = n" "length (take n (words t)) = n" by (simp_all add: n_def)
  have val: "words_val (words s) = ?s + 2 ^ (64 * n) * ?s'" "words_val (words t) = ?t + 2 ^ (64 * n) * ?t'"
    using words_val_append [of "take n (words s)" "drop n (words s)"]
      words_val_append [of "take n (words t)" "drop n (words t)"] len by simp_all
  have lt: "?s < 2 ^ (64 * n)" "?t < 2 ^ (64 * n)"
    using words_val_less [of "take n (words s)"] words_val_less [of "take n (words t)"] len by simp_all
  have one: "?s' = 0 \<or> ?t' = 0" by (auto simp: n_def min_def)
  have eq: "bms_compare a b = (if ?s' \<noteq> 0 then 1 else if ?t' \<noteq> 0 then -1 else sgn (int ?s - int ?t))"
    using words_compare_down_val [of "take n (words s)" "take n (words t)"] len
    by (simp add: ab bms_compare_def Let_def words_all_zero_val flip: n_def)
  have big: "2 ^ (64 * n) \<le> 2 ^ (64 * n) * k" if "k \<noteq> 0" for k :: nat using that by simp
  consider "?s' \<noteq> 0" "?t' = 0" | "?s' = 0" "?t' \<noteq> 0" | "?s' = 0" "?t' = 0" using one by argo
  then show ?thesis
  proof cases
    case 1
    then have "words_val (words t) < words_val (words s)"
      unfolding val 1(2) mult_0_right using big [OF 1(1)] lt by linarith
    with 1 show ?thesis unfolding eq by (simp add: ab)
  next
    case 2
    then have "words_val (words s) < words_val (words t)"
      unfolding val 2(1) mult_0_right using big [OF 2(2)] lt by linarith
    with 2 show ?thesis unfolding eq by (simp add: ab)
  next
    case 3
    then show ?thesis unfolding eq by (simp add: ab val)
  qed
qed

text \<open>The order on sets that the header comment describes: the highest number in one set but
  not in the other decides.\<close>

lemma nat_less_highest_bit:
  assumes "(m :: nat) < n"
  shows "\<exists>k. bit n k \<and> \<not> bit m k \<and> (\<forall>j>k. bit m j = bit n j)"
  using assms
proof (induction n arbitrary: m rule: less_induct)
  case (less n)
  show ?case
  proof (cases "m div 2 < n div 2")
    case True
    with less.prems less.IH [of "n div 2" "m div 2"] obtain k where k:
      "bit (n div 2) k" "\<not> bit (m div 2) k" "\<forall>j>k. bit (m div 2) j = bit (n div 2) j"
      by auto
    have "bit m j = bit n j" if "Suc k < j" for j
      using that k(3) by (cases j) (simp_all add: bit_Suc)
    with k(1,2) show ?thesis by (intro exI [of _ "Suc k"]) (simp add: bit_Suc)
  next
    case False
    then have eq: "m div 2 = n div 2" using less.prems by (simp add: not_less div_le_mono order_antisym less_imp_le)
    then have "odd n" "even m" using less.prems by presburger+
    moreover have "bit m j = bit n j" if "0 < j" for j
      using that eq by (cases j) (auto simp: bit_Suc)
    ultimately show ?thesis by (intro exI [of _ 0]) (auto simp: bit_0)
  qed
qed

lemma bms_compare_highest:
  "bms_compare a b = 0 \<longleftrightarrow> bms_set a = bms_set b"
  "bms_compare a b = 1 \<longleftrightarrow>
     (\<exists>k \<in> bms_set a - bms_set b. \<forall>j>k. j \<in> bms_set a \<longleftrightarrow> j \<in> bms_set b)"
  "bms_compare a b = - bms_compare b a"
proof -
  show eq: "bms_compare a b = 0 \<longleftrightarrow> bms_set a = bms_set b"
  proof -
    have "bms_compare a b = 0 \<longleftrightarrow> bms_val a = bms_val b" by (simp add: bms_compare_val sgn_0_0)
    also have "\<dots> \<longleftrightarrow> bms_set a = bms_set b" by (simp add: bit_eq_iff bit_bms_val set_eq_iff)
    finally show ?thesis .
  qed
  show anti: "bms_compare a b = - bms_compare b a" for a b
    by (simp add: bms_compare_val sgn_if)
  have up: "\<exists>k \<in> bms_set a - bms_set b. \<forall>j>k. j \<in> bms_set a \<longleftrightarrow> j \<in> bms_set b"
    if "bms_val b < bms_val a" for a b
    using nat_less_highest_bit [OF that] by (auto simp: bit_bms_val)
  show "bms_compare a b = 1 \<longleftrightarrow>
     (\<exists>k \<in> bms_set a - bms_set b. \<forall>j>k. j \<in> bms_set a \<longleftrightarrow> j \<in> bms_set b)" (is "_ \<longleftrightarrow> ?H")
  proof
    assume "bms_compare a b = 1"
    then show ?H by (intro up) (simp add: bms_compare_val sgn_1_pos)
  next
    assume ?H
    then obtain k where k: "k \<in> bms_set a" "k \<notin> bms_set b" "\<forall>j>k. j \<in> bms_set a \<longleftrightarrow> j \<in> bms_set b" by auto
    have "\<not> bms_val a < bms_val b"
    proof
      assume "bms_val a < bms_val b"
      from up [OF this] obtain l where "l \<in> bms_set b" "l \<notin> bms_set a" "\<forall>j>l. j \<in> bms_set b \<longleftrightarrow> j \<in> bms_set a" by auto
      with k show False by (metis linorder_neqE_nat)
    qed
    moreover have "bms_val a \<noteq> bms_val b" using k by (metis bit_bms_val)
    ultimately show "bms_compare a b = 1" by (simp add: bms_compare_val)
  qed
qed

subsection \<open>Subset comparison\<close>

definition subset_verdict :: "BMS_Comparison \<Rightarrow> nat set \<Rightarrow> nat set \<Rightarrow> BMS_Comparison" where
  "subset_verdict res A B =
     (if A \<subseteq> B \<and> B \<subseteq> A then res
      else if A \<subseteq> B then (if res = BMS_SUBSET2 then BMS_DIFFERENT else BMS_SUBSET1)
      else if B \<subseteq> A then (if res = BMS_SUBSET1 then BMS_DIFFERENT else BMS_SUBSET2)
      else BMS_DIFFERENT)"

lemma words_subset_compare_eq:
  "res \<noteq> BMS_DIFFERENT \<Longrightarrow>
   words_subset_compare res as bs = subset_verdict res (words_set as) (words_set bs)"
proof (induction res as bs rule: words_subset_compare.induct)
  case (1 res a as b bs)
  then show ?case
    by (cases res) (auto simp: subset_verdict_def words_set_subset_Cons note_not_subset1_def note_not_subset2_def)
next
  case (2 res a as)
  then show ?case
    by (cases res) (auto simp: subset_verdict_def words_set_empty_Cons note_not_subset1_def)
next
  case (3 res b bs)
  then show ?case
    by (cases res) (auto simp: subset_verdict_def words_set_empty_Cons note_not_subset2_def)
qed (simp add: subset_verdict_def)

lemma bms_subset_compare_eq:
  "bms_subset_compare a b = subset_verdict BMS_EQUAL (bms_set a) (bms_set b)"
  by (cases a; cases b)
    (auto simp: bms_subset_compare_def bms_is_empty_iff words_subset_compare_eq subset_verdict_def)

subsection \<open>Isolating the lowest bit\<close>

abbreviation lowest_bit :: "bitmapword \<Rightarrow> nat" where
  "lowest_bit w \<equiv> (LEAST i. bit w i)"

lemma lowest_bit:
  assumes "w \<noteq> 0"
  shows "bit w (lowest_bit w)" "i < lowest_bit w \<Longrightarrow> \<not> bit w i" "bit w i \<Longrightarrow> lowest_bit w \<le> i"
proof -
  obtain j where "bit w j" using assms by (auto simp: word_zero_bits)
  then show "bit w (lowest_bit w)" by (rule LeastI)
  show "i < lowest_bit w \<Longrightarrow> \<not> bit w i" by (rule not_less_Least)
  show "bit w i \<Longrightarrow> lowest_bit w \<le> i" by (rule Least_le)
qed

lemma bit_minus_odd:
  assumes "odd (v :: 'a::len word)"
  shows "bit (- v) i \<longleftrightarrow> (if i = 0 then True else i < LENGTH('a) \<and> \<not> bit v i)"
proof -
  have "v - 1 = v XOR 1" using assms by (simp add: xor_one_eq)
  then have "- v = NOT (v XOR 1)" by (simp add: minus_eq_not_minus_1)
  then show ?thesis using assms by (auto simp: bit_not_iff bit_xor_iff bit_1_iff bit_0 possible_bit_word)
qed

lemma RIGHTMOST_ONE_eq:
  assumes "w \<noteq> 0"
  shows "RIGHTMOST_ONE w = 2 ^ lowest_bit w"
proof (rule bit_word_eqI)
  fix n assume n: "n < LENGTH(64)"
  let ?p = "lowest_bit w"
  let ?v = "drop_bit ?p w"
  have w: "w = push_bit ?p ?v"
  proof (rule bit_word_eqI)
    fix n show "bit w n = bit (push_bit ?p ?v) n" if "n < LENGTH(64)"
      using lowest_bit(2) [OF assms, of n] that
      by (cases "?p \<le> n") (simp_all add: bit_push_bit_iff bit_drop_bit_eq)
  qed
  have odd: "odd ?v" using lowest_bit(1) [OF assms] by (simp add: bit_drop_bit_eq flip: bit_0)
  have "- w = push_bit ?p (- ?v)" by (subst w) (simp add: push_bit_eq_mult)
  then have minus: "bit (- w) n \<longleftrightarrow> ?p \<le> n \<and> bit (- ?v) (n - ?p)"
    using n by (simp add: bit_push_bit_iff)
  have "bit (- ?v) (n - ?p) \<longleftrightarrow> n = ?p \<or> \<not> bit w n" if "?p \<le> n"
    using that n by (auto simp: bit_minus_odd [OF odd] bit_drop_bit_eq)
  with minus n lowest_bit(1) [OF assms] show "bit (RIGHTMOST_ONE w) n = bit (2 ^ ?p :: bitmapword) n"
    by (auto simp: RIGHTMOST_ONE_def bit_and_iff bit_exp_word)
qed

lemma HAS_MULTIPLE_ONES_iff:
  assumes "w \<noteq> 0"
  shows "HAS_MULTIPLE_ONES w \<longleftrightarrow> card {i. bit w i} \<noteq> 1"
proof -
  define p where "p = lowest_bit w"
  have p: "bit w p" using lowest_bit(1) [OF assms] by (simp only: p_def)
  have "2 ^ p = w \<longleftrightarrow> {i. bit w i} = {p}"
  proof
    assume "2 ^ p = w"
    then have "bit w i \<longleftrightarrow> i = p" for i
      using bit_exp_word [of p i, where 'a = 64] bit_imp_le_length [OF p] by auto
    then show "{i. bit w i} = {p}" by blast
  next
    assume "{i. bit w i} = {p}"
    then have "bit w i \<longleftrightarrow> i = p" for i by blast
    then show "2 ^ p = w" by (intro bit_word_eqI) (auto simp: bit_exp_word)
  qed
  also have "\<dots> \<longleftrightarrow> card {i. bit w i} = 1"
    using p by (metis card_1_singleton_iff is_singletonI' mem_Collect_eq singletonD is_singleton_def One_nat_def)
  finally show ?thesis by (simp add: HAS_MULTIPLE_ONES_def RIGHTMOST_ONE_eq [OF assms] flip: p_def)
qed

lemma card_words_set_Cons: "card (words_set (w # ws)) = card {i. bit w i} + card (words_set ws)"
proof -
  have "card (words_set (w # ws)) = card {i. bit w i} + card ((\<lambda>n. n + 64) ` words_set ws)"
    unfolding words_set_Cons_eq
    by (rule card_Un_disjoint) (auto simp: finite_bits dest: bit_imp_le_length)
  then show ?thesis by (simp add: card_image)
qed

lemma card_bits_zero_iff: "card {i. bit w i} = 0 \<longleftrightarrow> w = (0 :: 'a::len word)"
  by (auto simp: finite_bits word_zero_bits)

lemma Min_words_set_Cons:
  "Min (words_set (w # ws)) = (if w \<noteq> 0 then lowest_bit w else Min (words_set ws) + 64)"
  if "words_set (w # ws) \<noteq> {}"
proof (cases "w = 0")
  case True
  then have "words_set (w # ws) = (\<lambda>n. n + 64) ` words_set ws" by (simp add: words_set_Cons_eq)
  moreover have "Min ((\<lambda>n. n + 64) ` words_set ws) = Min (words_set ws) + 64"
    using that calculation by (subst mono_Min_commute [symmetric]) (auto intro: monoI)
  ultimately show ?thesis using True by simp
next
  case False
  have "Min (words_set (w # ws)) = lowest_bit w"
  proof (rule Min_eqI)
    fix y assume "y \<in> words_set (w # ws)"
    then show "lowest_bit w \<le> y"
      using lowest_bit(3) [OF False, of y] bit_imp_le_length [OF lowest_bit(1) [OF False]]
      by (auto simp: words_set_Cons_eq)
  qed (use lowest_bit(1) [OF False] in \<open>auto simp: words_set_Cons_eq\<close>)
  with False show ?thesis by simp
qed

lemma words_sole_member_eq:
  "words_sole_member k ws r =
     (if words_set ws = {} then Some r
      else if 0 \<le> r \<or> card (words_set ws) \<noteq> 1 then None
      else Some (64 * int k + int (Min (words_set ws))))"
proof (induction k ws r rule: words_sole_member.induct)
  case (2 k w ws r)
  have card: "words_set us = {} \<longleftrightarrow> card (words_set us) = 0" for us by simp
  show ?case
  proof (cases "w = 0")
    case True
    then show ?thesis using 2
      by (simp add: Min_words_set_Cons card_words_set_Cons words_set_empty_Cons del: card_0_eq)
  next
    case False
    have "0 \<le> int k * 64 + int (pg_rightmost_one_pos64 w)" by simp
    moreover have "card {i. bit w i} \<noteq> 0" using False by (simp add: card_bits_zero_iff del: card_0_eq)
    ultimately show ?thesis
      using 2 False words_set_empty_Cons [of w ws]
      by (auto simp: pg_rightmost_one_pos64_least Min_words_set_Cons HAS_MULTIPLE_ONES_iff card_words_set_Cons
          card [of ws] simp del: card_0_eq)
  qed
qed simp

lemma words_membership_eq:
  "words_membership r ws =
     (if words_set ws = {} then r
      else if r = BMS_EMPTY_SET \<and> card (words_set ws) = 1 then BMS_SINGLETON
      else BMS_MULTIPLE)"
proof (induction r ws rule: words_membership.induct)
  case (2 r w ws)
  have card: "words_set us = {} \<longleftrightarrow> card (words_set us) = 0" for us by simp
  show ?case
  proof (cases "w = 0")
    case True
    then show ?thesis using 2 by (simp add: card_words_set_Cons words_set_empty_Cons)
  next
    case False
    have "card {i. bit w i} \<noteq> 0" using False by (simp add: card_bits_zero_iff del: card_0_eq)
    then show ?thesis
      using 2 False words_set_empty_Cons [of w ws]
      by (auto simp: HAS_MULTIPLE_ONES_iff card_words_set_Cons card [of ws] simp del: card_0_eq)
  qed
qed simp

lemma bms_membership_eq:
  "bms_membership a =
     (if card (bms_set a) = 0 then BMS_EMPTY_SET
      else if card (bms_set a) = 1 then BMS_SINGLETON else BMS_MULTIPLE)"
  by (cases a) (auto simp: bms_membership_def words_membership_eq)

lemma Min_card_1: "card A = 1 \<Longrightarrow> Min A = the_elem A" for A :: "nat set"
  by (auto simp: card_1_singleton_iff)

lemma bms_singleton_member_eq:
  "bms_singleton_member a =
     (if bms_set a = {} then Inl (Elog ''bitmapset is empty'')
      else if card (bms_set a) \<noteq> 1 then Inl (Elog ''bitmapset has multiple members'')
      else Inr (int (the_elem (bms_set a))))"
  by (cases a) (simp_all add: bms_singleton_member_def words_sole_member_eq Min_card_1)

lemma bms_get_singleton_member_eq:
  "bms_get_singleton_member a m =
     (if card (bms_set a) = 1 then (True, int (the_elem (bms_set a))) else (False, m))"
  by (cases a) (auto simp add: bms_get_singleton_member_def words_sole_member_eq Min_card_1)

subsection \<open>Scanning\<close>

lemma words_first_eq:
  "words_first k ws = (x, ws') \<Longrightarrow>
     (words_set ws = {} \<and> x = -1 \<and> words_set ws' = {})
     \<or> (words_set ws \<noteq> {} \<and> x = 64 * int k + int (Min (words_set ws))
        \<and> words_set ws' = words_set ws - {Min (words_set ws)})"
proof (induction k ws arbitrary: x ws' rule: words_first.induct)
  case (2 k w ws)
  show ?case
  proof (cases "w = 0")
    case True
    obtain y us where y: "words_first (Suc k) ws = (y, us)" by fastforce
    have set: "words_set (w # vs) = (\<lambda>n. n + 64) ` words_set vs" for vs
      using True by (simp add: words_set_Cons_eq)
    have x: "x = y" "ws' = w # us" using 2(2) y True by simp_all
    have inj: "(\<lambda>n. n + 64) ` (A - {m}) = (\<lambda>n. n + 64) ` A - {m + 64}" for A and m :: nat by auto
    show ?thesis
    proof (cases "words_set ws = {}")
      case True
      with 2(1) [OF _ y] \<open>w = 0\<close> x set show ?thesis by simp
    next
      case False
      with 2(1) [OF _ y] \<open>w = 0\<close> have "y = 64 * int (Suc k) + int (Min (words_set ws))"
        "words_set us = words_set ws - {Min (words_set ws)}" by simp_all
      moreover have "Min (words_set (w # ws)) = Min (words_set ws) + 64"
        using False \<open>w = 0\<close> by (subst Min_words_set_Cons) (simp_all add: words_set_empty_Cons)
      ultimately show ?thesis using False x set inj by simp
    qed
  next
    case False
    define p where "p = lowest_bit w"
    have p: "bit w p" "p < 64" using lowest_bit(1) [OF False] bit_imp_le_length [of w p]
      by (simp_all add: p_def)
    have bits: "{i. bit (w AND NOT (2 ^ p)) i} = {i. bit w i} - {p}"
      by (auto simp: bit_and_iff bit_not_iff bit_exp_word dest: bit_imp_le_length)
    have "bit (2 ^ p :: bitmapword) p" using p by (simp add: bit_exp_word)
    then have nz: "(2 :: bitmapword) ^ p \<noteq> 0" by (metis bit_0_eq bot_apply bot_bool_def)
    have least: "(LEAST i. bit ((2 :: bitmapword) ^ p) i) = p"
      using p by (intro Least_equality) (auto simp: bit_exp_word)
    have "x = 64 * int k + int p" "ws' = (w AND NOT (2 ^ p)) # ws"
      using 2(2) False
      by (simp_all add: Let_def RIGHTMOST_ONE_eq pg_rightmost_one_pos64_least [OF nz] least
          flip: p_def)
    moreover have "Min (words_set (w # ws)) = p" "words_set (w # ws) \<noteq> {}"
      using False by (simp_all add: Min_words_set_Cons words_set_empty_Cons p_def)
    moreover have "words_set ((w AND NOT (2 ^ p)) # ws) = words_set (w # ws) - {p}"
      using p by (auto simp: words_set_Cons_eq bits)
    ultimately show ?thesis by simp
  qed
qed simp

lemma bms_first_member_eq:
  "bms_first_member a = (x, b) \<Longrightarrow>
     (bms_set a = {} \<and> x = -1 \<and> bms_set b = {})
     \<or> (bms_set a \<noteq> {} \<and> x = int (Min (bms_set a)) \<and> bms_set b = bms_set a - {Min (bms_set a)})"
  by (cases a) (auto simp: bms_first_member_def dest: words_first_eq split: prod.splits)


lemma words_next_eq:
  "words_next k ws msk =
     (case ws of
        [] \<Rightarrow> -2
      | w # vs \<Rightarrow>
          let S = words_set ((w AND msk) # vs)
          in if S = {} then -2 else 64 * int k + int (Min S))"
proof (induction k ws msk rule: words_next.induct)
  case (2 k w0 ws msk)
  show ?case
  proof (cases "w0 AND msk = 0")
    case False
    then show ?thesis
      by (simp add: Let_def Min_words_set_Cons words_set_empty_Cons pg_rightmost_one_pos64_least)
  next
    case True
    have zero: "words_set ((w0 AND msk) # ws) = {} \<longleftrightarrow> words_set ws = {}"
      using True by (simp add: words_set_empty_Cons)
    have "words_next (Suc k) ws (NOT 0) =
        (if words_set ws = {} then -2 else 64 * int (Suc k) + int (Min (words_set ws)))"
      using 2 True by (cases ws) (simp_all add: Let_def)
    moreover have "Min (words_set ((w0 AND msk) # ws)) = Min (words_set ws) + 64"
      if "words_set ws \<noteq> {}"
      using that zero True by (subst Min_words_set_Cons) simp_all
    ultimately show ?thesis
      unfolding words_next.simps list.case Let_def zero using True by simp
  qed
qed simp

lemma words_set_drop: "n \<in> words_set (drop k ws) \<longleftrightarrow> n + 64 * k \<in> words_set ws"
  by (auto simp: words_set_def less_diff_conv add.commute)

lemma bit_high_mask: "bit (push_bit b (NOT 0) :: bitmapword) n \<longleftrightarrow> b \<le> n \<and> n < 64"
  by (auto simp: bit_push_bit_iff bit_not_iff possible_bit_word bit_mask_iff)

lemma bms_next_member_eq:
  fixes a :: bms
  assumes "-1 \<le> prevbit"
  defines "S \<equiv> {n \<in> bms_set a. prevbit < int n}"
  shows "bms_next_member a prevbit = (if S = {} then -2 else int (Min S))"
proof (cases a)
  case None
  then show ?thesis by (simp add: bms_next_member_def S_def)
next
  case (Some s)
  define x where "x = nat (prevbit + 1)"
  define k where "k = x div 64"
  define b where "b = x mod 64"
  have x: "x = 64 * k + b" "b < 64" by (simp_all add: k_def b_def)
  have S: "S = {n \<in> words_set (words s). x \<le> n}"
    using assms(1) by (auto simp: S_def Some x_def)
  have wb: "WORDNUM (prevbit + 1) = k" "BITNUM (prevbit + 1) = b"
    using assms(1) by (simp_all add: WORDNUM_nat BITNUM_nat k_def b_def x_def)
  have next_eq: "bms_next_member a prevbit = words_next k (drop k (words s)) (push_bit b (NOT 0))"
    by (simp add: bms_next_member_def Some Let_def wb)
  show ?thesis
  proof (cases "drop k (words s)")
    case Nil
    then have "nwords s \<le> k" by simp
    then have "S = {}" using x by (auto simp: S dest!: words_set_bound)
    with Nil show ?thesis by (simp add: next_eq)
  next
    case (Cons w vs)
    let ?T = "words_set ((w AND push_bit b (NOT 0)) # vs)"
    have "n \<in> ?T \<longleftrightarrow> n + 64 * k \<in> S" for n
    proof -
      have "n \<in> ?T \<longleftrightarrow> b \<le> n \<and> n \<in> words_set (w # vs)"
        using x(2) by (simp only: words_set_Cons bit_and_iff bit_high_mask) auto
      also have "\<dots> \<longleftrightarrow> n + 64 * k \<in> S"
        using x by (auto simp: S words_set_drop [symmetric] Cons)
      finally show ?thesis .
    qed
    moreover have "64 * k \<le> n" if "n \<in> S" for n using that x by (simp add: S)
    ultimately have SI: "S = (\<lambda>n. n + 64 * k) ` ?T"
      by (auto simp: image_iff) (metis add.commute le_add_diff_inverse)
    have "Min S = Min ?T + 64 * k" if "?T \<noteq> {}"
      unfolding SI using that by (subst mono_Min_commute [symmetric]) (auto intro: monoI)
    then show ?thesis
      by (simp only: next_eq words_next_eq Cons list.case Let_def) (simp add: SI)
  qed
qed

lemma words_set_snoc: "words_set (us @ [w]) = words_set us \<union> (\<lambda>n. n + 64 * length us) ` {i. bit w i}"
proof (rule set_eqI)
  fix n
  show "n \<in> words_set (us @ [w]) \<longleftrightarrow> n \<in> words_set us \<union> (\<lambda>n. n + 64 * length us) ` {i. bit w i}"
    using words_set_bound [of n us] bit_imp_le_length [of w "n - 64 * length us"]
    by (auto simp: words_set_append words_set_Cons image_iff intro!: exI [of _ "n - 64 * length us"])
qed

lemma words_prev_nonzero:
  assumes "w \<noteq> 0" "length us = n"
  shows "words_set (us @ [w]) \<noteq> {}"
    "int (Max (words_set (us @ [w]))) = int n * 64 + int (pg_leftmost_one_pos64 w)"
proof -
  let ?p = "pg_leftmost_one_pos64 w"
  have p: "bit w ?p" "\<And>i. bit w i \<Longrightarrow> i \<le> ?p"
    using pg_leftmost_one_pos64_greatest [OF assms(1)] by auto
  then have mem: "?p + 64 * n \<in> words_set (us @ [w])" by (auto simp: words_set_snoc assms(2))
  then show "words_set (us @ [w]) \<noteq> {}" by auto
  have "Max (words_set (us @ [w])) = ?p + 64 * n"
  proof (rule Max_eqI)
    fix y assume "y \<in> words_set (us @ [w])"
    then show "y \<le> ?p + 64 * n" using assms(2) words_set_bound [of y us] p(2)
      by (auto simp: words_set_snoc)
  qed (use mem in simp_all)
  then show "int (Max (words_set (us @ [w]))) = int n * 64 + int ?p" by simp
qed

lemma words_prev_eq:
  "words_prev (Suc n) ws msk =
     (let S = words_set (take n ws @ [ws ! n AND msk])
      in if S = {} then -2 else int (Max S))" if "n < length ws"
  using that
proof (induction n arbitrary: msk)
  case (Suc n)
  note step = this
  let ?w = "ws ! Suc n AND msk" and ?S = "words_set (take (Suc n) ws)"
  have len: "length (take (Suc n) ws) = Suc n" using step(2) by simp
  have rest: "words_prev (Suc n) ws (NOT 0) = (if ?S = {} then -2 else int (Max ?S))"
    using step(1) [of "NOT 0"] step(2) by (simp add: take_Suc_conv_app_nth Let_def)
  show ?case
  proof (cases "?w = 0")
    case True
    then show ?thesis using rest by (simp add: words_set_snoc Let_def)
  next
    case False
    from words_prev_nonzero [OF False len] False show ?thesis by (simp add: Let_def)
  qed
next
  case 0
  show ?case
  proof (cases "ws ! 0 AND msk = 0")
    case True
    then show ?thesis by (simp add: words_set_Cons_eq Let_def)
  next
    case False
    from words_prev_nonzero [OF False, of "[]" 0] False show ?thesis by (simp add: Let_def)
  qed
qed

lemma bit_low_mask: "b < 64 \<Longrightarrow> bit (drop_bit (64 - (b + 1)) (NOT 0) :: bitmapword) n \<longleftrightarrow> n \<le> b"
  by (auto simp: bit_drop_bit_eq bit_not_iff possible_bit_word bit_mask_iff)

lemma bms_prev_member_eq:
  fixes a :: bms
  assumes range: "\<And>s. a = Some s \<Longrightarrow> 0 < nwords s \<and> prevbit \<le> int (64 * nwords s)" and "-1 \<le> prevbit"
  defines "S \<equiv> {n \<in> bms_set a. prevbit = -1 \<or> int n < prevbit}"
  shows "bms_prev_member a prevbit = (if S = {} then -2 else int (Max S))"
proof (cases "a = None \<or> prevbit = 0")
  case True
  then show ?thesis by (auto simp: bms_prev_member_def S_def split: option.splits)
next
  case False
  then obtain s where s: "a = Some s" by auto
  define x where "x = nat (if prevbit = -1 then int (nwords s) * 64 - 1 else prevbit - 1)"
  define k where "k = x div 64"
  define b where "b = x mod 64"
  have pos: "0 < nwords s" "prevbit \<le> int (64 * nwords s)" using range [OF s] by auto
  have x: "x = 64 * k + b" "b < 64" by (simp_all add: k_def b_def)
  have xlt: "x < 64 * nwords s" using pos False assms(2) by (auto simp: x_def nat_less_iff)
  then have klt: "k < nwords s" using x by simp
  have S: "S = {n \<in> words_set (words s). n \<le> x}"
  proof -
    have "prevbit = -1 \<or> int n < prevbit \<longleftrightarrow> n \<le> x" if "n \<in> words_set (words s)" for n
      using words_set_bound [OF that] False assms(2) pos(1)
      by (cases "prevbit = -1") (auto simp: x_def nat_le_iff le_nat_iff)
    then show ?thesis unfolding S_def s bms_set_simps by blast
  qed
  have nn: "0 \<le> (if prevbit = -1 then int (nwords s) * 64 - 1 else prevbit - 1)"
    using pos False assms(2) by auto
  have wb: "WORDNUM (if prevbit = -1 then int (nwords s) * 64 - 1 else prevbit - 1) = k"
    "BITNUM (if prevbit = -1 then int (nwords s) * 64 - 1 else prevbit - 1) = b"
    unfolding WORDNUM_nat [OF nn] BITNUM_nat [OF nn] by (simp_all only: k_def b_def x_def)
  have "bms_prev_member a prevbit = words_prev (Suc k) (words s) (drop_bit (64 - (b + 1)) (NOT 0))"
    using False unfolding bms_prev_member_def s option.case Let_def wb by simp
  moreover have "words_set (take k (words s) @ [words s ! k AND drop_bit (64 - (b + 1)) (NOT 0)]) = S"
  proof (rule set_eqI)
    fix n
    have ws: "words s = take k (words s) @ (words s ! k) # drop (Suc k) (words s)"
      using klt by (simp add: Cons_nth_drop_Suc)
    have mem: "n \<in> words_set (words s) \<longleftrightarrow> (if n < 64 * k then n \<in> words_set (take k (words s))
        else if n - 64 * k < 64 then bit (words s ! k) (n - 64 * k)
        else n - 64 * k - 64 \<in> words_set (drop (Suc k) (words s)))"
      using klt by (subst ws, subst words_set_append) (simp add: words_set_Cons)
    have mem': "n \<in> words_set (take k (words s) @ [words s ! k AND drop_bit (64 - (b + 1)) (NOT 0)]) \<longleftrightarrow>
        (if n < 64 * k then n \<in> words_set (take k (words s))
         else n - 64 * k < 64 \<and> bit (words s ! k) (n - 64 * k) \<and> n - 64 * k \<le> b)"
      using klt bit_low_mask [OF x(2), of "n - 64 * k"]
      by (subst words_set_append) (simp add: words_set_Cons bit_and_iff)
    show "n \<in> words_set (take k (words s) @ [words s ! k AND drop_bit (64 - (b + 1)) (NOT 0)]) \<longleftrightarrow> n \<in> S"
      unfolding mem' S mem_Collect_eq mem using x by auto
  qed
  ultimately show ?thesis by (simp only: words_prev_eq [OF klt] Let_def)
qed

subsection \<open>Ranges and lists\<close>

lemma words_set_range:
  assumes "length vs = length ws" "hi < 64 * length ws"
    and "\<And>i b. i < length ws \<Longrightarrow> b < 64 \<Longrightarrow>
      bit (vs ! i) b \<longleftrightarrow> bit (ws ! i) b \<or> lo \<le> 64 * i + b \<and> 64 * i + b \<le> hi"
  shows "words_set vs = words_set ws \<union> {lo..hi}"
proof (rule set_eqI)
  fix n :: nat
  have n: "64 * (n div 64) + n mod 64 = n" "n mod 64 < 64" by simp_all
  show "n \<in> words_set vs \<longleftrightarrow> n \<in> words_set ws \<union> {lo..hi}"
  proof (cases "n div 64 < length ws")
    case True
    with assms(1) assms(3) [of "n div 64" "n mod 64"] n show ?thesis by (simp add: words_set_def)
  next
    case False
    then have "64 * length ws \<le> n" by linarith
    with False assms(1,2) show ?thesis by (simp add: words_set_def)
  qed
qed

lemma bit_from_lower: "b < 64 \<Longrightarrow> bit (NOT (push_bit b 1 - 1) :: bitmapword) n \<longleftrightarrow> b \<le> n \<and> n < 64"
proof -
  have "push_bit b 1 - 1 = (mask b :: bitmapword)" by (simp add: mask_eq_exp_minus_1)
  moreover assume "b < 64"
  ultimately show ?thesis by (auto simp: bit_not_iff bit_mask_iff possible_bit_word)
qed

lemma bms_add_range_set:
  assumes "0 \<le> lower" "lower \<le> upper"
  shows "\<exists>s. bms_add_range a lower upper = Inr (Some s) \<and>
    words_set (words s) = bms_set a \<union> {nat lower..nat upper}"
proof -
  define lo where "lo = nat lower"
  define hi where "hi = nat upper"
  define l where "l = lo div 64"
  define u where "u = hi div 64"
  define lb where "lb = lo mod 64"
  define ub where "ub = hi mod 64"
  have lo: "lo = 64 * l + lb" "lb < 64" and hi: "hi = 64 * u + ub" "ub < 64"
    by (simp_all add: l_def u_def lb_def ub_def)
  have lohi: "lo \<le> hi" using assms by (simp add: lo_def hi_def)
  have lu: "l \<le> u" using lohi by (simp add: l_def u_def div_le_mono)
  have wb: "WORDNUM lower = l" "BITNUM lower = lb" "WORDNUM upper = u" "BITNUM upper = ub"
    using assms by (simp_all add: WORDNUM_nat BITNUM_nat l_def u_def lb_def ub_def lo_def hi_def)
  define ws where "ws = (case a of None \<Rightarrow> replicate (u + 1) 0 | Some s \<Rightarrow> words_enlarge u (words s))"
  have ws: "words_set ws = bms_set a" and ulen: "u < length ws"
    by (simp_all add: ws_def del: replicate_Suc split: option.split)
  have hilen: "hi < 64 * length ws" using hi ulen by simp
  define fl where "fl = NOT (push_bit lb 1 - 1 :: bitmapword)"
  define tu where "tu = drop_bit (64 - (ub + 1)) (NOT 0 :: bitmapword)"
  have fl: "bit fl n \<longleftrightarrow> lb \<le> n \<and> n < 64" and tu: "bit tu n \<longleftrightarrow> n \<le> ub" for n
    unfolding fl_def tu_def by (rule bit_from_lower [OF lo(2)], rule bit_low_mask [OF hi(2)])
  define vs where "vs = (if l = u then ws[l := ws ! l OR (fl AND tu)]
      else let ws1 = ws[l := ws ! l OR fl];
               ws2 = take (l + 1) ws1 @ replicate (u - (l + 1)) (NOT 0) @ drop u ws1
           in ws2[u := ws2 ! u OR tu])"
  have res: "bms_add_range a lower upper = Inr (Some \<lparr>words = vs\<rparr>)"
    using assms unfolding bms_add_range_def wb Let_def vs_def fl_def tu_def ws_def by simp
  have len: "length vs = length ws"
    using lu ulen by (auto simp: vs_def Let_def)
  have "bit (vs ! i) b \<longleftrightarrow> bit (ws ! i) b \<or> lo \<le> 64 * i + b \<and> 64 * i + b \<le> hi"
    if i: "i < length ws" and b: "b < 64" for i b
  proof (cases "l = u")
    case True
    have "lo \<le> 64 * i + b \<and> 64 * i + b \<le> hi \<longleftrightarrow> i = l \<and> lb \<le> b \<and> b \<le> ub"
      using lo hi b True by (cases i l rule: linorder_cases) auto
    moreover have "vs ! i = (if i = l then ws ! l OR (fl AND tu) else ws ! i)"
      using True i ulen by (simp add: vs_def nth_list_update)
    ultimately show ?thesis using b by (auto simp: bit_or_iff bit_and_iff fl tu)
  next
    case False
    then have lt: "l < u" using lu by simp
    have "lo \<le> 64 * i + b \<and> 64 * i + b \<le> hi \<longleftrightarrow>
        i = l \<and> lb \<le> b \<or> l < i \<and> i < u \<or> i = u \<and> b \<le> ub"
      using lo hi b lt by (cases i l rule: linorder_cases; cases i u rule: linorder_cases) auto
    moreover have "vs ! i = (if i = l then ws ! l OR fl else if l < i \<and> i < u then NOT 0
        else if i = u then ws ! u OR tu else ws ! i)"
      using lt i ulen by (auto simp: vs_def Let_def nth_list_update nth_append)
    ultimately show ?thesis using b lt by (auto simp: bit_or_iff bit_not_iff possible_bit_word fl tu)
  qed
  from words_set_range [OF len hilen this] have "words_set vs = bms_set a \<union> {lo..hi}"
    by (simp add: ws)
  with res show ?thesis by (simp add: lo_def hi_def)
qed

lemma bms_overlap_list_eq:
  assumes "\<And>x. x \<in> set xs \<Longrightarrow> 0 \<le> x"
  shows "bms_overlap_list a xs = Inr (bms_set a \<inter> nat ` set xs \<noteq> {})"
proof -
  have "overlap_list_loop s xs = Inr (words_set (words s) \<inter> nat ` set xs \<noteq> {})" for s
    using assms
  proof (induction xs)
    case (Cons x xs)
    have "0 \<le> x" using Cons.prems by simp
    then have "overlap_list_loop s (x # xs) =
        (if nat x \<in> words_set (words s) then Inr True else overlap_list_loop s xs)"
      by (auto simp: Let_def words_set_def WORDNUM_nat BITNUM_nat word_and_bit)
    with Cons show ?case by auto
  qed simp
  then show ?thesis by (auto simp: bms_overlap_list_def split: option.split)
qed

section \<open>The contracts hold\<close>

interpretation bms: member_set_algebra
  "None :: bms" bms_add_member bms_del_member bms_is_member negative_member bms_set
  bms_union bms_intersect bms_difference bms_is_subset bms_equal
proof unfold_locales
  fix x :: int and s :: bms
  show "0 \<le> x \<Longrightarrow> \<exists>s'. bms_add_member s x = Inr s' \<and> bms_set s' = insert (nat x) (bms_set s)"
    using bms_add_member_set [of x s] by auto
  show "0 \<le> x \<Longrightarrow> \<exists>s'. bms_del_member s x = Inr s' \<and> bms_set s' = bms_set s - {nat x}"
    by (rule bms_del_member_set)
qed (simp_all add: bms_is_member_eq bms_add_member_def bms_del_member_def bms_set_union
    bms_set_intersect bms_set_difference bms_is_subset_iff bms_equal_iff)

interpretation bms_recycled: member_set_algebra
  "None :: bms" bms_add_member bms_del_member bms_is_member negative_member bms_set
  bms_add_members bms_int_members bms_del_members bms_is_subset bms_equal
  by unfold_locales (simp_all add: bms_set_add_members bms_set_int_members bms_set_del_members
    bms_is_subset_iff bms_equal_iff)

interpretation bms_next: ascending_scan bms_next_member bms_set
  by unfold_locales (simp_all only: finite_bms_set bms_next_member_eq)

interpretation bms_first: draining bms_first_member bms_set
proof unfold_locales
  fix s :: bms
  obtain x t where xt: "bms_first_member s = (x, t)" by fastforce
  note * = bms_first_member_eq [OF xt]
  show "bms_set s = {} \<Longrightarrow> fst (bms_first_member s) = -1" using * xt by auto
  show "bms_set s \<noteq> {} \<Longrightarrow> fst (bms_first_member s) = int (Min (bms_set s))
      \<and> bms_set (snd (bms_first_member s)) = bms_set s - {Min (bms_set s)}" using * xt by auto
qed simp

lemma subset_verdict_EQUAL:
  "subset_verdict BMS_EQUAL A B =
     (if A = B then BMS_EQUAL else if A \<subseteq> B then BMS_SUBSET1
      else if B \<subseteq> A then BMS_SUBSET2 else BMS_DIFFERENT)"
  by (auto simp: subset_verdict_def)

section \<open>Properties\<close>

text \<open>C17. Every binary operation of the module computes the set operation it is named after,
  whichever argument is longer and whether it copies or recycles its input.\<close>

theorem bms_operations_refine_sets:
  "bms_set (bms_union a b) = bms_set a \<union> bms_set b
   \<and> bms_set (bms_intersect a b) = bms_set a \<inter> bms_set b
   \<and> bms_set (bms_difference a b) = bms_set a - bms_set b
   \<and> bms_set (bms_add_members a b) = bms_set a \<union> bms_set b
   \<and> bms_set (bms_join a b) = bms_set a \<union> bms_set b
   \<and> bms_set (bms_int_members a b) = bms_set a \<inter> bms_set b
   \<and> bms_set (bms_del_members a b) = bms_set a - bms_set b
   \<and> bms_equal a b = (bms_set a = bms_set b)
   \<and> bms_is_subset a b = (bms_set a \<subseteq> bms_set b)
   \<and> bms_overlap a b = (bms_set a \<inter> bms_set b \<noteq> {})
   \<and> bms_nonempty_difference a b = (bms_set a - bms_set b \<noteq> {})
   \<and> bms_subset_compare a b =
       (if bms_set a = bms_set b then BMS_EQUAL
        else if bms_set a \<subseteq> bms_set b then BMS_SUBSET1
        else if bms_set b \<subseteq> bms_set a then BMS_SUBSET2 else BMS_DIFFERENT)"
  by (simp add: bms_set_union bms_set_intersect bms_set_difference bms_set_add_members bms_set_join
      bms_set_int_members bms_set_del_members bms_equal_iff bms_is_subset_iff bms_overlap_iff
      bms_nonempty_difference_iff bms_subset_compare_eq subset_verdict_EQUAL)




text \<open>C40. \<open>bms_compare\<close> is an antisymmetric comparison that reports 0 exactly on equal sets
  and +1 exactly when the highest number in one set but not the other is in the first.\<close>

theorem bms_compare_order:
  "(bms_compare a b = 0 \<longleftrightarrow> bms_equal a b)
   \<and> bms_compare b a = - bms_compare a b
   \<and> (bms_compare a b = 1 \<longleftrightarrow> bms_set a \<noteq> bms_set b
        \<and> Max ((bms_set a - bms_set b) \<union> (bms_set b - bms_set a)) \<in> bms_set a)"
proof -
  let ?D = "(bms_set a - bms_set b) \<union> (bms_set b - bms_set a)"
  have fin: "finite ?D" by simp
  have "(\<exists>k \<in> bms_set a - bms_set b. \<forall>j>k. j \<in> bms_set a \<longleftrightarrow> j \<in> bms_set b)
      \<longleftrightarrow> ?D \<noteq> {} \<and> Max ?D \<in> bms_set a" (is "?L \<longleftrightarrow> ?R")
  proof
    assume ?L
    then obtain k where k: "k \<in> bms_set a - bms_set b" "\<forall>j>k. j \<in> bms_set a \<longleftrightarrow> j \<in> bms_set b" by blast
    have "Max ?D = k" using k by (intro Max_eqI fin) (auto simp: not_less [symmetric])
    with k show ?R by auto
  next
    assume R: ?R
    have "Max ?D \<in> ?D" using R fin by (intro Max_in) blast+
    with R have "Max ?D \<in> bms_set a - bms_set b" by blast
    moreover have "j \<in> bms_set a \<longleftrightarrow> j \<in> bms_set b" if "Max ?D < j" for j
    proof -
      have "j \<notin> ?D" using Max_ge [OF fin, of j] that by (meson not_less)
      then show ?thesis by blast
    qed
    ultimately show ?L by blast
  qed
  also have "?D \<noteq> {} \<longleftrightarrow> bms_set a \<noteq> bms_set b" by auto
  finally have "bms_compare a b = 1 \<longleftrightarrow> bms_set a \<noteq> bms_set b \<and> Max ?D \<in> bms_set a"
    unfolding bms_compare_highest(2) .
  then show ?thesis
    using bms_compare_highest(1) [of a b, folded bms_equal_iff] bms_compare_highest(3) [of b a]
    by (intro conjI)
qed

end
