(* ===== verification/Transam.thy ===== *)
theory Transam imports Prelude begin

text \<open>
  Transaction identifiers and their recorded outcome:
  \<^verbatim>\<open>src/include/access/transam.h\<close> (xids and their macros),
  \<^verbatim>\<open>src/backend/access/transam/clog.c\<close> (two status bits per xid),
  \<^verbatim>\<open>src/backend/access/transam/subtrans.c\<close> (the parent of each subtransaction) and
  \<^verbatim>\<open>src/backend/access/transam/transam.c\<close> (the queries the visibility code uses).

  The page caches under clog and subtrans (slru.c) are represented by the logical contents of
  the pages: a page is addressed by its page number where the code has a buffer slot holding
  that page, and the buffer's memory is a function of the byte offset.  Shared-memory locks
  make each page update atomic, so a commit that touches several pages is a list of page
  updates between which another backend may look.  \<open>Assert\<close> conditions are not tests of a
  production build; where a result depends on one it is a hypothesis.  \<open>elog(WARNING)\<close> output
  is not represented.
\<close>

section \<open>Transaction identifiers\<close>

type_synonym TransactionId = uint32
type_synonym XLogRecPtr = uint64

abbreviation InvalidTransactionId :: TransactionId where "InvalidTransactionId \<equiv> 0"
abbreviation BootstrapTransactionId :: TransactionId where "BootstrapTransactionId \<equiv> 1"
abbreviation FrozenTransactionId :: TransactionId where "FrozenTransactionId \<equiv> 2"
abbreviation FirstNormalTransactionId :: TransactionId where "FirstNormalTransactionId \<equiv> 3"
abbreviation InvalidXLogRecPtr :: XLogRecPtr where "InvalidXLogRecPtr \<equiv> 0"

definition TransactionIdIsValid :: "TransactionId \<Rightarrow> bool" where
  "TransactionIdIsValid xid \<longleftrightarrow> xid \<noteq> InvalidTransactionId"

definition TransactionIdIsNormal :: "TransactionId \<Rightarrow> bool" where
  "TransactionIdIsNormal xid \<longleftrightarrow> xid \<ge> FirstNormalTransactionId"

definition TransactionIdAdvance :: "TransactionId \<Rightarrow> TransactionId" where
  "TransactionIdAdvance dest =
     (let dest = dest + 1
      in if dest < FirstNormalTransactionId then FirstNormalTransactionId else dest)"

text \<open>\<open>do { dest--; } while (dest < FirstNormalTransactionId)\<close>\<close>

function TransactionIdRetreat :: "TransactionId \<Rightarrow> TransactionId" where
  "TransactionIdRetreat dest =
     (let dest = dest - 1
      in if dest < FirstNormalTransactionId then TransactionIdRetreat dest else dest)"
  by pat_completeness auto
termination
proof (relation "measure unat")
  fix dest d :: TransactionId assume d: "d = dest - 1" "d < FirstNormalTransactionId"
  then have "dest \<noteq> 0" by auto
  then have "0 < unat dest" by (simp add: unat_gt_0)
  with d \<open>dest \<noteq> 0\<close> show "(d, dest) \<in> measure unat" by (simp add: unat_minus_one)
qed simp

definition TransactionIdPrecedes :: "TransactionId \<Rightarrow> TransactionId \<Rightarrow> bool" where
  "TransactionIdPrecedes id1 id2 =
     (if \<not> TransactionIdIsNormal id1 \<or> \<not> TransactionIdIsNormal id2 then id1 < id2
      else sint (id1 - id2) < 0)"

definition TransactionIdPrecedesOrEquals :: "TransactionId \<Rightarrow> TransactionId \<Rightarrow> bool" where
  "TransactionIdPrecedesOrEquals id1 id2 =
     (if \<not> TransactionIdIsNormal id1 \<or> \<not> TransactionIdIsNormal id2 then id1 \<le> id2
      else sint (id1 - id2) \<le> 0)"

definition TransactionIdFollows :: "TransactionId \<Rightarrow> TransactionId \<Rightarrow> bool" where
  "TransactionIdFollows id1 id2 =
     (if \<not> TransactionIdIsNormal id1 \<or> \<not> TransactionIdIsNormal id2 then id1 > id2
      else sint (id1 - id2) > 0)"

definition TransactionIdFollowsOrEquals :: "TransactionId \<Rightarrow> TransactionId \<Rightarrow> bool" where
  "TransactionIdFollowsOrEquals id1 id2 =
     (if \<not> TransactionIdIsNormal id1 \<or> \<not> TransactionIdIsNormal id2 then id1 \<ge> id2
      else sint (id1 - id2) \<ge> 0)"

text \<open>The array is scanned back to front.\<close>

fun latest_loop :: "TransactionId \<Rightarrow> TransactionId list \<Rightarrow> TransactionId" where
  "latest_loop result [] = result"
| "latest_loop result (x # xs) =
     latest_loop (if TransactionIdPrecedes result x then x else result) xs"

definition TransactionIdLatest :: "TransactionId \<Rightarrow> TransactionId list \<Rightarrow> TransactionId" where
  "TransactionIdLatest mainxid xids = latest_loop mainxid (rev xids)"

section \<open>The commit log\<close>

type_synonym XidStatus = uint8

abbreviation TRANSACTION_STATUS_IN_PROGRESS :: XidStatus where
  "TRANSACTION_STATUS_IN_PROGRESS \<equiv> 0"
abbreviation TRANSACTION_STATUS_COMMITTED :: XidStatus where
  "TRANSACTION_STATUS_COMMITTED \<equiv> 1"
abbreviation TRANSACTION_STATUS_ABORTED :: XidStatus where
  "TRANSACTION_STATUS_ABORTED \<equiv> 2"
abbreviation TRANSACTION_STATUS_SUB_COMMITTED :: XidStatus where
  "TRANSACTION_STATUS_SUB_COMMITTED \<equiv> 3"

abbreviation BLCKSZ :: nat where "BLCKSZ \<equiv> 8192"
abbreviation CLOG_XACTS_PER_BYTE :: nat where "CLOG_XACTS_PER_BYTE \<equiv> 4"
abbreviation CLOG_XACTS_PER_PAGE :: nat where "CLOG_XACTS_PER_PAGE \<equiv> 32768"
abbreviation CLOG_XACTS_PER_LSN_GROUP :: nat where "CLOG_XACTS_PER_LSN_GROUP \<equiv> 32"

definition TransactionIdToPage :: "TransactionId \<Rightarrow> nat" where
  "TransactionIdToPage xid = unat xid div CLOG_XACTS_PER_PAGE"

definition TransactionIdToByte :: "TransactionId \<Rightarrow> nat" where
  "TransactionIdToByte xid = unat xid mod CLOG_XACTS_PER_PAGE div CLOG_XACTS_PER_BYTE"

definition TransactionIdToBIndex :: "TransactionId \<Rightarrow> nat" where
  "TransactionIdToBIndex xid = unat xid mod CLOG_XACTS_PER_BYTE"

definition GetLSNIndex :: "TransactionId \<Rightarrow> nat" where
  "GetLSNIndex xid = unat xid mod CLOG_XACTS_PER_PAGE div CLOG_XACTS_PER_LSN_GROUP"

text \<open>\<open>page_buffer p\<close> is the memory of page \<open>p\<close>, \<open>group_lsn p\<close> its group LSNs.\<close>

record clog =
  page_buffer :: "nat \<Rightarrow> nat \<Rightarrow> uint8"
  group_lsn :: "nat \<Rightarrow> nat \<Rightarrow> XLogRecPtr"

definition TransactionIdGetStatus :: "clog \<Rightarrow> TransactionId \<Rightarrow> XidStatus \<times> XLogRecPtr" where
  "TransactionIdGetStatus c xid =
     (let pageno = TransactionIdToPage xid;
          byteno = TransactionIdToByte xid;
          bshift = TransactionIdToBIndex xid * 2;
          status = drop_bit bshift (page_buffer c pageno byteno) AND 3
      in (status, group_lsn c pageno (GetLSNIndex xid)))"

text \<open>\<open>slotno\<close> names the page the slot holds.\<close>

definition TransactionIdSetStatusBit ::
    "bool \<Rightarrow> TransactionId \<Rightarrow> XidStatus \<Rightarrow> XLogRecPtr \<Rightarrow> nat \<Rightarrow> clog \<Rightarrow> clog" where
  "TransactionIdSetStatusBit InRecovery xid status lsn slotno c =
     (let byteno = TransactionIdToByte xid;
          bshift = TransactionIdToBIndex xid * 2;
          byteval = page_buffer c slotno byteno;
          curval = drop_bit bshift byteval AND 3
      in if InRecovery \<and> status = TRANSACTION_STATUS_SUB_COMMITTED
            \<and> curval = TRANSACTION_STATUS_COMMITTED then c
         else
           let byteval = byteval AND NOT (push_bit bshift 3);
               byteval = byteval OR push_bit bshift status;
               c = c\<lparr>page_buffer := (page_buffer c)(slotno := (page_buffer c slotno)(byteno := byteval))\<rparr>
           in if lsn \<noteq> InvalidXLogRecPtr
              then
                let lsnindex = GetLSNIndex xid
                in if group_lsn c slotno lsnindex < lsn
                   then c\<lparr>group_lsn := (group_lsn c)(slotno := (group_lsn c slotno)(lsnindex := lsn))\<rparr>
                   else c
              else c)"

text \<open>\<open>for (i = 0; i < nsubxids; i++) TransactionIdSetStatusBit(subxids[i], ...)\<close>\<close>

fun set_status_bits ::
    "bool \<Rightarrow> TransactionId list \<Rightarrow> XidStatus \<Rightarrow> XLogRecPtr \<Rightarrow> nat \<Rightarrow> clog \<Rightarrow> clog" where
  "set_status_bits InRecovery [] status lsn slotno c = c"
| "set_status_bits InRecovery (x # xs) status lsn slotno c =
     set_status_bits InRecovery xs status lsn slotno
       (TransactionIdSetStatusBit InRecovery x status lsn slotno c)"

text \<open>The arguments of one call of \<open>TransactionIdSetPageStatus\<close>, which holds
  \<open>XactSLRULock\<close> exclusively while it updates the page.\<close>

record page_update =
  pu_xid :: TransactionId
  pu_subxids :: "TransactionId list"
  pu_status :: XidStatus
  pu_lsn :: XLogRecPtr
  pu_page :: nat

definition TransactionIdSetPageStatusInternal :: "bool \<Rightarrow> page_update \<Rightarrow> clog \<Rightarrow> clog" where
  "TransactionIdSetPageStatusInternal InRecovery u c =
     (let xid = pu_xid u; subxids = pu_subxids u; status = pu_status u; lsn = pu_lsn u;
          slotno = pu_page u;
          c = (if TransactionIdIsValid xid
               then
                 let c = (if status = TRANSACTION_STATUS_COMMITTED
                          then set_status_bits InRecovery subxids
                                 TRANSACTION_STATUS_SUB_COMMITTED lsn slotno c
                          else c)
                 in TransactionIdSetStatusBit InRecovery xid status lsn slotno c
               else c)
      in set_status_bits InRecovery subxids status lsn slotno c)"

text \<open>The loop of \<open>set_status_by_pages\<close>: the calls it makes, in order.\<close>

function status_by_pages_loop ::
    "nat \<Rightarrow> TransactionId list \<Rightarrow> XidStatus \<Rightarrow> XLogRecPtr \<Rightarrow> page_update list" where
  "status_by_pages_loop pageno subxids status lsn =
     (if subxids = [] then []
      else
        let on_page = takeWhile (\<lambda>x. TransactionIdToPage x = pageno) subxids;
            remaining = dropWhile (\<lambda>x. TransactionIdToPage x = pageno) subxids;
            nextpageno = (case remaining of [] \<Rightarrow> pageno | y # _ \<Rightarrow> TransactionIdToPage y)
        in \<lparr>pu_xid = InvalidTransactionId, pu_subxids = on_page, pu_status = status,
            pu_lsn = lsn, pu_page = pageno\<rparr>
           # status_by_pages_loop nextpageno remaining status lsn)"
  by pat_completeness auto
termination
proof (relation "measure (\<lambda>(p, xs, _, _). 2 * length xs
    + (if xs \<noteq> [] \<and> TransactionIdToPage (hd xs) \<noteq> p then 1 else 0))")
  fix pageno :: nat and subxids :: "TransactionId list" and status lsn on_page remaining nextpageno
  assume ne: "subxids \<noteq> []"
    and r: "remaining = dropWhile (\<lambda>x. TransactionIdToPage x = pageno) subxids"
    and n: "nextpageno = (case remaining of [] \<Rightarrow> pageno | y # _ \<Rightarrow> TransactionIdToPage y)"
  have "length remaining < length subxids" if "TransactionIdToPage (hd subxids) = pageno"
    using that ne r by (cases subxids) (auto simp: length_dropWhile_le le_imp_less_Suc)
  moreover have "length remaining \<le> length subxids" using r by (simp add: length_dropWhile_le)
  moreover have "\<not> (remaining \<noteq> [] \<and> TransactionIdToPage (hd remaining) \<noteq> nextpageno)"
    using n by (cases remaining) auto
  ultimately show "((nextpageno, remaining, status, lsn), pageno, subxids, status, lsn)
      \<in> measure (\<lambda>(p, xs, _, _). 2 * length xs
          + (if xs \<noteq> [] \<and> TransactionIdToPage (hd xs) \<noteq> p then 1 else 0))"
    using ne by (cases "TransactionIdToPage (hd subxids) = pageno") auto
qed simp

definition set_status_by_pages ::
    "TransactionId list \<Rightarrow> XidStatus \<Rightarrow> XLogRecPtr \<Rightarrow> page_update list" where
  "set_status_by_pages subxids status lsn =
     status_by_pages_loop (TransactionIdToPage (hd subxids)) subxids status lsn"

text \<open>The calls \<open>TransactionIdSetTreeStatus\<close> makes, in order.\<close>

definition tree_status_updates ::
    "TransactionId \<Rightarrow> TransactionId list \<Rightarrow> XidStatus \<Rightarrow> XLogRecPtr \<Rightarrow> page_update list" where
  "tree_status_updates xid subxids status lsn =
     (let pageno = TransactionIdToPage xid;
          first = takeWhile (\<lambda>x. TransactionIdToPage x = pageno) subxids;
          others = dropWhile (\<lambda>x. TransactionIdToPage x = pageno) subxids
      in if others = []
         then [\<lparr>pu_xid = xid, pu_subxids = subxids, pu_status = status, pu_lsn = lsn,
                pu_page = pageno\<rparr>]
         else
           (if status = TRANSACTION_STATUS_COMMITTED
            then set_status_by_pages others TRANSACTION_STATUS_SUB_COMMITTED lsn else [])
           @ \<lparr>pu_xid = xid, pu_subxids = first, pu_status = status, pu_lsn = lsn,
              pu_page = pageno\<rparr>
           # set_status_by_pages others status lsn)"

definition TransactionIdSetTreeStatus ::
    "bool \<Rightarrow> TransactionId \<Rightarrow> TransactionId list \<Rightarrow> XidStatus \<Rightarrow> XLogRecPtr \<Rightarrow> clog \<Rightarrow> clog" where
  "TransactionIdSetTreeStatus InRecovery xid subxids status lsn c =
     fold (TransactionIdSetPageStatusInternal InRecovery)
       (tree_status_updates xid subxids status lsn) c"

definition TransactionIdCommitTree :: "bool \<Rightarrow> TransactionId \<Rightarrow> TransactionId list \<Rightarrow> clog \<Rightarrow> clog" where
  "TransactionIdCommitTree InRecovery xid xids =
     TransactionIdSetTreeStatus InRecovery xid xids TRANSACTION_STATUS_COMMITTED InvalidXLogRecPtr"

definition TransactionIdAsyncCommitTree ::
    "bool \<Rightarrow> TransactionId \<Rightarrow> TransactionId list \<Rightarrow> XLogRecPtr \<Rightarrow> clog \<Rightarrow> clog" where
  "TransactionIdAsyncCommitTree InRecovery xid xids lsn =
     TransactionIdSetTreeStatus InRecovery xid xids TRANSACTION_STATUS_COMMITTED lsn"

definition TransactionIdAbortTree :: "bool \<Rightarrow> TransactionId \<Rightarrow> TransactionId list \<Rightarrow> clog \<Rightarrow> clog" where
  "TransactionIdAbortTree InRecovery xid xids =
     TransactionIdSetTreeStatus InRecovery xid xids TRANSACTION_STATUS_ABORTED InvalidXLogRecPtr"

section \<open>Parents of subtransactions\<close>

abbreviation SUBTRANS_XACTS_PER_PAGE :: nat where "SUBTRANS_XACTS_PER_PAGE \<equiv> 2048"

definition SubTransIdToPage :: "TransactionId \<Rightarrow> nat" where
  "SubTransIdToPage xid = unat xid div SUBTRANS_XACTS_PER_PAGE"

definition TransactionIdToEntry :: "TransactionId \<Rightarrow> nat" where
  "TransactionIdToEntry xid = unat xid mod SUBTRANS_XACTS_PER_PAGE"

type_synonym subtrans = "nat \<Rightarrow> nat \<Rightarrow> TransactionId"

definition SubTransSetParent :: "TransactionId \<Rightarrow> TransactionId \<Rightarrow> subtrans \<Rightarrow> subtrans" where
  "SubTransSetParent xid parent s =
     (let pageno = SubTransIdToPage xid; entryno = TransactionIdToEntry xid
      in if s pageno entryno \<noteq> parent then s(pageno := (s pageno)(entryno := parent)) else s)"

definition SubTransGetParent :: "subtrans \<Rightarrow> TransactionId \<Rightarrow> TransactionId" where
  "SubTransGetParent s xid =
     (if \<not> TransactionIdIsNormal xid then InvalidTransactionId
      else s (SubTransIdToPage xid) (TransactionIdToEntry xid))"

text \<open>The loop of \<open>SubTransGetTopmostTransaction\<close>, with \<open>None\<close> for not returning.\<close>

partial_function (option) topmost_loop ::
    "subtrans \<Rightarrow> TransactionId \<Rightarrow> TransactionId \<Rightarrow> TransactionId \<Rightarrow> TransactionId result option" where
  "topmost_loop s TransactionXmin parentXid previousXid =
     (if TransactionIdIsValid parentXid
      then
        let previousXid = parentXid
        in if TransactionIdPrecedes parentXid TransactionXmin then Some (Inr previousXid)
           else
             let parentXid = SubTransGetParent s parentXid
             in if \<not> TransactionIdPrecedes parentXid previousXid
                then Some (Inl (Elog ''pg_subtrans contains invalid entry''))
                else topmost_loop s TransactionXmin parentXid previousXid
      else Some (Inr previousXid))"

definition SubTransGetTopmostTransaction ::
    "subtrans \<Rightarrow> TransactionId \<Rightarrow> TransactionId \<Rightarrow> TransactionId result option" where
  "SubTransGetTopmostTransaction s TransactionXmin xid = topmost_loop s TransactionXmin xid xid"

section \<open>The queries on the log\<close>

text \<open>The backend's single-item cache.\<close>

record xid_cache =
  cachedFetchXid :: TransactionId
  cachedFetchXidStatus :: XidStatus
  cachedCommitLSN :: XLogRecPtr

definition TransactionLogFetch :: "clog \<Rightarrow> TransactionId \<Rightarrow> xid_cache \<Rightarrow> XidStatus \<times> xid_cache" where
  "TransactionLogFetch c transactionId cache =
     (if transactionId = cachedFetchXid cache then (cachedFetchXidStatus cache, cache)
      else if \<not> TransactionIdIsNormal transactionId then
        (if transactionId = BootstrapTransactionId then (TRANSACTION_STATUS_COMMITTED, cache)
         else if transactionId = FrozenTransactionId then (TRANSACTION_STATUS_COMMITTED, cache)
         else (TRANSACTION_STATUS_ABORTED, cache))
      else
        let (xidstatus, xidlsn) = TransactionIdGetStatus c transactionId
        in if xidstatus \<noteq> TRANSACTION_STATUS_IN_PROGRESS
              \<and> xidstatus \<noteq> TRANSACTION_STATUS_SUB_COMMITTED
           then (xidstatus, cache\<lparr>cachedFetchXid := transactionId,
                   cachedFetchXidStatus := xidstatus, cachedCommitLSN := xidlsn\<rparr>)
           else (xidstatus, cache))"

text \<open>What the queries read: the log, the parents and the backend's \<open>TransactionXmin\<close>.\<close>

record xact_log =
  xl_clog :: clog
  xl_subtrans :: subtrans
  xl_xmin :: TransactionId

partial_function (option) TransactionIdDidCommit ::
    "xact_log \<Rightarrow> TransactionId \<Rightarrow> xid_cache \<Rightarrow> (bool \<times> xid_cache) option" where
  "TransactionIdDidCommit l transactionId cache =
     (case TransactionLogFetch (xl_clog l) transactionId cache of (xidstatus, cache) \<Rightarrow>
        if xidstatus = TRANSACTION_STATUS_COMMITTED then Some (True, cache)
        else if xidstatus = TRANSACTION_STATUS_SUB_COMMITTED then
          (if TransactionIdPrecedes transactionId (xl_xmin l) then Some (False, cache)
           else
             let parentXid = SubTransGetParent (xl_subtrans l) transactionId
             in if \<not> TransactionIdIsValid parentXid then Some (False, cache)
                else TransactionIdDidCommit l parentXid cache)
        else Some (False, cache))"

partial_function (option) TransactionIdDidAbort ::
    "xact_log \<Rightarrow> TransactionId \<Rightarrow> xid_cache \<Rightarrow> (bool \<times> xid_cache) option" where
  "TransactionIdDidAbort l transactionId cache =
     (case TransactionLogFetch (xl_clog l) transactionId cache of (xidstatus, cache) \<Rightarrow>
        if xidstatus = TRANSACTION_STATUS_ABORTED then Some (True, cache)
        else if xidstatus = TRANSACTION_STATUS_SUB_COMMITTED then
          (if TransactionIdPrecedes transactionId (xl_xmin l) then Some (True, cache)
           else
             let parentXid = SubTransGetParent (xl_subtrans l) transactionId
             in if \<not> TransactionIdIsValid parentXid then Some (True, cache)
                else TransactionIdDidAbort l parentXid cache)
        else Some (False, cache))"

definition TransactionIdIsKnownCompleted :: "xid_cache \<Rightarrow> TransactionId \<Rightarrow> bool" where
  "TransactionIdIsKnownCompleted cache transactionId \<longleftrightarrow> transactionId = cachedFetchXid cache"

definition TransactionIdGetCommitLSN :: "clog \<Rightarrow> xid_cache \<Rightarrow> TransactionId \<Rightarrow> XLogRecPtr" where
  "TransactionIdGetCommitLSN c cache xid =
     (if xid = cachedFetchXid cache then cachedCommitLSN cache
      else if \<not> TransactionIdIsNormal xid then InvalidXLogRecPtr
      else snd (TransactionIdGetStatus c xid))"

declare status_by_pages_loop.simps [simp del] TransactionIdRetreat.simps [simp del]

section \<open>Comparison of transaction identifiers\<close>

lemma sint_neg_iff: "sint (w :: 32 word) < 0 \<longleftrightarrow> 2 ^ 31 \<le> unat w"
proof -
  have "sint w < 0 \<longleftrightarrow> bit w 31" using bit_last_iff [of w] by simp
  also have "\<dots> \<longleftrightarrow> bit (unat w) 31" by (simp add: bit_unsigned_iff)
  also have "\<dots> \<longleftrightarrow> odd (unat w div 2 ^ 31)" by (simp only: bit_iff_odd)
  finally have "sint w < 0 \<longleftrightarrow> odd (unat w div 2 ^ 31)" .
  moreover have "unat w < 2 ^ 32" by (rule order_less_le_trans [OF unsigned_less]) simp
  then have "unat w div 2 ^ 31 < 2" by simp
  then have "unat w div 2 ^ 31 = 0 \<or> unat w div 2 ^ 31 = 1" by linarith
  ultimately show ?thesis by auto
qed

text \<open>Within any window of 2^31 identifiers the modulo comparison is the order of distances
  from the window's start.\<close>

lemma Precedes_window:
  assumes "TransactionIdIsNormal x" "TransactionIdIsNormal y"
    and "unat (x - b) < 2 ^ 31" "unat (y - b) < 2 ^ 31"
  shows "TransactionIdPrecedes x y \<longleftrightarrow> unat (x - b) < unat (y - b)"
proof -
  define u v where uv: "u = x - b" "v = y - b"
  have "x - y = u - v" by (simp add: uv)
  then have "sint (x - y) < 0 \<longleftrightarrow> 2 ^ 31 \<le> unat (u - v)" by (simp only: sint_neg_iff)
  also have "\<dots> \<longleftrightarrow> unat u < unat v"
    using assms(3,4) by (auto simp: unat_sub_if' uv [symmetric])
  also have "\<dots> \<longleftrightarrow> unat (x - b) < unat (y - b)" by (simp only: uv)
  finally show ?thesis using assms(1,2) by (simp add: TransactionIdPrecedes_def)
qed

text \<open>Two normal identifiers are always ordered, and the code's four comparisons agree.\<close>

lemma Precedes_iff_far:
  assumes "TransactionIdIsNormal x" "TransactionIdIsNormal m"
  shows "TransactionIdPrecedes x m \<longleftrightarrow> 2 ^ 31 \<le> unat (x - m)"
  using assms by (simp add: TransactionIdPrecedes_def sint_neg_iff)

lemma Normal_word: "TransactionIdIsNormal x \<longleftrightarrow> x \<noteq> 0 \<and> x \<noteq> 1 \<and> x \<noteq> 2"
proof -
  have "x \<ge> 3 \<longleftrightarrow> unat x \<ge> 3" by (simp add: word_le_nat_alt)
  also have "\<dots> \<longleftrightarrow> unat x \<noteq> unat (0 :: uint32) \<and> unat x \<noteq> unat (1 :: uint32) \<and> unat x \<noteq> unat (2 :: uint32)"
    by auto
  also have "\<dots> \<longleftrightarrow> x \<noteq> 0 \<and> x \<noteq> 1 \<and> x \<noteq> 2" by (simp only: word_unat_eq_iff)
  finally show ?thesis by (simp add: TransactionIdIsNormal_def)
qed

lemma Normal_not_special [simp]:
  "\<not> TransactionIdIsNormal 0" "\<not> TransactionIdIsNormal 1" "\<not> TransactionIdIsNormal 2"
  by (simp_all add: Normal_word)

lemma Normal_valid: "TransactionIdIsNormal x \<Longrightarrow> TransactionIdIsValid x"
  by (auto simp: Normal_word TransactionIdIsValid_def)

lemma Precedes_special:
  assumes "\<not> TransactionIdIsNormal p" "TransactionIdIsNormal x"
  shows "TransactionIdPrecedes p x"
proof -
  have "p < 3" "3 \<le> x" using assms by (auto simp: TransactionIdIsNormal_def not_le)
  then show ?thesis using assms by (simp add: TransactionIdPrecedes_def)
qed

lemma Precedes_irrefl [simp]: "\<not> TransactionIdPrecedes x x"
  by (simp add: TransactionIdPrecedes_def)

lemma Precedes_zero_right [simp]: "\<not> TransactionIdPrecedes x 0"
  by (simp add: TransactionIdPrecedes_def)

text \<open>The step every walk up the parents makes: an older identifier that is not yet before
  the horizon is closer to it.\<close>

lemma Precedes_decreases:
  assumes "TransactionIdIsNormal m" "TransactionIdPrecedes p x"
    and "\<not> TransactionIdPrecedes p m" "\<not> TransactionIdPrecedes x m"
  shows "unat (p - m) < unat (x - m)"
proof -
  have np: "TransactionIdIsNormal p" using assms(1,3) Precedes_special by blast
  have nx: "TransactionIdIsNormal x" using assms(1,4) Precedes_special by blast
  show ?thesis
    using assms np nx Precedes_window [of p x m] Precedes_iff_far [of p m] Precedes_iff_far [of x m]
    by simp
qed

section \<open>Status bits\<close>

abbreviation clog_status :: "clog \<Rightarrow> TransactionId \<Rightarrow> XidStatus" where
  "clog_status c xid \<equiv> fst (TransactionIdGetStatus c xid)"

abbreviation clog_lsn :: "clog \<Rightarrow> TransactionId \<Rightarrow> XLogRecPtr" where
  "clog_lsn c xid \<equiv> snd (TransactionIdGetStatus c xid)"

lemma clog_bounds:
  "TransactionIdToByte xid < BLCKSZ" "TransactionIdToBIndex xid < 4" "GetLSNIndex xid < 1024"
  by (simp_all add: TransactionIdToByte_def TransactionIdToBIndex_def GetLSNIndex_def less_mult_imp_div_less)

lemma clog_address:
  "unat xid = TransactionIdToPage xid * 32768 + TransactionIdToByte xid * 4 + TransactionIdToBIndex xid"
proof -
  have "unat xid mod 4 = unat xid mod 32768 mod 4" by (simp add: mod_mod_cancel)
  then show ?thesis
    unfolding TransactionIdToPage_def TransactionIdToByte_def TransactionIdToBIndex_def
    by (metis add.assoc div_mult_mod_eq)
qed

lemma clog_address_inj:
  assumes "TransactionIdToPage x = TransactionIdToPage y" "TransactionIdToByte x = TransactionIdToByte y"
    and "TransactionIdToBIndex x = TransactionIdToBIndex y"
  shows "x = y"
proof -
  have "unat x = unat y" using assms clog_address [of x] clog_address [of y] by simp
  then show ?thesis by (simp add: word_unat_eq_iff)
qed

text \<open>Four two-bit fields in a byte.\<close>

lemma bit_three: "bit (3 :: uint8) n \<longleftrightarrow> n < 2"
proof -
  have "(3 :: uint8) = mask 2" by (simp add: mask_eq_exp_minus_1)
  then have "bit (3 :: uint8) n \<longleftrightarrow> bit (mask 2 :: uint8) n" by (rule arg_cong)
  then show ?thesis by (auto simp: bit_mask_iff)
qed

lemma field_bit: "bit (drop_bit k (b :: uint8) AND 3) n \<longleftrightarrow> n < 2 \<and> bit b (k + n)"
  by (auto simp: bit_and_iff bit_drop_bit_eq bit_three simp del: bit_numeral_word_iff)

lemma two_bits: "(s :: uint8) < 4 \<Longrightarrow> bit s n \<Longrightarrow> n < 2"
proof -
  assume s: "s < 4" "bit s n"
  then have "unat s < 4" by (simp add: word_less_nat_alt)
  then have "take_bit 2 s = s"
    by (simp add: word_unat_eq_iff unsigned_take_bit_eq take_bit_nat_eq_self del: take_bit_numeral_bit0)
  then show "n < 2" using s(2) by (metis bit_take_bit_iff)
qed

lemma field_set:
  assumes "i < 4" "j < 4" "s < (4 :: uint8)"
  shows "drop_bit (j * 2) ((b AND NOT (push_bit (i * 2) 3)) OR push_bit (i * 2) s) AND 3
     = (if i = j then s else drop_bit (j * 2) b AND 3)"
proof (rule bit_word_eqI)
  fix n :: nat assume "n < LENGTH(8)"
  show "bit (drop_bit (j * 2) ((b AND NOT (push_bit (i * 2) 3)) OR push_bit (i * 2) s) AND 3) n
     = bit (if i = j then s else drop_bit (j * 2) b AND 3) n"
  proof (cases "n < 2")
    case True
    then have "j * 2 + n < 8" using assms(2) by simp
    moreover have "i * 2 \<le> j * 2 + n \<and> j * 2 + n - i * 2 < 2 \<longleftrightarrow> i = j" using True by auto
    ultimately show ?thesis
      using True two_bits [OF assms(3), of "j * 2 + n - i * 2"] assms(1)
      by (auto simp: field_bit bit_simps bit_three simp del: bit_numeral_word_iff)
  next
    case False
    then show ?thesis using two_bits [OF assms(3), of n] by (simp only: field_bit split: if_split) blast
  qed
qed

lemma TransactionIdSetStatusBit_status:
  assumes "status < 4"
  shows "clog_status (TransactionIdSetStatusBit rec x status lsn (TransactionIdToPage x) c) y =
    (if y = x \<and> \<not> (rec \<and> status = TRANSACTION_STATUS_SUB_COMMITTED
                       \<and> clog_status c x = TRANSACTION_STATUS_COMMITTED)
     then status else clog_status c y)"
proof -
  have *: "TransactionIdToPage y = TransactionIdToPage x \<Longrightarrow> TransactionIdToByte y = TransactionIdToByte x
      \<Longrightarrow> TransactionIdToBIndex x = TransactionIdToBIndex y \<longleftrightarrow> y = x"
    using clog_address_inj [of y x] by auto
  show ?thesis
    using field_set [OF clog_bounds(2) [of x] clog_bounds(2) [of y] assms]
    by (auto simp: TransactionIdSetStatusBit_def TransactionIdGetStatus_def Let_def *)
qed

lemma clog_status_less: "clog_status c x < 4"
proof -
  have "clog_status c x \<le> 3"
    by (simp add: TransactionIdGetStatus_def Let_def word_and_le1)
  then show ?thesis by (simp add: order_le_less_trans)
qed

lemma SetStatusBit_other_page:
  assumes "TransactionIdToPage y \<noteq> p"
  shows "TransactionIdGetStatus (TransactionIdSetStatusBit rec x st lsn p c) y = TransactionIdGetStatus c y"
  using assms by (simp add: TransactionIdSetStatusBit_def TransactionIdGetStatus_def Let_def)

text \<open>Group LSNs only rise, and rise to the update's LSN.\<close>

lemma SetStatusBit_lsn_mono:
  "clog_lsn c y \<le> clog_lsn (TransactionIdSetStatusBit rec x st lsn p c) y"
  by (auto simp: TransactionIdSetStatusBit_def TransactionIdGetStatus_def Let_def)

lemma SetStatusBit_lsn:
  "lsn \<le> clog_lsn (TransactionIdSetStatusBit False x st lsn (TransactionIdToPage x) c) x"
  by (auto simp: TransactionIdSetStatusBit_def TransactionIdGetStatus_def Let_def)

lemma set_status_bits_status:
  assumes "status < 4" "\<forall>x \<in> set xs. TransactionIdToPage x = p"
  shows "clog_status (set_status_bits False xs status lsn p c) y =
    (if y \<in> set xs then status else clog_status c y)"
  using assms(2)
proof (induction xs arbitrary: c)
  case (Cons x xs)
  then show ?case using TransactionIdSetStatusBit_status [OF assms(1), of False x lsn c y] by auto
qed simp

lemma set_status_bits_lsn_mono:
  "clog_lsn c y \<le> clog_lsn (set_status_bits rec xs status lsn p c) y"
proof (induction xs arbitrary: c)
  case (Cons x xs)
  show ?case using order_trans [OF SetStatusBit_lsn_mono Cons] by simp
qed simp

lemma set_status_bits_lsn:
  assumes "\<forall>x \<in> set xs. TransactionIdToPage x = p" "y \<in> set xs"
  shows "lsn \<le> clog_lsn (set_status_bits False xs status lsn p c) y"
  using assms
proof (induction xs arbitrary: c)
  case (Cons x xs)
  show ?case
  proof (cases "y = x")
    case True
    then have "lsn \<le> clog_lsn (TransactionIdSetStatusBit False x status lsn p c) y"
      using Cons.prems(1) SetStatusBit_lsn [of lsn x status c] by simp
    then show ?thesis using order_trans [OF _ set_status_bits_lsn_mono] by simp
  qed (use Cons in simp)
qed simp

text \<open>What a page update writes, provided every identifier it names is on its page.\<close>

definition update_ok :: "page_update \<Rightarrow> bool" where
  "update_ok u \<longleftrightarrow> pu_status u < 4
     \<and> (pu_xid u \<noteq> 0 \<longrightarrow> TransactionIdToPage (pu_xid u) = pu_page u)
     \<and> (\<forall>x \<in> set (pu_subxids u). TransactionIdToPage x = pu_page u)"

definition update_xids :: "page_update \<Rightarrow> TransactionId set" where
  "update_xids u = (if pu_xid u \<noteq> 0 then {pu_xid u} else {}) \<union> set (pu_subxids u)"

lemma SetPageStatusInternal_status:
  assumes "update_ok u"
  shows "clog_status (TransactionIdSetPageStatusInternal False u c) y =
    (if y \<in> update_xids u then pu_status u else clog_status c y)"
proof -
  have "clog_status (TransactionIdSetStatusBit False (pu_xid u) (pu_status u) l (pu_page u) d) z
      = (if z = pu_xid u then pu_status u else clog_status d z)" if "pu_xid u \<noteq> 0" for d l z
    using assms that TransactionIdSetStatusBit_status [of "pu_status u" False "pu_xid u" l d z]
    by (simp add: update_ok_def)
  with assms show ?thesis
    by (cases "pu_xid u = 0")
      (simp_all add: TransactionIdSetPageStatusInternal_def Let_def update_ok_def update_xids_def
        TransactionIdIsValid_def set_status_bits_status)
qed

lemma SetPageStatusInternal_lsn_mono:
  "clog_lsn c y \<le> clog_lsn (TransactionIdSetPageStatusInternal rec u c) y"
  unfolding TransactionIdSetPageStatusInternal_def Let_def
  by (auto intro!: order_trans [OF _ set_status_bits_lsn_mono] order_trans [OF _ SetStatusBit_lsn_mono])

lemma SetPageStatusInternal_lsn:
  assumes "update_ok u" "y \<in> update_xids u"
  shows "pu_lsn u \<le> clog_lsn (TransactionIdSetPageStatusInternal False u c) y"
proof (cases "y \<in> set (pu_subxids u)")
  case True
  then show ?thesis using assms(1)
    by (simp add: TransactionIdSetPageStatusInternal_def Let_def update_ok_def set_status_bits_lsn)
next
  case False
  then have "y = pu_xid u" "pu_xid u \<noteq> 0" "TransactionIdToPage y = pu_page u"
    using assms by (auto simp: update_xids_def update_ok_def split: if_splits)
  then show ?thesis
    using order_trans [OF SetStatusBit_lsn [of "pu_lsn u" y] set_status_bits_lsn_mono]
    by (simp add: TransactionIdSetPageStatusInternal_def Let_def TransactionIdIsValid_def)
qed

text \<open>Hence of a list of page updates.\<close>

definition run_updates :: "page_update list \<Rightarrow> clog \<Rightarrow> clog" where
  "run_updates us c = fold (TransactionIdSetPageStatusInternal False) us c"

lemma run_updates_simps [simp]:
  "run_updates [] c = c"
  "run_updates (u # us) c = run_updates us (TransactionIdSetPageStatusInternal False u c)"
  "run_updates (us @ vs) c = run_updates vs (run_updates us c)"
  by (simp_all add: run_updates_def)

lemma run_updates_same_status:
  assumes "\<forall>u \<in> set us. update_ok u \<and> pu_status u = s"
  shows "clog_status (run_updates us c) y =
    (if y \<in> (\<Union>u \<in> set us. update_xids u) then s else clog_status c y)"
  using assms by (induction us arbitrary: c) (auto simp: SetPageStatusInternal_status)

lemma run_updates_lsn_mono: "clog_lsn c y \<le> clog_lsn (run_updates us c) y"
proof (induction us arbitrary: c)
  case (Cons u us)
  show ?case using order_trans [OF SetPageStatusInternal_lsn_mono Cons] by simp
qed simp

lemma run_updates_lsn:
  assumes "\<forall>u \<in> set us. update_ok u \<and> pu_lsn u = l" "y \<in> (\<Union>u \<in> set us. update_xids u)"
  shows "l \<le> clog_lsn (run_updates us c) y"
  using assms
proof (induction us arbitrary: c)
  case (Cons u us)
  show ?case
  proof (cases "y \<in> update_xids u")
    case True
    then have "l \<le> clog_lsn (TransactionIdSetPageStatusInternal False u c) y"
      using SetPageStatusInternal_lsn [of u y c] Cons.prems(1) by auto
    then show ?thesis using order_trans [OF _ run_updates_lsn_mono] by simp
  qed (use Cons in auto)
qed simp

text \<open>The updates \<open>set_status_by_pages\<close> issues: each stays on its page, and together they
  name every subtransaction.\<close>

lemma status_by_pages_loop_updates:
  "status < 4 \<Longrightarrow> u \<in> set (status_by_pages_loop p xs status lsn)
     \<Longrightarrow> update_ok u \<and> pu_status u = status \<and> pu_lsn u = lsn \<and> pu_xid u = 0"
proof (induction p xs status lsn rule: status_by_pages_loop.induct)
  case (1 p xs status lsn)
  show ?case
  proof (cases "xs = []")
    case True
    then show ?thesis using "1.prems" by (simp add: status_by_pages_loop.simps)
  next
    case False
    let ?h = "\<lparr>pu_xid = InvalidTransactionId,
      pu_subxids = takeWhile (\<lambda>x. TransactionIdToPage x = p) xs, pu_status = status,
      pu_lsn = lsn, pu_page = p\<rparr>"
    have "\<forall>x \<in> set (takeWhile (\<lambda>x. TransactionIdToPage x = p) xs). TransactionIdToPage x = p"
      by (auto dest: set_takeWhileD)
    then have h: "update_ok ?h" using "1.prems"(1) by (simp add: update_ok_def)
    from "1.prems"(2) False consider "u = ?h" | "u \<in> set (status_by_pages_loop
        (case dropWhile (\<lambda>x. TransactionIdToPage x = p) xs of [] \<Rightarrow> p | y # _ \<Rightarrow> TransactionIdToPage y)
        (dropWhile (\<lambda>x. TransactionIdToPage x = p) xs) status lsn)"
      by (subst (asm) status_by_pages_loop.simps) (auto simp only: Let_def if_False list.set insert_iff)
    then show ?thesis
    proof cases
      case 1
      then show ?thesis using h by simp
    next
      case 2
      from "1.IH" [OF False refl refl refl "1.prems"(1) 2] show ?thesis .
    qed
  qed
qed

lemma status_by_pages_loop_xids:
  "(\<Union>u \<in> set (status_by_pages_loop p xs status lsn). update_xids u) = set xs"
proof (induction p xs status lsn rule: status_by_pages_loop.induct)
  case (1 p xs status lsn)
  show ?case
  proof (cases "xs = []")
    case True
    then show ?thesis by (simp add: status_by_pages_loop.simps)
  next
    case False
    have "set xs = set (takeWhile (\<lambda>x. TransactionIdToPage x = p) xs)
        \<union> set (dropWhile (\<lambda>x. TransactionIdToPage x = p) xs)"
      by (metis set_append takeWhile_dropWhile_id)
    then show ?thesis
      using "1.IH" [OF False refl refl refl] False
      by (subst status_by_pages_loop.simps) (simp add: Let_def update_xids_def)
  qed
qed

lemma set_status_by_pages_updates:
  "status < 4 \<Longrightarrow> \<forall>u \<in> set (set_status_by_pages xs status lsn).
     update_ok u \<and> pu_status u = status \<and> pu_lsn u = lsn"
  unfolding set_status_by_pages_def using status_by_pages_loop_updates by blast

lemma set_status_by_pages_xids:
  "(\<Union>u \<in> set (set_status_by_pages xs status lsn). update_xids u) = set xs"
  unfolding set_status_by_pages_def by (rule status_by_pages_loop_xids)

section \<open>What the queries decide\<close>

text \<open>The outcome the log records for a transaction, by following the parents of
  subcommitted subtransactions as far as \<open>TransactionXmin\<close>.\<close>

definition fetch_status :: "clog \<Rightarrow> TransactionId \<Rightarrow> XidStatus" where
  "fetch_status c xid =
     (if TransactionIdIsNormal xid then clog_status c xid
      else if xid = BootstrapTransactionId \<or> xid = FrozenTransactionId
      then TRANSACTION_STATUS_COMMITTED else TRANSACTION_STATUS_ABORTED)"

inductive log_committed :: "xact_log \<Rightarrow> TransactionId \<Rightarrow> bool" for l where
  committed: "fetch_status (xl_clog l) x = TRANSACTION_STATUS_COMMITTED \<Longrightarrow> log_committed l x"
| subcommitted: "fetch_status (xl_clog l) x = TRANSACTION_STATUS_SUB_COMMITTED
    \<Longrightarrow> \<not> TransactionIdPrecedes x (xl_xmin l)
    \<Longrightarrow> TransactionIdIsValid (SubTransGetParent (xl_subtrans l) x)
    \<Longrightarrow> log_committed l (SubTransGetParent (xl_subtrans l) x) \<Longrightarrow> log_committed l x"

inductive log_aborted :: "xact_log \<Rightarrow> TransactionId \<Rightarrow> bool" for l where
  aborted: "fetch_status (xl_clog l) x = TRANSACTION_STATUS_ABORTED \<Longrightarrow> log_aborted l x"
| orphaned: "fetch_status (xl_clog l) x = TRANSACTION_STATUS_SUB_COMMITTED
    \<Longrightarrow> TransactionIdPrecedes x (xl_xmin l)
         \<or> \<not> TransactionIdIsValid (SubTransGetParent (xl_subtrans l) x) \<Longrightarrow> log_aborted l x"
| parent_aborted: "fetch_status (xl_clog l) x = TRANSACTION_STATUS_SUB_COMMITTED
    \<Longrightarrow> log_aborted l (SubTransGetParent (xl_subtrans l) x) \<Longrightarrow> log_aborted l x"

inductive_simps log_committed_simps: "log_committed l x"
inductive_simps log_aborted_simps: "log_aborted l x"
inductive_cases log_committedE: "log_committed l x"
inductive_cases log_abortedE: "log_aborted l x"

text \<open>The cache is coherent: it is empty, or holds a final status of the log.\<close>

definition cache_ok :: "clog \<Rightarrow> xid_cache \<Rightarrow> bool" where
  "cache_ok c cache \<longleftrightarrow> cachedFetchXid cache = InvalidTransactionId
     \<or> TransactionIdIsNormal (cachedFetchXid cache)
       \<and> cachedFetchXidStatus cache = clog_status c (cachedFetchXid cache)
       \<and> cachedFetchXidStatus cache \<in> {TRANSACTION_STATUS_COMMITTED, TRANSACTION_STATUS_ABORTED}
       \<and> cachedCommitLSN cache \<le> clog_lsn c (cachedFetchXid cache)"

lemma status_cases: "s < (4 :: uint8) \<Longrightarrow> s = 0 \<or> s = 1 \<or> s = 2 \<or> s = 3"
proof -
  assume "s < 4"
  then have "unat s < 4" by (simp add: word_less_nat_alt)
  then have "unat s = 0 \<or> unat s = 1 \<or> unat s = 2 \<or> unat s = 3" by arith
  then show ?thesis by (simp add: word_unat_eq_iff)
qed

lemma TransactionLogFetch_coherent:
  assumes "cache_ok c cache" "TransactionIdIsValid xid"
  shows "fst (TransactionLogFetch c xid cache) = fetch_status c xid
    \<and> cache_ok c (snd (TransactionLogFetch c xid cache))"
proof (cases "xid = cachedFetchXid cache")
  case True
  then show ?thesis using assms
    by (auto simp: TransactionLogFetch_def cache_ok_def fetch_status_def TransactionIdIsValid_def)
next
  case False
  then show ?thesis
  proof (cases "TransactionIdIsNormal xid")
    case True
    obtain st lsn where st: "TransactionIdGetStatus c xid = (st, lsn)" by fastforce
    have "st < 4" using clog_status_less [of c xid] st by simp
    from status_cases [OF this] show ?thesis using False True st assms
      by (auto simp: TransactionLogFetch_def cache_ok_def fetch_status_def)
  qed (use False assms in \<open>auto simp: TransactionLogFetch_def fetch_status_def\<close>)
qed

text \<open>When every parent was assigned before its child, following the parents ends.\<close>

definition parents_ok :: "xact_log \<Rightarrow> bool" where
  "parents_ok l \<longleftrightarrow> TransactionIdIsNormal (xl_xmin l)
     \<and> (\<forall>x. \<not> TransactionIdPrecedes x (xl_xmin l) \<longrightarrow>
            SubTransGetParent (xl_subtrans l) x = InvalidTransactionId
            \<or> TransactionIdPrecedes (SubTransGetParent (xl_subtrans l) x) x)"

lemma climb_induct [consumes 2, case_names old step]:
  assumes ok: "parents_ok l" and v: "TransactionIdIsValid x"
    and old: "\<And>x. TransactionIdIsValid x \<Longrightarrow> TransactionIdPrecedes x (xl_xmin l) \<Longrightarrow> P x"
    and step: "\<And>x. TransactionIdIsValid x \<Longrightarrow> \<not> TransactionIdPrecedes x (xl_xmin l)
      \<Longrightarrow> (TransactionIdIsValid (SubTransGetParent (xl_subtrans l) x)
            \<Longrightarrow> P (SubTransGetParent (xl_subtrans l) x)) \<Longrightarrow> P x"
  shows "P x"
  using v
proof (induction "unat (x - xl_xmin l)" arbitrary: x rule: less_induct)
  case less
  show ?case
  proof (cases "TransactionIdPrecedes x (xl_xmin l)")
    case False
    let ?p = "SubTransGetParent (xl_subtrans l) x"
    show ?thesis
    proof (rule step [OF less.prems False])
      assume v: "TransactionIdIsValid ?p"
      then have "TransactionIdPrecedes ?p x"
        using ok False by (auto simp: parents_ok_def TransactionIdIsValid_def)
      then show "P ?p"
        using old [OF v] less.hyps [OF _ v] Precedes_decreases [of "xl_xmin l" ?p x] ok False
        by (auto simp: parents_ok_def)
    qed
  qed (use old less.prems in blast)
qed

lemma TransactionIdDidCommit_returns:
  assumes "parents_ok l" "TransactionIdIsValid x" "cache_ok (xl_clog l) cache"
  shows "\<exists>cache'. TransactionIdDidCommit l x cache = Some (log_committed l x, cache')
    \<and> cache_ok (xl_clog l) cache'"
  using assms
proof (induction arbitrary: cache rule: climb_induct)
  case (old x)
  obtain s cache' where s: "TransactionLogFetch (xl_clog l) x cache = (s, cache')" by fastforce
  with TransactionLogFetch_coherent [OF old(3,1)]
  have "s = fetch_status (xl_clog l) x" "cache_ok (xl_clog l) cache'" by simp_all
  with s old show ?case
    by (subst TransactionIdDidCommit.simps) (auto simp: log_committed_simps [of l x])
next
  case (step x)
  obtain s cache' where s: "TransactionLogFetch (xl_clog l) x cache = (s, cache')" by fastforce
  with TransactionLogFetch_coherent [OF step(4,1)]
  have f: "s = fetch_status (xl_clog l) x" "cache_ok (xl_clog l) cache'" by simp_all
  note IH = step(3) [OF _ f(2)]
  show ?case
    using s f step(1,2) IH
    by (subst TransactionIdDidCommit.simps) (auto simp: log_committed_simps [of l x] Let_def)
qed

lemma TransactionIdDidAbort_returns:
  assumes "parents_ok l" "TransactionIdIsValid x" "cache_ok (xl_clog l) cache"
  shows "\<exists>cache'. TransactionIdDidAbort l x cache = Some (log_aborted l x, cache')
    \<and> cache_ok (xl_clog l) cache'"
  using assms
proof (induction arbitrary: cache rule: climb_induct)
  case (old x)
  obtain s cache' where s: "TransactionLogFetch (xl_clog l) x cache = (s, cache')" by fastforce
  with TransactionLogFetch_coherent [OF old(3,1)]
  have "s = fetch_status (xl_clog l) x" "cache_ok (xl_clog l) cache'" by simp_all
  with s old show ?case
    by (subst TransactionIdDidAbort.simps) (auto simp: log_aborted_simps [of l x])
next
  case (step x)
  obtain s cache' where s: "TransactionLogFetch (xl_clog l) x cache = (s, cache')" by fastforce
  with TransactionLogFetch_coherent [OF step(4,1)]
  have f: "s = fetch_status (xl_clog l) x" "cache_ok (xl_clog l) cache'" by simp_all
  note IH = step(3) [OF _ f(2)]
  show ?case
    using s f step(1,2) IH
    by (subst TransactionIdDidAbort.simps) (auto simp: log_aborted_simps [of l x] Let_def)
qed

lemma not_committed_and_aborted: "log_committed l x \<Longrightarrow> \<not> log_aborted l x"
proof (induction rule: log_committed.induct)
  case (committed x)
  then show ?case by (simp add: log_aborted_simps [of l x])
next
  case (subcommitted x)
  then show ?case by (simp add: log_aborted_simps [of l x])
qed

text \<open>\<open>SubTransGetTopmostTransaction\<close> returns whatever \<open>pg_subtrans\<close> holds: it stops with an
  error at an entry that does not lead to an older transaction.\<close>

inductive ancestor :: "subtrans \<Rightarrow> TransactionId \<Rightarrow> TransactionId \<Rightarrow> bool" for s where
  self: "ancestor s x x"
| parent: "TransactionIdIsValid (SubTransGetParent s x) \<Longrightarrow> ancestor s (SubTransGetParent s x) y
    \<Longrightarrow> ancestor s x y"

lemma topmost_loop_returns:
  assumes "TransactionIdIsNormal m" "TransactionIdIsValid x"
  shows "\<exists>r. topmost_loop s m x prev = Some r
    \<and> (\<forall>t. r = Inr t \<longrightarrow> ancestor s x t
         \<and> (TransactionIdPrecedes t m \<or> SubTransGetParent s t = InvalidTransactionId))"
  using assms(2)
proof (induction "unat (x - m)" arbitrary: x prev rule: less_induct)
  case less
  let ?p = "SubTransGetParent s x"
  consider (old) "TransactionIdPrecedes x m" | (bad) "\<not> TransactionIdPrecedes x m" "\<not> TransactionIdPrecedes ?p x"
    | (top) "\<not> TransactionIdPrecedes x m" "\<not> TransactionIdIsValid ?p" "TransactionIdPrecedes ?p x"
    | (oldparent) "\<not> TransactionIdPrecedes x m" "TransactionIdPrecedes ?p x" "TransactionIdIsValid ?p" "TransactionIdPrecedes ?p m"
    | (up) "\<not> TransactionIdPrecedes x m" "TransactionIdPrecedes ?p x" "TransactionIdIsValid ?p" "\<not> TransactionIdPrecedes ?p m"
    by blast
  then show ?case
  proof cases
    case old
    then show ?thesis using less.prems ancestor.self by (subst topmost_loop.simps) (simp add: Let_def)
  next
    case bad
    then show ?thesis using less.prems by (subst topmost_loop.simps) (simp add: Let_def)
  next
    case top
    have "topmost_loop s m ?p x = Some (Inr x)"
      using top(2) by (subst topmost_loop.simps) (simp add: Let_def)
    then show ?thesis using top less.prems ancestor.self
      by (subst topmost_loop.simps) (simp add: Let_def TransactionIdIsValid_def)
  next
    case oldparent
    have "topmost_loop s m ?p x = Some (Inr ?p)"
      using oldparent(3,4) by (subst topmost_loop.simps) (simp add: Let_def)
    then show ?thesis using oldparent less.prems ancestor.self ancestor.parent
      by (subst topmost_loop.simps) (simp add: Let_def)
  next
    case up
    have "unat (?p - m) < unat (x - m)" using Precedes_decreases [OF assms(1) up(2,4,1)] .
    from less.hyps [OF this up(3), of x] show ?thesis
      using up less.prems ancestor.parent [OF up(3)]
      by (subst topmost_loop.simps) (simp add: Let_def, blast)
  qed
qed

section \<open>A transaction tree commits at one instant\<close>

text \<open>The three phases of a commit's page updates: subcommit on the other pages, the parent's
  page, commit on the other pages.\<close>

lemma tree_status_updates_phases:
  assumes "xid \<noteq> 0"
  obtains A m B where
    "tree_status_updates xid subxids TRANSACTION_STATUS_COMMITTED lsn = A @ m # B"
    "\<forall>u \<in> set A. update_ok u \<and> pu_status u = TRANSACTION_STATUS_SUB_COMMITTED"
    "\<forall>u \<in> set (m # B). update_ok u \<and> pu_status u = TRANSACTION_STATUS_COMMITTED"
    "\<forall>u \<in> set (A @ m # B). pu_lsn u = lsn"
    "(\<Union>u \<in> set A. update_xids u) \<subseteq> set (dropWhile (\<lambda>x. TransactionIdToPage x = TransactionIdToPage xid) subxids)"
    "xid \<in> update_xids m" "set subxids \<subseteq> update_xids m \<union> (\<Union>u \<in> set A. update_xids u)"
    "(\<Union>u \<in> set (m # B). update_xids u) = insert xid (set subxids)"
proof -
  let ?P = "\<lambda>x. TransactionIdToPage x = TransactionIdToPage xid"
  let ?first = "takeWhile ?P subxids" and ?others = "dropWhile ?P subxids"
  have split: "set subxids = set ?first \<union> set ?others"
    by (metis set_append takeWhile_dropWhile_id)
  have first: "\<forall>x \<in> set ?first. ?P x" by (auto dest: set_takeWhileD)
  show thesis
  proof (cases "?others = []")
    case True
    then have P: "\<forall>x \<in> set subxids. ?P x" by (simp add: dropWhile_eq_Nil_conv)
    show thesis
    proof (rule that [of "[]" "\<lparr>pu_xid = xid, pu_subxids = subxids, pu_status = TRANSACTION_STATUS_COMMITTED,
            pu_lsn = lsn, pu_page = TransactionIdToPage xid\<rparr>" "[]"])
      show "tree_status_updates xid subxids TRANSACTION_STATUS_COMMITTED lsn =
        [] @ [\<lparr>pu_xid = xid, pu_subxids = subxids, pu_status = TRANSACTION_STATUS_COMMITTED,
            pu_lsn = lsn, pu_page = TransactionIdToPage xid\<rparr>]"
        unfolding tree_status_updates_def Let_def True by simp
    qed (use P assms in \<open>auto simp: update_ok_def update_xids_def\<close>)
  next
    case False
    let ?A = "set_status_by_pages ?others TRANSACTION_STATUS_SUB_COMMITTED lsn"
    let ?B = "set_status_by_pages ?others TRANSACTION_STATUS_COMMITTED lsn"
    let ?m = "\<lparr>pu_xid = xid, pu_subxids = ?first, pu_status = TRANSACTION_STATUS_COMMITTED,
      pu_lsn = lsn, pu_page = TransactionIdToPage xid\<rparr>"
    have A: "\<forall>u \<in> set ?A. update_ok u \<and> pu_status u = TRANSACTION_STATUS_SUB_COMMITTED \<and> pu_lsn u = lsn"
      by (rule set_status_by_pages_updates) simp
    have B: "\<forall>u \<in> set ?B. update_ok u \<and> pu_status u = TRANSACTION_STATUS_COMMITTED \<and> pu_lsn u = lsn"
      by (rule set_status_by_pages_updates) simp
    have st: "TRANSACTION_STATUS_COMMITTED < 4" by simp
    have m: "update_ok ?m"
      unfolding update_ok_def page_update.simps by (intro conjI impI refl st first)
    have mx: "update_xids ?m = insert xid (set ?first)"
      unfolding update_xids_def page_update.simps using assms by simp
    show thesis
    proof (rule that [of ?A ?m ?B])
      show "tree_status_updates xid subxids TRANSACTION_STATUS_COMMITTED lsn = ?A @ ?m # ?B"
        unfolding tree_status_updates_def Let_def if_not_P [OF False] if_P [OF refl] by (rule refl)
      show "set subxids \<subseteq> update_xids ?m \<union> (\<Union>u \<in> set ?A. update_xids u)"
        unfolding mx split set_status_by_pages_xids by blast
    qed (use A B m mx split in \<open>simp_all add: set_status_by_pages_xids ball_Un\<close>)
  qed
qed

lemma none_committed:
  assumes "\<forall>x \<in> insert xid T. fetch_status (xl_clog l) x \<in> {TRANSACTION_STATUS_IN_PROGRESS, TRANSACTION_STATUS_SUB_COMMITTED}"
    and "fetch_status (xl_clog l) xid = TRANSACTION_STATUS_IN_PROGRESS"
    and "\<forall>x \<in> T. SubTransGetParent (xl_subtrans l) x \<in> insert xid T"
  shows "log_committed l x \<Longrightarrow> x \<notin> insert xid T"
proof (induction rule: log_committed.induct)
  case (committed x)
  then show ?case using assms(1) by auto
next
  case (subcommitted x)
  then show ?case using assms(2,3) by auto
qed

lemma all_committed:
  assumes "parents_ok l" "fetch_status (xl_clog l) xid = TRANSACTION_STATUS_COMMITTED"
    and "\<forall>x \<in> T. fetch_status (xl_clog l) x \<in> {TRANSACTION_STATUS_COMMITTED, TRANSACTION_STATUS_SUB_COMMITTED}"
    and "\<forall>x \<in> insert xid T. TransactionIdIsValid x \<and> \<not> TransactionIdPrecedes x (xl_xmin l)"
    and "\<forall>x \<in> T. SubTransGetParent (xl_subtrans l) x \<in> insert xid T"
    and "x \<in> insert xid T"
  shows "log_committed l x"
proof -
  have "TransactionIdIsValid x" using assms(4,6) by blast
  from assms(1) this assms(6) show ?thesis
  proof (induction rule: climb_induct)
    case (old x)
    then show ?case using assms(4) by blast
  next
    case (step x)
    show ?case
    proof (cases "x = xid \<or> fetch_status (xl_clog l) x = TRANSACTION_STATUS_COMMITTED")
      case True
      then show ?thesis using assms(2) log_committed.committed by metis
    next
      case False
      then have x: "x \<in> T" "fetch_status (xl_clog l) x = TRANSACTION_STATUS_SUB_COMMITTED"
        using step(4) assms(3) by auto
      have "SubTransGetParent (xl_subtrans l) x \<in> insert xid T" using assms(5) x(1) by blast
      moreover from this have "TransactionIdIsValid (SubTransGetParent (xl_subtrans l) x)"
        using assms(4) by blast
      ultimately show ?thesis using step(3) by (intro log_committed.subcommitted [OF x(2) step(2)])
    qed
  qed
qed

lemma commit_tree_statuses:
  fixes k :: nat
  assumes T: "\<forall>x \<in> insert xid (set subxids). TransactionIdIsNormal x" "xid \<notin> set subxids"
    and c: "clog_status c xid = TRANSACTION_STATUS_IN_PROGRESS"
      "\<forall>x \<in> set subxids. clog_status c x \<in> {TRANSACTION_STATUS_IN_PROGRESS, TRANSACTION_STATUS_SUB_COMMITTED}"
    and us: "us = tree_status_updates xid subxids TRANSACTION_STATUS_COMMITTED lsn"
    and d: "d = run_updates (take k us) c"
  shows "(clog_status d xid = TRANSACTION_STATUS_IN_PROGRESS \<and> k < length us
        \<and> (\<forall>x \<in> set subxids. clog_status d x \<in> {TRANSACTION_STATUS_IN_PROGRESS, TRANSACTION_STATUS_SUB_COMMITTED})
      \<or> clog_status d xid = TRANSACTION_STATUS_COMMITTED
        \<and> (\<forall>x \<in> set subxids. clog_status d x \<in> {TRANSACTION_STATUS_COMMITTED, TRANSACTION_STATUS_SUB_COMMITTED}))
    \<and> (\<forall>x. x \<notin> insert xid (set subxids) \<longrightarrow> clog_status d x = clog_status c x)
    \<and> (length us \<le> k \<longrightarrow>
         (\<forall>x \<in> insert xid (set subxids). clog_status d x = TRANSACTION_STATUS_COMMITTED))"
proof -
  have "xid \<noteq> 0" using T(1) by (auto simp: Normal_word)
  obtain A m B where ph: "us = A @ m # B"
    "\<forall>u \<in> set A. update_ok u \<and> pu_status u = TRANSACTION_STATUS_SUB_COMMITTED"
    "\<forall>u \<in> set (m # B). update_ok u \<and> pu_status u = TRANSACTION_STATUS_COMMITTED"
    "(\<Union>u \<in> set A. update_xids u) \<subseteq> set (dropWhile (\<lambda>x. TransactionIdToPage x = TransactionIdToPage xid) subxids)"
    "xid \<in> update_xids m" "set subxids \<subseteq> update_xids m \<union> (\<Union>u \<in> set A. update_xids u)"
    "(\<Union>u \<in> set (m # B). update_xids u) = insert xid (set subxids)"
    unfolding us by (rule tree_status_updates_phases [OF \<open>xid \<noteq> 0\<close>, of subxids lsn])
  have Asub: "(\<Union>u \<in> set A. update_xids u) \<subseteq> set subxids"
    using ph(4) set_dropWhileD by (rule order_trans [OF _ subsetI])
  let ?a = "\<lambda>k. \<Union>u \<in> set (take k A). update_xids u"
  let ?m = "\<lambda>k. \<Union>u \<in> set (take k (m # B)). update_xids u"
  have ka: "?a k \<subseteq> set subxids" for k using Asub set_take_subset [of k A] by blast
  have km: "?m k \<subseteq> insert xid (set subxids)" for k
    using ph(7) set_take_subset [of k "m # B"] by blast
  have sa: "clog_status (run_updates (take j A) c) y
      = (if y \<in> ?a j then TRANSACTION_STATUS_SUB_COMMITTED else clog_status c y)" for j y
    using ph(2) set_take_subset [of j A] by (intro run_updates_same_status) blast
  have sm: "clog_status (run_updates (take j (m # B)) e) y
      = (if y \<in> ?m j then TRANSACTION_STATUS_COMMITTED else clog_status e y)" for j e y
    using ph(3) set_take_subset [of j "m # B"] by (intro run_updates_same_status) blast
  have xa: "xid \<notin> ?a k" for k using ka [of k] T(2) by blast
  show ?thesis
  proof (cases "k \<le> length A")
    case True
    then have d: "d = run_updates (take k A) c" using assms(6) ph(1) by simp
    have "k < length us" using True ph(1) by simp
    then show ?thesis unfolding d sa using c xa ka [of k] by auto
  next
    case False
    then obtain j where j: "k = length A + Suc j" by (metis add_Suc_right less_natE not_le)
    have d: "d = run_updates (take (Suc j) (m # B)) (run_updates A c)"
      using assms(6) ph(1) j by simp
    have m1: "update_xids m \<subseteq> ?m (Suc j)" by simp
    have sA: "clog_status (run_updates A c) y
      = (if y \<in> ?a (length A) then TRANSACTION_STATUS_SUB_COMMITTED else clog_status c y)" for y
      using sa [of "length A" y] by simp
    have x: "xid \<in> ?m (Suc j)" using m1 ph(5) by blast
    have "length us \<le> k \<Longrightarrow> ?m (Suc j) = insert xid (set subxids)"
      using ph(1,7) j by simp
    moreover have "\<forall>x \<in> set subxids. x \<in> ?m (Suc j) \<or> x \<in> ?a (length A)" using m1 ph(6) by auto
    moreover have "\<forall>x. x \<notin> insert xid (set subxids) \<longrightarrow> x \<notin> ?m (Suc j) \<and> x \<notin> ?a (length A)"
      using km [of "Suc j"] ka [of "length A"] by blast
    ultimately show ?thesis unfolding d sm sA using x by (simp del: take_Suc_Cons UN_iff) blast
  qed
qed

lemma subtrans_address_inj:
  "SubTransIdToPage x = SubTransIdToPage y \<Longrightarrow> TransactionIdToEntry x = TransactionIdToEntry y \<Longrightarrow> x = y"
  unfolding SubTransIdToPage_def TransactionIdToEntry_def
  by (metis div_mult_mod_eq word_unat_eq_iff)

lemma SubTransGetParent_set:
  "TransactionIdIsNormal x \<Longrightarrow>
     SubTransGetParent (SubTransSetParent x p s) y = (if y = x then p else SubTransGetParent s y)"
  using subtrans_address_inj [of x y]
  by (auto simp: SubTransGetParent_def SubTransSetParent_def Let_def)

lemma latest_loop_window:
  assumes "\<forall>y \<in> insert x (set xs). TransactionIdIsNormal y \<and> unat (y - b) < 2 ^ 31"
  shows "latest_loop x xs \<in> insert x (set xs)
    \<and> (\<forall>y \<in> insert x (set xs). unat (y - b) \<le> unat (latest_loop x xs - b))"
  using assms
proof (induction xs arbitrary: x)
  case (Cons a xs)
  let ?x = "if TransactionIdPrecedes x a then a else x"
  have "TransactionIdPrecedes x a \<longleftrightarrow> unat (x - b) < unat (a - b)"
    using Cons.prems by (intro Precedes_window) auto
  moreover have "latest_loop ?x xs \<in> insert ?x (set xs)
    \<and> (\<forall>y \<in> insert ?x (set xs). unat (y - b) \<le> unat (latest_loop ?x xs - b))"
    using Cons.prems by (intro Cons.IH) auto
  ultimately show ?case by (auto split: if_splits intro: order_trans less_imp_le)
qed simp

lemma sint_zero_iff: "sint (w :: uint32) = 0 \<longleftrightarrow> w = 0"
  by (simp add: signed_eq_0_iff)

lemma window_order:
  assumes n: "TransactionIdIsNormal u" "TransactionIdIsNormal v"
    and w: "unat (u - b) < 2 ^ 31" "unat (v - b) < 2 ^ 31"
  shows "TransactionIdPrecedesOrEquals u v \<longleftrightarrow> unat (u - b) \<le> unat (v - b)"
    "TransactionIdFollows u v \<longleftrightarrow> unat (u - b) > unat (v - b)"
    "TransactionIdFollowsOrEquals u v \<longleftrightarrow> unat (u - b) \<ge> unat (v - b)"
proof -
  have lt: "sint (u - v) < 0 \<longleftrightarrow> unat (u - b) < unat (v - b)"
    using Precedes_window [OF n w] n by (simp add: TransactionIdPrecedes_def)
  have eq: "sint (u - v) = 0 \<longleftrightarrow> unat (u - b) = unat (v - b)"
    by (simp add: signed_eq_0_iff word_unat_eq_iff [symmetric])
  show "TransactionIdPrecedesOrEquals u v \<longleftrightarrow> unat (u - b) \<le> unat (v - b)"
    "TransactionIdFollows u v \<longleftrightarrow> unat (u - b) > unat (v - b)"
    "TransactionIdFollowsOrEquals u v \<longleftrightarrow> unat (u - b) \<ge> unat (v - b)"
    using n lt eq unfolding TransactionIdPrecedesOrEquals_def TransactionIdFollows_def
      TransactionIdFollowsOrEquals_def by auto
qed

section \<open>Properties\<close>

text \<open>C26. Transaction identifiers are compared modulo 2^32, yet within any window of 2^31 normal
  identifiers the four comparison functions are the order of distances from the window's start,
  and \<open>TransactionIdLatest\<close> is the maximum of that order.\<close>

theorem transaction_id_order:
  assumes "\<forall>z \<in> set (x # y # xids). TransactionIdIsNormal z \<and> unat (z - b) < 2 ^ 31"
  shows "(TransactionIdPrecedes x y \<longleftrightarrow> unat (x - b) < unat (y - b))
    \<and> (TransactionIdPrecedesOrEquals x y \<longleftrightarrow> unat (x - b) \<le> unat (y - b))
    \<and> (TransactionIdFollows x y \<longleftrightarrow> unat (x - b) > unat (y - b))
    \<and> (TransactionIdFollowsOrEquals x y \<longleftrightarrow> unat (x - b) \<ge> unat (y - b))
    \<and> TransactionIdLatest x xids \<in> set (x # xids)
    \<and> (\<forall>z \<in> set (x # xids). TransactionIdPrecedesOrEquals z (TransactionIdLatest x xids))"
proof -
  have le: "TransactionIdPrecedesOrEquals u v \<longleftrightarrow> unat (u - b) \<le> unat (v - b)"
    and gt: "TransactionIdFollows u v \<longleftrightarrow> unat (u - b) > unat (v - b)"
    and ge: "TransactionIdFollowsOrEquals u v \<longleftrightarrow> unat (u - b) \<ge> unat (v - b)"
    if uv: "u \<in> set (x # y # xids)" "v \<in> set (x # y # xids)" for u v
    by (rule window_order; use assms uv in blast)+
  have latest: "TransactionIdLatest x xids \<in> set (x # xids)
      \<and> (\<forall>z \<in> set (x # xids). unat (z - b) \<le> unat (TransactionIdLatest x xids - b))"
    using latest_loop_window [of x "rev xids" b] assms by (simp add: TransactionIdLatest_def)
  show ?thesis
    using Precedes_window [of x y b] assms le [of x y] gt [of x y] ge [of x y] latest
      le [of _ "TransactionIdLatest x xids"] by auto
qed

theorem transaction_id_order_witness:
  "TransactionIdPrecedes 4294967290 5 \<and> \<not> TransactionIdPrecedes 5 4294967290
   \<and> TransactionIdLatest 4294967290 [7, 4] \<in> {4294967290, 7, 4}"
proof -
  have *: "\<forall>z \<in> set [4294967290, 5, 7, 4]. TransactionIdIsNormal z \<and> unat (z - 4294967000) < 2 ^ 31"
    "\<forall>z \<in> set [5, 4294967290]. TransactionIdIsNormal z \<and> unat (z - 4294967000) < 2 ^ 31"
    by (simp_all add: TransactionIdIsNormal_def)
  show ?thesis
    using transaction_id_order [OF *(1)] transaction_id_order [of 5 4294967290 "[]", OF *(2)] by simp
qed

text \<open>C23. The commit log keeps two bits per transaction: a status written by
  \<open>TransactionIdSetStatusBit\<close> on the transaction's page is what \<open>TransactionIdGetStatus\<close> reads,
  every other transaction's status is unchanged, and the LSN reported for it is at least the
  one written, while no reported LSN decreases.\<close>

theorem clog_status_roundtrip:
  assumes "status < 4"
    and "c' = TransactionIdSetStatusBit False xid status lsn (TransactionIdToPage xid) c"
  shows "fst (TransactionIdGetStatus c' xid) = status
    \<and> (\<forall>y. y \<noteq> xid \<longrightarrow> fst (TransactionIdGetStatus c' y) = fst (TransactionIdGetStatus c y))
    \<and> lsn \<le> snd (TransactionIdGetStatus c' xid)
    \<and> (\<forall>y. snd (TransactionIdGetStatus c y) \<le> snd (TransactionIdGetStatus c' y))"
  using TransactionIdSetStatusBit_status [OF assms(1)] SetStatusBit_lsn SetStatusBit_lsn_mono
  unfolding assms(2) by simp

theorem clog_status_roundtrip_witness:
  "fst (TransactionIdGetStatus (TransactionIdSetStatusBit False 40001 1 77 1
      \<lparr>page_buffer = (\<lambda>_ _. 255), group_lsn = (\<lambda>_ _. 5)\<rparr>) 40001) = 1"
proof -
  have "(1 :: uint8) < 4" by simp
  from clog_status_roundtrip [OF this refl, of 40001 77 "\<lparr>page_buffer = (\<lambda>_ _. 255), group_lsn = (\<lambda>_ _. 5)\<rparr>"]
  show ?thesis by (simp add: TransactionIdToPage_def)
qed

text \<open>C21. With parents older than their children in pg_subtrans and a coherent cache, \<open>TransactionIdDidCommit\<close>
  and \<open>TransactionIdDidAbort\<close> return (their recursion ends), report the outcome the log records
  for the transaction, leave a coherent cache, and never both answer true.\<close>

theorem log_queries_decide:
  assumes "parents_ok l" "TransactionIdIsValid xid" "cache_ok (xl_clog l) cache"
  shows "\<exists>c1 c2. TransactionIdDidCommit l xid cache = Some (log_committed l xid, c1)
    \<and> TransactionIdDidAbort l xid cache = Some (log_aborted l xid, c2)
    \<and> cache_ok (xl_clog l) c1 \<and> cache_ok (xl_clog l) c2
    \<and> \<not> (log_committed l xid \<and> log_aborted l xid)"
  using TransactionIdDidCommit_returns [OF assms] TransactionIdDidAbort_returns [OF assms]
    not_committed_and_aborted by blast

theorem log_queries_decide_witness:
  "\<exists>c1. TransactionIdDidCommit
     \<lparr>xl_clog = \<lparr>page_buffer = (\<lambda>_ _. 255), group_lsn = (\<lambda>_ _. 0)\<rparr>,
      xl_subtrans = SubTransSetParent 11 10 (\<lambda>_ _. 0), xl_xmin = 10\<rparr> 11
     \<lparr>cachedFetchXid = 0, cachedFetchXidStatus = 0, cachedCommitLSN = 0\<rparr> = Some (False, c1)"
proof -
  let ?l = "\<lparr>xl_clog = \<lparr>page_buffer = (\<lambda>_ _. 255), group_lsn = (\<lambda>_ _. 0)\<rparr>,
      xl_subtrans = SubTransSetParent 11 10 (\<lambda>_ _. 0), xl_xmin = 10\<rparr>"
  let ?c = "\<lparr>cachedFetchXid = 0, cachedFetchXidStatus = 0, cachedCommitLSN = 0\<rparr>"
  have n: "TransactionIdIsNormal 10" "TransactionIdIsNormal 11" by (simp_all add: TransactionIdIsNormal_def)
  have p: "SubTransGetParent (xl_subtrans ?l) x = (if x = 11 then 10 else 0)" for x
    using SubTransGetParent_set [OF n(2), of 10 "\<lambda>_ _. 0" x] by (simp add: SubTransGetParent_def)
  have "TransactionIdPrecedes 10 11" by (simp add: TransactionIdPrecedes_def TransactionIdIsNormal_def)
  then have ok: "parents_ok ?l" using n p by (simp add: parents_ok_def)
  have "cache_ok (xl_clog ?l) ?c" by (simp add: cache_ok_def)
  moreover have "TransactionIdIsValid 11" by (simp add: TransactionIdIsValid_def)
  moreover have s: "fetch_status (xl_clog ?l) x = 3" if "TransactionIdIsNormal x" for x
  proof -
    have "drop_bit k (- 1 :: uint8) AND 3 = 3" if "k < 7" for k
      using that by (intro bit_word_eqI, auto simp only: field_bit bit_three bit_minus_1_iff possible_bit_word) simp
    moreover have "(255 :: uint8) = - 1" by simp
    moreover have "TransactionIdToBIndex x * 2 < 7" using clog_bounds(2) [of x] by simp
    ultimately show ?thesis using that by (simp only: fetch_status_def TransactionIdGetStatus_def
      Let_def if_True fst_conv xact_log.simps clog.simps)
  qed
  have "\<not> log_committed ?l 10" using s [OF n(1)] p by (subst log_committed_simps) (simp add: TransactionIdIsValid_def)
  then have "\<not> log_committed ?l 11" using s [OF n(2)] p by (subst log_committed_simps) simp
  ultimately show ?thesis using log_queries_decide [OF ok, of 11 ?c] by auto
qed

text \<open>C8. A transaction tree commits at one instant: whatever the number of clog pages its
  identifiers fall on, after any number of the page updates \<open>TransactionIdSetTreeStatus\<close>
  performs, another backend's \<open>TransactionIdDidCommit\<close> gives the same answer for the parent and
  all subtransactions (committed exactly when the parent is marked so); the answer is no
  before the first update and yes after the last, no other transaction's status changes, and
  the reported commit LSNs are then at least the commit's.\<close>

theorem commit_tree_atomic:
  fixes k :: nat
  assumes T: "\<forall>x \<in> insert xid (set subxids). TransactionIdIsNormal x \<and> \<not> TransactionIdPrecedes x xmin"
      "xid \<notin> set subxids"
    and parents: "\<forall>x \<in> set subxids. SubTransGetParent st x \<in> insert xid (set subxids)"
    and start: "clog_status c xid = TRANSACTION_STATUS_IN_PROGRESS"
      "\<forall>x \<in> set subxids. clog_status c x \<in> {TRANSACTION_STATUS_IN_PROGRESS, TRANSACTION_STATUS_SUB_COMMITTED}"
    and us: "us = tree_status_updates xid subxids TRANSACTION_STATUS_COMMITTED lsn"
    and d: "d = fold (TransactionIdSetPageStatusInternal False) (take k us) c"
    and ok: "parents_ok \<lparr>xl_clog = d, xl_subtrans = st, xl_xmin = xmin\<rparr>" "cache_ok d cache"
  shows "(\<exists>b. (\<forall>x \<in> insert xid (set subxids). \<exists>cache'.
          TransactionIdDidCommit \<lparr>xl_clog = d, xl_subtrans = st, xl_xmin = xmin\<rparr> x cache = Some (b, cache'))
        \<and> (k = 0 \<longrightarrow> \<not> b) \<and> (length us \<le> k \<longrightarrow> b))
    \<and> (\<forall>y. y \<notin> insert xid (set subxids) \<longrightarrow> clog_status d y = clog_status c y)
    \<and> (length us \<le> k \<longrightarrow> (\<forall>x \<in> insert xid (set subxids). lsn \<le> clog_lsn d x))"
proof -
  let ?l = "\<lparr>xl_clog = d, xl_subtrans = st, xl_xmin = xmin\<rparr>"
  have d': "d = run_updates (take k us) c" using d by (simp add: run_updates_def)
  have TN: "\<forall>x \<in> insert xid (set subxids). TransactionIdIsNormal x" using T(1) by blast
  note S = commit_tree_statuses [OF TN T(2) start us d']
  have fetch: "fetch_status (xl_clog ?l) x = clog_status d x" if "x \<in> insert xid (set subxids)" for x
    using that TN by (auto simp: fetch_status_def)
  have F: "\<forall>x \<in> set subxids. fetch_status (xl_clog ?l) x = clog_status d x"
    "fetch_status (xl_clog ?l) xid = clog_status d xid" using fetch by blast+
  have val: "\<forall>x \<in> insert xid (set subxids). TransactionIdIsValid x \<and> \<not> TransactionIdPrecedes x (xl_xmin ?l)"
    using T(1) Normal_valid by auto
  have par: "\<forall>x \<in> set subxids. SubTransGetParent (xl_subtrans ?l) x \<in> insert xid (set subxids)"
    using parents by simp
  have dec: "log_committed ?l x \<longleftrightarrow> clog_status d xid = TRANSACTION_STATUS_COMMITTED"
    if x: "x \<in> insert xid (set subxids)" for x
  proof (cases "clog_status d xid = TRANSACTION_STATUS_COMMITTED")
    case True
    then have "\<forall>x \<in> set subxids. fetch_status (xl_clog ?l) x
        \<in> {TRANSACTION_STATUS_COMMITTED, TRANSACTION_STATUS_SUB_COMMITTED}" using S F by auto
    from all_committed [OF ok(1) _ this val par x] show ?thesis using True F(2) by simp
  next
    case False
    then have "\<forall>x \<in> insert xid (set subxids). fetch_status (xl_clog ?l) x
        \<in> {TRANSACTION_STATUS_IN_PROGRESS, TRANSACTION_STATUS_SUB_COMMITTED}"
      "fetch_status (xl_clog ?l) xid = TRANSACTION_STATUS_IN_PROGRESS" using S F by auto
    from none_committed [OF this par] show ?thesis using x False by blast
  qed
  have b: "\<exists>cache'. TransactionIdDidCommit ?l x cache
      = Some (clog_status d xid = TRANSACTION_STATUS_COMMITTED, cache')"
    if x: "x \<in> insert xid (set subxids)" for x
    using TransactionIdDidCommit_returns [OF ok(1), of x cache] val ok(2) dec [OF x] x by auto
  have k0: "k = 0 \<Longrightarrow> clog_status d xid = TRANSACTION_STATUS_IN_PROGRESS" using d' start(1) by simp
  have "lsn \<le> clog_lsn d x" if "length us \<le> k" "x \<in> insert xid (set subxids)" for x
  proof -
    have "xid \<noteq> 0" using TN by (auto simp: Normal_word)
    then obtain A m B where p: "us = A @ m # B"
      "\<forall>u \<in> set A. update_ok u \<and> pu_status u = TRANSACTION_STATUS_SUB_COMMITTED"
      "\<forall>u \<in> set (m # B). update_ok u \<and> pu_status u = TRANSACTION_STATUS_COMMITTED"
      "\<forall>u \<in> set (A @ m # B). pu_lsn u = lsn"
      "(\<Union>u \<in> set (m # B). update_xids u) = insert xid (set subxids)"
      unfolding us by (rule tree_status_updates_phases)
    have "d = run_updates (m # B) (run_updates A c)" using d' that(1) p(1) by simp
    moreover have "\<forall>u \<in> set (m # B). update_ok u \<and> pu_lsn u = lsn" using p(3,4) by simp
    moreover have "x \<in> (\<Union>u \<in> set (m # B). update_xids u)" using p(5) that(2) by blast
    ultimately show ?thesis by (simp only: run_updates_lsn)
  qed
  then show ?thesis using b k0 S by (intro conjI exI [of _ "clog_status d xid = TRANSACTION_STATUS_COMMITTED"]) auto
qed

theorem commit_tree_atomic_witness:
  "\<exists>b. \<forall>x \<in> insert 100 (set [101, 40000]). \<exists>cache'. TransactionIdDidCommit
     \<lparr>xl_clog = fold (TransactionIdSetPageStatusInternal False)
        (take 2 (tree_status_updates 100 [101, 40000] TRANSACTION_STATUS_COMMITTED 7))
        \<lparr>page_buffer = (\<lambda>_ _. 0), group_lsn = (\<lambda>_ _. 0)\<rparr>,
      xl_subtrans = SubTransSetParent 101 100 (SubTransSetParent 40000 101 (\<lambda>_ _. 0)), xl_xmin = 50\<rparr>
     x \<lparr>cachedFetchXid = 0, cachedFetchXidStatus = 0, cachedCommitLSN = 0\<rparr> = Some (b, cache')"
proof -
  let ?st = "SubTransSetParent 101 100 (SubTransSetParent 40000 101 (\<lambda>_ _. 0))"
  let ?c = "\<lparr>page_buffer = (\<lambda>_ _. 0), group_lsn = (\<lambda>_ _. 0)\<rparr>"
  let ?e = "\<lparr>cachedFetchXid = 0, cachedFetchXidStatus = 0, cachedCommitLSN = 0\<rparr>"
  have n: "TransactionIdIsNormal 101" "TransactionIdIsNormal 40000" "TransactionIdIsNormal 50"
    by (simp_all add: TransactionIdIsNormal_def)
  have p: "SubTransGetParent ?st x = (if x = 101 then 100 else if x = 40000 then 101 else 0)" for x
    using SubTransGetParent_set [OF n(1), of 100 "SubTransSetParent 40000 101 (\<lambda>_ _. 0)" x]
      SubTransGetParent_set [OF n(2), of 101 "\<lambda>_ _. 0" x]
    by (simp add: SubTransGetParent_def)
  have lt: "TransactionIdPrecedes 100 101" "TransactionIdPrecedes 101 40000"
    by (simp_all add: TransactionIdPrecedes_def TransactionIdIsNormal_def)
  have ok: "parents_ok \<lparr>xl_clog = d, xl_subtrans = ?st, xl_xmin = 50\<rparr>" for d
    using n lt p by (simp add: parents_ok_def)
  have cache: "cache_ok d ?e" for d by (simp add: cache_ok_def)
  have T: "\<forall>x \<in> insert 100 (set [101, 40000]). TransactionIdIsNormal x \<and> \<not> TransactionIdPrecedes x 50"
    "100 \<notin> set [101, 40000 :: TransactionId]"
    by (simp_all add: TransactionIdIsNormal_def TransactionIdPrecedes_def)
  have par: "\<forall>x \<in> set [101, 40000]. SubTransGetParent ?st x \<in> insert 100 (set [101, 40000])"
    unfolding p by simp
  have z: "clog_status ?c x = TRANSACTION_STATUS_IN_PROGRESS" for x
    by (simp add: TransactionIdGetStatus_def Let_def)
  have s: "\<forall>x \<in> set [101, 40000]. clog_status ?c x \<in> {TRANSACTION_STATUS_IN_PROGRESS, TRANSACTION_STATUS_SUB_COMMITTED}"
    by (simp add: z)
  show ?thesis
    by (rule ex_forward [OF conjunct1 [OF commit_tree_atomic [OF T par z s refl refl ok cache, of 2 7]]])
      (rule conjunct1)
qed

text \<open>C24. \<open>SubTransGetTopmostTransaction\<close> returns whatever pg_subtrans holds, corrupt entries
  included; a result that is not an error is an ancestor of the given transaction which has no
  parent or is older than \<open>TransactionXmin\<close>.  A parent recorded with \<open>SubTransSetParent\<close> is
  the one read back, and no other entry changes.\<close>

theorem subtrans_topmost:
  assumes "TransactionIdIsNormal TransactionXmin" "TransactionIdIsNormal xid"
  shows "\<exists>r. SubTransGetTopmostTransaction s TransactionXmin xid = Some r
      \<and> (\<forall>t. r = Inr t \<longrightarrow> ancestor s xid t
           \<and> (TransactionIdPrecedes t TransactionXmin \<or> SubTransGetParent s t = InvalidTransactionId))
      \<and> SubTransGetParent (SubTransSetParent xid p s) xid = p
      \<and> (\<forall>y. y \<noteq> xid \<longrightarrow> SubTransGetParent (SubTransSetParent xid p s) y = SubTransGetParent s y)"
  using topmost_loop_returns [OF assms(1) Normal_valid [OF assms(2)], of s xid]
    SubTransGetParent_set [OF assms(2)]
  by (auto simp: SubTransGetTopmostTransaction_def)

theorem subtrans_topmost_witness:
  "\<exists>r. SubTransGetTopmostTransaction (\<lambda>_ _. 12) 10 11 = Some r"
proof -
  have "TransactionIdIsNormal 10" "TransactionIdIsNormal 11" by (simp_all add: TransactionIdIsNormal_def)
  from subtrans_topmost [OF this, of "\<lambda>_ _. 12"] show ?thesis by blast
qed

end
