(* ===== verification/XactState.thy ===== *)
theory XactState
  imports Transam
begin

text \<open>
  A backend's stack of (sub)transactions, from \<^verbatim>\<open>src/backend/access/transam/xact.c\<close>: the state
  records and the test whether an xid is one of the backend's own.  The parent pointers of the
  C structs are the order of a list, the current subtransaction first.  Of a resource owner only
  whether the pointer is set is kept (\<open>curTransactionOwner\<close>); memory contexts, the GUC nesting level
  and the saved security context are not represented.
\<close>

section \<open>Transaction states\<close>

datatype TransState = TRANS_DEFAULT | TRANS_START | TRANS_INPROGRESS | TRANS_COMMIT | TRANS_ABORT
  | TRANS_PREPARE

datatype TBlockState = TBLOCK_DEFAULT | TBLOCK_STARTED | TBLOCK_BEGIN | TBLOCK_INPROGRESS
  | TBLOCK_IMPLICIT_INPROGRESS | TBLOCK_PARALLEL_INPROGRESS | TBLOCK_END | TBLOCK_ABORT
  | TBLOCK_ABORT_END | TBLOCK_ABORT_PENDING | TBLOCK_PREPARE | TBLOCK_SUBBEGIN
  | TBLOCK_SUBINPROGRESS | TBLOCK_SUBRELEASE | TBLOCK_SUBCOMMIT | TBLOCK_SUBABORT
  | TBLOCK_SUBABORT_END | TBLOCK_SUBABORT_PENDING | TBLOCK_SUBRESTART | TBLOCK_SUBABORT_RESTART

text \<open>A \<open>FullTransactionId\<close> is its 64-bit value; the xid is the low half.\<close>

type_synonym FullTransactionId = uint64

definition XidFromFullTransactionId :: "FullTransactionId \<Rightarrow> TransactionId" where
  "XidFromFullTransactionId x = ucast x"

definition FullTransactionIdIsValid :: "FullTransactionId \<Rightarrow> bool" where
  "FullTransactionIdIsValid x \<longleftrightarrow> TransactionIdIsValid (XidFromFullTransactionId x)"

record TransactionStateData =
  fullTransactionId :: FullTransactionId
  subTransactionId :: uint32
  ts_name :: "string option"
  savepointLevel :: int
  ts_state :: TransState
  blockState :: TBlockState
  nestingLevel :: int
  curTransactionOwner :: bool
  childXids :: "TransactionId list"
  maxChildXids :: int
  prevXactReadOnly :: bool
  startedInRecovery :: bool
  didLogXid :: bool
  parallelModeLevel :: int
  chain :: bool

section \<open>The backend's own identifiers\<close>

text \<open>The state the test reads; \<open>transactionStack\<close> starts at \<open>CurrentTransactionState\<close>.\<close>

record xact_ids =
  XactTopFullTransactionId :: FullTransactionId
  ParallelCurrentXids :: "TransactionId list"
  transactionStack :: "TransactionStateData list"

definition GetTopTransactionIdIfAny :: "xact_ids \<Rightarrow> TransactionId" where
  "GetTopTransactionIdIfAny st = XidFromFullTransactionId (XactTopFullTransactionId st)"

text \<open>The binary search over \<open>childXids\<close> (ordered by \<open>TransactionIdPrecedes\<close>) and over
  \<open>ParallelCurrentXids\<close> (ordered by \<open><\<close>) for indexes between \<open>low\<close> and \<open>high\<close>.\<close>

function xid_search ::
    "(TransactionId \<Rightarrow> TransactionId \<Rightarrow> bool) \<Rightarrow> TransactionId list \<Rightarrow> TransactionId \<Rightarrow> int \<Rightarrow> int \<Rightarrow> bool" where
  "xid_search before xids xid low high =
     (if low \<le> high
      then
        let middle = low + (high - low) div 2;
            probe = xids ! nat middle
        in if probe = xid then True
           else if before probe xid then xid_search before xids xid (middle + 1) high
           else xid_search before xids xid low (middle - 1)
      else False)"
  by pat_completeness auto
termination
  by (relation "measure (\<lambda>(_, _, _, low, high). nat (high - low + 1))") auto

declare xid_search.simps [simp del]

text \<open>The loop over the stack.\<close>

fun is_stack_xid :: "TransactionId \<Rightarrow> TransactionStateData list \<Rightarrow> bool" where
  "is_stack_xid xid [] = False"
| "is_stack_xid xid (s # ss) =
     (if ts_state s = TRANS_ABORT then is_stack_xid xid ss
      else if \<not> FullTransactionIdIsValid (fullTransactionId s) then is_stack_xid xid ss
      else if xid = XidFromFullTransactionId (fullTransactionId s) then True
      else if xid_search TransactionIdPrecedes (childXids s) xid 0 (int (length (childXids s)) - 1)
      then True
      else is_stack_xid xid ss)"

definition TransactionIdIsCurrentTransactionId :: "xact_ids \<Rightarrow> TransactionId \<Rightarrow> bool" where
  "TransactionIdIsCurrentTransactionId st xid =
     (if \<not> TransactionIdIsNormal xid then False
      else if xid = GetTopTransactionIdIfAny st then True
      else if 0 < length (ParallelCurrentXids st)
      then xid_search (<) (ParallelCurrentXids st) xid 0 (int (length (ParallelCurrentXids st)) - 1)
      else is_stack_xid xid (transactionStack st))"

section \<open>The searches decide membership\<close>

text \<open>For a comparison that is the order of a key on the array and the sought xid, and an array
  sorted by that key.\<close>

lemma xid_search_range:
  assumes sorted: "sorted (map k xids)"
    and before: "\<forall>x \<in> set xids. before x xid \<longleftrightarrow> k x < (k xid :: nat)"
    and inj: "\<forall>x \<in> set xids. k x = k xid \<longrightarrow> x = xid"
    and "0 \<le> low" "high < int (length xids)"
  shows "xid_search before xids xid low high
    \<longleftrightarrow> (\<exists>i. low \<le> int i \<and> int i \<le> high \<and> xids ! i = xid)"
  using assms(4,5)
proof (induction "nat (high - low + 1)" arbitrary: low high rule: less_induct)
  case less
  show ?case
  proof (cases "low \<le> high")
    case False
    then show ?thesis by (subst xid_search.simps) auto
  next
    case True
    define middle where "middle = low + (high - low) div 2"
    have m: "low \<le> middle" "middle \<le> high" "0 \<le> middle" using True less.prems by (auto simp: middle_def)
    then have len: "nat middle < length xids" using less.prems(2) by linarith
    let ?probe = "xids ! nat middle"
    have p: "?probe \<in> set xids" using len by simp
    have step: "xid_search before xids xid low high \<longleftrightarrow> (if ?probe = xid then True
        else if before ?probe xid then xid_search before xids xid (middle + 1) high
        else xid_search before xids xid low (middle - 1))"
      using True by (subst xid_search.simps) (simp add: Let_def middle_def)
    have mono: "k (xids ! i) \<le> k (xids ! j)" if "i \<le> j" "j < length xids" for i j
      using sorted_nth_mono [OF sorted, of i j] that by simp
    consider "?probe = xid" | "?probe \<noteq> xid" "before ?probe xid" | "?probe \<noteq> xid" "\<not> before ?probe xid" by blast
    then show ?thesis
    proof cases
      case 1
      then show ?thesis using step m by (auto intro!: exI [of _ "nat middle"])
    next
      case 2
      then have "k ?probe < k xid" using before p by blast
      then have "middle < int i" if "xids ! i = xid" "int i \<le> high" for i
        using mono [of i "nat middle"] that len m by (cases "i \<le> nat middle") auto
      then have "(\<exists>i. low \<le> int i \<and> int i \<le> high \<and> xids ! i = xid)
          \<longleftrightarrow> (\<exists>i. middle + 1 \<le> int i \<and> int i \<le> high \<and> xids ! i = xid)"
        using m(1) by force
      then show ?thesis using step 2 less.hyps [of high "middle + 1"] m less.prems by simp
    next
      case 3
      then have "k xid < k ?probe" using before inj p by (metis linorder_neqE_nat)
      then have "int i < middle" if "xids ! i = xid" "int i \<le> high" for i
        using mono [of "nat middle" i] that less.prems(2) m by (cases "nat middle \<le> i") auto
      then have "(\<exists>i. low \<le> int i \<and> int i \<le> high \<and> xids ! i = xid)
          \<longleftrightarrow> (\<exists>i. low \<le> int i \<and> int i \<le> middle - 1 \<and> xids ! i = xid)"
        using m(2) by force
      then show ?thesis using step 3 less.hyps [of "middle - 1" low] m less.prems by simp
    qed
  qed
qed

lemma xid_search_iff:
  assumes "sorted (map k xids)"
    and "\<forall>x \<in> set xids. before x xid \<longleftrightarrow> k x < (k xid :: nat)"
    and "\<forall>x \<in> set xids. k x = k xid \<longrightarrow> x = xid"
  shows "xid_search before xids xid 0 (int (length xids) - 1) \<longleftrightarrow> xid \<in> set xids"
  using xid_search_range [where k = k and before = before, OF assms, of 0 "int (length xids) - 1"]
  by (auto simp: in_set_conv_nth)

text \<open>The identifiers a stack holds, and the order invariant of its arrays: the children of each
  subtransaction ascend within a window of 2^31 identifiers from \<open>b\<close>.\<close>

definition live_xids :: "TransactionStateData \<Rightarrow> TransactionId set" where
  "live_xids s = (if ts_state s = TRANS_ABORT \<or> \<not> FullTransactionIdIsValid (fullTransactionId s) then {}
     else insert (XidFromFullTransactionId (fullTransactionId s)) (set (childXids s)))"

definition own_xids :: "xact_ids \<Rightarrow> TransactionId set" where
  "own_xids st = {x. TransactionIdIsNormal x \<and> (x = GetTopTransactionIdIfAny st
     \<or> (if ParallelCurrentXids st \<noteq> [] then x \<in> set (ParallelCurrentXids st)
         else \<exists>s \<in> set (transactionStack st). x \<in> live_xids s))}"

definition xid_arrays_ok :: "TransactionId \<Rightarrow> xact_ids \<Rightarrow> bool" where
  "xid_arrays_ok b st \<longleftrightarrow> sorted (map unat (ParallelCurrentXids st))
     \<and> (\<forall>s \<in> set (transactionStack st).
          sorted (map (\<lambda>x. unat (x - b)) (childXids s))
          \<and> (\<forall>x \<in> set (childXids s). TransactionIdIsNormal x \<and> unat (x - b) < 2 ^ 31))"

lemma is_stack_xid_iff:
  assumes "TransactionIdIsNormal xid" "unat (xid - b) < 2 ^ 31"
    and "\<forall>s \<in> set ss. sorted (map (\<lambda>x. unat (x - b)) (childXids s))
      \<and> (\<forall>x \<in> set (childXids s). TransactionIdIsNormal x \<and> unat (x - b) < 2 ^ 31)"
  shows "is_stack_xid xid ss \<longleftrightarrow> (\<exists>s \<in> set ss. xid \<in> live_xids s)"
  using assms(3)
proof (induction ss)
  case (Cons s ss)
  have "xid_search TransactionIdPrecedes (childXids s) xid 0 (int (length (childXids s)) - 1)
      \<longleftrightarrow> xid \<in> set (childXids s)"
  proof (rule xid_search_iff)
    show "sorted (map (\<lambda>x. unat (x - b)) (childXids s))" using Cons.prems by simp
    show "\<forall>x \<in> set (childXids s). TransactionIdPrecedes x xid \<longleftrightarrow> unat (x - b) < unat (xid - b)"
      using Cons.prems assms(1,2) Precedes_window by auto
    show "\<forall>x \<in> set (childXids s). unat (x - b) = unat (xid - b) \<longrightarrow> x = xid"
      by (simp add: word_unat_eq_iff [symmetric])
  qed
  moreover have "is_stack_xid xid ss \<longleftrightarrow> (\<exists>s \<in> set ss. xid \<in> live_xids s)" using Cons by simp
  ultimately show ?case by (auto simp: live_xids_def)
qed simp

text \<open>C22. \<open>TransactionIdIsCurrentTransactionId\<close> decides exactly whether an xid is the backend's
  top transaction, one of its live subtransactions, or one of their subcommitted children
  (in a parallel worker: one of the leader's): both binary searches find every entry of their
  sorted array although child xids are sorted modulo 2^32.\<close>

theorem current_xid_exact:
  assumes "xid_arrays_ok b st" "unat (xid - b) < 2 ^ 31"
  shows "TransactionIdIsCurrentTransactionId st xid \<longleftrightarrow> xid \<in> own_xids st"
proof -
  have "xid_search (<) (ParallelCurrentXids st) xid 0 (int (length (ParallelCurrentXids st)) - 1)
      \<longleftrightarrow> xid \<in> set (ParallelCurrentXids st)"
    using assms(1) by (intro xid_search_iff [of unat])
      (simp_all add: xid_arrays_ok_def word_less_nat_alt word_unat_eq_iff)
  then show ?thesis
    using assms is_stack_xid_iff [of xid b "transactionStack st"]
    by (auto simp: TransactionIdIsCurrentTransactionId_def own_xids_def xid_arrays_ok_def)
qed

theorem current_xid_exact_witness:
  "TransactionIdIsCurrentTransactionId
     \<lparr>XactTopFullTransactionId = 4294967290, ParallelCurrentXids = [],
      transactionStack = [\<lparr>fullTransactionId = 4294967290, subTransactionId = 1, ts_name = None,
        savepointLevel = 0, ts_state = TRANS_INPROGRESS, blockState = TBLOCK_INPROGRESS,
        nestingLevel = 1, curTransactionOwner = True, childXids = [4294967294, 5, 9], maxChildXids = 6,
        prevXactReadOnly = False, startedInRecovery = False, didLogXid = False, parallelModeLevel = 0,
        chain = False\<rparr>]\<rparr> 5"
proof -
  let ?s = "\<lparr>fullTransactionId = 4294967290, subTransactionId = 1, ts_name = None,
        savepointLevel = 0, ts_state = TRANS_INPROGRESS, blockState = TBLOCK_INPROGRESS,
        nestingLevel = 1, curTransactionOwner = True, childXids = [4294967294, 5, 9], maxChildXids = 6,
        prevXactReadOnly = False, startedInRecovery = False, didLogXid = False, parallelModeLevel = 0,
        chain = False\<rparr> :: TransactionStateData"
  let ?st = "\<lparr>XactTopFullTransactionId = 4294967290, ParallelCurrentXids = [], transactionStack = [?s]\<rparr>"
  have n: "TransactionIdIsNormal 4294967294" "TransactionIdIsNormal 5" "TransactionIdIsNormal 9"
    by (simp_all add: TransactionIdIsNormal_def)
  have "xid_arrays_ok 4294967000 ?st" using n by (simp add: xid_arrays_ok_def)
  moreover have "unat (5 - 4294967000 :: TransactionId) < 2 ^ 31" by simp
  moreover have "5 \<in> own_xids ?st" using n
    by (simp add: own_xids_def live_xids_def FullTransactionIdIsValid_def TransactionIdIsValid_def
        XidFromFullTransactionId_def)
  ultimately show ?thesis using current_xid_exact by blast
qed

end
