(* ===== verification/FullXid.thy ===== *)
theory FullXid
  imports XactState
begin

text \<open>
  64-bit transaction ids from \<^verbatim>\<open>src/include/access/transam.h\<close> and the windows of 2^31 normal
  ids within which the 32-bit comparisons are an order.
\<close>

section \<open>Full transaction ids\<close>

abbreviation FirstNormalFullTransactionId :: FullTransactionId where
  "FirstNormalFullTransactionId \<equiv> 3"

function advance_loop :: "FullTransactionId \<Rightarrow> FullTransactionId" where
  "advance_loop dest =
     (if XidFromFullTransactionId dest < FirstNormalTransactionId then advance_loop (dest + 1) else dest)"
  by pat_completeness auto
termination
proof (relation "measure (\<lambda>d. 3 - unat (XidFromFullTransactionId d))")
  fix dest :: FullTransactionId
  assume lt: "XidFromFullTransactionId dest < FirstNormalTransactionId"
  then have u: "unat (XidFromFullTransactionId dest) < 3" by (simp add: word_less_nat_alt)
  have x: "unat (XidFromFullTransactionId d) = unat d mod 2 ^ 32" for d
    by (simp add: XidFromFullTransactionId_def unsigned_ucast_eq take_bit_eq_mod)
  have "unat (XidFromFullTransactionId (dest + 1)) = (unat dest + 1) mod 2 ^ 64 mod 2 ^ 32"
    by (simp add: x unat_word_ariths(1))
  also have "\<dots> = (unat dest mod 2 ^ 32 + 1) mod 2 ^ 32" by (simp add: mod_mod_cancel mod_simps)
  also have "\<dots> = unat (XidFromFullTransactionId dest) + 1" using u x [of dest] by simp
  finally show "(dest + 1, dest) \<in> measure (\<lambda>d. 3 - unat (XidFromFullTransactionId d))"
    using u by simp
qed simp

declare advance_loop.simps [simp del]

definition FullTransactionIdAdvance :: "FullTransactionId \<Rightarrow> FullTransactionId" where
  "FullTransactionIdAdvance dest =
     (let dest = dest + 1
      in if dest < FirstNormalFullTransactionId then dest else advance_loop dest)"

definition NormalTransactionIdPrecedes :: "TransactionId \<Rightarrow> TransactionId \<Rightarrow> bool" where
  "NormalTransactionIdPrecedes id1 id2 \<longleftrightarrow> sint (id1 - id2) < 0"

section \<open>Windows\<close>

abbreviation dist :: "TransactionId \<Rightarrow> TransactionId \<Rightarrow> nat" where
  "dist b x \<equiv> unat (x - b)"

text \<open>\<open>x\<close> lies in the window of 2^31 normal identifiers from \<open>b\<close>.\<close>

definition in_window :: "TransactionId \<Rightarrow> TransactionId \<Rightarrow> bool" where
  "in_window b x \<longleftrightarrow> TransactionIdIsNormal x \<and> dist b x < 2 ^ 31"

lemma window_compare:
  assumes "in_window b x" "in_window b y"
  shows "TransactionIdPrecedes x y \<longleftrightarrow> dist b x < dist b y"
    "NormalTransactionIdPrecedes x y \<longleftrightarrow> dist b x < dist b y"
    "TransactionIdFollowsOrEquals x y \<longleftrightarrow> dist b y \<le> dist b x"
    "TransactionIdPrecedesOrEquals x y \<longleftrightarrow> dist b x \<le> dist b y"
proof -
  show p: "TransactionIdPrecedes x y \<longleftrightarrow> dist b x < dist b y"
    using Precedes_window assms by (simp add: in_window_def)
  then show n: "NormalTransactionIdPrecedes x y \<longleftrightarrow> dist b x < dist b y"
    using assms by (simp add: TransactionIdPrecedes_def NormalTransactionIdPrecedes_def in_window_def)
  show "TransactionIdFollowsOrEquals x y \<longleftrightarrow> dist b y \<le> dist b x"
    "TransactionIdPrecedesOrEquals x y \<longleftrightarrow> dist b x \<le> dist b y"
    using assms by (simp_all add: window_order [of x y b] in_window_def)
qed

lemma window_inj: "dist b x = dist b y \<Longrightarrow> x = y"
  by (metis diff_add_cancel word_unat_eq_iff)

text \<open>Between the latest completed xid and \<open>xmax\<close> there is no normal xid.\<close>

lemma Advance_window:
  assumes "in_window b x" "in_window b m" "dist b m < 2 ^ 31 - 4"
  shows "in_window b (TransactionIdAdvance m)"
    "dist b (TransactionIdAdvance m) \<le> dist b x \<longleftrightarrow> dist b m < dist b x"
proof -
  have "in_window b (TransactionIdAdvance m)
      \<and> (dist b (TransactionIdAdvance m) \<le> dist b x \<longleftrightarrow> dist b m < dist b x)"
  proof (cases "m = - 1")
    case False
    then have "m + 1 \<noteq> 0" by (metis add.inverse_inverse add_eq_0_iff)
    moreover have "m \<noteq> 0" "m \<noteq> 1" using assms(2) by (auto simp: in_window_def Normal_word)
    ultimately have n: "TransactionIdIsNormal (m + 1)"
      by (simp add: Normal_word)
    then have a: "TransactionIdAdvance m = m + 1"
      by (auto simp add: TransactionIdAdvance_def TransactionIdIsNormal_def Let_def)
    have "m + 1 - b = (m - b) + 1" by simp
    then have "dist b (m + 1) = dist b m + 1"
      using assms(3) by (simp only: unat_word_ariths(1)) simp
    then show ?thesis using a n assms(3) by (auto simp: in_window_def)
  next
    case True
    then have a: "TransactionIdAdvance m = 3" by (simp add: TransactionIdAdvance_def)
    have "3 - b = (m - b) + 4" using True by simp
    then have d: "dist b 3 = dist b m + 4"
      using assms(3) by (simp only: unat_word_ariths(1)) simp
    have "dist b m + 4 \<le> dist b x" if lt: "dist b m < dist b x"
    proof (rule ccontr)
      assume c: "\<not> dist b m + 4 \<le> dist b x"
      have sum: "dist b (m + k) = dist b m + unat k" if "unat k < 8" for k
      proof -
        have "m + k - b = (m - b) + k" by simp
        then show ?thesis using assms(3) that by (simp only: unat_word_ariths(1)) simp
      qed
      have "dist b x = dist b m + 1 \<or> dist b x = dist b m + 2 \<or> dist b x = dist b m + 3"
        using lt c by linarith
      then have "dist b x = dist b (m + 1) \<or> dist b x = dist b (m + 2) \<or> dist b x = dist b (m + 3)"
        using sum [of 1] sum [of 2] sum [of 3] by simp
      then have "x = m + 1 \<or> x = m + 2 \<or> x = m + 3" using window_inj by blast
      then show False using True assms(1) by (auto simp: in_window_def Normal_word)
    qed
    then show ?thesis using a d assms(3) by (auto simp: in_window_def TransactionIdIsNormal_def)
  qed
  then show "in_window b (TransactionIdAdvance m)"
    "dist b (TransactionIdAdvance m) \<le> dist b x \<longleftrightarrow> dist b m < dist b x" by blast+
qed

section \<open>Advancing the counter\<close>

lemma advance_loop_normal:
  "TransactionIdIsNormal (XidFromFullTransactionId x) \<Longrightarrow> advance_loop x = x"
  by (subst advance_loop.simps) (auto simp: TransactionIdIsNormal_def dest: leD)

lemma unat_xid: "unat (XidFromFullTransactionId x) = unat x mod 4294967296"
  by (simp add: XidFromFullTransactionId_def unsigned_ucast_eq take_bit_eq_mod)

lemma Normal_unat: "TransactionIdIsNormal x \<longleftrightarrow> 3 \<le> unat x"
  by (simp add: TransactionIdIsNormal_def word_le_nat_alt)

lemma unat_full_add:
  assumes "unat (x :: FullTransactionId) + 4 < 18446744073709551616" "unat k \<le> 4"
  shows "unat (x + k) = unat x + unat k"
  using assms by (simp add: unat_word_ariths(1))

lemma Advance_eq:
  assumes "TransactionIdIsNormal x"
  shows "TransactionIdAdvance x = x + (if x = - 1 then 4 else 1)"
    and "unat (TransactionIdAdvance x) = (if x = - 1 then 3 else unat x + 1)"
proof -
  have "TransactionIdAdvance x = x + 1 \<and> unat (TransactionIdAdvance x) = unat x + 1" if "x \<noteq> - 1"
  proof -
    have "unat x \<noteq> unat (- 1 :: uint32)" using that by (simp only: word_unat_eq_iff not_False_eq_True)
    then have "unat x \<noteq> 4294967295" by (simp add: unsigned_minus_1_eq_mask mask_eq_exp_minus_1)
    moreover have "unat x < 4294967296" using unsigned_less [of x] by simp
    ultimately have u: "unat (x + 1) = unat x + 1" by (simp add: unat_word_ariths(1))
    then have "\<not> x + 1 < 3" using assms by (simp add: word_less_nat_alt Normal_unat)
    then show ?thesis using u by (simp add: TransactionIdAdvance_def Let_def)
  qed
  moreover have "TransactionIdAdvance (- 1) = 3" by (simp add: TransactionIdAdvance_def)
  ultimately show "TransactionIdAdvance x = x + (if x = - 1 then 4 else 1)"
    and "unat (TransactionIdAdvance x) = (if x = - 1 then 3 else unat x + 1)"
    by (cases "x = - 1"; simp)+
qed

lemma full_advance:
  assumes n: "TransactionIdIsNormal (XidFromFullTransactionId x)"
    and lt: "unat x + 4 < 18446744073709551616"
  shows "unat (FullTransactionIdAdvance x)
      = unat x + (if XidFromFullTransactionId x = - 1 then 4 else 1)"
    and "XidFromFullTransactionId (FullTransactionIdAdvance x)
      = TransactionIdAdvance (XidFromFullTransactionId x)"
proof -
  let ?l = "unat x mod 4294967296"
  have add: "unat (x + k) = unat x + unat k" if "unat k \<le> 4" for k
    using unat_full_add [OF lt that] .
  have u1: "unat (x + 1) = unat x + 1" using add [of 1] by simp
  have l3: "3 \<le> ?l" using n by (simp add: Normal_unat unat_xid)
  then have "3 \<le> unat x" by (metis mod_less_eq_dividend order_trans)
  then have ge: "\<not> x + 1 < 3" by (simp add: word_less_nat_alt u1)
  have low: "unat (XidFromFullTransactionId (x + k)) = (?l + unat k) mod 4294967296"
    if "unat k \<le> 4" for k
    by (simp add: unat_xid add [OF that] mod_simps)
  have m1: "XidFromFullTransactionId x = - 1 \<longleftrightarrow> ?l = 4294967295"
    by (simp add: word_unat_eq_iff unat_xid unsigned_minus_1_eq_mask mask_eq_exp_minus_1)
  have A: "FullTransactionIdAdvance x = advance_loop (x + 1)"
    using ge by (simp add: FullTransactionIdAdvance_def Let_def)
  have "unat (FullTransactionIdAdvance x) = unat x + (if ?l = 4294967295 then 4 else 1)
    \<and> unat (XidFromFullTransactionId (FullTransactionIdAdvance x))
       = (if ?l = 4294967295 then 3 else ?l + 1)"
  proof (cases "?l = 4294967295")
    case False
    moreover have "?l < 4294967296" by simp
    ultimately have lx: "?l + 1 < 4294967296" by linarith
    have "TransactionIdIsNormal (XidFromFullTransactionId (x + 1))"
      using low [of 1] l3 lx by (simp add: Normal_unat)
    then show ?thesis using A advance_loop_normal [of "x + 1"] u1 low [of 1] lx False by simp
  next
    case True
    have step: "advance_loop (x + k) = advance_loop (x + k + 1)"
      if "unat k \<in> {1, 2, 3}" for k
    proof -
      have "unat (XidFromFullTransactionId (x + k)) < 3" using low [of k] True that by auto
      then show ?thesis by (subst advance_loop.simps) (simp add: word_less_nat_alt)
    qed
    have "advance_loop (x + 1) = advance_loop (x + 4)"
      using step [of 1] step [of 2] step [of 3] by (simp add: add.assoc)
    moreover have "advance_loop (x + 4) = x + 4"
      using low [of 4] True by (intro advance_loop_normal) (simp add: Normal_unat)
    ultimately show ?thesis using A add [of 4] low [of 4] True by simp
  qed
  then have a: "unat (FullTransactionIdAdvance x) = unat x + (if ?l = 4294967295 then 4 else 1)"
    and b: "unat (XidFromFullTransactionId (FullTransactionIdAdvance x)) = (if ?l = 4294967295 then 3 else ?l + 1)"
    by blast+
  show "unat (FullTransactionIdAdvance x) = unat x + (if XidFromFullTransactionId x = - 1 then 4 else 1)"
    by (simp only: a m1)
  have "unat (XidFromFullTransactionId (FullTransactionIdAdvance x))
      = unat (TransactionIdAdvance (XidFromFullTransactionId x))"
    by (simp only: b m1 Advance_eq(2) [OF n] unat_xid [of x])
  then show "XidFromFullTransactionId (FullTransactionIdAdvance x)
      = TransactionIdAdvance (XidFromFullTransactionId x)"
    by (simp only: word_unat_eq_iff)
qed

lemma drop1: "drop_bit 1 (0xFFFFFFFF :: uint32) = 0x7FFFFFFF" by simp

lemma dist_add [simp]: "dist b (b + k) = unat k" by simp

lemma dist_Advance:
  assumes "in_window b x" "dist b x < 2147483644"
  shows "dist b (TransactionIdAdvance x) = dist b x + (if x = - 1 then 4 else 1)"
proof -
  have n: "TransactionIdIsNormal x" using assms(1) by (simp add: in_window_def)
  define k :: uint32 where "k = (if x = - 1 then 4 else 1)"
  have k: "unat k = (if x = - 1 then 4 else 1)" by (simp add: k_def)
  have "TransactionIdAdvance x - b = (x - b) + k" using Advance_eq(1) [OF n] by (simp add: k_def)
  moreover have "unat k \<le> 4" using k by simp
  then have "unat ((x - b) + k) = dist b x + unat k"
    using assms(2) by (simp only: unat_word_ariths(1)) simp
  ultimately show ?thesis by (simp only: k)
qed

text \<open>Taking \<open>n\<close> ids moves the counter by at most \<open>4 * n\<close>.\<close>

lemma advance_many:
  assumes "in_window b (XidFromFullTransactionId x)" "unat x + 4 * n < 18446744073709551616"
    and "dist b (XidFromFullTransactionId x) + 4 * n < 2147483648"
  shows "in_window b (XidFromFullTransactionId ((FullTransactionIdAdvance ^^ n) x))
    \<and> unat x + n \<le> unat ((FullTransactionIdAdvance ^^ n) x)
    \<and> unat ((FullTransactionIdAdvance ^^ n) x) \<le> unat x + 4 * n
    \<and> dist b (XidFromFullTransactionId ((FullTransactionIdAdvance ^^ n) x))
        \<le> dist b (XidFromFullTransactionId x) + 4 * n"
  using assms(2,3)
proof (induction n)
  case (Suc n)
  let ?y = "(FullTransactionIdAdvance ^^ n) x"
  have IH: "in_window b (XidFromFullTransactionId ?y)" "unat x + n \<le> unat ?y" "unat ?y \<le> unat x + 4 * n"
    "dist b (XidFromFullTransactionId ?y) \<le> dist b (XidFromFullTransactionId x) + 4 * n"
    using Suc by auto
  have n: "TransactionIdIsNormal (XidFromFullTransactionId ?y)" using IH(1) by (simp add: in_window_def)
  have lt: "unat ?y + 4 < 18446744073709551616" using IH(3) Suc.prems(1) by simp
  have d: "dist b (XidFromFullTransactionId ?y) < 2147483644" using IH(4) Suc.prems(2) by simp
  note full_advance [OF n lt] dist_Advance [OF IH(1) d]
  moreover have "in_window b (TransactionIdAdvance (XidFromFullTransactionId ?y))"
    using IH(1) d by (intro Advance_window(1)) simp_all
  ultimately show ?case using IH Suc.prems by (auto split: if_splits)
qed (use assms(1) in simp)

end
