(* ===== verification/Varsup.thy ===== *)
theory Varsup
  imports FullXid
begin

text \<open>
  The shared allocation counters of \<^verbatim>\<open>src/backend/access/transam/varsup.c\<close>: transaction ids with
  the limits that protect against wraparound, and object ids.  A function that holds
  \<open>XidGenLock\<close> or \<open>OidGenLock\<close> throughout is one step; \<open>GetNewTransactionId\<close> gives the lock up
  between its limit check and the assignment, and the ids other backends take meanwhile are an
  argument.  Warnings, signals to the autovacuum launcher and the commit-timestamp fields are
  not represented.
\<close>

section \<open>The counters\<close>

type_synonym Oid = uint32

record VariableCacheData =
  nextOid :: Oid
  oidCount :: uint32
  nextXid :: FullTransactionId
  oldestXid :: TransactionId
  xidVacLimit :: TransactionId
  xidWarnLimit :: TransactionId
  xidStopLimit :: TransactionId
  xidWrapLimit :: TransactionId
  oldestXidDB :: Oid
  oldestClogXid :: TransactionId

text \<open>The ids the backend advertises in its \<open>PGPROC\<close>, and what the process runs as.\<close>

abbreviation PGPROC_MAX_CACHED_SUBXIDS :: nat where "PGPROC_MAX_CACHED_SUBXIDS \<equiv> 64"

record MyProcXids =
  proc_xid :: TransactionId
  proc_subxids :: "TransactionId list"
  proc_overflowed :: bool

record process_mode =
  IsUnderPostmaster :: bool
  IsPostmasterEnvironment :: bool
  IsBootstrapProcessingMode :: bool
  RecoveryInProgress :: bool

definition EpochFromFullTransactionId :: "FullTransactionId \<Rightarrow> uint32" where
  "EpochFromFullTransactionId x = ucast (drop_bit 32 x)"

definition FullTransactionIdFromEpochAndXid :: "uint32 \<Rightarrow> TransactionId \<Rightarrow> FullTransactionId" where
  "FullTransactionIdFromEpochAndXid epoch xid = push_bit 32 (ucast epoch) OR ucast xid"

section \<open>Transaction ids\<close>

text \<open>The check under \<open>XidGenLock\<close>: whether an id may be assigned at all.\<close>

definition xid_limit_check :: "process_mode \<Rightarrow> VariableCacheData \<Rightarrow> unit result" where
  "xid_limit_check m c =
     (let xid = XidFromFullTransactionId (nextXid c)
      in if TransactionIdFollowsOrEquals xid (xidVacLimit c)
            \<and> IsUnderPostmaster m \<and> TransactionIdFollowsOrEquals xid (xidStopLimit c)
         then Inl (Ereport ''PROGRAM_LIMIT_EXCEEDED'')
         else Inr ())"

definition advertise_xid :: "bool \<Rightarrow> TransactionId \<Rightarrow> MyProcXids \<Rightarrow> MyProcXids" where
  "advertise_xid isSubXact xid p =
     (if \<not> isSubXact then p\<lparr>proc_xid := xid\<rparr>
      else if length (proc_subxids p) < PGPROC_MAX_CACHED_SUBXIDS
      then p\<lparr>proc_subxids := proc_subxids p @ [xid]\<rparr>
      else p\<lparr>proc_overflowed := True\<rparr>)"

text \<open>\<open>others\<close> is the number of ids other backends take while the lock is free, \<open>extended\<close> the
  outcome of \<open>ExtendCLOG\<close>, \<open>ExtendCommitTs\<close> and \<open>ExtendSUBTRANS\<close>.\<close>

definition GetNewTransactionId ::
    "process_mode \<Rightarrow> nat \<Rightarrow> unit result \<Rightarrow> bool \<Rightarrow> bool \<Rightarrow> VariableCacheData \<Rightarrow> MyProcXids
       \<Rightarrow> FullTransactionId result \<times> VariableCacheData \<times> MyProcXids" where
  "GetNewTransactionId m others extended inParallelMode isSubXact c p =
     (if inParallelMode
      then (Inl (Elog ''cannot assign TransactionIds during a parallel operation''), c, p)
      else if IsBootstrapProcessingMode m
      then (Inr (FullTransactionIdFromEpochAndXid 0 BootstrapTransactionId), c,
            p\<lparr>proc_xid := BootstrapTransactionId\<rparr>)
      else if RecoveryInProgress m
      then (Inl (Elog ''cannot assign TransactionIds during recovery''), c, p)
      else
        (case xid_limit_check m c of
          Inl e \<Rightarrow> (Inl e, c, p)
        | Inr _ \<Rightarrow>
            let c = (if TransactionIdFollowsOrEquals (XidFromFullTransactionId (nextXid c)) (xidVacLimit c)
                     then c\<lparr>nextXid := (FullTransactionIdAdvance ^^ others) (nextXid c)\<rparr> else c);
                full_xid = nextXid c;
                xid = XidFromFullTransactionId full_xid
            in (case extended of
                  Inl e \<Rightarrow> (Inl e, c, p)
                | Inr _ \<Rightarrow> (Inr full_xid, c\<lparr>nextXid := FullTransactionIdAdvance full_xid\<rparr>,
                             advertise_xid isSubXact xid p))))"

definition ReadNextFullTransactionId :: "VariableCacheData \<Rightarrow> FullTransactionId" where
  "ReadNextFullTransactionId c = nextXid c"

definition AdvanceNextFullTransactionIdPastXid ::
    "TransactionId \<Rightarrow> VariableCacheData \<Rightarrow> VariableCacheData" where
  "AdvanceNextFullTransactionIdPastXid xid c =
     (let next_xid = XidFromFullTransactionId (nextXid c)
      in if \<not> TransactionIdFollowsOrEquals xid next_xid then c
         else
           let xid = TransactionIdAdvance xid;
               epoch = EpochFromFullTransactionId (nextXid c);
               epoch = (if xid < next_xid then epoch + 1 else epoch)
           in c\<lparr>nextXid := FullTransactionIdFromEpochAndXid epoch xid\<rparr>)"

definition AdvanceOldestClogXid :: "TransactionId \<Rightarrow> VariableCacheData \<Rightarrow> VariableCacheData" where
  "AdvanceOldestClogXid oldest_datfrozenxid c =
     (if TransactionIdPrecedes (oldestClogXid c) oldest_datfrozenxid
      then c\<lparr>oldestClogXid := oldest_datfrozenxid\<rparr> else c)"

definition SetTransactionIdLimit ::
    "uint32 \<Rightarrow> TransactionId \<Rightarrow> Oid \<Rightarrow> VariableCacheData \<Rightarrow> VariableCacheData" where
  "SetTransactionIdLimit autovacuum_freeze_max_age oldest_datfrozenxid oldest_datoid c =
     (let xidWrapLimit = oldest_datfrozenxid + drop_bit 1 0xFFFFFFFF;
          xidWrapLimit = (if xidWrapLimit < FirstNormalTransactionId
                          then xidWrapLimit + FirstNormalTransactionId else xidWrapLimit);
          xidStopLimit = xidWrapLimit - 3000000;
          xidStopLimit = (if xidStopLimit < FirstNormalTransactionId
                          then xidStopLimit - FirstNormalTransactionId else xidStopLimit);
          xidWarnLimit = xidWrapLimit - 40000000;
          xidWarnLimit = (if xidWarnLimit < FirstNormalTransactionId
                          then xidWarnLimit - FirstNormalTransactionId else xidWarnLimit);
          xidVacLimit = oldest_datfrozenxid + autovacuum_freeze_max_age;
          xidVacLimit = (if xidVacLimit < FirstNormalTransactionId
                         then xidVacLimit + FirstNormalTransactionId else xidVacLimit)
      in c\<lparr>oldestXid := oldest_datfrozenxid, xidVacLimit := xidVacLimit,
           xidWarnLimit := xidWarnLimit, xidStopLimit := xidStopLimit,
           xidWrapLimit := xidWrapLimit, oldestXidDB := oldest_datoid\<rparr>)"

text \<open>\<open>databaseExists\<close> is the catalog lookup of \<open>oldestXidDB\<close>.\<close>

definition ForceTransactionIdLimitUpdate :: "(Oid \<Rightarrow> bool) \<Rightarrow> VariableCacheData \<Rightarrow> bool" where
  "ForceTransactionIdLimitUpdate databaseExists c =
     (if \<not> TransactionIdIsNormal (oldestXid c) then True
      else if \<not> TransactionIdIsValid (xidVacLimit c) then True
      else if TransactionIdFollowsOrEquals (XidFromFullTransactionId (nextXid c)) (xidVacLimit c) then True
      else if \<not> databaseExists (oldestXidDB c) then True
      else False)"

section \<open>Object ids\<close>

abbreviation FirstBootstrapObjectId :: Oid where "FirstBootstrapObjectId \<equiv> 12000"
abbreviation FirstNormalObjectId :: Oid where "FirstNormalObjectId \<equiv> 16384"
abbreviation VAR_OID_PREFETCH :: uint32 where "VAR_OID_PREFETCH \<equiv> 8192"

text \<open>The second component is the argument of \<open>XLogPutNextOid\<close> if it is called.\<close>

definition GetNewObjectId ::
    "process_mode \<Rightarrow> VariableCacheData \<Rightarrow> Oid result \<times> Oid option \<times> VariableCacheData" where
  "GetNewObjectId m c =
     (if RecoveryInProgress m then (Inl (Elog ''cannot assign OIDs during recovery''), None, c)
      else
        let c = (if nextOid c < FirstNormalObjectId
                 then
                   if IsPostmasterEnvironment m
                   then c\<lparr>nextOid := FirstNormalObjectId, oidCount := 0\<rparr>
                   else if nextOid c < FirstBootstrapObjectId
                   then c\<lparr>nextOid := FirstNormalObjectId, oidCount := 0\<rparr>
                   else c
                 else c);
            (log, c) = (if oidCount c = 0
                        then (Some (nextOid c + VAR_OID_PREFETCH), c\<lparr>oidCount := VAR_OID_PREFETCH\<rparr>)
                        else (None, c));
            result = nextOid c
        in (Inr result, log, c\<lparr>nextOid := nextOid c + 1, oidCount := oidCount c - 1\<rparr>))"

section \<open>No wraparound\<close>

lemma limit_words [simp]: "dist b (b + k) = unat k" "dist b (b - k) = unat (- k)"
  by simp_all

lemma adjusted_normal:
  "TransactionIdIsNormal (if x < 3 then x + 3 else x)" "TransactionIdIsNormal (if x < 3 then x - 3 else x)"
proof -
  have "x < 3 \<longleftrightarrow> x = 0 \<or> x = 1 \<or> x = 2"
    using Normal_word [of x] by (auto simp: TransactionIdIsNormal_def not_le)
  then show "TransactionIdIsNormal (if x < 3 then x + 3 else x)" "TransactionIdIsNormal (if x < 3 then x - 3 else x)"
    by (auto simp: Normal_word)
qed

lemma xid_limits:
  fixes old :: TransactionId
  assumes age: "100000 \<le> unat age" "unat age \<le> 2000000000"
    and c: "c = SetTransactionIdLimit age old db c0"
  shows "oldestXid c = old" "nextXid c = nextXid c0"
    "in_window old (xidVacLimit c)" "in_window old (xidStopLimit c)"
    "dist old (xidVacLimit c) \<in> {unat age .. unat age + 3}"
    "TransactionIdIsNormal (xidWarnLimit c)" "dist old (xidWarnLimit c) \<in> {2107483644 .. 2107483650}"
    "dist old (xidStopLimit c) \<in> {2144483644 .. 2144483650}"
    "TransactionIdIsNormal (xidWrapLimit c)" "dist old (xidWrapLimit c) \<in> {2147483647 .. 2147483650}"
proof -
  have a3: "unat (age + 3) = unat age + 3" using age by (simp add: unat_word_ariths(1))
  define w where "w = (if old + 0x7FFFFFFF < 3 then old + 0x7FFFFFFF + 3 else old + 0x7FFFFFFF)"
  have fields: "xidWrapLimit c = w"
    "xidStopLimit c = (if w - 3000000 < 3 then w - 3000000 - 3 else w - 3000000)"
    "xidWarnLimit c = (if w - 40000000 < 3 then w - 40000000 - 3 else w - 40000000)"
    "xidVacLimit c = (if old + age < 3 then old + age + 3 else old + age)"
    by (simp_all add: c SetTransactionIdLimit_def Let_def w_def)
  show "oldestXid c = old" "nextXid c = nextXid c0" by (simp_all add: c SetTransactionIdLimit_def Let_def)
  have "TransactionIdIsNormal w" unfolding w_def by (rule adjusted_normal)
  then show n: "TransactionIdIsNormal (xidWarnLimit c)" "TransactionIdIsNormal (xidWrapLimit c)"
    by (simp_all only: fields adjusted_normal)
  have nn: "TransactionIdIsNormal (xidStopLimit c)" "TransactionIdIsNormal (xidVacLimit c)"
    by (simp_all only: fields adjusted_normal)
  show v: "dist old (xidVacLimit c) \<in> {unat age .. unat age + 3}"
    using age a3 by (simp add: fields add.assoc)
  show s: "dist old (xidStopLimit c) \<in> {2144483644 .. 2144483650}"
    by (simp add: fields w_def)
  show "dist old (xidWarnLimit c) \<in> {2107483644 .. 2107483650}"
    "dist old (xidWrapLimit c) \<in> {2147483647 .. 2147483650}"
    by (simp_all add: fields w_def)
  show "in_window old (xidVacLimit c)" "in_window old (xidStopLimit c)"
    using age v s nn by (simp_all add: in_window_def)
qed

text \<open>The counter as a call finds it when it assigns, and what the checks before that left.\<close>

lemma assigned_id:
  assumes lim: "100000 \<le> unat age" "unat age \<le> 2000000000" "c = SetTransactionIdLimit age old db c0"
    and mode: "IsUnderPostmaster m" "\<not> IsBootstrapProcessingMode m"
    and next_xid: "in_window old (XidFromFullTransactionId (nextXid c))"
    and others: "others \<le> 262143" "unat (nextXid c) + 4 * others + 8 < 2 ^ 64"
    and run: "GetNewTransactionId m others extended inParallelMode isSubXact c p = (r, c', p')"
    and checked: "xid_limit_check m c = Inr ()"
  obtains x where "nextXid c \<le> x" "dist old (XidFromFullTransactionId x) < 2145583648"
    "in_window old (XidFromFullTransactionId x)"
    "x < FullTransactionIdAdvance x" "in_window old (XidFromFullTransactionId (FullTransactionIdAdvance x))"
    "(\<exists>e. r = Inl e) \<and> nextXid c' \<in> {nextXid c, x} \<and> p' = p
      \<or> r = Inr x \<and> nextXid c' = FullTransactionIdAdvance x
        \<and> p' = advertise_xid isSubXact (XidFromFullTransactionId x) p"
proof -
  note lim = xid_limits [OF lim]
  let ?next = "XidFromFullTransactionId (nextXid c)"
  let ?x = "if TransactionIdFollowsOrEquals ?next (xidVacLimit c)
    then (FullTransactionIdAdvance ^^ others) (nextXid c) else nextXid c"
  have lt: "dist old ?next < 2144483650"
    using checked assms(2) lim(5,8) mode window_compare(3) [OF next_xid lim(3)]
      window_compare(3) [OF next_xid lim(4)]
    by (auto simp: xid_limit_check_def Let_def split: if_splits)
  have x: "in_window old (XidFromFullTransactionId ?x)" "nextXid c \<le> ?x"
    "unat ?x \<le> unat (nextXid c) + 4 * others" "dist old (XidFromFullTransactionId ?x) < 2145583648"
    using advance_many [OF next_xid, of others] others lt next_xid by (auto simp: word_le_nat_alt)
  moreover have "in_window old (XidFromFullTransactionId (FullTransactionIdAdvance ?x))"
    "?x < FullTransactionIdAdvance ?x"
    using advance_many [of old ?x 1] x others by (simp_all add: word_less_nat_alt del: if_split)
  moreover have "(\<exists>e. r = Inl e) \<and> nextXid c' \<in> {nextXid c, ?x} \<and> p' = p
      \<or> r = Inr ?x \<and> nextXid c' = FullTransactionIdAdvance ?x
        \<and> p' = advertise_xid isSubXact (XidFromFullTransactionId ?x) p"
    using run checked mode by (auto simp: GetNewTransactionId_def Let_def split: if_splits sum.splits)
  ultimately show thesis using that by blast
qed



section \<open>No object id twice\<close>

text \<open>\<open>n\<close> calls in a row: each result with the limit that has been logged by then.\<close>

fun oid_calls :: "process_mode \<Rightarrow> nat \<Rightarrow> Oid \<Rightarrow> VariableCacheData \<Rightarrow> (Oid result \<times> Oid) list" where
  "oid_calls m 0 logged c = []"
| "oid_calls m (Suc n) logged c =
     (case GetNewObjectId m c of (r, log, c) \<Rightarrow>
        let logged = (case log of None \<Rightarrow> logged | Some l \<Rightarrow> l)
        in (r, logged) # oid_calls m n logged c)"

text \<open>What \<open>oidCount\<close> counts: the ids below the logged limit.\<close>

definition oids_logged :: "Oid \<Rightarrow> VariableCacheData \<Rightarrow> bool" where
  "oids_logged logged c \<longleftrightarrow> logged = nextOid c + oidCount c \<and> unat (oidCount c) \<le> 8192"

text \<open>The \<open>i\<close>-th id from \<open>first\<close> on the circle of normal ids.\<close>

definition oid_at :: "Oid \<Rightarrow> nat \<Rightarrow> nat" where
  "oid_at first i = 16384 + ((if first < 16384 then 0 else unat first - 16384) + i) mod 4294950912"

lemma oid_at_0: "oid_at first 0 = (if first < 16384 then 16384 else unat first)"
proof -
  have "unat first < 4294967296" using unsigned_less [of first] by simp
  then show ?thesis by (auto simp: oid_at_def word_less_nat_alt)
qed

lemma oid_step:
  assumes m: "\<not> RecoveryInProgress m" "IsPostmasterEnvironment m" and inv: "oids_logged logged c"
    and run: "GetNewObjectId m c = (r, log, c')"
  shows "\<exists>oid. r = Inr oid \<and> unat oid = oid_at (nextOid c) 0
    \<and> oids_logged (case log of None \<Rightarrow> logged | Some l \<Rightarrow> l) c'
    \<and> unat ((case log of None \<Rightarrow> logged | Some l \<Rightarrow> l) - oid) \<in> {1 .. 8192}
    \<and> nextOid c' = oid + 1"
proof -
  have one: "unat (x - 1) = unat x - 1" if "x \<noteq> 0" for x :: uint32
    using that by (simp add: unat_minus_one)
  have pos: "0 < unat x" if "x \<noteq> 0" for x :: uint32 using that by (simp add: unat_gt_0)
  consider "nextOid c < 16384" | "\<not> nextOid c < 16384" "oidCount c = 0"
    | "\<not> nextOid c < 16384" "oidCount c \<noteq> 0" by blast
  then show ?thesis
    using run m inv one [of "oidCount c"] pos [of "oidCount c"]
    by cases (auto simp: GetNewObjectId_def Let_def oid_at_0 oids_logged_def)
qed

lemma oid_at_next:
  assumes "unat oid = oid_at first 0"
  shows "oid_at (oid + 1) i = oid_at first (Suc i)"
proof -
  let ?k = "if first < 16384 then 0 else unat first - 16384"
  have o: "unat oid = 16384 + ?k" using assms by (auto simp: oid_at_0 word_less_nat_alt)
  show ?thesis
  proof (cases "oid = - 1")
    case True
    then have "?k = 4294950911" using o by (simp add: unsigned_minus_1_eq_mask mask_eq_exp_minus_1)
    then show ?thesis using True unfolding oid_at_def by (simp del: unsigned_less)
  next
    case False
    then have "unat oid \<noteq> unat (- 1 :: uint32)" by (simp only: word_unat_eq_iff not_False_eq_True)
    then have "unat oid \<noteq> 4294967295" by (simp add: unsigned_minus_1_eq_mask mask_eq_exp_minus_1)
    moreover have "unat oid < 4294967296" using unsigned_less [of oid] by simp
    ultimately have "unat (oid + 1) = unat oid + 1" by (simp add: unat_word_ariths(1))
    then have "(if oid + 1 < 16384 then 0 else unat (oid + 1) - 16384) = ?k + 1"
      using o by (simp add: word_less_nat_alt)
    then show ?thesis unfolding oid_at_def by simp
  qed
qed

lemma oid_calls_results:
  assumes "\<not> RecoveryInProgress m" "IsPostmasterEnvironment m" "oids_logged logged c"
  shows "length (oid_calls m n logged c) = n
    \<and> (\<forall>i < n. \<exists>oid l. oid_calls m n logged c ! i = (Inr oid, l)
         \<and> unat oid = oid_at (nextOid c) i \<and> unat (l - oid) \<in> {1 .. 8192})"
  using assms(3)
proof (induction n arbitrary: logged c)
  case (Suc n)
  obtain r log c' where g: "GetNewObjectId m c = (r, log, c')" by (rule prod_cases3)
  define l where "l = (case log of None \<Rightarrow> logged | Some l \<Rightarrow> l)"
  obtain oid where oid: "r = Inr oid" "unat oid = oid_at (nextOid c) 0" "oids_logged l c'"
    "unat (l - oid) \<in> {1 .. 8192}" "nextOid c' = oid + 1"
    using oid_step [OF assms(1,2) Suc.prems g] unfolding l_def by blast
  have calls: "oid_calls m (Suc n) logged c = (r, l) # oid_calls m n l c'"
    by (simp add: g l_def Let_def)
  have nx: "oid_at (nextOid c') i = oid_at (nextOid c) (Suc i)" for i
    using oid_at_next [OF oid(2)] oid(5) by simp
  show ?case
    unfolding calls using Suc.IH [OF oid(3)] oid(1,2,4) nx
    by (auto simp: less_Suc_eq_0_disj)
qed simp




end
