(* ===== verification/XactBlock.thy ===== *)
theory XactBlock
  imports Varsup
begin

text \<open>
  The transaction block state machine of \<^verbatim>\<open>src/backend/access/transam/xact.c\<close>: starting,
  committing, preparing and aborting (sub)transactions, the commands that bracket every statement
  and the requests of BEGIN, COMMIT, ROLLBACK, SAVEPOINT and their kin.  An operation maps the
  backend's state to a state and either a result or the error that left it by \<open>longjmp\<close>; the
  state an error leaves behind is kept, because the next abort starts from it.

  The many modules that take part in a commit or abort are represented by their effect on the
  state below and by the errors they may raise.  Every point at which they are called is an
  \<open>external\<close> call with a site and a time, answered by an arbitrary function in the state: it may
  raise an error, and it says what the backend learns from outside (pending file deletions, the
  end of the log it wrote, ids other backends took,
  whether a first snapshot was taken).  As the code assumes, calls after the point
  of no return of a commit and calls during an abort do not fail.  Warnings are not represented.
\<close>

section \<open>The state of the backend\<close>

datatype xact_error = ERROR pg_error | FATAL pg_error | PANIC pg_error | DoesNotReturn

datatype xact_site = AtStartXact | AtPreCommit | AtRecordCommit | AtPrepareXact | AtMarkPreparing
  | AtStartSubXact | AtPreCommitSub | AtCommandIncrement | AtAssignXid | AtStatement

record ext_answer =
  ext_error :: "pg_error option"
  ext_nrels :: nat
  ext_lsn :: XLogRecPtr
  ext_others :: nat
  ext_snapshot_set :: bool

abbreviation InvalidFullTransactionId :: FullTransactionId where "InvalidFullTransactionId \<equiv> 0"
abbreviation InvalidSubTransactionId :: uint32 where "InvalidSubTransactionId \<equiv> 0"
abbreviation TopSubTransactionId :: uint32 where "TopSubTransactionId \<equiv> 1"
abbreviation FirstCommandId :: uint32 where "FirstCommandId \<equiv> 0"
abbreviation InvalidCommandId :: uint32 where "InvalidCommandId \<equiv> - 1"
abbreviation XACT_FLAGS_ACCESSEDTEMPNAMESPACE :: uint32 where
  "XACT_FLAGS_ACCESSEDTEMPNAMESPACE \<equiv> 1"
abbreviation max_child_xids :: int where "max_child_xids \<equiv> 268435455"

record xact_state = xact_ids +
  currentSubTransactionId :: uint32
  currentCommandId :: uint32
  currentCommandIdUsed :: bool
  forceSyncCommit :: bool
  MyXactFlags :: uint32
  XactIsoLevel :: int
  XactReadOnly :: bool
  XactDeferrable :: bool
  DefaultXactIsoLevel :: int
  DefaultXactReadOnly :: bool
  DefaultXactDeferrable :: bool
  save_XactIsoLevel :: int
  save_XactReadOnly :: bool
  save_XactDeferrable :: bool
  prepareGID :: "string option"
  unreportedXids :: "TransactionId list"
  xact_assignments :: "(TransactionId \<times> TransactionId list) list"
  synchronous_commit :: bool
  XLogStandbyInfoActive :: bool
  XLogLogicalInfoActive :: bool
  XactLastRecEnd :: XLogRecPtr
  IsParallelWorker :: bool
  proc_mode :: process_mode
  ShmemVariableCache :: VariableCacheData
  MyProc :: MyProcXids
  outcome_log :: xact_log
  outcome_cache :: xid_cache
  clock :: nat
  answers :: "nat \<Rightarrow> xact_site \<Rightarrow> ext_answer"

text \<open>An operation: the code's return value or error, and the state either leaves.\<close>

type_synonym 'a xact = "xact_state \<Rightarrow> (xact_error + 'a) \<times> xact_state"

definition ret :: "'a \<Rightarrow> 'a xact" where "ret x st = (Inr x, st)"

abbreviation skip :: "unit xact" where "skip \<equiv> ret ()"

definition raise :: "xact_error \<Rightarrow> 'a xact" where "raise e st = (Inl e, st)"

definition modify :: "(xact_state \<Rightarrow> xact_state) \<Rightarrow> unit xact" where
  "modify f st = (Inr (), f st)"

definition xbind :: "'a xact \<Rightarrow> ('a \<Rightarrow> 'b xact) \<Rightarrow> 'b xact" where
  "xbind m f st = (case m st of (Inl e, st) \<Rightarrow> (Inl e, st) | (Inr x, st) \<Rightarrow> f x st)"

text \<open>A sequence of statements.\<close>

fun block :: "unit xact list \<Rightarrow> unit xact" where
  "block [] st = (Inr (), st)"
| "block (m # ms) st = (case m st of (Inl e, st) \<Rightarrow> (Inl e, st) | (Inr _, st) \<Rightarrow> block ms st)"

definition test :: "(xact_state \<Rightarrow> bool) \<Rightarrow> 'a xact \<Rightarrow> 'a xact \<Rightarrow> 'a xact" where
  "test c m n st = (if c st then m st else n st)"

abbreviation only_if :: "(xact_state \<Rightarrow> bool) \<Rightarrow> unit xact \<Rightarrow> unit xact" where
  "only_if c m \<equiv> test c m skip"

definition ask :: "xact_site \<Rightarrow> (ext_answer \<Rightarrow> 'a xact) \<Rightarrow> 'a xact" where
  "ask site f st = f (answers st (clock st) site) (st\<lparr>clock := clock st + 1\<rparr>)"

definition external :: "xact_site \<Rightarrow> unit xact" where
  "external site = ask site (\<lambda>a. case ext_error a of None \<Rightarrow> skip | Some e \<Rightarrow> raise (ERROR e))"

text \<open>\<open>CurrentTransactionState\<close> and updates through it.\<close>

definition cur :: "xact_state \<Rightarrow> TransactionStateData" where
  "cur st = hd (transactionStack st)"

fun map_head :: "('a \<Rightarrow> 'a) \<Rightarrow> 'a list \<Rightarrow> 'a list" where
  "map_head f [] = []"
| "map_head f (x # xs) = f x # xs"

definition set_cur :: "(TransactionStateData \<Rightarrow> TransactionStateData) \<Rightarrow> unit xact" where
  "set_cur f = modify (\<lambda>st. st\<lparr>transactionStack := map_head f (transactionStack st)\<rparr>)"

abbreviation set_block :: "TBlockState \<Rightarrow> unit xact" where
  "set_block b \<equiv> set_cur (\<lambda>s. s\<lparr>blockState := b\<rparr>)"

abbreviation set_state :: "TransState \<Rightarrow> unit xact" where
  "set_state t \<equiv> set_cur (\<lambda>s. s\<lparr>ts_state := t\<rparr>)"

section \<open>Queries\<close>

definition IsTransactionState :: "xact_state \<Rightarrow> bool" where
  "IsTransactionState st \<longleftrightarrow> ts_state (cur st) = TRANS_INPROGRESS"

definition IsAbortedTransactionBlockState :: "xact_state \<Rightarrow> bool" where
  "IsAbortedTransactionBlockState st \<longleftrightarrow>
     blockState (cur st) = TBLOCK_ABORT \<or> blockState (cur st) = TBLOCK_SUBABORT"

definition IsTransactionBlock :: "xact_state \<Rightarrow> bool" where
  "IsTransactionBlock st \<longleftrightarrow>
     \<not> (blockState (cur st) = TBLOCK_DEFAULT \<or> blockState (cur st) = TBLOCK_STARTED)"

definition IsTransactionOrTransactionBlock :: "xact_state \<Rightarrow> bool" where
  "IsTransactionOrTransactionBlock st \<longleftrightarrow> blockState (cur st) \<noteq> TBLOCK_DEFAULT"

definition IsSubTransaction :: "xact_state \<Rightarrow> bool" where
  "IsSubTransaction st \<longleftrightarrow> nestingLevel (cur st) \<ge> 2"

definition IsInParallelMode :: "xact_state \<Rightarrow> bool" where
  "IsInParallelMode st \<longleftrightarrow> parallelModeLevel (cur st) \<noteq> 0"

fun TransactionBlockStatusCode :: "TBlockState \<Rightarrow> char" where
  "TransactionBlockStatusCode TBLOCK_DEFAULT = CHR ''I''"
| "TransactionBlockStatusCode TBLOCK_STARTED = CHR ''I''"
| "TransactionBlockStatusCode TBLOCK_BEGIN = CHR ''T''"
| "TransactionBlockStatusCode TBLOCK_SUBBEGIN = CHR ''T''"
| "TransactionBlockStatusCode TBLOCK_INPROGRESS = CHR ''T''"
| "TransactionBlockStatusCode TBLOCK_IMPLICIT_INPROGRESS = CHR ''T''"
| "TransactionBlockStatusCode TBLOCK_PARALLEL_INPROGRESS = CHR ''T''"
| "TransactionBlockStatusCode TBLOCK_SUBINPROGRESS = CHR ''T''"
| "TransactionBlockStatusCode TBLOCK_END = CHR ''T''"
| "TransactionBlockStatusCode TBLOCK_SUBRELEASE = CHR ''T''"
| "TransactionBlockStatusCode TBLOCK_SUBCOMMIT = CHR ''T''"
| "TransactionBlockStatusCode TBLOCK_PREPARE = CHR ''T''"
| "TransactionBlockStatusCode TBLOCK_ABORT = CHR ''E''"
| "TransactionBlockStatusCode TBLOCK_SUBABORT = CHR ''E''"
| "TransactionBlockStatusCode TBLOCK_ABORT_END = CHR ''E''"
| "TransactionBlockStatusCode TBLOCK_SUBABORT_END = CHR ''E''"
| "TransactionBlockStatusCode TBLOCK_ABORT_PENDING = CHR ''E''"
| "TransactionBlockStatusCode TBLOCK_SUBABORT_PENDING = CHR ''E''"
| "TransactionBlockStatusCode TBLOCK_SUBRESTART = CHR ''E''"
| "TransactionBlockStatusCode TBLOCK_SUBABORT_RESTART = CHR ''E''"

definition GetCurrentTransactionNestLevel :: "xact_state \<Rightarrow> int" where
  "GetCurrentTransactionNestLevel st = nestingLevel (cur st)"

definition GetCurrentSubTransactionId :: "xact_state \<Rightarrow> uint32" where
  "GetCurrentSubTransactionId st = subTransactionId (cur st)"

fun stack_subxact_active :: "uint32 \<Rightarrow> TransactionStateData list \<Rightarrow> bool" where
  "stack_subxact_active subxid [] = False"
| "stack_subxact_active subxid (s # ss) =
     (if ts_state s = TRANS_ABORT then stack_subxact_active subxid ss
      else if subTransactionId s = subxid then True
      else stack_subxact_active subxid ss)"

definition SubTransactionIsActive :: "xact_state \<Rightarrow> uint32 \<Rightarrow> bool" where
  "SubTransactionIsActive st subxid = stack_subxact_active subxid (transactionStack st)"

definition EnterParallelMode :: "unit xact" where
  "EnterParallelMode = set_cur (\<lambda>s. s\<lparr>parallelModeLevel := parallelModeLevel s + 1\<rparr>)"

definition ExitParallelMode :: "unit xact" where
  "ExitParallelMode = set_cur (\<lambda>s. s\<lparr>parallelModeLevel := parallelModeLevel s - 1\<rparr>)"

section \<open>Assigning transaction ids\<close>

text \<open>What \<open>AssignTransactionId\<close> does for the frame at position \<open>k\<close> of the stack once its parent
  has an id.\<close>

definition note_unreported :: "TransactionId \<Rightarrow> bool \<Rightarrow> unit xact" where
  "note_unreported xid log_unknown_top = modify (\<lambda>st.
     let unreported = unreportedXids st @ [xid]
     in if length unreported \<ge> PGPROC_MAX_CACHED_SUBXIDS \<or> log_unknown_top
        then st\<lparr>xact_assignments := xact_assignments st
                  @ [(XidFromFullTransactionId (XactTopFullTransactionId st), unreported)],
                unreportedXids := [],
                transactionStack := butlast (transactionStack st)
                  @ [(last (transactionStack st))\<lparr>didLogXid := True\<rparr>]\<rparr>
        else st\<lparr>unreportedXids := unreported\<rparr>)"

definition assign_frame_xid :: "nat \<Rightarrow> unit xact" where
  "assign_frame_xid k st =
     (let isSubXact = k + 1 < length (transactionStack st);
          log_unknown_top = (isSubXact \<and> XLogLogicalInfoActive st
                             \<and> \<not> didLogXid (last (transactionStack st)));
          answer = answers st (clock st) AtAssignXid;
          extended = (case ext_error answer of None \<Rightarrow> Inr () | Some e \<Rightarrow> Inl e);
          (r, cache, proc) = GetNewTransactionId (proc_mode st) (ext_others answer) extended
             (IsInParallelMode st) isSubXact (ShmemVariableCache st) (MyProc st);
          st = st\<lparr>ShmemVariableCache := cache, MyProc := proc, clock := clock st + 1\<rparr>
      in case r of
           Inl e \<Rightarrow> (Inl (ERROR e), st)
         | Inr full_xid \<Rightarrow>
             block [
               modify (\<lambda>st. st\<lparr>transactionStack := (transactionStack st)
                 [k := (transactionStack st ! k)\<lparr>fullTransactionId := full_xid\<rparr>]\<rparr>),
               only_if (\<lambda>_. \<not> isSubXact) (modify (\<lambda>st. st\<lparr>XactTopFullTransactionId := full_xid\<rparr>)),
               only_if (\<lambda>_. isSubXact) (modify (\<lambda>st. st\<lparr>outcome_log := (outcome_log st)
                 \<lparr>xl_subtrans := SubTransSetParent (XidFromFullTransactionId full_xid)
                    (XidFromFullTransactionId (fullTransactionId (transactionStack st ! (k + 1))))
                    (xl_subtrans (outcome_log st))\<rparr>\<rparr>)),
               external AtAssignXid,
               only_if (\<lambda>st. isSubXact \<and> XLogStandbyInfoActive st)
                 (note_unreported (XidFromFullTransactionId full_xid) log_unknown_top)] st)"

text \<open>The ancestors without id, nearest first: the array \<open>parents\<close>.  The code calls itself for
  each of them, farthest first, and finds their own parents assigned.\<close>

fun unassigned_from :: "nat \<Rightarrow> TransactionStateData list \<Rightarrow> nat list" where
  "unassigned_from k [] = []"
| "unassigned_from k (p # ps) =
     (if FullTransactionIdIsValid (fullTransactionId p) then [] else k # unassigned_from (k + 1) ps)"

definition AssignTransactionId :: "unit xact" where
  "AssignTransactionId st =
     (if IsInParallelMode st \<or> IsParallelWorker st
      then raise (ERROR (Elog ''cannot assign XIDs during a parallel operation'')) st
      else block (map assign_frame_xid (rev (unassigned_from 1 (tl (transactionStack st))))
                  @ [assign_frame_xid 0]) st)"

definition GetCurrentTransactionId :: "TransactionId xact" where
  "GetCurrentTransactionId =
     xbind (only_if (\<lambda>st. \<not> FullTransactionIdIsValid (fullTransactionId (cur st))) AssignTransactionId)
       (\<lambda>_ st. ret (XidFromFullTransactionId (fullTransactionId (cur st))) st)"

section \<open>Command ids\<close>

definition GetCurrentCommandId :: "bool \<Rightarrow> uint32 xact" where
  "GetCurrentCommandId used st =
     (let st = (if used then st\<lparr>currentCommandIdUsed := True\<rparr> else st)
      in (Inr (currentCommandId st), st))"

definition CommandCounterIncrement :: "unit xact" where
  "CommandCounterIncrement =
     only_if currentCommandIdUsed
       (test (\<lambda>st. IsInParallelMode st \<or> IsParallelWorker st)
          (raise (ERROR (Elog ''cannot start commands during a parallel operation'')))
          (test (\<lambda>st. currentCommandId st + 1 = InvalidCommandId)
             (raise (ERROR (Ereport ''PROGRAM_LIMIT_EXCEEDED'')))
             (block [
                modify (\<lambda>st. st\<lparr>currentCommandId := currentCommandId st + 1,
                                currentCommandIdUsed := False\<rparr>),
                external AtCommandIncrement])))"

section \<open>Starting and ending transactions\<close>

definition StartTransaction :: "unit xact" where
  "StartTransaction = block [
     modify (\<lambda>st. st\<lparr>transactionStack := [last (transactionStack st)]\<rparr>),
     set_cur (\<lambda>s. s\<lparr>ts_state := TRANS_START, fullTransactionId := InvalidFullTransactionId,
                      nestingLevel := 1, childXids := [], maxChildXids := 0\<rparr>),
     test (\<lambda>st. RecoveryInProgress (proc_mode st))
       (block [set_cur (\<lambda>s. s\<lparr>startedInRecovery := True\<rparr>),
               modify (\<lambda>st. st\<lparr>XactReadOnly := True\<rparr>)])
       (block [set_cur (\<lambda>s. s\<lparr>startedInRecovery := False\<rparr>),
               modify (\<lambda>st. st\<lparr>XactReadOnly := DefaultXactReadOnly st\<rparr>)]),
     modify (\<lambda>st. st\<lparr>XactDeferrable := DefaultXactDeferrable st,
                     XactIsoLevel := DefaultXactIsoLevel st,
                     forceSyncCommit := False, MyXactFlags := 0\<rparr>),
     set_cur (\<lambda>s. s\<lparr>subTransactionId := TopSubTransactionId\<rparr>),
     modify (\<lambda>st. st\<lparr>currentSubTransactionId := TopSubTransactionId,
                     currentCommandId := FirstCommandId, currentCommandIdUsed := False,
                     unreportedXids := []\<rparr>),
     set_cur (\<lambda>s. s\<lparr>didLogXid := False\<rparr>),
     external AtStartXact,
     set_cur (\<lambda>s. s\<lparr>curTransactionOwner := True\<rparr>),
     external AtStartXact,
     set_state TRANS_INPROGRESS]"

definition xactGetCommittedChildren :: "xact_state \<Rightarrow> TransactionId list" where
  "xactGetCommittedChildren st = childXids (cur st)"

definition RecordTransactionCommit :: "TransactionId xact" where
  "RecordTransactionCommit = ask AtRecordCommit (\<lambda>answer st.
     let xid = GetTopTransactionIdIfAny (xact_ids.truncate st);
         markXidCommitted = TransactionIdIsValid xid;
         nrels = ext_nrels answer;
         children = xactGetCommittedChildren st;
         wrote_xlog = (XactLastRecEnd st \<noteq> 0)
     in if \<not> markXidCommitted \<and> nrels \<noteq> 0
        then raise (ERROR (Elog ''cannot commit a transaction that deleted files but has no xid'')) st
        else if \<not> markXidCommitted \<and> \<not> wrote_xlog then ret InvalidTransactionId st
        else
          let st = (if markXidCommitted then st\<lparr>XactLastRecEnd := ext_lsn answer\<rparr> else st);
              log = outcome_log st;
              st = (if markXidCommitted
                    then st\<lparr>outcome_log := log\<lparr>xl_clog :=
                           if wrote_xlog \<and> synchronous_commit st \<or> forceSyncCommit st \<or> nrels > 0
                           then TransactionIdCommitTree False xid children (xl_clog log)
                           else TransactionIdAsyncCommitTree False xid children (XactLastRecEnd st)
                                  (xl_clog log)\<rparr>\<rparr>
                    else st)
          in ret (TransactionIdLatest xid children) (st\<lparr>XactLastRecEnd := 0\<rparr>))"

text \<open>\<open>XidCacheRemoveRunningXids\<close>: each id is sought from the end of the array and its slot takes
  the last entry.\<close>

definition remove_cached_xid :: "TransactionId \<Rightarrow> TransactionId list \<Rightarrow> TransactionId list" where
  "remove_cached_xid x xids =
     (if x \<in> set xids
      then let j = length xids - 1 - length (takeWhile (\<lambda>y. y \<noteq> x) (rev xids))
           in butlast (xids[j := last xids])
      else xids)"

definition XidCacheRemoveRunningXids :: "TransactionId \<Rightarrow> TransactionId list \<Rightarrow> MyProcXids \<Rightarrow> MyProcXids" where
  "XidCacheRemoveRunningXids xid xids p =
     p\<lparr>proc_subxids := remove_cached_xid xid (fold remove_cached_xid (rev xids) (proc_subxids p))\<rparr>"

definition RecordTransactionAbort :: "bool \<Rightarrow> TransactionId xact" where
  "RecordTransactionAbort isSubXact st =
     (let xid = XidFromFullTransactionId (fullTransactionId (cur st))
      in if \<not> TransactionIdIsValid xid
         then ret InvalidTransactionId (if isSubXact then st else st\<lparr>XactLastRecEnd := 0\<rparr>)
         else
           case TransactionIdDidCommit (outcome_log st) xid (outcome_cache st) of
             None \<Rightarrow> raise DoesNotReturn st
           | Some (True, cache) \<Rightarrow>
               raise (PANIC (Elog ''cannot abort transaction, it was already committed''))
                 (st\<lparr>outcome_cache := cache\<rparr>)
           | Some (False, cache) \<Rightarrow>
               let children = xactGetCommittedChildren st;
                   log = outcome_log st;
                   st = st\<lparr>outcome_cache := cache,
                     outcome_log := log\<lparr>xl_clog := TransactionIdAbortTree False xid children (xl_clog log)\<rparr>\<rparr>;
                   st = (if isSubXact then st\<lparr>MyProc := XidCacheRemoveRunningXids xid children (MyProc st)\<rparr>
                         else st\<lparr>XactLastRecEnd := 0\<rparr>)
               in ret (TransactionIdLatest xid children) st)"

text \<open>The backend's own entry of the process array when a transaction ends.\<close>

definition ProcArrayEndTransaction :: "TransactionId \<Rightarrow> unit xact" where
  "ProcArrayEndTransaction latestXid = modify (\<lambda>st.
     if TransactionIdIsValid latestXid
     then st\<lparr>MyProc := \<lparr>proc_xid = InvalidTransactionId, proc_subxids = [], proc_overflowed = False\<rparr>\<rparr>
     else st)"

definition ProcArrayClearTransaction :: "unit xact" where
  "ProcArrayClearTransaction = modify (\<lambda>st.
     st\<lparr>MyProc := \<lparr>proc_xid = InvalidTransactionId, proc_subxids = [], proc_overflowed = False\<rparr>\<rparr>)"

definition is_parallel_worker :: "xact_state \<Rightarrow> bool" where
  "is_parallel_worker st \<longleftrightarrow> blockState (cur st) = TBLOCK_PARALLEL_INPROGRESS"

text \<open>The last steps of commit, prepare and cleanup.\<close>

definition forget_transaction :: "unit xact" where
  "forget_transaction = block [
     set_cur (\<lambda>s. s\<lparr>curTransactionOwner := False, fullTransactionId := InvalidFullTransactionId,
                      subTransactionId := InvalidSubTransactionId, nestingLevel := 0,
                      childXids := [], maxChildXids := 0\<rparr>),
     modify (\<lambda>st. st\<lparr>XactTopFullTransactionId := InvalidFullTransactionId, ParallelCurrentXids := []\<rparr>),
     set_state TRANS_DEFAULT]"

definition CommitTransaction :: "unit xact" where
  "CommitTransaction = block [
     only_if is_parallel_worker EnterParallelMode,
     external AtPreCommit,
     set_cur (\<lambda>s. s\<lparr>ts_state := TRANS_COMMIT, parallelModeLevel := 0\<rparr>),
     xbind (test is_parallel_worker (ret InvalidTransactionId) RecordTransactionCommit)
       ProcArrayEndTransaction,
     forget_transaction]"

definition PrepareTransaction :: "unit xact" where
  "PrepareTransaction = block [
     xbind GetCurrentTransactionId (\<lambda>_. skip),
     external AtPrepareXact,
     only_if (\<lambda>st. MyXactFlags st AND XACT_FLAGS_ACCESSEDTEMPNAMESPACE \<noteq> 0)
       (raise (ERROR (Ereport ''FEATURE_NOT_SUPPORTED''))),
     external AtPrepareXact,
     set_state TRANS_PREPARE,
     external AtMarkPreparing,
     modify (\<lambda>st. st\<lparr>prepareGID := None\<rparr>),
     external AtMarkPreparing,
     modify (\<lambda>st. st\<lparr>XactLastRecEnd := 0\<rparr>),
     ProcArrayClearTransaction,
     forget_transaction]"

definition AbortTransaction :: "unit xact" where
  "AbortTransaction = block [
     set_state TRANS_ABORT,
     only_if IsInParallelMode (set_cur (\<lambda>s. s\<lparr>parallelModeLevel := 0\<rparr>)),
     xbind (test is_parallel_worker (ret InvalidTransactionId) (RecordTransactionAbort False))
       ProcArrayEndTransaction]"

definition CleanupTransaction :: "unit xact" where
  "CleanupTransaction =
     test (\<lambda>st. ts_state (cur st) \<noteq> TRANS_ABORT)
       (raise (FATAL (Elog ''CleanupTransaction: unexpected state'')))
       (block [forget_transaction, set_cur (\<lambda>s. s\<lparr>parallelModeLevel := 0\<rparr>)])"

section \<open>Subtransactions\<close>

definition PushTransaction :: "unit xact" where
  "PushTransaction =
     test (\<lambda>st. currentSubTransactionId st + 1 = InvalidSubTransactionId)
       (raise (ERROR (Ereport ''PROGRAM_LIMIT_EXCEEDED'')))
       (modify (\<lambda>st.
          let p = cur st; st = st\<lparr>currentSubTransactionId := currentSubTransactionId st + 1\<rparr>
          in st\<lparr>transactionStack :=
               \<lparr>fullTransactionId = InvalidFullTransactionId,
                subTransactionId = currentSubTransactionId st, ts_name = None,
                savepointLevel = savepointLevel p, ts_state = TRANS_DEFAULT,
                blockState = TBLOCK_SUBBEGIN, nestingLevel = nestingLevel p + 1,
                curTransactionOwner = False, childXids = [], maxChildXids = 0,
                prevXactReadOnly = XactReadOnly st, startedInRecovery = False, didLogXid = False,
                parallelModeLevel = 0, chain = False\<rparr>
               # transactionStack st\<rparr>))"

definition PopTransaction :: "unit xact" where
  "PopTransaction =
     test (\<lambda>st. length (transactionStack st) < 2)
       (raise (FATAL (Elog ''PopTransaction with no parent'')))
       (modify (\<lambda>st. st\<lparr>transactionStack := tl (transactionStack st)\<rparr>))"

text \<open>The children pass to the parent.  \<open>Assert(s->parent != NULL)\<close>: with no parent the C code has
  undefined behaviour and nothing happens here.\<close>

definition AtSubCommit_childXids :: "unit xact" where
  "AtSubCommit_childXids st =
     (case transactionStack st of
        s # p # ss \<Rightarrow>
          let new_nChildXids = int (length (childXids p)) + int (length (childXids s)) + 1;
              new_maxChildXids = min (new_nChildXids * 2) max_child_xids
          in if maxChildXids p < new_nChildXids \<and> new_maxChildXids < new_nChildXids
             then raise (ERROR (Ereport ''PROGRAM_LIMIT_EXCEEDED'')) st
             else
               let p = (if maxChildXids p < new_nChildXids then p\<lparr>maxChildXids := new_maxChildXids\<rparr> else p);
                   p = p\<lparr>childXids := childXids p @ XidFromFullTransactionId (fullTransactionId s)
                                        # childXids s\<rparr>;
                   s = s\<lparr>childXids := [], maxChildXids := 0\<rparr>
               in (Inr (), st\<lparr>transactionStack := s # p # ss\<rparr>)
      | _ \<Rightarrow> (Inr (), st))"

definition AtSubAbort_childXids :: "unit xact" where
  "AtSubAbort_childXids = set_cur (\<lambda>s. s\<lparr>childXids := [], maxChildXids := 0\<rparr>)"

definition StartSubTransaction :: "unit xact" where
  "StartSubTransaction = block [
     set_state TRANS_START,
     external AtStartSubXact,
     set_cur (\<lambda>s. s\<lparr>curTransactionOwner := True\<rparr>),
     external AtStartSubXact,
     set_state TRANS_INPROGRESS,
     external AtStartSubXact]"

definition cur_has_xid :: "xact_state \<Rightarrow> bool" where
  "cur_has_xid st \<longleftrightarrow> FullTransactionIdIsValid (fullTransactionId (cur st))"

definition restore_read_only :: "unit xact" where
  "restore_read_only = modify (\<lambda>st. st\<lparr>XactReadOnly := prevXactReadOnly (cur st)\<rparr>)"

definition CommitSubTransaction :: "unit xact" where
  "CommitSubTransaction = block [
     external AtPreCommitSub,
     only_if IsInParallelMode (set_cur (\<lambda>s. s\<lparr>parallelModeLevel := 0\<rparr>)),
     set_state TRANS_COMMIT,
     CommandCounterIncrement,
     only_if cur_has_xid AtSubCommit_childXids,
     restore_read_only,
     set_cur (\<lambda>s. s\<lparr>curTransactionOwner := False\<rparr>),
     set_state TRANS_DEFAULT,
     PopTransaction]"

definition AbortSubTransaction :: "unit xact" where
  "AbortSubTransaction = block [
     set_state TRANS_ABORT,
     only_if IsInParallelMode (set_cur (\<lambda>s. s\<lparr>parallelModeLevel := 0\<rparr>)),
     only_if (\<lambda>st. curTransactionOwner (cur st))
       (block [
          xbind (RecordTransactionAbort True) (\<lambda>_. skip),
          only_if cur_has_xid AtSubAbort_childXids]),
     restore_read_only]"

definition CleanupSubTransaction :: "unit xact" where
  "CleanupSubTransaction = block [
     set_cur (\<lambda>s. s\<lparr>curTransactionOwner := False\<rparr>),
     set_state TRANS_DEFAULT,
     PopTransaction]"

section \<open>Requests of the client\<close>

definition unexpected_state :: "xact_error" where
  "unexpected_state = FATAL (Elog ''unexpected state'')"

definition BeginTransactionBlock :: "unit xact" where
  "BeginTransactionBlock st =
     (case blockState (cur st) of
        TBLOCK_STARTED \<Rightarrow> set_block TBLOCK_BEGIN st
      | TBLOCK_IMPLICIT_INPROGRESS \<Rightarrow> set_block TBLOCK_BEGIN st
      | TBLOCK_INPROGRESS \<Rightarrow> skip st
      | TBLOCK_PARALLEL_INPROGRESS \<Rightarrow> skip st
      | TBLOCK_SUBINPROGRESS \<Rightarrow> skip st
      | TBLOCK_ABORT \<Rightarrow> skip st
      | TBLOCK_SUBABORT \<Rightarrow> skip st
      | _ \<Rightarrow> raise unexpected_state st)"

text \<open>The loop \<open>while (s->parent != NULL)\<close> that marks every subtransaction, and the test of the top
  transaction after it: \<open>sub\<close> and \<open>last_of\<close> give the new block state, or \<open>None\<close> where the code
  raises FATAL.\<close>

fun mark_frames ::
    "(TBlockState \<Rightarrow> TBlockState option) \<Rightarrow> (TBlockState \<Rightarrow> TBlockState option)
       \<Rightarrow> TransactionStateData list \<Rightarrow> bool \<times> TransactionStateData list" where
  "mark_frames sub last_of [] = (True, [])"
| "mark_frames sub last_of [s] =
     (case last_of (blockState s) of None \<Rightarrow> (False, [s]) | Some b \<Rightarrow> (True, [s\<lparr>blockState := b\<rparr>]))"
| "mark_frames sub last_of (s # p # ss) =
     (case sub (blockState s) of
        None \<Rightarrow> (False, s # p # ss)
      | Some b \<Rightarrow> (case mark_frames sub last_of (p # ss) of (ok, fs) \<Rightarrow> (ok, s\<lparr>blockState := b\<rparr> # fs)))"

definition mark_stack ::
    "(TBlockState \<Rightarrow> TBlockState option) \<Rightarrow> (TBlockState \<Rightarrow> TBlockState option) \<Rightarrow> unit xact" where
  "mark_stack sub last_of st =
     (case mark_frames sub last_of (transactionStack st) of
        (ok, fs) \<Rightarrow> (if ok then ret () else raise unexpected_state) (st\<lparr>transactionStack := fs\<rparr>))"

fun subcommit_mark :: "TBlockState \<Rightarrow> TBlockState option" where
  "subcommit_mark TBLOCK_SUBINPROGRESS = Some TBLOCK_SUBCOMMIT"
| "subcommit_mark _ = None"

fun end_mark :: "TBlockState \<Rightarrow> TBlockState option" where
  "end_mark TBLOCK_INPROGRESS = Some TBLOCK_END"
| "end_mark _ = None"

fun subabort_mark :: "TBlockState \<Rightarrow> TBlockState option" where
  "subabort_mark TBLOCK_SUBINPROGRESS = Some TBLOCK_SUBABORT_PENDING"
| "subabort_mark TBLOCK_SUBABORT = Some TBLOCK_SUBABORT_END"
| "subabort_mark _ = None"

fun abort_mark :: "TBlockState \<Rightarrow> TBlockState option" where
  "abort_mark TBLOCK_INPROGRESS = Some TBLOCK_ABORT_PENDING"
| "abort_mark TBLOCK_ABORT = Some TBLOCK_ABORT_END"
| "abort_mark _ = None"

text \<open>\<open>s->chain = chain\<close> after the loops, where \<open>s\<close> is the top transaction.\<close>

definition set_chain :: "bool \<Rightarrow> unit xact" where
  "set_chain c = modify (\<lambda>st. st\<lparr>transactionStack := butlast (transactionStack st)
     @ [(last (transactionStack st))\<lparr>chain := c\<rparr>]\<rparr>)"

definition no_active_transaction :: xact_error where
  "no_active_transaction = ERROR (Ereport ''NO_ACTIVE_SQL_TRANSACTION'')"

definition then_return :: "unit xact \<Rightarrow> 'a \<Rightarrow> 'a xact" where
  "then_return m x = xbind m (\<lambda>_. ret x)"

definition EndTransactionBlock :: "bool \<Rightarrow> bool xact" where
  "EndTransactionBlock andChain st =
     (case blockState (cur st) of
        TBLOCK_INPROGRESS \<Rightarrow> then_return (block [set_block TBLOCK_END, set_chain andChain]) True st
      | TBLOCK_IMPLICIT_INPROGRESS \<Rightarrow>
          then_return (block [only_if (\<lambda>_. andChain) (raise no_active_transaction),
                              set_block TBLOCK_END, set_chain andChain]) True st
      | TBLOCK_ABORT \<Rightarrow> then_return (block [set_block TBLOCK_ABORT_END, set_chain andChain]) False st
      | TBLOCK_SUBINPROGRESS \<Rightarrow>
          then_return (block [mark_stack subcommit_mark end_mark, set_chain andChain]) True st
      | TBLOCK_SUBABORT \<Rightarrow>
          then_return (block [mark_stack subabort_mark abort_mark, set_chain andChain]) False st
      | TBLOCK_STARTED \<Rightarrow>
          then_return (block [only_if (\<lambda>_. andChain) (raise no_active_transaction), set_chain andChain]) True st
      | TBLOCK_PARALLEL_INPROGRESS \<Rightarrow> raise (FATAL (Ereport ''INVALID_TRANSACTION_STATE'')) st
      | _ \<Rightarrow> raise unexpected_state st)"

definition PrepareTransactionBlock :: "string \<Rightarrow> bool xact" where
  "PrepareTransactionBlock gid =
     xbind (EndTransactionBlock False) (\<lambda>result.
       if result
       then test (\<lambda>st. blockState (last (transactionStack st)) = TBLOCK_END)
              (then_return (modify (\<lambda>st. st\<lparr>prepareGID := Some gid,
                 transactionStack := butlast (transactionStack st)
                   @ [(last (transactionStack st))\<lparr>blockState := TBLOCK_PREPARE\<rparr>]\<rparr>)) True)
              (ret False)
       else ret False)"

definition UserAbortTransactionBlock :: "bool \<Rightarrow> unit xact" where
  "UserAbortTransactionBlock andChain st =
     (case blockState (cur st) of
        TBLOCK_INPROGRESS \<Rightarrow> block [set_block TBLOCK_ABORT_PENDING, set_chain andChain] st
      | TBLOCK_ABORT \<Rightarrow> block [set_block TBLOCK_ABORT_END, set_chain andChain] st
      | TBLOCK_SUBINPROGRESS \<Rightarrow> block [mark_stack subabort_mark abort_mark, set_chain andChain] st
      | TBLOCK_SUBABORT \<Rightarrow> block [mark_stack subabort_mark abort_mark, set_chain andChain] st
      | TBLOCK_STARTED \<Rightarrow>
          block [only_if (\<lambda>_. andChain) (raise no_active_transaction),
                 set_block TBLOCK_ABORT_PENDING, set_chain andChain] st
      | TBLOCK_IMPLICIT_INPROGRESS \<Rightarrow>
          block [only_if (\<lambda>_. andChain) (raise no_active_transaction),
                 set_block TBLOCK_ABORT_PENDING, set_chain andChain] st
      | TBLOCK_PARALLEL_INPROGRESS \<Rightarrow> raise (FATAL (Ereport ''INVALID_TRANSACTION_STATE'')) st
      | _ \<Rightarrow> raise unexpected_state st)"

definition BeginImplicitTransactionBlock :: "unit xact" where
  "BeginImplicitTransactionBlock =
     only_if (\<lambda>st. blockState (cur st) = TBLOCK_STARTED) (set_block TBLOCK_IMPLICIT_INPROGRESS)"

definition EndImplicitTransactionBlock :: "unit xact" where
  "EndImplicitTransactionBlock =
     only_if (\<lambda>st. blockState (cur st) = TBLOCK_IMPLICIT_INPROGRESS) (set_block TBLOCK_STARTED)"

definition PreventInTransactionBlock :: "bool \<Rightarrow> unit xact" where
  "PreventInTransactionBlock isTopLevel st =
     (if IsTransactionBlock st \<or> IsSubTransaction st \<or> \<not> isTopLevel
      then raise (ERROR (Ereport ''ACTIVE_SQL_TRANSACTION'')) st
      else if blockState (cur st) \<noteq> TBLOCK_DEFAULT \<and> blockState (cur st) \<noteq> TBLOCK_STARTED
      then raise (FATAL (Elog ''cannot prevent transaction chain'')) st
      else skip st)"

definition CheckTransactionBlock :: "bool \<Rightarrow> bool \<Rightarrow> unit xact" where
  "CheckTransactionBlock isTopLevel throwError st =
     (if IsTransactionBlock st then skip st
      else if IsSubTransaction st then skip st
      else if \<not> isTopLevel then skip st
      else if throwError then raise no_active_transaction st
      else skip st)"

definition RequireTransactionBlock :: "bool \<Rightarrow> unit xact" where
  "RequireTransactionBlock isTopLevel = CheckTransactionBlock isTopLevel True"

definition WarnNoTransactionBlock :: "bool \<Rightarrow> unit xact" where
  "WarnNoTransactionBlock isTopLevel = CheckTransactionBlock isTopLevel False"

definition IsInTransactionBlock :: "bool \<Rightarrow> xact_state \<Rightarrow> bool" where
  "IsInTransactionBlock isTopLevel st \<longleftrightarrow>
     (if IsTransactionBlock st then True
      else if IsSubTransaction st then True
      else if \<not> isTopLevel then True
      else blockState (cur st) \<noteq> TBLOCK_DEFAULT \<and> blockState (cur st) \<noteq> TBLOCK_STARTED)"

section \<open>Savepoints\<close>

definition parallel_error :: xact_error where
  "parallel_error = ERROR (Ereport ''INVALID_TRANSACTION_STATE'')"

definition no_savepoint :: xact_error where
  "no_savepoint = ERROR (Ereport ''S_E_INVALID_SPECIFICATION'')"

definition push_named :: "string option \<Rightarrow> unit xact" where
  "push_named name = block [
     PushTransaction,
     only_if (\<lambda>_. name \<noteq> None) (set_cur (\<lambda>s. s\<lparr>ts_name := name\<rparr>))]"

definition DefineSavepoint :: "string option \<Rightarrow> unit xact" where
  "DefineSavepoint name st =
     (if IsInParallelMode st then raise parallel_error st
      else
        case blockState (cur st) of
          TBLOCK_INPROGRESS \<Rightarrow> push_named name st
        | TBLOCK_SUBINPROGRESS \<Rightarrow> push_named name st
        | TBLOCK_IMPLICIT_INPROGRESS \<Rightarrow> raise no_active_transaction st
        | _ \<Rightarrow> raise unexpected_state st)"

text \<open>The position of the nearest frame with the name.\<close>

fun find_savepoint :: "string \<Rightarrow> TransactionStateData list \<Rightarrow> nat option" where
  "find_savepoint name [] = None"
| "find_savepoint name (s # ss) =
     (if ts_name s = Some name then Some 0
      else (case find_savepoint name ss of None \<Rightarrow> None | Some n \<Rightarrow> Some (n + 1)))"

text \<open>The search and the test of the savepoint level, common to RELEASE and ROLLBACK TO.\<close>

definition seek_savepoint :: "string \<Rightarrow> (nat \<Rightarrow> unit xact) \<Rightarrow> unit xact" where
  "seek_savepoint name act st =
     (case find_savepoint name (transactionStack st) of
        None \<Rightarrow> raise no_savepoint st
      | Some target \<Rightarrow>
          if savepointLevel (transactionStack st ! target) \<noteq> savepointLevel (cur st)
          then raise no_savepoint st
          else act target st)"

fun release_frames :: "nat \<Rightarrow> TransactionStateData list \<Rightarrow> TransactionStateData list" where
  "release_frames target [] = []"
| "release_frames 0 (s # ss) = s\<lparr>blockState := TBLOCK_SUBRELEASE\<rparr> # ss"
| "release_frames (Suc n) (s # ss) = s\<lparr>blockState := TBLOCK_SUBRELEASE\<rparr> # release_frames n ss"

definition ReleaseSavepoint :: "string \<Rightarrow> unit xact" where
  "ReleaseSavepoint name st =
     (if IsInParallelMode st then raise parallel_error st
      else
        case blockState (cur st) of
          TBLOCK_INPROGRESS \<Rightarrow> raise no_savepoint st
        | TBLOCK_IMPLICIT_INPROGRESS \<Rightarrow> raise no_active_transaction st
        | TBLOCK_SUBINPROGRESS \<Rightarrow>
            seek_savepoint name (\<lambda>target. modify (\<lambda>st.
              st\<lparr>transactionStack := release_frames target (transactionStack st)\<rparr>)) st
        | _ \<Rightarrow> raise unexpected_state st)"

fun restart_mark :: "TBlockState \<Rightarrow> TBlockState option" where
  "restart_mark TBLOCK_SUBINPROGRESS = Some TBLOCK_SUBRESTART"
| "restart_mark TBLOCK_SUBABORT = Some TBLOCK_SUBABORT_RESTART"
| "restart_mark _ = None"

fun rollback_frames :: "nat \<Rightarrow> TransactionStateData list \<Rightarrow> bool \<times> TransactionStateData list" where
  "rollback_frames n [] = (True, [])"
| "rollback_frames 0 (s # ss) =
     (case restart_mark (blockState s) of
        None \<Rightarrow> (False, s # ss) | Some b \<Rightarrow> (True, s\<lparr>blockState := b\<rparr> # ss))"
| "rollback_frames (Suc n) (s # ss) =
     (case subabort_mark (blockState s) of
        None \<Rightarrow> (False, s # ss)
      | Some b \<Rightarrow> (case rollback_frames n ss of (ok, fs) \<Rightarrow> (ok, s\<lparr>blockState := b\<rparr> # fs)))"

definition mark_rollback :: "nat \<Rightarrow> unit xact" where
  "mark_rollback target st =
     (case rollback_frames target (transactionStack st) of
        (ok, fs) \<Rightarrow> (if ok then ret () else raise unexpected_state) (st\<lparr>transactionStack := fs\<rparr>))"

definition RollbackToSavepoint :: "string \<Rightarrow> unit xact" where
  "RollbackToSavepoint name st =
     (if IsInParallelMode st then raise parallel_error st
      else
        case blockState (cur st) of
          TBLOCK_INPROGRESS \<Rightarrow> raise no_savepoint st
        | TBLOCK_ABORT \<Rightarrow> raise no_savepoint st
        | TBLOCK_IMPLICIT_INPROGRESS \<Rightarrow> raise no_active_transaction st
        | TBLOCK_SUBINPROGRESS \<Rightarrow> seek_savepoint name mark_rollback st
        | TBLOCK_SUBABORT \<Rightarrow> seek_savepoint name mark_rollback st
        | _ \<Rightarrow> raise unexpected_state st)"

section \<open>The commands around every statement\<close>

definition StartTransactionCommand :: "unit xact" where
  "StartTransactionCommand st =
     (case blockState (cur st) of
        TBLOCK_DEFAULT \<Rightarrow> block [StartTransaction, set_block TBLOCK_STARTED] st
      | TBLOCK_INPROGRESS \<Rightarrow> skip st
      | TBLOCK_IMPLICIT_INPROGRESS \<Rightarrow> skip st
      | TBLOCK_SUBINPROGRESS \<Rightarrow> skip st
      | TBLOCK_ABORT \<Rightarrow> skip st
      | TBLOCK_SUBABORT \<Rightarrow> skip st
      | _ \<Rightarrow> raise (ERROR (Elog ''StartTransactionCommand: unexpected state'')) st)"

definition SaveTransactionCharacteristics :: "unit xact" where
  "SaveTransactionCharacteristics = modify (\<lambda>st.
     st\<lparr>save_XactIsoLevel := XactIsoLevel st, save_XactReadOnly := XactReadOnly st,
        save_XactDeferrable := XactDeferrable st\<rparr>)"

definition RestoreTransactionCharacteristics :: "unit xact" where
  "RestoreTransactionCharacteristics = modify (\<lambda>st.
     st\<lparr>XactIsoLevel := save_XactIsoLevel st, XactReadOnly := save_XactReadOnly st,
        XactDeferrable := save_XactDeferrable st\<rparr>)"

text \<open>\<open>if (s->chain) ...\<close> after the end of a transaction.\<close>

definition start_chained :: "unit xact" where
  "start_chained = only_if (\<lambda>st. chain (cur st)) (block [
     StartTransaction,
     set_block TBLOCK_INPROGRESS,
     set_cur (\<lambda>s. s\<lparr>chain := False\<rparr>),
     RestoreTransactionCharacteristics])"

definition finish_commit :: "unit xact" where
  "finish_commit = block [CommitTransaction, set_block TBLOCK_DEFAULT, start_chained]"

definition finish_prepare :: "unit xact" where
  "finish_prepare = block [PrepareTransaction, set_block TBLOCK_DEFAULT]"

lemma block_append:
  "block (ms @ ns) st = (case block ms st of (Inl e, st) \<Rightarrow> (Inl e, st) | (Inr _, st) \<Rightarrow> block ns st)"
  by (induction ms arbitrary: st) (auto split: prod.splits sum.splits)

lemma PopTransaction_shorter:
  "PopTransaction st = (Inr u, st') \<Longrightarrow> length (transactionStack st') < length (transactionStack st)"
  by (auto simp: PopTransaction_def test_def raise_def modify_def split: if_splits)

text \<open>\<open>keeps f m\<close>: the operation \<open>m\<close>, whether it returns or raises, leaves \<open>f\<close> of the state alone.\<close>

definition keeps :: "(xact_state \<Rightarrow> 'b) \<Rightarrow> 'a xact \<Rightarrow> bool" where
  "keeps f m \<longleftrightarrow> (\<forall>st r st'. m st = (r, st') \<longrightarrow> f st' = f st)"

lemma keepsD: "keeps f m \<Longrightarrow> m st = (r, st') \<Longrightarrow> f st' = f st"
  by (simp add: keeps_def)

lemma keeps_block: "\<forall>m \<in> set ms. keeps f m \<Longrightarrow> keeps f (block ms)"
proof (induction ms)
  case (Cons m ms)
  then have "keeps f m" "keeps f (block ms)" by auto
  then show ?case unfolding keeps_def by (auto split: prod.splits sum.splits)
qed (simp add: keeps_def)

lemma keeps_basic:
  "keeps f (ret x)" "keeps f (raise e)"
  "(\<And>st. f (g st) = f st) \<Longrightarrow> keeps f (modify g)"
  "(\<And>st n. f (st\<lparr>clock := n\<rparr>) = f st) \<Longrightarrow> keeps f (external site)"
  by (auto simp: keeps_def ret_def raise_def modify_def external_def ask_def split: option.splits)

lemma keeps_test: "keeps f m \<Longrightarrow> keeps f n \<Longrightarrow> keeps f (test c m n)"
  by (simp add: keeps_def test_def)

lemma keeps_bind: "keeps f m \<Longrightarrow> (\<And>x. keeps f (g x)) \<Longrightarrow> keeps f (xbind m g)"
  unfolding keeps_def xbind_def by (auto split: prod.splits sum.splits)

lemmas keeps_rules = keeps_block keeps_basic keeps_test keeps_bind

lemma map_head_length [simp]: "length (map_head f xs) = length xs"
  by (cases xs) auto

abbreviation height :: "xact_state \<Rightarrow> nat" where
  "height st \<equiv> length (transactionStack st)"

lemma height_set_cur: "keeps height (set_cur f)"
  by (simp add: set_cur_def keeps_basic)

lemma height_RecordTransactionAbort: "keeps height (RecordTransactionAbort b)"
  by (auto simp: keeps_def RecordTransactionAbort_def Let_def ret_def raise_def
      split: option.splits prod.splits bool.splits)

lemma height_childXids: "keeps height AtSubCommit_childXids"
  by (auto simp: keeps_def AtSubCommit_childXids_def Let_def raise_def split: list.splits)

lemma height_sub:
  "keeps height AbortSubTransaction" "keeps height CommandCounterIncrement" "keeps height restore_read_only"
  unfolding AbortSubTransaction_def CommandCounterIncrement_def restore_read_only_def AtSubAbort_childXids_def
  by (auto intro!: keeps_rules height_set_cur height_RecordTransactionAbort)

lemma pops_stack:
  assumes "block (ms @ [PopTransaction]) st = (Inr u, st')" "\<forall>m \<in> set ms. keeps height m"
  shows "length (transactionStack st') < length (transactionStack st)"
proof -
  obtain st1 where 1: "block ms st = (Inr (), st1)" "block [PopTransaction] st1 = (Inr u, st')"
    using assms(1) by (auto simp: block_append split: prod.splits sum.splits)
  have "length (transactionStack st1) = length (transactionStack st)"
    by (rule keepsD [OF keeps_block [OF assms(2)] 1(1)])
  moreover have "length (transactionStack st') < length (transactionStack st1)"
    using 1(2) PopTransaction_shorter [of st1] by (auto split: prod.splits sum.splits)
  ultimately show ?thesis by simp
qed

lemma CleanupSubTransaction_shorter:
  "CleanupSubTransaction st = (Inr u, st') \<Longrightarrow> length (transactionStack st') < length (transactionStack st)"
  using pops_stack [of "[set_cur (\<lambda>s. s\<lparr>curTransactionOwner := False\<rparr>), set_state TRANS_DEFAULT]"]
  by (simp add: CleanupSubTransaction_def height_set_cur)

lemma CommitSubTransaction_shorter:
  assumes "CommitSubTransaction st = (Inr u, st')"
  shows "length (transactionStack st') < length (transactionStack st)"
proof -
  let ?ms = "[external AtPreCommitSub, only_if IsInParallelMode (set_cur (\<lambda>s. s\<lparr>parallelModeLevel := 0\<rparr>)),
     set_state TRANS_COMMIT, CommandCounterIncrement, only_if cur_has_xid AtSubCommit_childXids,
     restore_read_only, set_cur (\<lambda>s. s\<lparr>curTransactionOwner := False\<rparr>), set_state TRANS_DEFAULT]"
  have "\<forall>m \<in> set ?ms. keeps height m"
    by (auto intro!: keeps_rules height_set_cur height_sub height_childXids)
  moreover have "block (?ms @ [PopTransaction]) st = (Inr u, st')"
    using assms by (simp add: CommitSubTransaction_def)
  ultimately show ?thesis using pops_stack by blast
qed

text \<open>\<open>do { CommitSubTransaction(); } while (blockState == b)\<close>\<close>

function commit_subxacts_while :: "TBlockState \<Rightarrow> unit xact" where
  "commit_subxacts_while b st =
     (case CommitSubTransaction st of
        (Inl e, st) \<Rightarrow> (Inl e, st)
      | (Inr _, st) \<Rightarrow> if blockState (cur st) = b then commit_subxacts_while b st else (Inr (), st))"
  by pat_completeness auto
termination
  by (relation "measure (\<lambda>(b, st). length (transactionStack st))")
    (auto dest: CommitSubTransaction_shorter [OF sym])

text \<open>The end of ROLLBACK TO: the savepoint is defined again with its name and level.\<close>

definition restart_subxact :: "unit xact \<Rightarrow> unit xact" where
  "restart_subxact cleanup st =
     (let name = ts_name (cur st); level = savepointLevel (cur st)
      in block [
           set_cur (\<lambda>s. s\<lparr>ts_name := None\<rparr>),
           cleanup,
           DefineSavepoint None,
           set_cur (\<lambda>s. s\<lparr>ts_name := name, savepointLevel := level\<rparr>),
           StartSubTransaction,
           set_block TBLOCK_SUBINPROGRESS] st)"

definition abort_and_cleanup_sub :: "unit xact" where
  "abort_and_cleanup_sub = block [AbortSubTransaction, CleanupSubTransaction]"

lemma abort_and_cleanup_sub_shorter:
  assumes "abort_and_cleanup_sub st = (Inr u, st')"
  shows "length (transactionStack st') < length (transactionStack st)"
proof -
  obtain st1 where 1: "AbortSubTransaction st = (Inr (), st1)" "CleanupSubTransaction st1 = (Inr (), st')"
    using assms by (auto simp: abort_and_cleanup_sub_def split: prod.splits sum.splits)
  have "length (transactionStack st1) = length (transactionStack st)"
    by (rule keepsD [OF height_sub(1) 1(1)])
  then show ?thesis using CleanupSubTransaction_shorter [OF 1(2)] by simp
qed

definition commit_prologue :: "unit xact" where
  "commit_prologue = only_if (\<lambda>st. chain (cur st)) SaveTransactionCharacteristics"

lemma commit_prologue_run: "\<exists>st1. commit_prologue st = (Inr (), st1) \<and> transactionStack st1 = transactionStack st"
  by (simp add: commit_prologue_def test_def SaveTransactionCharacteristics_def modify_def ret_def)

function CommitTransactionCommand :: "unit xact" where
  "CommitTransactionCommand st0 =
     (let st = snd (commit_prologue st0)
      in case blockState (cur st) of
           TBLOCK_DEFAULT \<Rightarrow> raise unexpected_state st
         | TBLOCK_PARALLEL_INPROGRESS \<Rightarrow> raise unexpected_state st
         | TBLOCK_STARTED \<Rightarrow> block [CommitTransaction, set_block TBLOCK_DEFAULT] st
         | TBLOCK_BEGIN \<Rightarrow> set_block TBLOCK_INPROGRESS st
         | TBLOCK_INPROGRESS \<Rightarrow> CommandCounterIncrement st
         | TBLOCK_IMPLICIT_INPROGRESS \<Rightarrow> CommandCounterIncrement st
         | TBLOCK_SUBINPROGRESS \<Rightarrow> CommandCounterIncrement st
         | TBLOCK_END \<Rightarrow> finish_commit st
         | TBLOCK_ABORT \<Rightarrow> skip st
         | TBLOCK_SUBABORT \<Rightarrow> skip st
         | TBLOCK_ABORT_END \<Rightarrow> block [CleanupTransaction, set_block TBLOCK_DEFAULT, start_chained] st
         | TBLOCK_ABORT_PENDING \<Rightarrow>
             block [AbortTransaction, CleanupTransaction, set_block TBLOCK_DEFAULT, start_chained] st
         | TBLOCK_PREPARE \<Rightarrow> finish_prepare st
         | TBLOCK_SUBBEGIN \<Rightarrow> block [StartSubTransaction, set_block TBLOCK_SUBINPROGRESS] st
         | TBLOCK_SUBRELEASE \<Rightarrow> commit_subxacts_while TBLOCK_SUBRELEASE st
         | TBLOCK_SUBCOMMIT \<Rightarrow>
             block [commit_subxacts_while TBLOCK_SUBCOMMIT,
                    test (\<lambda>st. blockState (cur st) = TBLOCK_END) finish_commit
                      (test (\<lambda>st. blockState (cur st) = TBLOCK_PREPARE) finish_prepare
                         (raise (ERROR (Elog ''CommitTransactionCommand: unexpected state''))))] st
         | TBLOCK_SUBABORT_END \<Rightarrow>
             (case CleanupSubTransaction st of
                (Inl e, st) \<Rightarrow> (Inl e, st) | (Inr _, st) \<Rightarrow> CommitTransactionCommand st)
         | TBLOCK_SUBABORT_PENDING \<Rightarrow>
             (case abort_and_cleanup_sub st of
                (Inl e, st) \<Rightarrow> (Inl e, st) | (Inr _, st) \<Rightarrow> CommitTransactionCommand st)
         | TBLOCK_SUBRESTART \<Rightarrow> restart_subxact abort_and_cleanup_sub st
         | TBLOCK_SUBABORT_RESTART \<Rightarrow> restart_subxact CleanupSubTransaction st)"
  by pat_completeness auto
termination
proof (relation "measure (\<lambda>st. length (transactionStack st))")
  fix st0 st r st' u
  assume "st = snd (commit_prologue st0)" "(r, st') = CleanupSubTransaction st" "r = Inr u"
  then show "(st', st0) \<in> measure (\<lambda>st. length (transactionStack st))"
    using CleanupSubTransaction_shorter [of st u st'] commit_prologue_run [of st0] by auto
next
  fix st0 st r st' u
  assume "st = snd (commit_prologue st0)" "(r, st') = abort_and_cleanup_sub st" "r = Inr u"
  then show "(st', st0) \<in> measure (\<lambda>st. length (transactionStack st))"
    using abort_and_cleanup_sub_shorter [of st u st'] commit_prologue_run [of st0] by auto
qed simp

text \<open>What both abort commands do in \<open>TBLOCK_DEFAULT\<close>.\<close>

definition abort_default :: "unit xact" where
  "abort_default =
     only_if (\<lambda>st. ts_state (cur st) \<noteq> TRANS_DEFAULT) (block [
       only_if (\<lambda>st. ts_state (cur st) = TRANS_START) (set_state TRANS_INPROGRESS),
       AbortTransaction, CleanupTransaction])"

definition abort_to_default :: "unit xact" where
  "abort_to_default = block [AbortTransaction, CleanupTransaction, set_block TBLOCK_DEFAULT]"

function AbortCurrentTransaction :: "unit xact" where
  "AbortCurrentTransaction st =
     (case blockState (cur st) of
        TBLOCK_DEFAULT \<Rightarrow> abort_default st
      | TBLOCK_STARTED \<Rightarrow> abort_to_default st
      | TBLOCK_IMPLICIT_INPROGRESS \<Rightarrow> abort_to_default st
      | TBLOCK_BEGIN \<Rightarrow> abort_to_default st
      | TBLOCK_INPROGRESS \<Rightarrow> block [AbortTransaction, set_block TBLOCK_ABORT] st
      | TBLOCK_PARALLEL_INPROGRESS \<Rightarrow> block [AbortTransaction, set_block TBLOCK_ABORT] st
      | TBLOCK_END \<Rightarrow> abort_to_default st
      | TBLOCK_ABORT \<Rightarrow> skip st
      | TBLOCK_SUBABORT \<Rightarrow> skip st
      | TBLOCK_ABORT_END \<Rightarrow> block [CleanupTransaction, set_block TBLOCK_DEFAULT] st
      | TBLOCK_ABORT_PENDING \<Rightarrow> abort_to_default st
      | TBLOCK_PREPARE \<Rightarrow> abort_to_default st
      | TBLOCK_SUBINPROGRESS \<Rightarrow> block [AbortSubTransaction, set_block TBLOCK_SUBABORT] st
      | TBLOCK_SUBABORT_END \<Rightarrow>
          (case CleanupSubTransaction st of
             (Inl e, st) \<Rightarrow> (Inl e, st) | (Inr _, st) \<Rightarrow> AbortCurrentTransaction st)
      | TBLOCK_SUBABORT_RESTART \<Rightarrow>
          (case CleanupSubTransaction st of
             (Inl e, st) \<Rightarrow> (Inl e, st) | (Inr _, st) \<Rightarrow> AbortCurrentTransaction st)
      | _ \<Rightarrow>
          (case abort_and_cleanup_sub st of
             (Inl e, st) \<Rightarrow> (Inl e, st) | (Inr _, st) \<Rightarrow> AbortCurrentTransaction st))"
  by pat_completeness auto
termination
  by (relation "measure (\<lambda>st. length (transactionStack st))")
    (auto dest: CleanupSubTransaction_shorter [OF sym] abort_and_cleanup_sub_shorter [OF sym])

text \<open>The loop of \<open>AbortOutOfAnyTransaction\<close>, which ends when the block state is
  \<open>TBLOCK_DEFAULT\<close>.\<close>

function AbortOutOfAnyTransaction :: "unit xact" where
  "AbortOutOfAnyTransaction st =
     (let sub = (\<lambda>st. blockState (cur st) \<in> {TBLOCK_SUBBEGIN, TBLOCK_SUBINPROGRESS, TBLOCK_SUBRELEASE,
                  TBLOCK_SUBCOMMIT, TBLOCK_SUBABORT_PENDING, TBLOCK_SUBRESTART});
          ended = (\<lambda>st. blockState (cur st) \<in> {TBLOCK_SUBABORT, TBLOCK_SUBABORT_END, TBLOCK_SUBABORT_RESTART})
      in if blockState (cur st) = TBLOCK_DEFAULT then abort_default st
         else if blockState (cur st) = TBLOCK_ABORT \<or> blockState (cur st) = TBLOCK_ABORT_END
         then block [CleanupTransaction, set_block TBLOCK_DEFAULT] st
         else if sub st \<or> ended st
         then (case (if sub st then abort_and_cleanup_sub st else CleanupSubTransaction st) of
                 (Inl e, st) \<Rightarrow> (Inl e, st)
               | (Inr _, st) \<Rightarrow> if blockState (cur st) = TBLOCK_DEFAULT then (Inr (), st)
                                else AbortOutOfAnyTransaction st)
         else abort_to_default st)"
  by pat_completeness auto
termination
  by (relation "measure (\<lambda>st. length (transactionStack st))")
    (auto dest: CleanupSubTransaction_shorter [OF sym] abort_and_cleanup_sub_shorter [OF sym] split: if_splits)

declare commit_subxacts_while.simps [simp del] CommitTransactionCommand.simps [simp del]
  AbortCurrentTransaction.simps [simp del] AbortOutOfAnyTransaction.simps [simp del]

section \<open>Internal subtransactions\<close>

definition BeginInternalSubTransaction :: "string option \<Rightarrow> unit xact" where
  "BeginInternalSubTransaction name st =
     (if IsInParallelMode st then raise parallel_error st
      else if blockState (cur st) \<in> {TBLOCK_STARTED, TBLOCK_INPROGRESS, TBLOCK_IMPLICIT_INPROGRESS,
                TBLOCK_END, TBLOCK_PREPARE, TBLOCK_SUBINPROGRESS}
      then block [push_named name, CommitTransactionCommand, StartTransactionCommand] st
      else raise unexpected_state st)"

definition ReleaseCurrentSubTransaction :: "unit xact" where
  "ReleaseCurrentSubTransaction st =
     (if IsInParallelMode st then raise parallel_error st
      else if blockState (cur st) \<noteq> TBLOCK_SUBINPROGRESS
      then raise (ERROR (Elog ''ReleaseCurrentSubTransaction: unexpected state'')) st
      else CommitSubTransaction st)"

definition RollbackAndReleaseCurrentSubTransaction :: "unit xact" where
  "RollbackAndReleaseCurrentSubTransaction st =
     (if blockState (cur st) = TBLOCK_SUBINPROGRESS \<or> blockState (cur st) = TBLOCK_SUBABORT
      then block [only_if (\<lambda>st. blockState (cur st) = TBLOCK_SUBINPROGRESS) AbortSubTransaction,
                  CleanupSubTransaction] st
      else raise unexpected_state st)"

end
