(* ===== verification/XactFrames.thy ===== *)
theory XactFrames
  imports XactBlock "HOL-Library.Sublist"
begin

text \<open>
  How the operations of \<open>XactBlock\<close> change the visible part of the transaction stack, as rules for
  backward reasoning, the shapes of the stack a session goes through, and the proof that an abort
  recovers from every state in which an error can leave it.
\<close>

section \<open>Weakest preconditions\<close>

definition wp :: "'a xact \<Rightarrow> ('a \<Rightarrow> xact_state \<Rightarrow> bool) \<Rightarrow> (xact_error \<Rightarrow> xact_state \<Rightarrow> bool)
    \<Rightarrow> xact_state \<Rightarrow> bool" where
  "wp m Q E st \<longleftrightarrow> (case m st of (Inr x, st') \<Rightarrow> Q x st' | (Inl e, st') \<Rightarrow> E e st')"

lemma wp_simps [simp]:
  "wp (ret x) Q E st \<longleftrightarrow> Q x st"
  "wp (raise e) Q E st \<longleftrightarrow> E e st"
  "wp (test c m n) Q E st \<longleftrightarrow> (if c st then wp m Q E st else wp n Q E st)"
  "wp (ask site j) Q E st \<longleftrightarrow> wp (j (answers st (clock st) site)) Q E (st\<lparr>clock := clock st + 1\<rparr>)"
  by (auto simp: wp_def ret_def raise_def test_def ask_def)

lemma wp_xbind [simp]: "wp (xbind m k) Q E st \<longleftrightarrow> wp m (\<lambda>x. wp (k x) Q E) E st"
  by (auto simp: wp_def xbind_def split: prod.splits sum.splits)

lemma wp_statements [simp]:
  "wp (modify f) Q E st \<longleftrightarrow> Q () (f st)"
  "wp (block []) Q E st \<longleftrightarrow> Q () st"
  "wp (block (p # ps)) Q E st \<longleftrightarrow> wp p (\<lambda>_. wp (block ps) Q E) E st"
  by (auto simp: wp_def modify_def split: prod.splits sum.splits)

lemma wp_block_append: "wp (block (ms @ ns)) Q E st \<longleftrightarrow> wp (block ms) (\<lambda>_. wp (block ns) Q E) E st"
  by (auto simp: wp_def block_append split: prod.splits sum.splits)

lemma wp_cong: "m st = m' st \<Longrightarrow> wp m Q E st \<longleftrightarrow> wp m' Q E st"
  by (simp add: wp_def)

lemma wp_external:
  "wp (external site) Q E st \<longleftrightarrow>
     (case ext_error (answers st (clock st) site) of
        None \<Rightarrow> Q () (st\<lparr>clock := clock st + 1\<rparr>) | Some e \<Rightarrow> E (ERROR e) (st\<lparr>clock := clock st + 1\<rparr>))"
  by (simp add: external_def split: option.splits)

lemma wp_externalI:
  assumes "\<And>n. Q () (st\<lparr>clock := n\<rparr>)" "\<And>e n. E (ERROR e) (st\<lparr>clock := n\<rparr>)"
  shows "wp (external site) Q E st"
  using assms by (simp add: wp_external split: option.splits)

lemma wp_mono:
  "wp m Q E st \<Longrightarrow> (\<And>x st'. Q x st' \<Longrightarrow> Q' x st') \<Longrightarrow> (\<And>e st'. E e st' \<Longrightarrow> E' e st') \<Longrightarrow> wp m Q' E' st"
  by (auto simp: wp_def split: prod.splits sum.splits)

lemma wp_run: "(\<And>r st'. m st = (r, st') \<Longrightarrow> case r of Inr x \<Rightarrow> Q x st' | Inl e \<Rightarrow> E e st') \<Longrightarrow> wp m Q E st"
  by (auto simp: wp_def split: prod.splits sum.splits)

lemma wpD: "wp m Q E st \<Longrightarrow> m st = (r, st') \<Longrightarrow> case r of Inr x \<Rightarrow> Q x st' | Inl e \<Rightarrow> E e st'"
  by (auto simp: wp_def split: sum.splits)

lemma wp_case_result:
  "wp (\<lambda>st. case m st of (Inl e, st) \<Rightarrow> (Inl e, st) | (Inr _, st) \<Rightarrow> k st) Q E st
     \<longleftrightarrow> wp m (\<lambda>_. wp k Q E) E st"
  by (auto simp: wp_def split: prod.splits sum.splits)

section \<open>The visible part of the stack\<close>

text \<open>Of each frame: block state, transaction state, savepoint name, nesting level and savepoint
  level.\<close>

type_synonym frame = "TBlockState \<times> TransState \<times> string option \<times> int \<times> int"

definition view :: "TransactionStateData \<Rightarrow> frame" where
  "view s = (blockState s, ts_state s, ts_name s, nestingLevel s, savepointLevel s)"

definition frames :: "xact_state \<Rightarrow> frame list" where
  "frames st = map view (transactionStack st)"

lemma frames_keep [simp]:
  "frames (st\<lparr>clock := n\<rparr>) = frames st"
  by (simp_all add: frames_def)

lemma framesE:
  assumes "frames st = (b, t, nm, n, l) # fs"
  obtains s ss where "transactionStack st = s # ss" "map view ss = fs" "blockState s = b"
    "ts_state s = t" "ts_name s = nm" "nestingLevel s = n" "savepointLevel s = l" "cur st = s"
  using assms by (cases "transactionStack st") (auto simp: frames_def view_def cur_def)

text \<open>An error the backend survives is an ERROR; the outcome log may still force a PANIC.\<close>

fun is_ERROR :: "xact_error \<Rightarrow> bool" where
  "is_ERROR (ERROR _) = True" | "is_ERROR _ = False"

fun is_FATAL :: "xact_error \<Rightarrow> bool" where
  "is_FATAL (FATAL _) = True" | "is_FATAL _ = False"

fun severe :: "xact_error \<Rightarrow> bool" where
  "severe (ERROR _) = False" | "severe (FATAL _) = False" | "severe _ = True"

lemma error_kinds: "is_ERROR e \<or> is_FATAL e \<or> severe e" "is_ERROR e \<Longrightarrow> \<not> is_FATAL e" "severe e \<Longrightarrow> \<not> is_FATAL e"
  "severe e \<Longrightarrow> \<not> is_ERROR e"
  by (cases e; simp)+

section \<open>What each operation does to the frames\<close>

lemma StartTransaction_frames:
  assumes "frames st = [(b, t, nm, n, l)]"
  shows "wp StartTransaction (\<lambda>_ st'. frames st' = [(b, TRANS_INPROGRESS, nm, 1, l)])
    (\<lambda>e st'. is_ERROR e \<and> frames st' = [(b, TRANS_START, nm, 1, l)]) st"
  using assms
  by (auto elim!: framesE simp: StartTransaction_def wp_external set_cur_def cur_def frames_def view_def
      split: option.splits)

lemma keeps_frames_RecordTransactionCommit:
  "wp RecordTransactionCommit (\<lambda>_ st'. transactionStack st' = transactionStack st)
     (\<lambda>e st'. is_ERROR e \<and> transactionStack st' = transactionStack st) st"
  by (simp add: RecordTransactionCommit_def Let_def wp_def ask_def ret_def raise_def)

lemma RecordTransactionAbort_frames:
  "wp (RecordTransactionAbort b) (\<lambda>_ st'. transactionStack st' = transactionStack st)
     (\<lambda>e st'. severe e \<and> transactionStack st' = transactionStack st) st"
  by (auto simp: RecordTransactionAbort_def Let_def wp_def ret_def raise_def
      split: option.splits prod.splits bool.splits)


lemma CommitTransaction_frames:
  assumes "frames st = [(b, t, nm, n, l)]"
  shows "wp CommitTransaction (\<lambda>_ st'. frames st' = [(b, TRANS_DEFAULT, nm, 0, l)])
    (\<lambda>e st'. is_ERROR e \<and> (\<exists>t. frames st' = [(b, t, nm, n, l)])) st"
proof -
  have rec: "wp RecordTransactionCommit Q E st1" if "\<And>x st'. transactionStack st' = transactionStack st1 \<Longrightarrow> Q x st'"
    "\<And>e st'. is_ERROR e \<Longrightarrow> transactionStack st' = transactionStack st1 \<Longrightarrow> E e st'" for Q E st1
    using keeps_frames_RecordTransactionCommit by (rule wp_mono) (use that in auto)
  show ?thesis using assms
    by (auto elim!: framesE intro!: rec wp_externalI simp: CommitTransaction_def forget_transaction_def
        set_cur_def cur_def frames_def view_def EnterParallelMode_def ProcArrayEndTransaction_def)
qed

lemma AbortTransaction_frames:
  assumes "frames st = (b, t, nm, n, l) # fs"
  shows "wp AbortTransaction (\<lambda>_ st'. frames st' = (b, TRANS_ABORT, nm, n, l) # fs)
    (\<lambda>e st'. severe e \<and> frames st' = (b, TRANS_ABORT, nm, n, l) # fs) st"
proof -
  have rec: "wp (RecordTransactionAbort c) Q E st1" if "\<And>x st'. transactionStack st' = transactionStack st1 \<Longrightarrow> Q x st'"
    "\<And>e st'. severe e \<Longrightarrow> transactionStack st' = transactionStack st1 \<Longrightarrow> E e st'" for Q E st1 c
    using RecordTransactionAbort_frames by (rule wp_mono) (use that in auto)
  show ?thesis using assms
    by (auto elim!: framesE intro!: rec simp: AbortTransaction_def
        set_cur_def cur_def frames_def view_def ProcArrayEndTransaction_def)
qed

lemma CleanupTransaction_frames:
  assumes "frames st = [(b, TRANS_ABORT, nm, n, l)]"
  shows "wp CleanupTransaction (\<lambda>_ st'. frames st' = [(b, TRANS_DEFAULT, nm, 0, l)]) E st"
  using assms
  by (auto elim!: framesE simp: CleanupTransaction_def forget_transaction_def set_cur_def cur_def frames_def view_def)

lemma StartSubTransaction_frames:
  assumes "frames st = (b, t, nm, n, l) # fs"
  shows "wp StartSubTransaction (\<lambda>_ st'. frames st' = (b, TRANS_INPROGRESS, nm, n, l) # fs)
    (\<lambda>e st'. is_ERROR e \<and> (\<exists>t. frames st' = (b, t, nm, n, l) # fs)) st"
  using assms
  by (auto elim!: framesE intro!: wp_externalI simp: StartSubTransaction_def set_cur_def cur_def frames_def view_def)

lemma CommandCounterIncrement_frames:
  "wp CommandCounterIncrement (\<lambda>_ st'. transactionStack st' = transactionStack st)
    (\<lambda>e st'. is_ERROR e \<and> transactionStack st' = transactionStack st) st"
  by (auto intro!: wp_externalI simp: CommandCounterIncrement_def)

lemma AtSubCommit_childXids_frames:
  "wp AtSubCommit_childXids (\<lambda>_ st'. frames st' = frames st) (\<lambda>e st'. is_ERROR e \<and> frames st' = frames st) st"
  by (auto simp: AtSubCommit_childXids_def Let_def wp_def raise_def frames_def view_def split: list.splits)

lemma CommitSubTransaction_frames:
  assumes "frames st = (b, t, nm, n, l) # g # fs"
  shows "wp CommitSubTransaction (\<lambda>_ st'. frames st' = g # fs)
    (\<lambda>e st'. is_ERROR e \<and> (\<exists>t. frames st' = (b, t, nm, n, l) # g # fs)) st"
proof -
  have cci: "wp CommandCounterIncrement Q E st1" if "\<And>x st'. transactionStack st' = transactionStack st1 \<Longrightarrow> Q x st'"
    "\<And>e st'. is_ERROR e \<Longrightarrow> transactionStack st' = transactionStack st1 \<Longrightarrow> E e st'" for Q E st1
    using CommandCounterIncrement_frames by (rule wp_mono) (use that in auto)
  have xids: "wp AtSubCommit_childXids Q E st1" if "\<And>x st'. frames st' = frames st1 \<Longrightarrow> Q x st'"
    "\<And>e st'. is_ERROR e \<Longrightarrow> frames st' = frames st1 \<Longrightarrow> E e st'" for Q E st1
    using AtSubCommit_childXids_frames by (rule wp_mono) (use that in auto)
  show ?thesis using assms
    by (auto elim!: framesE intro!: cci xids wp_externalI simp: CommitSubTransaction_def restore_read_only_def
        PopTransaction_def set_cur_def cur_def frames_def view_def)
qed

lemma AbortSubTransaction_frames:
  assumes "frames st = (b, t, nm, n, l) # fs"
  shows "wp AbortSubTransaction (\<lambda>_ st'. frames st' = (b, TRANS_ABORT, nm, n, l) # fs)
    (\<lambda>e st'. severe e \<and> frames st' = (b, TRANS_ABORT, nm, n, l) # fs) st"
proof -
  have rec: "wp (RecordTransactionAbort c) Q E st1" if "\<And>x st'. transactionStack st' = transactionStack st1 \<Longrightarrow> Q x st'"
    "\<And>e st'. severe e \<Longrightarrow> transactionStack st' = transactionStack st1 \<Longrightarrow> E e st'" for Q E st1 c
    using RecordTransactionAbort_frames by (rule wp_mono) (use that in auto)
  show ?thesis using assms
    by (auto elim!: framesE intro!: rec simp: AbortSubTransaction_def AtSubAbort_childXids_def restore_read_only_def
        set_cur_def cur_def frames_def view_def)
qed

lemma CleanupSubTransaction_frames:
  assumes "frames st = f # g # fs"
  shows "wp CleanupSubTransaction (\<lambda>_ st'. frames st' = g # fs) E st"
  using assms
  by (auto elim!: framesE simp: CleanupSubTransaction_def PopTransaction_def set_cur_def cur_def frames_def)

lemma PushTransaction_frames:
  assumes "frames st = (b, t, nm, n, l) # fs"
  shows "wp PushTransaction
    (\<lambda>_ st'. frames st' = (TBLOCK_SUBBEGIN, TRANS_DEFAULT, None, n + 1, l) # (b, t, nm, n, l) # fs)
    (\<lambda>e st'. is_ERROR e \<and> frames st' = (b, t, nm, n, l) # fs) st"
  using assms
  by (auto elim!: framesE simp: PushTransaction_def Let_def cur_def frames_def view_def)


text \<open>\<open>harmless m\<close>: whatever happens, the frames stay and any error is an ERROR.\<close>

definition harmless :: "'a xact \<Rightarrow> bool" where
  "harmless m \<longleftrightarrow> (\<forall>st. frames st \<noteq> [] \<longrightarrow>
     wp m (\<lambda>_ st'. frames st' = frames st) (\<lambda>e st'. is_ERROR e \<and> frames st' = frames st) st)"

lemma harmlessD:
  assumes "harmless m" "frames st \<noteq> []" "\<And>x st'. frames st' = frames st \<Longrightarrow> Q x st'"
    "\<And>e st'. is_ERROR e \<Longrightarrow> frames st' = frames st \<Longrightarrow> E e st'"
  shows "wp m Q E st"
  by (rule wp_mono [of m "\<lambda>_ st'. frames st' = frames st" "\<lambda>e st'. is_ERROR e \<and> frames st' = frames st"])
    (use assms in \<open>auto simp: harmless_def\<close>)

lemma harmless_block: "\<forall>m \<in> set ms. harmless m \<Longrightarrow> harmless (block ms)"
proof (induction ms)
  case (Cons m ms)
  then have m: "harmless m" and ms: "harmless (block ms)" by auto
  show ?case unfolding harmless_def
    by (auto intro!: harmlessD [OF m] harmlessD [OF ms])
qed (simp add: harmless_def)

lemma harmless_basic:
  "harmless (ret x)" "is_ERROR e \<Longrightarrow> harmless (raise e)"
  "harmless m \<Longrightarrow> harmless n \<Longrightarrow> harmless (test c m n)"
  "harmless (external site)"
  by (auto simp: harmless_def wp_external split: option.splits)

lemma harmless_xbind:
  assumes "harmless m" "\<And>x. harmless (k x)"
  shows "harmless (xbind m k)"
  unfolding harmless_def by (auto intro!: harmlessD [OF assms(1)] harmlessD [OF assms(2)])

lemma harmless_modify:
  "(\<And>st. frames st \<noteq> [] \<Longrightarrow> frames (g st) = frames st) \<Longrightarrow> harmless (modify g)"
  by (simp add: harmless_def)

lemmas harmless_rules = harmless_block harmless_basic harmless_xbind harmless_modify

lemma view_update [simp]: "view (s\<lparr>fullTransactionId := x\<rparr>) = view s" "view (s\<lparr>didLogXid := c\<rparr>) = view s"
  by (simp_all add: view_def)

lemma map_view_butlast:
  "ss \<noteq> [] \<Longrightarrow> map view (butlast ss @ [f (last ss)]) = map view ss" if "\<And>s. view (f s) = view s"
  using that by (induction ss) auto

lemma harmless_note_unreported: "harmless (note_unreported xid b)"
  unfolding note_unreported_def
  by (intro harmless_modify) (auto simp: frames_def Let_def map_view_butlast simp del: map_append)

lemma harmless_stamp:
  "harmless (modify (\<lambda>st. st\<lparr>transactionStack := (transactionStack st)
     [k := (transactionStack st ! k)\<lparr>fullTransactionId := x\<rparr>]\<rparr>))"
proof (rule harmless_modify)
  fix st :: xact_state
  have "map view ((transactionStack st)[k := (transactionStack st ! k)\<lparr>fullTransactionId := x\<rparr>])
      = map view (transactionStack st)"
    by (cases "k < height st") (simp_all add: map_update list_update_same_conv list_update_beyond)
  then show "frames (st\<lparr>transactionStack := (transactionStack st)
     [k := (transactionStack st ! k)\<lparr>fullTransactionId := x\<rparr>]\<rparr>) = frames st"
    by (simp add: frames_def)
qed

lemma harmless_assign_frame_xid: "harmless (assign_frame_xid k)"
  unfolding harmless_def
proof (intro allI impI)
  fix st assume ne: "frames st \<noteq> []"
  let ?Q = "\<lambda>(_ :: unit) st'. frames st' = frames st"
  let ?E = "\<lambda>e st'. is_ERROR e \<and> frames st' = frames st"
  define sub where "sub \<longleftrightarrow> k + 1 < height st"
  define top where "top \<longleftrightarrow> sub \<and> XLogLogicalInfoActive st \<and> \<not> didLogXid (last (transactionStack st))"
  define a where "a = answers st (clock st) AtAssignXid"
  obtain r cache proc where g: "GetNewTransactionId (proc_mode st) (ext_others a)
      (case ext_error a of None \<Rightarrow> Inr () | Some e \<Rightarrow> Inl e) (IsInParallelMode st) sub
      (ShmemVariableCache st) (MyProc st) = (r, cache, proc)" by (rule prod_cases3)
  show "wp (assign_frame_xid k) ?Q ?E st"
  proof (cases r)
    case (Inl e)
    then show ?thesis
      using g unfolding wp_def assign_frame_xid_def sub_def a_def by (simp add: Let_def frames_def)
  next
    case (Inr x)
    let ?st = "st\<lparr>ShmemVariableCache := cache, MyProc := proc, clock := clock st + 1\<rparr>"
    let ?ms = "[modify (\<lambda>st. st\<lparr>transactionStack := (transactionStack st)
                 [k := (transactionStack st ! k)\<lparr>fullTransactionId := x\<rparr>]\<rparr>),
               only_if (\<lambda>_. \<not> sub) (modify (\<lambda>st. st\<lparr>XactTopFullTransactionId := x\<rparr>)),
               only_if (\<lambda>_. sub) (modify (\<lambda>st. st\<lparr>outcome_log := (outcome_log st)
                 \<lparr>xl_subtrans := SubTransSetParent (XidFromFullTransactionId x)
                    (XidFromFullTransactionId (fullTransactionId (transactionStack st ! (k + 1))))
                    (xl_subtrans (outcome_log st))\<rparr>\<rparr>)),
               external AtAssignXid,
               only_if (\<lambda>st. sub \<and> XLogStandbyInfoActive st)
                 (note_unreported (XidFromFullTransactionId x) top)]"
    have "harmless (block ?ms)"
      by (auto intro!: harmless_rules harmless_stamp harmless_note_unreported simp: frames_def)
    then have "wp (block ?ms) ?Q ?E ?st" using ne by (intro harmlessD) (auto simp: frames_def)
    moreover have "assign_frame_xid k st = block ?ms ?st"
      using g Inr unfolding assign_frame_xid_def sub_def a_def top_def by (simp add: Let_def)
    ultimately show ?thesis by (simp only: wp_def)
  qed
qed

lemma harmless_AssignTransactionId: "harmless AssignTransactionId"
  unfolding harmless_def
proof (intro allI impI)
  fix st assume ne: "frames st \<noteq> []"
  let ?ms = "map assign_frame_xid (rev (unassigned_from 1 (tl (transactionStack st)))) @ [assign_frame_xid 0]"
  have "harmless (block ?ms)" by (intro harmless_block) (auto simp: harmless_assign_frame_xid)
  then have "wp (block ?ms) (\<lambda>_ st'. frames st' = frames st) (\<lambda>e st'. is_ERROR e \<and> frames st' = frames st) st"
    using ne by (intro harmlessD) auto
  then show "wp AssignTransactionId (\<lambda>_ st'. frames st' = frames st) (\<lambda>e st'. is_ERROR e \<and> frames st' = frames st) st"
    unfolding wp_def AssignTransactionId_def by (simp add: raise_def)
qed

lemma harmless_GetCurrentTransactionId: "harmless GetCurrentTransactionId"
  unfolding GetCurrentTransactionId_def
  by (intro harmless_xbind harmless_basic harmless_AssignTransactionId) (simp add: harmless_def wp_def ret_def)

lemma harmless_CommandCounterIncrement: "harmless CommandCounterIncrement"
  unfolding CommandCounterIncrement_def by (auto intro!: harmless_rules simp: frames_def)

lemma PrepareTransaction_frames:
  assumes "frames st = [(b, t, nm, n, l)]"
  shows "wp PrepareTransaction (\<lambda>_ st'. frames st' = [(b, TRANS_DEFAULT, nm, 0, l)])
    (\<lambda>e st'. is_ERROR e \<and> (\<exists>t. frames st' = [(b, t, nm, n, l)])) st"
proof -
  let ?first = "[xbind GetCurrentTransactionId (\<lambda>_. skip), external AtPrepareXact,
     only_if (\<lambda>st. MyXactFlags st AND XACT_FLAGS_ACCESSEDTEMPNAMESPACE \<noteq> 0)
       (raise (ERROR (Ereport ''FEATURE_NOT_SUPPORTED''))), external AtPrepareXact]"
  let ?rest = "[set_state TRANS_PREPARE, external AtMarkPreparing, modify (\<lambda>st. st\<lparr>prepareGID := None\<rparr>),
     external AtMarkPreparing, modify (\<lambda>st. st\<lparr>XactLastRecEnd := 0\<rparr>), ProcArrayClearTransaction,
     forget_transaction]"
  have first: "harmless (block ?first)"
    by (auto intro!: harmless_rules harmless_GetCurrentTransactionId)
  have rest: "wp (block ?rest) (\<lambda>_ st'. frames st' = [(b, TRANS_DEFAULT, nm, 0, l)])
    (\<lambda>e st'. is_ERROR e \<and> (\<exists>t. frames st' = [(b, t, nm, n, l)])) st1"
    if "frames st1 = [(b, t, nm, n, l)]" for st1
    using that by (auto elim!: framesE intro!: wp_externalI simp: forget_transaction_def
        set_cur_def cur_def frames_def view_def ProcArrayClearTransaction_def)
  have eq: "PrepareTransaction = block (?first @ ?rest)" by (simp add: PrepareTransaction_def)
  show ?thesis unfolding eq wp_block_append
    by (rule harmlessD [OF first _ rest]) (use assms in auto)
qed
section \<open>The shapes of the stack\<close>

text \<open>A transaction in progress with its open subtransactions, where the top transaction is in
  one of the given block states.\<close>

fun run_frames :: "TBlockState set \<Rightarrow> frame list \<Rightarrow> bool" where
  "run_frames B [] = False"
| "run_frames B [(b, t, nm, n, l)] = (b \<in> B \<and> t = TRANS_INPROGRESS \<and> nm = None \<and> n = 1 \<and> l = 0)"
| "run_frames B ((b, t, nm, n, l) # g # fs) =
     (b = TBLOCK_SUBINPROGRESS \<and> t = TRANS_INPROGRESS \<and> n = int (length fs) + 2 \<and> l = 0
      \<and> run_frames B (g # fs))"

abbreviation live :: "frame list \<Rightarrow> bool" where
  "live \<equiv> run_frames {TBLOCK_INPROGRESS}"

fun failed :: "frame list \<Rightarrow> bool" where
  "failed [] = False"
| "failed [(b, t, nm, n, l)] = (b = TBLOCK_ABORT \<and> t = TRANS_ABORT \<and> nm = None \<and> n = 1 \<and> l = 0)"
| "failed ((b, t, nm, n, l) # g # fs) =
     (b = TBLOCK_SUBABORT \<and> t = TRANS_ABORT \<and> n = int (length fs) + 2 \<and> l = 0 \<and> live (g # fs))"

definition idle :: "frame list \<Rightarrow> bool" where
  "idle fs \<longleftrightarrow> fs = [(TBLOCK_DEFAULT, TRANS_DEFAULT, None, 0, 0)]"

text \<open>What holds between the client's queries, and what may hold where an error is raised.\<close>

definition between :: "frame list \<Rightarrow> bool" where
  "between fs \<longleftrightarrow> idle fs \<or> live fs \<or> failed fs"

definition marked :: "TBlockState set" where
  "marked = {TBLOCK_SUBBEGIN, TBLOCK_SUBRELEASE, TBLOCK_SUBCOMMIT, TBLOCK_SUBABORT_PENDING,
     TBLOCK_SUBRESTART, TBLOCK_SUBABORT_END, TBLOCK_SUBABORT_RESTART}"

fun recoverable :: "frame list \<Rightarrow> bool" where
  "recoverable [] = False"
| "recoverable [(b, t, nm, n, l)] =
     (nm = None \<and> l = 0
      \<and> (b = TBLOCK_DEFAULT \<and> (t = TRANS_DEFAULT \<and> n = 0 \<or> t = TRANS_START \<and> n = 1)
         \<or> b \<in> {TBLOCK_ABORT, TBLOCK_ABORT_END} \<and> t = TRANS_ABORT \<and> n = 1
         \<or> b \<in> {TBLOCK_STARTED, TBLOCK_BEGIN, TBLOCK_INPROGRESS, TBLOCK_IMPLICIT_INPROGRESS,
                TBLOCK_END, TBLOCK_ABORT_PENDING, TBLOCK_PREPARE} \<and> n = 1))"
| "recoverable ((b, t, nm, n, l) # g # fs) =
     (n = int (length fs) + 2 \<and> l = 0
      \<and> (b \<in> marked \<and> recoverable (g # fs)
         \<or> b = TBLOCK_SUBINPROGRESS \<and> live (g # fs)
         \<or> b = TBLOCK_SUBABORT \<and> t = TRANS_ABORT \<and> live (g # fs)))"

definition names :: "frame list \<Rightarrow> string option list" where
  "names fs = map (\<lambda>(_, _, nm, _, _). nm) (butlast fs)"

text \<open>The session as its client knows it, with the savepoints it has, innermost first, and what an
  abort makes of it.\<close>

datatype session_state = Idle | Implicit | Open "string option list" | Failed "string option list"

definition session_of :: "frame list \<Rightarrow> session_state" where
  "session_of fs =
     (if fst (hd fs) \<in> {TBLOCK_DEFAULT, TBLOCK_STARTED} then Idle
      else if fst (hd fs) = TBLOCK_IMPLICIT_INPROGRESS then Implicit
      else if fst (hd fs) \<in> {TBLOCK_ABORT, TBLOCK_SUBABORT} then Failed (names fs)
      else Open (names fs))"

fun abort_state :: "frame list \<Rightarrow> session_state" where
  "abort_state [] = Idle"
| "abort_state [f] = (if fst f \<in> {TBLOCK_INPROGRESS, TBLOCK_ABORT} then Failed [] else Idle)"
| "abort_state (f # g # fs) = (if fst f \<in> marked then abort_state (g # fs) else Failed (names (f # g # fs)))"

lemma live_recoverable: "live fs \<Longrightarrow> recoverable fs"
  by (cases fs rule: recoverable.cases) auto

lemma failed_recoverable: "failed fs \<Longrightarrow> recoverable fs"
  by (cases fs rule: recoverable.cases) auto

lemma cur_block: "frames st = (b, t, nm, n, l) # fs \<Longrightarrow> blockState (cur st) = b \<and> ts_state (cur st) = t"
  by (auto elim: framesE)

fun put_block :: "TBlockState \<Rightarrow> frame list \<Rightarrow> frame list" where
  "put_block b' [] = []" | "put_block b' ((b, r) # fs) = (b', r) # fs"

fun put_state :: "TransState \<Rightarrow> frame list \<Rightarrow> frame list" where
  "put_state t' [] = []" | "put_state t' ((b, t, r) # fs) = (b, t', r) # fs"

fun forget_frame :: "frame list \<Rightarrow> frame list" where
  "forget_frame [] = []" | "forget_frame ((b, t, nm, n, l) # fs) = (b, TRANS_DEFAULT, nm, 0, l) # fs"

text \<open>The operations as rules for backward reasoning.\<close>

lemma wp_set_block:
  assumes "\<And>st'. frames st' = put_block b' (frames st) \<Longrightarrow> Q () st'"
  shows "wp (set_block b') Q E st"
  by (cases "transactionStack st") (auto simp: set_cur_def frames_def view_def intro!: assms)

lemma wp_set_state:
  assumes "\<And>st'. frames st' = put_state t' (frames st) \<Longrightarrow> Q () st'"
  shows "wp (set_state t') Q E st"
  by (cases "transactionStack st") (auto simp: set_cur_def frames_def view_def intro!: assms)

lemma wp_set_cur:
  assumes "\<And>s. view (f s) = view s" "\<And>st'. frames st' = frames st \<Longrightarrow> Q () st'"
  shows "wp (set_cur f) Q E st"
  by (cases "transactionStack st") (auto simp: set_cur_def frames_def assms(1) intro!: assms(2))

lemma frame_cases: "fs \<noteq> [] \<Longrightarrow> (\<And>b t nm n l gs. fs = (b, t, nm, n, l) # gs \<Longrightarrow> P) \<Longrightarrow> P"
  by (cases fs) auto

lemma wp_Start:
  assumes "length (frames st) = 1"
    "\<And>st' b t nm n l. frames st = [(b, t, nm, n, l)] \<Longrightarrow> frames st' = [(b, TRANS_INPROGRESS, nm, 1, l)] \<Longrightarrow> Q () st'"
    "\<And>e st' b t nm n l. is_ERROR e \<Longrightarrow> frames st = [(b, t, nm, n, l)] \<Longrightarrow> frames st' = [(b, TRANS_START, nm, 1, l)] \<Longrightarrow> E e st'"
  shows "wp StartTransaction Q E st"
proof -
  obtain b t nm n l where fs: "frames st = [(b, t, nm, n, l)]"
    using assms(1) by (cases "frames st") auto
  show ?thesis using StartTransaction_frames [OF fs] by (rule wp_mono) (use assms(2,3) fs in auto)
qed

lemma wp_Commit:
  assumes "length (frames st) = 1" "\<And>st'. frames st' = forget_frame (frames st) \<Longrightarrow> Q () st'"
    "\<And>e st' t. is_ERROR e \<Longrightarrow> frames st' = put_state t (frames st) \<Longrightarrow> E e st'"
  shows "wp CommitTransaction Q E st"
proof -
  obtain b t nm n l where fs: "frames st = [(b, t, nm, n, l)]"
    using assms(1) by (cases "frames st") auto
  show ?thesis using CommitTransaction_frames [OF fs] by (rule wp_mono) (use assms(2,3) fs in auto)
qed

lemma wp_Prepare:
  assumes "length (frames st) = 1" "\<And>st'. frames st' = forget_frame (frames st) \<Longrightarrow> Q () st'"
    "\<And>e st' t. is_ERROR e \<Longrightarrow> frames st' = put_state t (frames st) \<Longrightarrow> E e st'"
  shows "wp PrepareTransaction Q E st"
proof -
  obtain b t nm n l where fs: "frames st = [(b, t, nm, n, l)]"
    using assms(1) by (cases "frames st") auto
  show ?thesis using PrepareTransaction_frames [OF fs] by (rule wp_mono) (use assms(2,3) fs in auto)
qed

lemma wp_Abort:
  assumes "frames st \<noteq> []" "\<And>st'. frames st' = put_state TRANS_ABORT (frames st) \<Longrightarrow> Q () st'"
    "\<And>e st'. severe e \<Longrightarrow> E e st'"
  shows "wp AbortTransaction Q E st"
proof -
  obtain b t nm n l gs where fs: "frames st = (b, t, nm, n, l) # gs" using assms(1) by (rule frame_cases)
  show ?thesis using AbortTransaction_frames [OF fs] by (rule wp_mono) (use assms fs in auto)
qed

lemma wp_Cleanup:
  assumes "length (frames st) = 1" "fst (snd (hd (frames st))) = TRANS_ABORT"
    "\<And>st'. frames st' = forget_frame (frames st) \<Longrightarrow> Q () st'"
  shows "wp CleanupTransaction Q E st"
proof -
  obtain b nm n l where fs: "frames st = [(b, TRANS_ABORT, nm, n, l)]"
    using assms(1,2) by (cases "frames st") auto
  show ?thesis using CleanupTransaction_frames [OF fs]
    by (rule wp_mono [of _ _ "\<lambda>_ _. False"]) (use assms fs in auto)
qed

lemma wp_StartSub:
  assumes "frames st \<noteq> []" "\<And>st'. frames st' = put_state TRANS_INPROGRESS (frames st) \<Longrightarrow> Q () st'"
    "\<And>e st' t. is_ERROR e \<Longrightarrow> frames st' = put_state t (frames st) \<Longrightarrow> E e st'"
  shows "wp StartSubTransaction Q E st"
proof -
  obtain b t nm n l gs where fs: "frames st = (b, t, nm, n, l) # gs" using assms(1) by (rule frame_cases)
  show ?thesis using StartSubTransaction_frames [OF fs] by (rule wp_mono) (use assms fs in auto)
qed

lemma wp_CommitSub:
  assumes "2 \<le> length (frames st)" "\<And>st'. frames st' = tl (frames st) \<Longrightarrow> Q () st'"
    "\<And>e st' t. is_ERROR e \<Longrightarrow> frames st' = put_state t (frames st) \<Longrightarrow> E e st'"
  shows "wp CommitSubTransaction Q E st"
proof -
  obtain b t nm n l g gs where fs: "frames st = (b, t, nm, n, l) # g # gs"
    using assms(1) by (cases "frames st" rule: recoverable.cases) auto
  show ?thesis using CommitSubTransaction_frames [OF fs] by (rule wp_mono) (use assms fs in auto)
qed

lemma wp_AbortSub:
  assumes "frames st \<noteq> []" "\<And>st'. frames st' = put_state TRANS_ABORT (frames st) \<Longrightarrow> Q () st'"
    "\<And>e st'. severe e \<Longrightarrow> E e st'"
  shows "wp AbortSubTransaction Q E st"
proof -
  obtain b t nm n l gs where fs: "frames st = (b, t, nm, n, l) # gs" using assms(1) by (rule frame_cases)
  show ?thesis using AbortSubTransaction_frames [OF fs] by (rule wp_mono) (use assms fs in auto)
qed

lemma wp_CleanupSub:
  assumes "2 \<le> length (frames st)" "\<And>st'. frames st' = tl (frames st) \<Longrightarrow> Q () st'"
  shows "wp CleanupSubTransaction Q E st"
proof -
  obtain f g gs where fs: "frames st = f # g # gs"
    using assms(1) by (cases "frames st" rule: recoverable.cases) auto
  show ?thesis using CleanupSubTransaction_frames [OF fs]
    by (rule wp_mono [of _ _ "\<lambda>_ _. False"]) (use assms fs in auto)
qed

lemma length_put_state [simp]: "length (put_state t fs) = length fs" "tl (put_state t fs) = tl fs"
  "put_state t fs = [] \<longleftrightarrow> fs = []" "put_state t (put_state t' fs) = put_state t fs"
  by (cases fs; auto)+

lemma wp_abort_and_cleanup:
  assumes "2 \<le> length (frames st)" "\<And>st'. frames st' = tl (frames st) \<Longrightarrow> Q () st'"
    "\<And>e st'. severe e \<Longrightarrow> E e st'"
  shows "wp abort_and_cleanup_sub Q E st"
  using assms by (auto simp: abort_and_cleanup_sub_def intro!: wp_AbortSub wp_CleanupSub)

lemma wp_Push:
  assumes "frames st \<noteq> []"
    "\<And>st' b t nm n l gs. frames st = (b, t, nm, n, l) # gs \<Longrightarrow>
       frames st' = (TBLOCK_SUBBEGIN, TRANS_DEFAULT, None, n + 1, l) # frames st \<Longrightarrow> Q () st'"
    "\<And>e st'. is_ERROR e \<Longrightarrow> frames st' = frames st \<Longrightarrow> E e st'"
  shows "wp PushTransaction Q E st"
proof -
  obtain b t nm n l gs where fs: "frames st = (b, t, nm, n, l) # gs" using assms(1) by (rule frame_cases)
  show ?thesis using PushTransaction_frames [OF fs] by (rule wp_mono) (use assms fs in auto)
qed

lemmas wp_rules = wp_set_block wp_set_state wp_Start wp_Commit wp_Prepare wp_Abort wp_Cleanup wp_StartSub
  wp_CommitSub wp_AbortSub wp_CleanupSub wp_abort_and_cleanup wp_Push

section \<open>Aborting always recovers\<close>

definition aborted_from :: "frame list \<Rightarrow> frame list \<Rightarrow> bool" where
  "aborted_from fs fs' \<longleftrightarrow> (idle fs' \<or> failed fs') \<and> session_of fs' = abort_state fs"

lemma names_Cons [simp]: "names [f] = []" "names ((b, t, nm, n, l) # g # fs) = nm # names (g # fs)"
  by (simp_all add: names_def)

lemma aborted_from_Cons: "aborted_from (g # fs) fs' \<Longrightarrow> fst f \<in> marked \<Longrightarrow> aborted_from (f # g # fs) fs'"
  by (simp add: aborted_from_def)

lemma wp_abort_to_default:
  assumes "length (frames st) = 1" "\<And>st'. frames st' = put_block TBLOCK_DEFAULT (forget_frame (frames st)) \<Longrightarrow> Q () st'"
    "\<And>e st'. severe e \<Longrightarrow> E e st'"
  shows "wp abort_to_default Q E st"
  using assms by (cases "frames st") (auto simp: abort_to_default_def intro!: wp_rules)

lemma wp_abort_default:
  assumes "frames st = [(TBLOCK_DEFAULT, t, None, n, 0)]" "t = TRANS_DEFAULT \<longrightarrow> n = 0"
    "\<And>st'. idle (frames st') \<Longrightarrow> Q () st'" "\<And>e st'. severe e \<Longrightarrow> E e st'"
  shows "wp abort_default Q E st"
  using assms cur_block [OF assms(1)]
  by (auto simp: abort_default_def idle_def intro!: wp_rules)

lemma AbortCurrent_steps:
  "blockState (cur st) = TBLOCK_DEFAULT \<Longrightarrow> wp AbortCurrentTransaction Q E st = wp abort_default Q E st"
  "blockState (cur st) \<in> {TBLOCK_STARTED, TBLOCK_IMPLICIT_INPROGRESS, TBLOCK_BEGIN, TBLOCK_END,
     TBLOCK_ABORT_PENDING, TBLOCK_PREPARE} \<Longrightarrow> wp AbortCurrentTransaction Q E st = wp abort_to_default Q E st"
  "blockState (cur st) = TBLOCK_INPROGRESS \<Longrightarrow>
     wp AbortCurrentTransaction Q E st = wp (block [AbortTransaction, set_block TBLOCK_ABORT]) Q E st"
  "blockState (cur st) \<in> {TBLOCK_ABORT, TBLOCK_SUBABORT} \<Longrightarrow> wp AbortCurrentTransaction Q E st = Q () st"
  "blockState (cur st) = TBLOCK_ABORT_END \<Longrightarrow>
     wp AbortCurrentTransaction Q E st = wp (block [CleanupTransaction, set_block TBLOCK_DEFAULT]) Q E st"
  "blockState (cur st) = TBLOCK_SUBINPROGRESS \<Longrightarrow>
     wp AbortCurrentTransaction Q E st = wp (block [AbortSubTransaction, set_block TBLOCK_SUBABORT]) Q E st"
  "blockState (cur st) \<in> {TBLOCK_SUBABORT_END, TBLOCK_SUBABORT_RESTART} \<Longrightarrow>
     wp AbortCurrentTransaction Q E st = wp CleanupSubTransaction (\<lambda>_. wp AbortCurrentTransaction Q E) E st"
  "blockState (cur st) \<in> {TBLOCK_SUBBEGIN, TBLOCK_SUBRELEASE, TBLOCK_SUBCOMMIT, TBLOCK_SUBABORT_PENDING,
     TBLOCK_SUBRESTART} \<Longrightarrow>
     wp AbortCurrentTransaction Q E st = wp abort_and_cleanup_sub (\<lambda>_. wp AbortCurrentTransaction Q E) E st"
  by (auto simp: wp_def AbortCurrentTransaction.simps [of st] ret_def split: prod.splits sum.splits)

lemma AbortCurrentTransaction_recovers:
  assumes "recoverable (frames st)"
  shows "wp AbortCurrentTransaction (\<lambda>_ st'. aborted_from (frames st) (frames st')) (\<lambda>e _. severe e) st"
  using assms
proof (induction "frames st" arbitrary: st rule: recoverable.induct)
  case 1
  then show ?case by simp
next
  case (2 b t nm n l)
  note fs = 2(1) [symmetric] and cb = cur_block [OF 2(1) [symmetric]]
  note rec = 2(2) [unfolded fs]
  consider (default) "b = TBLOCK_DEFAULT" | (running) "b \<in> {TBLOCK_STARTED, TBLOCK_IMPLICIT_INPROGRESS, TBLOCK_BEGIN,
     TBLOCK_END, TBLOCK_ABORT_PENDING, TBLOCK_PREPARE}" | (block) "b = TBLOCK_INPROGRESS" | (failed) "b = TBLOCK_ABORT"
    | (ending) "b = TBLOCK_ABORT_END"
    using rec by auto
  then show ?case
  proof cases
    case default
    then show ?thesis using rec fs cb
      by (simp add: AbortCurrent_steps)
        (rule wp_abort_default [where t = t and n = n]; auto simp: aborted_from_def idle_def session_of_def)
  next
    case running
    then have "blockState (cur st) \<in> {TBLOCK_STARTED, TBLOCK_IMPLICIT_INPROGRESS, TBLOCK_BEGIN, TBLOCK_END,
        TBLOCK_ABORT_PENDING, TBLOCK_PREPARE}" using cb by simp
    moreover have "nm = None" "l = 0" "b \<noteq> TBLOCK_INPROGRESS" "b \<noteq> TBLOCK_ABORT" using rec running by auto
    ultimately show ?thesis using fs
      by (simp only: AbortCurrent_steps) (rule wp_abort_to_default; auto simp: aborted_from_def idle_def session_of_def)
  next
    case block
    then show ?thesis using rec fs cb
      by (auto simp: AbortCurrent_steps aborted_from_def session_of_def intro!: wp_Abort wp_set_block)
  next
    case failed
    then show ?thesis using rec fs cb by (auto simp: AbortCurrent_steps aborted_from_def session_of_def)
  next
    case ending
    then show ?thesis using rec fs cb
      by (auto simp: AbortCurrent_steps aborted_from_def session_of_def idle_def intro!: wp_Cleanup wp_set_block)
  qed
next
  case (3 b t nm n l g fs)
  note fs = 3(2) [symmetric] and cb = cur_block [OF 3(2) [symmetric]]
  let ?Q = "\<lambda>_ st'. aborted_from (frames st) (frames st')"
  have rest: "wp AbortCurrentTransaction ?Q (\<lambda>e _. severe e) st'" if "frames st' = g # fs" "recoverable (g # fs)" "b \<in> marked" for st'
    by (rule wp_mono [OF 3(1)]) (use that fs in \<open>auto intro: aborted_from_Cons\<close>)
  consider (cleanup) "b \<in> {TBLOCK_SUBABORT_END, TBLOCK_SUBABORT_RESTART}" "recoverable (g # fs)"
    | (abort) "b \<in> {TBLOCK_SUBBEGIN, TBLOCK_SUBRELEASE, TBLOCK_SUBCOMMIT, TBLOCK_SUBABORT_PENDING,
     TBLOCK_SUBRESTART}" "recoverable (g # fs)"
    | (running) "b = TBLOCK_SUBINPROGRESS" | (aborted) "b = TBLOCK_SUBABORT"
    using 3(3) fs by (auto simp: marked_def)
  then show ?case
  proof cases
    case cleanup
    then have "b \<in> marked" "blockState (cur st) \<in> {TBLOCK_SUBABORT_END, TBLOCK_SUBABORT_RESTART}"
      using cb by (auto simp: marked_def)
    then show ?thesis using rest cleanup(2) fs
      by (simp only: AbortCurrent_steps) (rule wp_CleanupSub; simp)
  next
    case abort
    then have "b \<in> marked" "blockState (cur st) \<in> {TBLOCK_SUBBEGIN, TBLOCK_SUBRELEASE, TBLOCK_SUBCOMMIT,
        TBLOCK_SUBABORT_PENDING, TBLOCK_SUBRESTART}"
      using cb by (auto simp: marked_def)
    then show ?thesis using rest abort(2) fs
      by (simp only: AbortCurrent_steps) (rule wp_abort_and_cleanup; simp)
  next
    case running
    then show ?thesis using 3(3) fs cb
      by (auto simp: AbortCurrent_steps aborted_from_def session_of_def marked_def intro!: wp_AbortSub wp_set_block)
  next
    case aborted
    then show ?thesis using 3(3) fs cb
      by (auto simp: AbortCurrent_steps aborted_from_def session_of_def marked_def)
  qed
qed

end
