(* ===== verification/XactCommands.thy ===== *)
theory XactCommands
  imports XactFrames
begin

text \<open>
  What committing a command makes of the stack: the stacks a command may be committed with
  (\<open>pending\<close>), the one each becomes (\<open>settle\<close>), and the proof that the command does that or
  leaves a stack from which an abort recovers.
\<close>


section \<open>The chain flag\<close>

definition top_chain :: "xact_state \<Rightarrow> bool" where
  "top_chain st = chain (last (transactionStack st))"

lemma chain_set_cur: "(\<And>s. chain (f s) = chain s) \<Longrightarrow> keeps top_chain (set_cur f)"
proof (simp add: set_cur_def, rule keeps_basic(3), simp add: top_chain_def)
  fix st :: xact_state assume "\<And>s. chain (f s) = chain s"
  then show "chain (last (map_head f (transactionStack st))) = chain (last (transactionStack st))"
    by (cases "transactionStack st") auto
qed

lemma chain_RecordTransactionAbort: "keeps top_chain (RecordTransactionAbort b)"
  by (auto simp: keeps_def RecordTransactionAbort_def Let_def ret_def raise_def top_chain_def
      split: option.splits prod.splits bool.splits)

lemma chain_RecordTransactionCommit: "keeps top_chain RecordTransactionCommit"
  by (auto simp: keeps_def RecordTransactionCommit_def Let_def ret_def raise_def ask_def top_chain_def)

lemma chain_childXids: "keeps top_chain AtSubCommit_childXids"
  by (auto simp: keeps_def AtSubCommit_childXids_def Let_def raise_def top_chain_def split: list.splits)

lemma chain_external: "keeps top_chain (external site)"
  by (rule keeps_basic(4)) (simp add: top_chain_def)

lemma chain_modify: "(\<And>st. transactionStack (g st) = transactionStack st) \<Longrightarrow> keeps top_chain (modify g)"
  by (rule keeps_basic(3)) (simp add: top_chain_def)

lemma chain_PopTransaction: "keeps top_chain PopTransaction"
proof -
  have "last (tl xs) = last xs" if "\<not> length xs < 2" for xs :: "TransactionStateData list"
    using that by (cases xs; cases "tl xs") auto
  then show ?thesis
    by (auto simp: keeps_def PopTransaction_def test_def raise_def modify_def top_chain_def split: if_splits)
qed

lemmas chain_rules = keeps_block keeps_basic(1,2) keeps_test keeps_bind chain_set_cur chain_RecordTransactionAbort
  chain_RecordTransactionCommit chain_childXids chain_external chain_modify chain_PopTransaction

lemma chain_CommandCounterIncrement: "keeps top_chain CommandCounterIncrement"
  unfolding CommandCounterIncrement_def by (auto intro!: chain_rules)

lemma chain_operations:
  "keeps top_chain CommitTransaction" "keeps top_chain AbortTransaction" "keeps top_chain CleanupTransaction"
  "keeps top_chain CommitSubTransaction" "keeps top_chain abort_and_cleanup_sub" "keeps top_chain CleanupSubTransaction"
  unfolding CommitTransaction_def AbortTransaction_def CleanupTransaction_def forget_transaction_def EnterParallelMode_def
    ProcArrayEndTransaction_def CommitSubTransaction_def abort_and_cleanup_sub_def CleanupSubTransaction_def
    AbortSubTransaction_def AtSubAbort_childXids_def restore_read_only_def
  by (auto intro!: chain_rules chain_CommandCounterIncrement)

lemma wp_keeps:
  assumes "keeps f m" "wp m Q E st"
  shows "wp m (\<lambda>x st'. f st' = f st \<and> Q x st') (\<lambda>e st'. f st' = f st \<and> E e st') st"
  using assms unfolding wp_def keeps_def by (auto split: prod.splits sum.splits)


lemma wp_with_chain:
  "keeps top_chain m \<Longrightarrow> wp m (\<lambda>x st'. top_chain st' = top_chain st \<longrightarrow> Q x st') E st \<Longrightarrow> wp m Q E st"
  unfolding wp_def keeps_def by (auto split: prod.splits sum.splits)

text \<open>The backward rules, remembering that the flag stays.\<close>

lemma wp_Commit':
  assumes "length (frames st) = 1"
    "\<And>st'. frames st' = forget_frame (frames st) \<Longrightarrow> top_chain st' = top_chain st \<Longrightarrow> Q () st'"
    "\<And>e st' t. is_ERROR e \<Longrightarrow> frames st' = put_state t (frames st) \<Longrightarrow> E e st'"
  shows "wp CommitTransaction Q E st"
  by (rule wp_with_chain [OF chain_operations(1)]) (use assms in \<open>auto intro: wp_Commit\<close>)

lemma wp_CommitSub':
  assumes "2 \<le> length (frames st)"
    "\<And>st'. frames st' = tl (frames st) \<Longrightarrow> top_chain st' = top_chain st \<Longrightarrow> Q () st'"
    "\<And>e st' t. is_ERROR e \<Longrightarrow> frames st' = put_state t (frames st) \<Longrightarrow> E e st'"
  shows "wp CommitSubTransaction Q E st"
  by (rule wp_with_chain [OF chain_operations(4)]) (use assms in \<open>auto intro: wp_CommitSub\<close>)

lemma wp_Abort':
  assumes "frames st \<noteq> []"
    "\<And>st'. frames st' = put_state TRANS_ABORT (frames st) \<Longrightarrow> top_chain st' = top_chain st \<Longrightarrow> Q () st'"
    "\<And>e st'. severe e \<Longrightarrow> E e st'"
  shows "wp AbortTransaction Q E st"
  by (rule wp_with_chain [OF chain_operations(2)]) (use assms in \<open>auto intro: wp_Abort\<close>)

lemma wp_Cleanup':
  assumes "length (frames st) = 1" "fst (snd (hd (frames st))) = TRANS_ABORT"
    "\<And>st'. frames st' = forget_frame (frames st) \<Longrightarrow> top_chain st' = top_chain st \<Longrightarrow> Q () st'"
  shows "wp CleanupTransaction Q E st"
  by (rule wp_with_chain [OF chain_operations(3)]) (use assms in \<open>auto intro: wp_Cleanup\<close>)

lemma wp_abort_and_cleanup':
  assumes "2 \<le> length (frames st)"
    "\<And>st'. frames st' = tl (frames st) \<Longrightarrow> top_chain st' = top_chain st \<Longrightarrow> Q () st'"
    "\<And>e st'. severe e \<Longrightarrow> E e st'"
  shows "wp abort_and_cleanup_sub Q E st"
  by (rule wp_with_chain [OF chain_operations(5)]) (use assms in \<open>auto intro: wp_abort_and_cleanup\<close>)

lemma wp_CleanupSub':
  assumes "2 \<le> length (frames st)"
    "\<And>st'. frames st' = tl (frames st) \<Longrightarrow> top_chain st' = top_chain st \<Longrightarrow> Q () st'"
  shows "wp CleanupSubTransaction Q E st"
  by (rule wp_with_chain [OF chain_operations(6)]) (use assms in \<open>auto intro: wp_CleanupSub\<close>)

lemma wp_set_block':
  assumes "\<And>st'. frames st' = put_block b' (frames st) \<Longrightarrow> top_chain st' = top_chain st \<Longrightarrow> Q () st'"
  shows "wp (set_block b') Q E st"
  by (rule wp_with_chain [OF chain_set_cur]) (use assms in \<open>auto intro: wp_set_block\<close>)

lemmas wp_chain_rules = wp_set_block' wp_Commit' wp_Abort' wp_Cleanup' wp_abort_and_cleanup' wp_CleanupSub' wp_CommitSub'

section \<open>Committing a command\<close>

lemma commit_while_step:
  "wp (commit_subxacts_while b) Q E st \<longleftrightarrow>
     wp CommitSubTransaction (\<lambda>_ st'. if blockState (cur st') = b then wp (commit_subxacts_while b) Q E st' else Q () st') E st"
  by (simp add: wp_def commit_subxacts_while.simps [of b st] split: prod.splits sum.splits)

text \<open>Frames in block state \<open>b\<close> above a stack with \<open>P\<close>.\<close>

fun prefixed :: "TBlockState \<Rightarrow> (frame list \<Rightarrow> bool) \<Rightarrow> frame list \<Rightarrow> bool" where
  "prefixed b P [] = False"
| "prefixed b P [f] = False"
| "prefixed b P ((b', t, nm, n, l) # g # fs) =
     (b' = b \<and> n = int (length fs) + 2 \<and> l = 0 \<and> (if fst g = b then prefixed b P (g # fs) else P (g # fs)))"

lemma prefixed_recoverable:
  "prefixed b P fs \<Longrightarrow> b \<in> marked \<Longrightarrow> (\<And>fs. P fs \<Longrightarrow> recoverable fs) \<Longrightarrow> recoverable (put_state t fs)"
proof (induction b P fs arbitrary: t rule: prefixed.induct)
  case (3 b P b' t' nm n l g fs)
  have "recoverable (g # fs)"
    using 3 by (cases g; cases "fst g = b") (auto dest: 3(1) [where t = "fst (snd g)"])
  then show ?case using 3 by auto
qed simp_all

lemma abort_state_put_state [simp]: "abort_state (put_state t fs) = abort_state fs"
  by (cases fs rule: recoverable.cases) (auto simp: names_def)

lemma names_put_state [simp]: "names (put_state t fs) = names fs" "names (put_block b fs) = names fs"
  by (cases fs rule: recoverable.cases; auto simp: names_def)+

lemma frames_cur: "frames st = f # fs \<Longrightarrow> blockState (cur st) = fst f"
  by (cases f) (auto elim: framesE)

lemma commit_while_frames:
  assumes "prefixed b P (frames st)" "b \<in> marked" "\<And>fs. P fs \<Longrightarrow> recoverable fs"
  shows "wp (commit_subxacts_while b)
    (\<lambda>_ st'. top_chain st' = top_chain st \<and> P (frames st') \<and> frames st' = dropWhile (\<lambda>f. fst f = b) (frames st))
    (\<lambda>e st'. is_ERROR e \<and> recoverable (frames st') \<and> abort_state (frames st') = abort_state (frames st)) st"
  using assms(1)
proof (induction "frames st" arbitrary: st rule: induct_list012)
  case (3 f g fs)
  note fr = 3(3) [symmetric]
  obtain b' t nm n l where f: "f = (b', t, nm, n, l)" by (rule prod_cases5)
  have b: "b' = b" and rest: "if fst g = b then prefixed b P (g # fs) else P (g # fs)"
    using 3(4) fr f by auto
  have err: "recoverable (put_state t' (frames st))" for t'
    using prefixed_recoverable [OF 3(4) assms(2,3)] .
  show ?case
  proof (subst commit_while_step, rule wp_CommitSub')
    show "2 \<le> length (frames st)" using fr by simp
  next
    fix st' assume s: "frames st' = tl (frames st)" and c: "top_chain st' = top_chain st"
    then have g: "frames st' = g # fs" using fr by simp
    show "if blockState (cur st') = b
        then wp (commit_subxacts_while b)
               (\<lambda>_ st'. top_chain st' = top_chain st \<and> P (frames st') \<and> frames st' = dropWhile (\<lambda>f. fst f = b) (frames st))
               (\<lambda>e st'. is_ERROR e \<and> recoverable (frames st') \<and> abort_state (frames st') = abort_state (frames st)) st'
        else top_chain st' = top_chain st \<and> P (frames st') \<and> frames st' = dropWhile (\<lambda>f. fst f = b) (frames st)"
    proof (cases "fst g = b")
      case True
      then have p: "prefixed b P (frames st')" using rest g by simp
      have "wp (commit_subxacts_while b)
               (\<lambda>_ st'. top_chain st' = top_chain st \<and> P (frames st') \<and> frames st' = dropWhile (\<lambda>f. fst f = b) (frames st))
               (\<lambda>e st'. is_ERROR e \<and> recoverable (frames st') \<and> abort_state (frames st') = abort_state (frames st)) st'"
        by (rule wp_mono [OF 3(2) [OF g [symmetric] p]]) (use fr f b g c True assms(2) in auto)
      then show ?thesis using True frames_cur [OF g] by simp
    next
      case False
      then show ?thesis using frames_cur [OF g] fr f b g c rest by simp
    qed
  next
    fix e st' t' assume "is_ERROR e" "frames st' = put_state t' (frames st)"
    then show "is_ERROR e \<and> recoverable (frames st') \<and> abort_state (frames st') = abort_state (frames st)"
      using err by simp
  qed
qed (metis prefixed.simps(1,2))+




text \<open>The stacks a command may be committed with, and what they become.\<close>

fun lone :: "TBlockState set \<Rightarrow> frame list \<Rightarrow> bool" where
  "lone B [(b, t, nm, n, l)] = (nm = None \<and> n = 1 \<and> l = 0 \<and> t = TRANS_INPROGRESS \<and> b \<in> B)"
| "lone B fs = False"

fun pending :: "frame list \<Rightarrow> bool" where
  "pending [] = False"
| "pending [(b, t, nm, n, l)] =
     (nm = None \<and> n = 1 \<and> l = 0
      \<and> (t = TRANS_INPROGRESS \<and> b \<in> {TBLOCK_STARTED, TBLOCK_BEGIN, TBLOCK_INPROGRESS, TBLOCK_IMPLICIT_INPROGRESS,
            TBLOCK_END, TBLOCK_ABORT_PENDING, TBLOCK_PREPARE}
         \<or> t = TRANS_ABORT \<and> b \<in> {TBLOCK_ABORT, TBLOCK_ABORT_END}))"
| "pending ((b, t, nm, n, l) # g # fs) =
     (n = int (length fs) + 2 \<and> l = 0
      \<and> (b = TBLOCK_SUBINPROGRESS \<and> t = TRANS_INPROGRESS \<and> live (g # fs)
         \<or> b = TBLOCK_SUBABORT \<and> t = TRANS_ABORT \<and> live (g # fs)
         \<or> b = TBLOCK_SUBBEGIN \<and> live (g # fs)
         \<or> b = TBLOCK_SUBRELEASE \<and> prefixed TBLOCK_SUBRELEASE live ((b, t, nm, n, l) # g # fs)
         \<or> b = TBLOCK_SUBCOMMIT
             \<and> prefixed TBLOCK_SUBCOMMIT (lone {TBLOCK_END, TBLOCK_PREPARE}) ((b, t, nm, n, l) # g # fs)
         \<or> b \<in> {TBLOCK_SUBABORT_PENDING, TBLOCK_SUBABORT_END}
             \<and> fst g \<in> {TBLOCK_SUBABORT_PENDING, TBLOCK_SUBRESTART, TBLOCK_ABORT_PENDING}
             \<and> pending (g # fs)
         \<or> b \<in> {TBLOCK_SUBRESTART, TBLOCK_SUBABORT_RESTART} \<and> live (g # fs)))"

definition ended :: "bool \<Rightarrow> frame list" where
  "ended c = [if c then (TBLOCK_INPROGRESS, TRANS_INPROGRESS, None, 1, 0)
     else (TBLOCK_DEFAULT, TRANS_DEFAULT, None, 0, 0)]"

lemma ended_False: "ended False = [(TBLOCK_DEFAULT, TRANS_DEFAULT, None, 0, 0)]"
  by (simp add: ended_def)

fun settle :: "bool \<Rightarrow> frame list \<Rightarrow> frame list" where
  "settle c [] = []"
| "settle c ((b, t, nm, n, l) # fs) =
     (if b = TBLOCK_STARTED then ended False
      else if b = TBLOCK_BEGIN then (TBLOCK_INPROGRESS, t, nm, n, l) # fs
      else if b \<in> {TBLOCK_END, TBLOCK_ABORT_END, TBLOCK_ABORT_PENDING} then ended c
      else if b = TBLOCK_PREPARE then ended False
      else if b \<in> {TBLOCK_SUBBEGIN, TBLOCK_SUBRESTART, TBLOCK_SUBABORT_RESTART}
      then (TBLOCK_SUBINPROGRESS, TRANS_INPROGRESS, nm, n, l) # fs
      else if b = TBLOCK_SUBRELEASE then dropWhile (\<lambda>f. fst f = TBLOCK_SUBRELEASE) fs
      else if b = TBLOCK_SUBCOMMIT then ended (c \<and> fst (last fs) = TBLOCK_END)
      else if b \<in> {TBLOCK_SUBABORT_PENDING, TBLOCK_SUBABORT_END} then settle c fs
      else (b, t, nm, n, l) # fs)"

definition failing :: "frame list \<Rightarrow> xact_error \<Rightarrow> xact_state \<Rightarrow> bool" where
  "failing fs e st' \<longleftrightarrow>
     severe e \<or> is_ERROR e \<and> recoverable (frames st') \<and> abort_state (frames st') = abort_state fs"

lemma commit_prologue_frames:
  "frames (snd (commit_prologue st)) = frames st" "top_chain (snd (commit_prologue st)) = top_chain st"
  "transactionStack (snd (commit_prologue st)) = transactionStack st" "cur (snd (commit_prologue st)) = cur st"
  by (auto simp: commit_prologue_def test_def SaveTransactionCharacteristics_def modify_def ret_def frames_def top_chain_def cur_def)

lemma CommitCommand_steps:
  fixes st
  defines "st1 \<equiv> snd (commit_prologue st)"
  shows
  "blockState (cur st) = TBLOCK_STARTED \<Longrightarrow>
     wp CommitTransactionCommand Q E st = wp (block [CommitTransaction, set_block TBLOCK_DEFAULT]) Q E st1"
  "blockState (cur st) = TBLOCK_BEGIN \<Longrightarrow>
     wp CommitTransactionCommand Q E st = wp (set_block TBLOCK_INPROGRESS) Q E st1"
  "blockState (cur st) \<in> {TBLOCK_INPROGRESS, TBLOCK_IMPLICIT_INPROGRESS, TBLOCK_SUBINPROGRESS} \<Longrightarrow>
     wp CommitTransactionCommand Q E st = wp CommandCounterIncrement Q E st1"
  "blockState (cur st) = TBLOCK_END \<Longrightarrow> wp CommitTransactionCommand Q E st = wp finish_commit Q E st1"
  "blockState (cur st) \<in> {TBLOCK_ABORT, TBLOCK_SUBABORT} \<Longrightarrow> wp CommitTransactionCommand Q E st = Q () st1"
  "blockState (cur st) = TBLOCK_ABORT_END \<Longrightarrow> wp CommitTransactionCommand Q E st =
     wp (block [CleanupTransaction, set_block TBLOCK_DEFAULT, start_chained]) Q E st1"
  "blockState (cur st) = TBLOCK_ABORT_PENDING \<Longrightarrow> wp CommitTransactionCommand Q E st =
     wp (block [AbortTransaction, CleanupTransaction, set_block TBLOCK_DEFAULT, start_chained]) Q E st1"
  "blockState (cur st) = TBLOCK_PREPARE \<Longrightarrow> wp CommitTransactionCommand Q E st = wp finish_prepare Q E st1"
  "blockState (cur st) = TBLOCK_SUBBEGIN \<Longrightarrow> wp CommitTransactionCommand Q E st =
     wp (block [StartSubTransaction, set_block TBLOCK_SUBINPROGRESS]) Q E st1"
  "blockState (cur st) = TBLOCK_SUBRELEASE \<Longrightarrow> wp CommitTransactionCommand Q E st =
     wp (commit_subxacts_while TBLOCK_SUBRELEASE) Q E st1"
  "blockState (cur st) = TBLOCK_SUBCOMMIT \<Longrightarrow> wp CommitTransactionCommand Q E st =
     wp (commit_subxacts_while TBLOCK_SUBCOMMIT)
       (\<lambda>_. wp (test (\<lambda>st. blockState (cur st) = TBLOCK_END) finish_commit
                      (test (\<lambda>st. blockState (cur st) = TBLOCK_PREPARE) finish_prepare
                         (raise (ERROR (Elog ''CommitTransactionCommand: unexpected state''))))) Q E) E st1"
  "blockState (cur st) = TBLOCK_SUBABORT_END \<Longrightarrow> wp CommitTransactionCommand Q E st =
     wp CleanupSubTransaction (\<lambda>_. wp CommitTransactionCommand Q E) E st1"
  "blockState (cur st) = TBLOCK_SUBABORT_PENDING \<Longrightarrow> wp CommitTransactionCommand Q E st =
     wp abort_and_cleanup_sub (\<lambda>_. wp CommitTransactionCommand Q E) E st1"
  "blockState (cur st) = TBLOCK_SUBRESTART \<Longrightarrow> wp CommitTransactionCommand Q E st =
     wp (restart_subxact abort_and_cleanup_sub) Q E st1"
  "blockState (cur st) = TBLOCK_SUBABORT_RESTART \<Longrightarrow> wp CommitTransactionCommand Q E st =
     wp (restart_subxact CleanupSubTransaction) Q E st1"
  unfolding st1_def
  by (auto simp: wp_def CommitTransactionCommand.simps [of st] commit_prologue_frames ret_def split: prod.splits sum.splits)


lemma chain_cur: "frames st = [f] \<Longrightarrow> chain (cur st) = top_chain st"
  by (cases f) (auto elim!: framesE simp: top_chain_def)

lemma wp_start_chained:
  assumes "frames st = [(TBLOCK_DEFAULT, TRANS_DEFAULT, None, 0, 0)]"
    "\<And>st'. frames st' = ended (top_chain st) \<Longrightarrow> Q () st'"
    "\<And>e st'. is_ERROR e \<Longrightarrow> frames st' = [(TBLOCK_DEFAULT, TRANS_START, None, 1, 0)] \<Longrightarrow> E e st'"
  shows "wp start_chained Q E st"
  using assms unfolding start_chained_def
  by (auto simp: chain_cur RestoreTransactionCharacteristics_def frames_def view_def ended_def
      intro!: wp_Start wp_set_block wp_set_cur assms(2,3))

lemma wp_finish_commit:
  assumes "frames st = [(b, t, None, n, 0)]" "\<And>st'. frames st' = ended (top_chain st) \<Longrightarrow> Q () st'"
    "\<And>e st' t. is_ERROR e \<Longrightarrow> frames st' = put_state t (frames st) \<Longrightarrow> E e st'"
    "\<And>e st'. is_ERROR e \<Longrightarrow> frames st' = [(TBLOCK_DEFAULT, TRANS_START, None, 1, 0)] \<Longrightarrow> E e st'"
  shows "wp finish_commit Q E st"
  using assms unfolding finish_commit_def
  by (auto intro!: wp_chain_rules wp_start_chained)

lemma wp_finish_abort:
  assumes "frames st = [(b, TRANS_ABORT, None, n, 0)]"
    "\<And>st'. frames st' = ended (top_chain st) \<Longrightarrow> Q () st'"
    "\<And>e st'. is_ERROR e \<Longrightarrow> frames st' = [(TBLOCK_DEFAULT, TRANS_START, None, 1, 0)] \<Longrightarrow> E e st'"
  shows "wp (block [CleanupTransaction, set_block TBLOCK_DEFAULT, start_chained]) Q E st"
  using assms by (auto intro!: wp_chain_rules wp_start_chained)

lemma wp_finish_prepare:
  assumes "frames st = [(b, t, None, n, 0)]" "\<And>st'. idle (frames st') \<Longrightarrow> Q () st'"
    "\<And>e st' t. is_ERROR e \<Longrightarrow> frames st' = put_state t (frames st) \<Longrightarrow> E e st'"
  shows "wp finish_prepare Q E st"
  using assms unfolding finish_prepare_def
  by (auto intro!: wp_Prepare wp_set_block simp: idle_def)

lemma run_frames_hd:
  "run_frames B fs \<Longrightarrow> \<exists>b nm gs. fs = (b, TRANS_INPROGRESS, nm, int (length fs), 0) # gs \<and> (b \<in> B \<or> b = TBLOCK_SUBINPROGRESS)"
  by (cases fs rule: recoverable.cases) auto

lemma wp_set_view:
  assumes "\<And>s. view (f s) = g (view s)" "\<And>st'. frames st' = map_head g (frames st) \<Longrightarrow> Q () st'"
  shows "wp (set_cur f) Q E st"
  by (cases "transactionStack st") (auto simp: set_cur_def frames_def assms(1) intro!: assms(2))

lemma wp_set_name:
  assumes "\<And>st'. frames st' = map_head (\<lambda>(b, t, _, r). (b, t, name, r)) (frames st) \<Longrightarrow> Q () st'"
  shows "wp (set_cur (\<lambda>s. s\<lparr>ts_name := name\<rparr>)) Q E st"
  by (rule wp_set_view [where g = "\<lambda>(b, t, _, r). (b, t, name, r)"]) (use assms in \<open>auto simp: view_def\<close>)

lemma wp_set_name_level:
  assumes "\<And>st'. frames st' = map_head (\<lambda>(b, t, _, n, _). (b, t, name, n, l)) (frames st) \<Longrightarrow> Q () st'"
  shows "wp (set_cur (\<lambda>s. s\<lparr>ts_name := name, savepointLevel := l\<rparr>)) Q E st"
  by (rule wp_set_view [where g = "\<lambda>(b, t, _, n, _). (b, t, name, n, l)"]) (use assms in \<open>auto simp: view_def\<close>)

lemma wp_push_named:
  assumes "run_frames B (frames st)"
    "\<And>st'. frames st' = (TBLOCK_SUBBEGIN, TRANS_DEFAULT, name, int (length (frames st)) + 1, 0) # frames st \<Longrightarrow> Q () st'"
    "\<And>e st'. is_ERROR e \<Longrightarrow> frames st' = frames st \<Longrightarrow> E e st'"
  shows "wp (push_named name) Q E st"
proof -
  obtain b nm gs where fs: "frames st = (b, TRANS_INPROGRESS, nm, int (length (frames st)), 0) # gs"
    using run_frames_hd [OF assms(1)] by blast
  have push: "Q () st'" if "frames st' = map_head (\<lambda>(b, t, _, r). (b, t, name, r)) (frames st1)"
      "frames st1 = (TBLOCK_SUBBEGIN, TRANS_DEFAULT, None, int (length (frames st)) + 1, 0) # frames st" for st' st1
    by (rule assms(2)) (use that in simp)
  show ?thesis using fs
    by (auto simp: push_named_def intro!: wp_Push wp_set_name assms(2,3) push)
qed

lemma wp_DefineSavepoint:
  assumes "live (frames st)"
    "\<And>st'. frames st' = (TBLOCK_SUBBEGIN, TRANS_DEFAULT, name, int (length (frames st)) + 1, 0) # frames st \<Longrightarrow> Q () st'"
    "\<And>e st'. is_ERROR e \<Longrightarrow> frames st' = frames st \<Longrightarrow> E e st'"
  shows "wp (DefineSavepoint name) Q E st"
proof -
  obtain b nm gs where fs: "frames st = (b, TRANS_INPROGRESS, nm, int (length (frames st)), 0) # gs"
     and b: "b = TBLOCK_INPROGRESS \<or> b = TBLOCK_SUBINPROGRESS"
    using run_frames_hd [OF assms(1)] by auto
  have "DefineSavepoint name st = (if IsInParallelMode st then raise parallel_error st else push_named name st)"
    using cur_block [OF fs] b by (auto simp: DefineSavepoint_def)
  moreover have "wp (push_named name) Q E st" by (rule wp_push_named) (use assms in auto)
  moreover have "E parallel_error st" by (rule assms(3)) (simp_all add: parallel_error_def)
  ultimately show ?thesis by (simp add: wp_def raise_def)
qed

lemma wp_restart_subxact:
  assumes "frames st = (b, t, nm, n, l) # g # fs" "live (g # fs)" "l = 0" "n = int (length fs) + 2" and b: "b \<in> marked"
    and cleanup: "\<And>Q' E' st. 2 \<le> length (frames st) \<Longrightarrow> (\<And>st'. frames st' = tl (frames st) \<Longrightarrow> Q' () st')
       \<Longrightarrow> (\<And>e st'. severe e \<Longrightarrow> E' e st') \<Longrightarrow> wp cleanup Q' E' st"
    and Q: "\<And>st'. frames st' = (TBLOCK_SUBINPROGRESS, TRANS_INPROGRESS, nm, n, l) # g # fs \<Longrightarrow> Q () st'"
    and E: "\<And>e st'. failing (frames st) e st' \<Longrightarrow> E e st'"
  shows "wp (restart_subxact cleanup) Q E st"
proof -
  let ?steps = "[set_cur (\<lambda>s. s\<lparr>ts_name := None\<rparr>), cleanup, DefineSavepoint None,
     set_cur (\<lambda>s. s\<lparr>ts_name := nm, savepointLevel := l\<rparr>), StartSubTransaction, set_block TBLOCK_SUBINPROGRESS]"
  have nm: "ts_name (cur st) = nm" "savepointLevel (cur st) = l" using assms(1) by (auto elim: framesE)
  have rec: "recoverable (g # fs)" using assms(2) by (rule live_recoverable)
  have "wp (block ?steps) Q E st"
    unfolding wp_statements
  proof (rule wp_set_name, rule cleanup)
    fix st1 st2 assume "frames st1 = map_head (\<lambda>(b, t, _, r). (b, t, None, r)) (frames st)"
      "frames st2 = tl (frames st1)"
    then have st2: "frames st2 = g # fs" using assms(1) by simp
    show "wp (DefineSavepoint None) (\<lambda>_. wp (set_cur (\<lambda>s. s\<lparr>ts_name := nm, savepointLevel := l\<rparr>))
        (\<lambda>_. wp StartSubTransaction (\<lambda>_. wp (set_block TBLOCK_SUBINPROGRESS) (\<lambda>_. Q ()) E) E) E) E st2"
      by (intro wp_DefineSavepoint wp_set_name_level wp_StartSub wp_set_block Q E)
        (use assms(1-4) b st2 rec in \<open>auto simp: failing_def marked_def\<close>)
  qed (use assms(1) E b in \<open>auto simp: failing_def\<close>)
  moreover have "restart_subxact cleanup st = block ?steps st" by (simp only: restart_subxact_def Let_def nm)
  ultimately show ?thesis by (simp only: wp_def)
qed

lemma prefixed_release: "prefixed TBLOCK_SUBRELEASE live fs \<Longrightarrow> recoverable (put_state t fs)"
  by (rule prefixed_recoverable [of TBLOCK_SUBRELEASE live]) (auto simp: marked_def live_recoverable)

lemma lone_recoverable: "lone {TBLOCK_END, TBLOCK_PREPARE} fs \<Longrightarrow> recoverable fs"
  by (cases fs rule: recoverable.cases) auto

lemma harmless_commit: "frames st \<noteq> [] \<Longrightarrow> (\<And>st'. frames st' = frames st \<Longrightarrow> Q () st') \<Longrightarrow>
   (\<And>e st'. is_ERROR e \<Longrightarrow> frames st' = frames st \<Longrightarrow> E e st') \<Longrightarrow> wp CommandCounterIncrement Q E st"
  by (rule harmlessD [OF harmless_CommandCounterIncrement]) auto

lemma failing_Cons: "failing (g # fs) e st' \<Longrightarrow> fst f \<in> marked \<Longrightarrow> failing (f # g # fs) e st'"
  by (simp add: failing_def)

lemma lone_abort_state: "lone {TBLOCK_END, TBLOCK_PREPARE} fs \<Longrightarrow> abort_state fs = Idle"
  by (cases fs rule: recoverable.cases) auto

lemma abort_state_prefixed: "prefixed TBLOCK_SUBCOMMIT (lone {TBLOCK_END, TBLOCK_PREPARE}) fs \<Longrightarrow> abort_state fs = Idle"
proof (induction fs rule: recoverable.induct)
  case (3 b t nm n l g fs)
  then show ?case by (cases fs; cases g) (auto simp: marked_def split: if_splits)
qed auto

lemma last_dropWhile: "dropWhile P xs = [x] \<Longrightarrow> last xs = x"
  by (induction xs) (auto split: if_splits)

lemma lone_single: "lone B fs \<Longrightarrow> \<exists>x. fs = [x]"
  by (cases fs rule: recoverable.cases) auto

lemma wp_finish:
  assumes "lone {TBLOCK_END, TBLOCK_PREPARE} (frames st)" "\<And>st'. frames st' = ended (top_chain st \<and> fst (hd (frames st)) = TBLOCK_END) \<Longrightarrow> Q () st'"
    "\<And>e st'. failing (frames st) e st' \<Longrightarrow> E e st'"
  shows "wp (test (\<lambda>st. blockState (cur st) = TBLOCK_END) finish_commit
                      (test (\<lambda>st. blockState (cur st) = TBLOCK_PREPARE) finish_prepare (raise e))) Q E st"
proof -
  obtain b where fs: "frames st = [(b, TRANS_INPROGRESS, None, 1, 0)]" and b: "b = TBLOCK_END \<or> b = TBLOCK_PREPARE"
    using assms(1) by (cases "frames st" rule: recoverable.cases) auto
  show ?thesis using b
  proof
    assume "b = TBLOCK_END"
    then show ?thesis using cur_block [OF fs] fs
      by simp (rule wp_finish_commit, auto intro!: assms(2,3) simp: failing_def)
  next
    assume "b = TBLOCK_PREPARE"
    then show ?thesis using cur_block [OF fs] fs
      by simp (rule wp_finish_prepare, auto intro!: assms(2,3) simp: failing_def idle_def ended_def)
  qed
qed

lemma CommitTransactionCommand_settles:
  assumes "pending (frames st)"
  shows "wp CommitTransactionCommand (\<lambda>_ st'. frames st' = settle (top_chain st) (frames st)) (failing (frames st)) st"
  using assms
proof (induction "frames st" arbitrary: st rule: pending.induct)
  case 1
  then show ?case by simp
next
  case (2 b t nm n l)
  note fs = 2(1) [symmetric] and pend = 2(2) and cb = cur_block [OF 2(1) [symmetric]]
  have rec: "recoverable [(b, t', None, 1, 0)]" if "b \<notin> {TBLOCK_ABORT, TBLOCK_ABORT_END}" for t'
    using pend fs that by auto
  show ?case
  proof (cases "t = TRANS_ABORT")
    case True
    then show ?thesis using pend fs cb
      by (auto simp: CommitCommand_steps commit_prologue_frames ended_False failing_def intro!: wp_chain_rules wp_start_chained)
  next
    case False
    consider "b = TBLOCK_STARTED" | "b = TBLOCK_BEGIN" | "b = TBLOCK_INPROGRESS"
      | "b = TBLOCK_END" | "b = TBLOCK_ABORT_PENDING" | "b = TBLOCK_PREPARE" | "b = TBLOCK_IMPLICIT_INPROGRESS"
      using pend fs False by auto
    then show ?thesis
    proof cases
      case 1
      then show ?thesis using pend fs cb False rec
        by (simp add: CommitCommand_steps) (rule wp_Commit; force simp: commit_prologue_frames ended_False failing_def intro!: wp_set_block)
    next
      case 2
      then show ?thesis using pend fs cb False
        by (simp add: CommitCommand_steps) (rule wp_set_block; simp add: commit_prologue_frames)
    next
      case 3
      then show ?thesis using pend fs cb False rec
        by (simp add: CommitCommand_steps)
          (rule harmless_commit; force simp: commit_prologue_frames ended_False failing_def intro: sym)
    next
      case 4
      then show ?thesis using pend fs cb False rec
        by (simp add: CommitCommand_steps) (rule wp_finish_commit; force simp: commit_prologue_frames ended_False failing_def)
    next
      case 5
      then show ?thesis using pend fs cb False rec
        by (simp add: CommitCommand_steps)
          (rule wp_Abort'; force simp: commit_prologue_frames ended_False failing_def intro!: wp_chain_rules wp_start_chained)
    next
      case 6
      then show ?thesis using pend fs cb False rec
        by (simp add: CommitCommand_steps) (rule wp_finish_prepare; force simp: commit_prologue_frames ended_False failing_def idle_def)
    next
      case 7
      then show ?thesis using pend fs cb False rec
        by (simp add: CommitCommand_steps)
          (rule harmless_commit; force simp: commit_prologue_frames ended_False failing_def intro: sym)
    qed
  qed
next
  case (3 b t nm n l g fs)
  note fs = 3(2) [symmetric] and pend = 3(3) and cb = cur_block [OF 3(2) [symmetric]]
  let ?Q = "\<lambda>_ st'. frames st' = settle (top_chain st) (frames st)"
  let ?st = "snd (commit_prologue st)"
  have fs': "frames ?st = (b, t, nm, n, l) # g # fs" using fs by (simp add: commit_prologue_frames)
  let ?G = "\<lambda>_ st'. frames st' = settle (top_chain st) (g # fs)" and ?F = "failing ((b, t, nm, n, l) # g # fs)"
  have rest: "wp CommitTransactionCommand ?G ?F st'"
    if "b \<in> {TBLOCK_SUBABORT_PENDING, TBLOCK_SUBABORT_END}" "frames st' = tl (frames ?st)" "top_chain st' = top_chain ?st" for st'
  proof (rule wp_mono)
    have p: "pending (frames st')" using that(1,2) pend fs fs' by auto
    show "wp CommitTransactionCommand (\<lambda>_ st''. frames st'' = settle (top_chain st') (frames st')) (failing (frames st')) st'"
      by (rule 3(1)) (use that p fs' in simp_all)
  qed (use that fs' in \<open>auto simp: commit_prologue_frames marked_def intro: failing_Cons\<close>)
  consider "b = TBLOCK_SUBINPROGRESS" | "b = TBLOCK_SUBABORT" | "b = TBLOCK_SUBBEGIN" | "b = TBLOCK_SUBRELEASE"
    | "b = TBLOCK_SUBCOMMIT" | "b = TBLOCK_SUBABORT_PENDING" | "b = TBLOCK_SUBABORT_END"
    | "b = TBLOCK_SUBRESTART" | "b = TBLOCK_SUBABORT_RESTART"
    using pend fs by auto
  then show ?case
  proof cases
    case 1
    then show ?thesis using pend fs cb
      by (simp add: CommitCommand_steps) (rule harmless_commit; simp add: commit_prologue_frames failing_def)
  next
    case 2
    then show ?thesis using pend fs cb
      by (simp add: CommitCommand_steps commit_prologue_frames)
  next
    case 3
    then show ?thesis using pend fs cb live_recoverable [of "g # fs"]
      by (simp add: CommitCommand_steps)
         (rule wp_StartSub; force simp: commit_prologue_frames failing_def marked_def intro!: wp_set_block)
  next
    case 4
    then have "prefixed TBLOCK_SUBRELEASE live (frames ?st)" using pend fs fs' by auto
    then have "wp (commit_subxacts_while TBLOCK_SUBRELEASE) ?Q (failing (frames st)) ?st"
      using 4 fs fs' by (intro wp_mono [OF commit_while_frames [OF _ _ live_recoverable]]) (auto simp: failing_def marked_def)
    then show ?thesis using 4 cb by (simp add: CommitCommand_steps)
  next
    case 5
    then have prefixed: "prefixed TBLOCK_SUBCOMMIT (lone {TBLOCK_END, TBLOCK_PREPARE}) (frames ?st)" using pend fs fs' by auto
    then have "wp (commit_subxacts_while TBLOCK_SUBCOMMIT)
       (\<lambda>_. wp (test (\<lambda>st. blockState (cur st) = TBLOCK_END) finish_commit
                      (test (\<lambda>st. blockState (cur st) = TBLOCK_PREPARE) finish_prepare
                         (raise (ERROR (Elog ''CommitTransactionCommand: unexpected state''))))) ?Q (failing (frames st)))
       (failing (frames st)) ?st"
    proof (rule wp_mono [OF commit_while_frames [OF _ _ lone_recoverable]])
      fix st' let ?drop = "dropWhile (\<lambda>f. fst f = TBLOCK_SUBCOMMIT) (frames ?st)"
      assume st': "top_chain st' = top_chain ?st \<and> lone {TBLOCK_END, TBLOCK_PREPARE} (frames st') \<and> frames st' = ?drop"
      then obtain x where x: "frames st' = [x]" using lone_single by blast
      then have "last (frames ?st) = x" using st' by (metis last_dropWhile)
      then have last: "last (g # fs) = x" using fs' by simp
      show "wp (test (\<lambda>st. blockState (cur st) = TBLOCK_END) finish_commit
                      (test (\<lambda>st. blockState (cur st) = TBLOCK_PREPARE) finish_prepare
                         (raise (ERROR (Elog ''CommitTransactionCommand: unexpected state''))))) ?Q (failing (frames st)) st'"
      proof (rule wp_finish)
        show "lone {TBLOCK_END, TBLOCK_PREPARE} (frames st')" using st' by (elim conjE)
        show "frames st'' = settle (top_chain st) (frames st)"
          if "frames st'' = ended (top_chain st' \<and> fst (hd (frames st')) = TBLOCK_END)" for st''
          using that conjunct1 [OF st'] x last 5 fs by (simp del: last.simps add: commit_prologue_frames)
        show "failing (frames st) e st''" if "failing (frames st') e st''" for e st''
          using that lone_abort_state [of "frames st'"] st' abort_state_prefixed [OF prefixed] unfolding failing_def
          by (metis commit_prologue_frames(1))
      qed
    qed (auto simp: failing_def marked_def fs fs')
    then show ?thesis using 5 cb by (simp add: CommitCommand_steps)
  next
    case 6
    have "wp abort_and_cleanup_sub (\<lambda>_. wp CommitTransactionCommand ?G ?F) ?F ?st"
      by (rule wp_abort_and_cleanup'; (rule rest)?; simp add: 6 fs' failing_def)
    then show ?thesis using 6 cb fs by (simp add: CommitCommand_steps)
  next
    case 7
    have "wp CleanupSubTransaction (\<lambda>_. wp CommitTransactionCommand ?G ?F) ?F ?st"
      by (rule wp_CleanupSub'; (rule rest)?; simp add: 7 fs' failing_def)
    then show ?thesis using 7 cb fs by (simp add: CommitCommand_steps)
  next
    case 8
    have "wp (restart_subxact abort_and_cleanup_sub) ?Q (failing (frames st)) ?st"
      by (rule wp_restart_subxact [OF fs'])
        (use 8 pend fs in \<open>auto simp: commit_prologue_frames marked_def intro!: wp_abort_and_cleanup\<close>)
    then show ?thesis using 8 cb by (simp only: CommitCommand_steps)
  next
    case 9
    have "wp (restart_subxact CleanupSubTransaction) ?Q (failing (frames st)) ?st"
      by (rule wp_restart_subxact [OF fs'])
        (use 9 pend fs in \<open>auto simp: commit_prologue_frames marked_def intro!: wp_CleanupSub\<close>)
    then show ?thesis using 9 cb by (simp only: CommitCommand_steps)
  qed
qed

end
