(* ===== verification/XactRequests.thy ===== *)
theory XactRequests
  imports XactCommands
begin

text \<open>
  What the client's requests (BEGIN, COMMIT, PREPARE, ROLLBACK and the savepoint statements) make
  of the stack, and what the stacks they mark will be once the command is committed.
\<close>

section \<open>Marking the stack\<close>

fun remark :: "TBlockState \<Rightarrow> TBlockState \<Rightarrow> frame list \<Rightarrow> frame list" where
  "remark s e [] = []"
| "remark s e [(b, r)] = [(e, r)]"
| "remark s e ((b, r) # g # fs) = (s, r) # remark s e (g # fs)"

lemma view_block [simp]: "view (s\<lparr>blockState := b\<rparr>) = (b, snd (view s))"
  by (simp add: view_def)

lemma live_view_Cons:
  assumes "live (map view (x # y # zs))"
  shows "live (map view (y # zs)) \<and> blockState x = TBLOCK_SUBINPROGRESS"
proof -
  obtain b t nm n l where x: "view x = (b, t, nm, n, l)" by (rule prod_cases5)
  then have "blockState x = b" by (simp add: view_def)
  then show ?thesis using assms x by simp
qed

lemma failed_view_Cons:
  assumes "failed (map view (x # y # zs))"
  shows "live (map view (y # zs)) \<and> blockState x = TBLOCK_SUBABORT"
proof -
  obtain b t nm n l where x: "view x = (b, t, nm, n, l)" by (rule prod_cases5)
  then have "blockState x = b" by (simp add: view_def)
  then show ?thesis using assms x by simp
qed

lemma mark_frames_live:
  assumes "sub TBLOCK_SUBINPROGRESS = Some s" "last_of TBLOCK_INPROGRESS = Some e" "live (map view ss)"
  shows "\<exists>ss'. mark_frames sub last_of ss = (True, ss') \<and> map view ss' = remark s e (map view ss)"
  using assms(3)
proof (induction ss rule: induct_list012)
  case (2 x)
  then show ?case using assms(2) by (auto simp: view_def)
next
  case (3 x y zs)
  have "live (map view (y # zs))" "blockState x = TBLOCK_SUBINPROGRESS" using live_view_Cons [OF 3(3)] by simp_all
  with 3(2) obtain ss' where "mark_frames sub last_of (y # zs) = (True, ss')" "map view ss' = remark s e (map view (y # zs))"
    by blast
  moreover have "remark s e (map view (x # y # zs)) = (s, snd (view x)) # remark s e (map view (y # zs))"
    using remark.simps(3) [of s e "blockState x" "snd (view x)" "view y" "map view zs"] by (simp add: view_def)
  ultimately have "mark_frames sub last_of (x # y # zs) = (True, x\<lparr>blockState := s\<rparr> # ss')"
      "map view (x\<lparr>blockState := s\<rparr> # ss') = remark s e (map view (x # y # zs))"
    using assms(1) \<open>blockState x = _\<close>
    by (simp only: mark_frames.simps option.case prod.case, simp only: list.map view_block)
  then show ?case by blast
qed simp

lemma wp_mark_live:
  assumes "live (frames st)" "sub TBLOCK_SUBINPROGRESS = Some s" "last_of TBLOCK_INPROGRESS = Some e"
    "\<And>st'. frames st' = remark s e (frames st) \<Longrightarrow> Q () st'"
  shows "wp (mark_stack sub last_of) Q E st"
proof -
  obtain ss' where "mark_frames sub last_of (transactionStack st) = (True, ss')" "map view ss' = remark s e (frames st)"
    using mark_frames_live [of sub s last_of e "transactionStack st"] assms(1-3) by (auto simp: frames_def)
  then show ?thesis by (auto simp: wp_def mark_stack_def ret_def frames_def intro: assms(4))
qed

lemma wp_mark_failed:
  assumes "failed (frames st)" "2 \<le> length (frames st)"
    "\<And>st'. frames st' = (TBLOCK_SUBABORT_END, snd (hd (frames st))) # remark TBLOCK_SUBABORT_PENDING TBLOCK_ABORT_PENDING (tl (frames st)) \<Longrightarrow> Q () st'"
  shows "wp (mark_stack subabort_mark abort_mark) Q E st"
proof -
  obtain x y zs where ss: "transactionStack st = x # y # zs"
    using assms(2) by (cases "transactionStack st" rule: remdups_adj.cases) (auto simp: frames_def)
  then have l: "live (map view (y # zs))" and x: "blockState x = TBLOCK_SUBABORT"
    using failed_view_Cons [of x y zs] assms(1) by (simp_all add: frames_def)
  obtain ss' where "mark_frames subabort_mark abort_mark (y # zs) = (True, ss')"
      "map view ss' = remark TBLOCK_SUBABORT_PENDING TBLOCK_ABORT_PENDING (map view (y # zs))"
    using mark_frames_live [of subabort_mark TBLOCK_SUBABORT_PENDING abort_mark TBLOCK_ABORT_PENDING "y # zs"] l by auto
  then show ?thesis using ss x by (auto simp: wp_def mark_stack_def ret_def frames_def intro!: assms(3))
qed

lemma wp_set_chain:
  assumes "frames st \<noteq> []" "\<And>st'. frames st' = frames st \<Longrightarrow> top_chain st' = c \<Longrightarrow> Q () st'"
  shows "wp (set_chain c) Q E st"
proof -
  let ?st = "st\<lparr>transactionStack := butlast (transactionStack st) @ [(last (transactionStack st))\<lparr>chain := c\<rparr>]\<rparr>"
  have "frames ?st = frames st"
    using map_view_butlast [of "\<lambda>s. s\<lparr>chain := c\<rparr>" "transactionStack st"] assms(1) by (simp add: frames_def view_def)
  then show ?thesis by (simp add: set_chain_def top_chain_def assms(2))
qed

text \<open>What the marked stacks settle to.\<close>

lemma remark_facts [simp]:
  "remark s e fs = [] \<longleftrightarrow> fs = []" "[] = remark s e fs \<longleftrightarrow> fs = []" "length (remark s e fs) = length fs"
  "fs \<noteq> [] \<Longrightarrow> remark s e ((b, r) # fs) = (s, r) # remark s e fs"
  by (induction s e fs rule: remark.induct; (cases fs)?; simp)+

lemma remark_hd: "fs \<noteq> [] \<Longrightarrow> fst (hd (remark s e fs)) \<in> {s, e}"
  by (induction s e fs rule: remark.induct) auto

lemma names_Cons' [simp]: "fs \<noteq> [] \<Longrightarrow> names ((b, t, nm, n, l) # fs) = nm # names fs"
  by (cases fs) simp_all

lemma marked_members [simp]:
  "TBLOCK_SUBBEGIN \<in> marked" "TBLOCK_SUBRELEASE \<in> marked" "TBLOCK_SUBCOMMIT \<in> marked"
  "TBLOCK_SUBABORT_PENDING \<in> marked" "TBLOCK_SUBRESTART \<in> marked" "TBLOCK_SUBABORT_END \<in> marked"
  "TBLOCK_SUBABORT_RESTART \<in> marked" "TBLOCK_SUBINPROGRESS \<notin> marked" "TBLOCK_SUBABORT \<notin> marked"
  by (simp_all add: marked_def)

lemma abort_state_Cons [simp]:
  "fs \<noteq> [] \<Longrightarrow> fst f \<in> marked \<Longrightarrow> abort_state (f # fs) = abort_state fs"
  by (cases fs) auto

lemma live_abort_state: "live fs \<Longrightarrow> abort_state fs = Failed (names fs)"
  by (cases fs rule: recoverable.cases) (auto simp: marked_def)

lemma names_remark [simp]: "names (remark s e fs) = names fs"
proof (induction s e fs rule: remark.induct)
  case (3 s e b r g fs)
  then show ?case by (cases r) simp
qed (simp_all add: names_def)

lemma pending_Cons_abort:
  "pending fs \<Longrightarrow> fst (hd fs) \<in> {TBLOCK_SUBABORT_PENDING, TBLOCK_SUBRESTART, TBLOCK_ABORT_PENDING}
    \<Longrightarrow> b \<in> {TBLOCK_SUBABORT_PENDING, TBLOCK_SUBABORT_END} \<Longrightarrow> pending ((b, t, nm, int (length fs) + 1, 0) # fs)"
  by (cases fs) auto

lemma remark_abort:
  assumes "live fs"
  shows "pending (remark TBLOCK_SUBABORT_PENDING TBLOCK_ABORT_PENDING fs)
    \<and> settle c (remark TBLOCK_SUBABORT_PENDING TBLOCK_ABORT_PENDING fs) = ended c
    \<and> fst (hd (remark TBLOCK_SUBABORT_PENDING TBLOCK_ABORT_PENDING fs)) \<in> {TBLOCK_SUBABORT_PENDING, TBLOCK_ABORT_PENDING}
    \<and> abort_state (remark TBLOCK_SUBABORT_PENDING TBLOCK_ABORT_PENDING fs) = Idle"
  using assms
proof (induction fs rule: recoverable.induct)
  case (3 b t nm n l g fs)
  then have IH: "live (g # fs)" "n = int (length (remark TBLOCK_SUBABORT_PENDING TBLOCK_ABORT_PENDING (g # fs))) + 1" "l = 0" by auto
  let ?gs = "remark TBLOCK_SUBABORT_PENDING TBLOCK_ABORT_PENDING (g # fs)"
  have "pending ((TBLOCK_SUBABORT_PENDING, t, nm, int (length ?gs) + 1, 0) # ?gs)"
    by (rule pending_Cons_abort) (use 3(1) IH(1) in auto)
  then show ?case using 3(1) IH by simp
qed auto

lemma lone_prefixed:
  assumes "live fs" "2 \<le> length fs" "e \<in> {TBLOCK_END, TBLOCK_PREPARE}"
  shows "prefixed TBLOCK_SUBCOMMIT (lone {TBLOCK_END, TBLOCK_PREPARE}) (remark TBLOCK_SUBCOMMIT e fs)
    \<and> fst (hd (remark TBLOCK_SUBCOMMIT e fs)) = TBLOCK_SUBCOMMIT \<and> fst (last (remark TBLOCK_SUBCOMMIT e fs)) = e"
  using assms
proof (induction fs rule: induct_list012)
  case (3 x y zs)
  obtain b t nm n l where x: "x = (b, t, nm, n, l)" by (rule prod_cases5)
  obtain b' t' nm' n' l' where y: "y = (b', t', nm', n', l')" by (rule prod_cases5)
  show ?case
  proof (cases zs)
    case Nil
    then show ?thesis using 3 x y by auto
  next
    case (Cons z zs')
    then show ?thesis using 3 x y by (cases "remark TBLOCK_SUBCOMMIT e zs") (auto)
  qed
qed auto

lemma remark_commit:
  assumes "live fs" "e \<in> {TBLOCK_END, TBLOCK_PREPARE}"
  shows "pending (remark TBLOCK_SUBCOMMIT e fs) \<and> settle c (remark TBLOCK_SUBCOMMIT e fs) = ended (c \<and> e = TBLOCK_END)
    \<and> abort_state (remark TBLOCK_SUBCOMMIT e fs) = Idle"
proof (cases "2 \<le> length fs")
  case True
  then obtain b t nm n l g gs where fs: "remark TBLOCK_SUBCOMMIT e fs = (b, t, nm, n, l) # g # gs"
    by (cases "remark TBLOCK_SUBCOMMIT e fs" rule: recoverable.cases) (auto dest: arg_cong [of _ _ length])
  then show ?thesis
    using lone_prefixed [OF assms(1) True assms(2)] abort_state_prefixed [of "remark TBLOCK_SUBCOMMIT e fs"]
    by (auto simp del: abort_state.simps)
next
  case False
  then show ?thesis using assms by (cases fs rule: recoverable.cases) auto
qed


section \<open>The requests\<close>

text \<open>The stacks a statement runs on.\<close>

definition ready :: "frame list \<Rightarrow> bool" where
  "ready fs \<longleftrightarrow> lone {TBLOCK_STARTED, TBLOCK_IMPLICIT_INPROGRESS} fs \<or> live fs \<or> failed fs"

lemma ready_cases [consumes 1, case_names started implicit live failed_top failed_sub]:
  assumes "ready fs"
  obtains "fs = [(TBLOCK_STARTED, TRANS_INPROGRESS, None, 1, 0)]"
  | "fs = [(TBLOCK_IMPLICIT_INPROGRESS, TRANS_INPROGRESS, None, 1, 0)]"
  | "live fs"
  | "fs = [(TBLOCK_ABORT, TRANS_ABORT, None, 1, 0)]"
  | nm gs where "fs = (TBLOCK_SUBABORT, TRANS_ABORT, nm, int (length gs) + 1, 0) # gs" "live gs"
  using assms unfolding ready_def by (cases fs rule: recoverable.cases) auto

lemma Cons_live:
  assumes "live gs"
  shows "failed ((TBLOCK_SUBABORT, TRANS_ABORT, nm, int (length gs) + 1, 0) # gs)"
    "live ((TBLOCK_SUBINPROGRESS, TRANS_INPROGRESS, nm, int (length gs) + 1, 0) # gs)"
    "pending ((TBLOCK_SUBBEGIN, t, nm, int (length gs) + 1, 0) # gs)"
  using assms by (cases gs; auto)+

lemma live_top_or_sub:
  assumes "live fs"
  obtains "fs = [(TBLOCK_INPROGRESS, TRANS_INPROGRESS, None, 1, 0)]"
  | nm gs where "fs = (TBLOCK_SUBINPROGRESS, TRANS_INPROGRESS, nm, int (length gs) + 1, 0) # gs" "live gs"
  using assms by (cases fs rule: recoverable.cases) auto

definition abort_marks :: "frame list \<Rightarrow> frame list" where
  "abort_marks fs =
     (if fst (hd fs) = TBLOCK_ABORT then put_block TBLOCK_ABORT_END fs
      else if fst (hd fs) = TBLOCK_SUBABORT
      then put_block TBLOCK_SUBABORT_END [hd fs] @ remark TBLOCK_SUBABORT_PENDING TBLOCK_ABORT_PENDING (tl fs)
      else remark TBLOCK_SUBABORT_PENDING TBLOCK_ABORT_PENDING fs)"

definition end_marks :: "TBlockState \<Rightarrow> frame list \<Rightarrow> frame list" where
  "end_marks e fs =
     (if fst (hd fs) = TBLOCK_STARTED then fs
      else if fst (hd fs) \<in> {TBLOCK_ABORT, TBLOCK_SUBABORT} then abort_marks fs
      else remark TBLOCK_SUBCOMMIT e fs)"

lemma abort_marks_settle:
  assumes "ready fs"
  shows "pending (abort_marks fs) \<and> settle c (abort_marks fs) = ended c \<and> abort_state (abort_marks fs) = Idle"
  using assms
proof (cases rule: ready_cases)
  case live
  then show ?thesis using remark_abort [OF live] by (cases rule: live_top_or_sub) (auto simp: abort_marks_def)
next
  case (failed_sub nm gs)
  have "gs \<noteq> []" using failed_sub(2) by auto
  then show ?thesis using failed_sub(1) remark_abort [OF failed_sub(2)]
      pending_Cons_abort [of "remark TBLOCK_SUBABORT_PENDING TBLOCK_ABORT_PENDING gs" TBLOCK_SUBABORT_END TRANS_ABORT nm]
    by (auto simp: abort_marks_def)
qed (auto simp: abort_marks_def)

lemma end_marks_settle:
  assumes "ready fs" "e \<in> {TBLOCK_END, TBLOCK_PREPARE}" "fst (hd fs) = TBLOCK_STARTED \<or> e = TBLOCK_PREPARE \<longrightarrow> \<not> c"
  shows "pending (end_marks e fs) \<and> settle c (end_marks e fs) = ended c \<and> abort_state (end_marks e fs) = Idle"
  using assms(1)
proof (cases rule: ready_cases)
  case live
  then show ?thesis using remark_commit [OF live assms(2), of c] assms(2,3)
    by (cases rule: live_top_or_sub) (auto simp: end_marks_def)
next
  case (failed_sub nm gs)
  then show ?thesis using abort_marks_settle [OF assms(1)] assms(2) by (auto simp: end_marks_def)
qed (use assms(2,3) in \<open>auto simp: end_marks_def abort_marks_def\<close>)

lemma ready_ne: "ready fs \<Longrightarrow> fs \<noteq> []"
  by (cases rule: ready_cases) auto

lemma remark_single: "remark s e [f] = put_block e [f]"
  by (cases f) simp

lemma wp_then_return: "wp (then_return m x) Q E st \<longleftrightarrow> wp m (\<lambda>_. Q x) E st"
  unfolding then_return_def wp_xbind wp_simps ..

lemma EndTransactionBlock_steps:
  "blockState (cur st) = TBLOCK_INPROGRESS \<Longrightarrow>
     wp (EndTransactionBlock c) Q E st = wp (block [set_block TBLOCK_END, set_chain c]) (\<lambda>_. Q True) E st"
  "blockState (cur st) = TBLOCK_IMPLICIT_INPROGRESS \<Longrightarrow> wp (EndTransactionBlock c) Q E st =
     wp (block [only_if (\<lambda>_. c) (raise no_active_transaction), set_block TBLOCK_END, set_chain c]) (\<lambda>_. Q True) E st"
  "blockState (cur st) = TBLOCK_ABORT \<Longrightarrow>
     wp (EndTransactionBlock c) Q E st = wp (block [set_block TBLOCK_ABORT_END, set_chain c]) (\<lambda>_. Q False) E st"
  "blockState (cur st) = TBLOCK_SUBINPROGRESS \<Longrightarrow>
     wp (EndTransactionBlock c) Q E st = wp (block [mark_stack subcommit_mark end_mark, set_chain c]) (\<lambda>_. Q True) E st"
  "blockState (cur st) = TBLOCK_SUBABORT \<Longrightarrow>
     wp (EndTransactionBlock c) Q E st = wp (block [mark_stack subabort_mark abort_mark, set_chain c]) (\<lambda>_. Q False) E st"
  "blockState (cur st) = TBLOCK_STARTED \<Longrightarrow> wp (EndTransactionBlock c) Q E st =
     wp (block [only_if (\<lambda>_. c) (raise no_active_transaction), set_chain c]) (\<lambda>_. Q True) E st"
  unfolding wp_then_return [symmetric] by (simp_all add: wp_def EndTransactionBlock_def)

lemma wp_EndTransactionBlock:
  assumes "ready (frames st)"
    and Q: "\<And>r st'. frames st' = end_marks TBLOCK_END (frames st) \<Longrightarrow> top_chain st' = c \<Longrightarrow>
       (fst (hd (frames st)) \<in> {TBLOCK_STARTED, TBLOCK_IMPLICIT_INPROGRESS} \<longrightarrow> \<not> c) \<Longrightarrow> r = (\<not> failed (frames st)) \<Longrightarrow> Q r st'"
    and E: "\<And>e. is_ERROR e \<Longrightarrow> E e st"
  shows "wp (EndTransactionBlock c) Q E st"
  using assms(1)
proof (cases rule: ready_cases)
  case started
  note cb = cur_block [OF started]
  show ?thesis
      using cb
    by (auto simp: EndTransactionBlock_steps started no_active_transaction_def end_marks_def intro!: wp_set_chain Q E)
next
  case implicit
  note cb = cur_block [OF implicit]
  show ?thesis
      using cb
    by (auto simp: EndTransactionBlock_steps implicit no_active_transaction_def end_marks_def intro!: wp_set_block wp_set_chain Q E)
next
  case failed_top
  note cb = cur_block [OF failed_top]
  show ?thesis
      using cb
    by (auto simp: EndTransactionBlock_steps failed_top end_marks_def abort_marks_def intro!: wp_set_block wp_set_chain Q E)
next
  case (failed_sub nm gs)
  note cb = cur_block [OF failed_sub(1)]
  have f: "failed (frames st)" "gs \<noteq> []" using failed_sub by (cases gs; auto)+
  show ?thesis
      using cb f failed_sub
    by (auto simp: EndTransactionBlock_steps end_marks_def abort_marks_def Suc_le_eq intro!: wp_mark_failed wp_set_chain Q E)
next
  case live
  then show ?thesis
  proof (cases rule: live_top_or_sub)
    case 1
    note cb = cur_block [OF 1]
    show ?thesis
      using cb
      by (auto simp: EndTransactionBlock_steps 1 end_marks_def intro!: wp_set_block wp_set_chain Q E)
  next
    case (2 nm gs)
    note cb = cur_block [OF 2(1)]
    have "\<not> failed (frames st)" "frames st \<noteq> []" using 2 by (cases gs; auto)+
    then show ?thesis
      using cb 2 live
      by (auto simp: EndTransactionBlock_steps end_marks_def intro!: wp_mark_live [OF live] wp_set_chain Q E)
  qed
qed


lemma UserAbortTransactionBlock_steps:
  "blockState (cur st) = TBLOCK_INPROGRESS \<Longrightarrow>
     wp (UserAbortTransactionBlock c) Q E st = wp (block [set_block TBLOCK_ABORT_PENDING, set_chain c]) Q E st"
  "blockState (cur st) = TBLOCK_ABORT \<Longrightarrow>
     wp (UserAbortTransactionBlock c) Q E st = wp (block [set_block TBLOCK_ABORT_END, set_chain c]) Q E st"
  "blockState (cur st) \<in> {TBLOCK_SUBINPROGRESS, TBLOCK_SUBABORT} \<Longrightarrow> wp (UserAbortTransactionBlock c) Q E st =
     wp (block [mark_stack subabort_mark abort_mark, set_chain c]) Q E st"
  "blockState (cur st) \<in> {TBLOCK_STARTED, TBLOCK_IMPLICIT_INPROGRESS} \<Longrightarrow> wp (UserAbortTransactionBlock c) Q E st =
     wp (block [only_if (\<lambda>_. c) (raise no_active_transaction), set_block TBLOCK_ABORT_PENDING, set_chain c]) Q E st"
  by (auto simp: wp_def UserAbortTransactionBlock_def)

lemma wp_UserAbortTransactionBlock:
  assumes "ready (frames st)"
    and Q: "\<And>st'. frames st' = abort_marks (frames st) \<Longrightarrow> top_chain st' = c \<Longrightarrow>
       (fst (hd (frames st)) \<in> {TBLOCK_STARTED, TBLOCK_IMPLICIT_INPROGRESS} \<longrightarrow> \<not> c) \<Longrightarrow> Q () st'"
    and E: "\<And>e. is_ERROR e \<Longrightarrow> E e st"
  shows "wp (UserAbortTransactionBlock c) Q E st"
  using assms(1)
proof (cases rule: ready_cases)
  case started
  then show ?thesis using cur_block [OF started]
    by (auto simp: UserAbortTransactionBlock_steps no_active_transaction_def abort_marks_def intro!: wp_set_block wp_set_chain Q E)
next
  case implicit
  then show ?thesis using cur_block [OF implicit]
    by (auto simp: UserAbortTransactionBlock_steps no_active_transaction_def abort_marks_def intro!: wp_set_block wp_set_chain Q E)
next
  case failed_top
  then show ?thesis using cur_block [OF failed_top]
    by (auto simp: UserAbortTransactionBlock_steps abort_marks_def intro!: wp_set_block wp_set_chain Q E)
next
  case (failed_sub nm gs)
  have "failed (frames st)" "gs \<noteq> []" using failed_sub by (cases gs; auto)+
  then show ?thesis using cur_block [OF failed_sub(1)] failed_sub
    by (auto simp: UserAbortTransactionBlock_steps abort_marks_def Suc_le_eq intro!: wp_mark_failed wp_set_chain Q E)
next
  case live
  then show ?thesis
  proof (cases rule: live_top_or_sub)
    case 1
    then show ?thesis using cur_block [OF 1]
      by (auto simp: UserAbortTransactionBlock_steps abort_marks_def intro!: wp_set_block wp_set_chain Q E)
  next
    case (2 nm gs)
    have "gs \<noteq> []" using 2 by auto
    then show ?thesis using cur_block [OF 2(1)] 2 live
      by (auto simp: UserAbortTransactionBlock_steps abort_marks_def intro!: wp_mark_live [OF live] wp_set_chain Q E)
  qed
qed

definition begin_marks :: "frame list \<Rightarrow> frame list" where
  "begin_marks fs =
     (if fst (hd fs) \<in> {TBLOCK_STARTED, TBLOCK_IMPLICIT_INPROGRESS} then put_block TBLOCK_BEGIN fs else fs)"

lemma wp_BeginTransactionBlock:
  assumes "ready (frames st)" "\<And>st'. frames st' = begin_marks (frames st) \<Longrightarrow> Q () st'"
  shows "wp BeginTransactionBlock Q E st"
proof -
  have "wp BeginTransactionBlock Q E st = wp (set_block TBLOCK_BEGIN) Q E st"
    if "blockState (cur st) \<in> {TBLOCK_STARTED, TBLOCK_IMPLICIT_INPROGRESS}"
    using that by (auto simp: wp_def BeginTransactionBlock_def)
  moreover have "wp BeginTransactionBlock Q E st = Q () st"
    if "blockState (cur st) \<in> {TBLOCK_INPROGRESS, TBLOCK_SUBINPROGRESS, TBLOCK_ABORT, TBLOCK_SUBABORT}"
    using that by (auto simp: wp_def BeginTransactionBlock_def ret_def)
  moreover have "blockState (cur st) = fst (hd (frames st))" using ready_ne [OF assms(1)] frames_cur by (cases "frames st") auto
  moreover have "fst (hd (frames st)) \<in> {TBLOCK_STARTED, TBLOCK_IMPLICIT_INPROGRESS, TBLOCK_INPROGRESS,
      TBLOCK_SUBINPROGRESS, TBLOCK_ABORT, TBLOCK_SUBABORT}"
    using assms(1) by (cases rule: ready_cases) (auto elim: live_top_or_sub)
  ultimately show ?thesis using assms(2) by (auto simp: begin_marks_def intro!: wp_set_block)
qed

lemma remark_again:
  "map view ss = remark s e fs \<Longrightarrow> fs \<noteq> [] \<Longrightarrow>
     map view (butlast ss @ [(last ss)\<lparr>blockState := b\<rparr>]) = remark s b fs"
proof (induction ss arbitrary: fs rule: induct_list012)
  case (2 x)
  then show ?case by (cases fs rule: recoverable.cases) auto
next
  case (3 x y zs)
  then obtain f g gs where fs: "fs = f # g # gs" by (cases fs rule: remdups_adj.cases) (auto dest: arg_cong [of _ _ length])
  have "map view (y # zs) = remark s e (g # gs)" using 3(3) fs by (cases f) simp
  from 3(2) [OF this] show ?case using 3(3) fs by (cases f) auto
qed auto

lemma last_remark: "fs \<noteq> [] \<Longrightarrow> fst (last (remark s e fs)) = e"
  by (induction s e fs rule: remark.induct) auto

lemma last_frames: "frames st \<noteq> [] \<Longrightarrow> blockState (last (transactionStack st)) = fst (last (frames st))"
  by (simp add: frames_def last_map view_def)

lemma wp_PrepareTransactionBlock:
  assumes "ready (frames st)"
    and Q: "\<And>r st'. frames st' = end_marks TBLOCK_PREPARE (frames st) \<Longrightarrow> \<not> top_chain st' \<Longrightarrow> Q r st'"
    and E: "\<And>e. is_ERROR e \<Longrightarrow> E e st"
  shows "wp (PrepareTransactionBlock gid) Q E st"
proof -
  let ?k = "\<lambda>result.
       if result
       then test (\<lambda>st. blockState (last (transactionStack st)) = TBLOCK_END)
              (then_return (modify (\<lambda>st. st\<lparr>prepareGID := Some gid,
                 transactionStack := butlast (transactionStack st)
                   @ [(last (transactionStack st))\<lparr>blockState := TBLOCK_PREPARE\<rparr>]\<rparr>)) True)
              (ret False)
       else ret False"
  have "wp (EndTransactionBlock False) (\<lambda>r. wp (?k r) Q E) E st"
  proof (rule wp_EndTransactionBlock)
    fix r st' assume st': "frames st' = end_marks TBLOCK_END (frames st)" "top_chain st' = False" "r = (\<not> failed (frames st))"
    have ne: "frames st' \<noteq> []"
      using st'(1) ready_ne [OF assms(1)] by (cases "frames st"; cases "fst (hd (frames st))") (auto simp: end_marks_def abort_marks_def)
    show "wp (?k r) Q E st'"
    proof (cases "failed (frames st)")
      case True
      then have "end_marks TBLOCK_END (frames st) = end_marks TBLOCK_PREPARE (frames st)"
        by (cases "frames st" rule: recoverable.cases) (auto simp: end_marks_def)
      then show ?thesis using True st' by (auto intro: Q)
    next
      case False
      consider "frames st = [(TBLOCK_STARTED, TRANS_INPROGRESS, None, 1, 0)]"
        | "end_marks TBLOCK_END (frames st) = remark TBLOCK_SUBCOMMIT TBLOCK_END (frames st)"
          "end_marks TBLOCK_PREPARE (frames st) = remark TBLOCK_SUBCOMMIT TBLOCK_PREPARE (frames st)"
        using assms(1) False
        by (cases rule: ready_cases) (auto simp: end_marks_def Cons_live elim: live_top_or_sub)
      then show ?thesis
      proof cases
        case 1
        then show ?thesis using st' False last_frames [OF ne] by (auto simp: end_marks_def intro: Q)
      next
        case 2
        have "map view (butlast (transactionStack st') @ [(last (transactionStack st'))\<lparr>blockState := TBLOCK_PREPARE\<rparr>])
            = remark TBLOCK_SUBCOMMIT TBLOCK_PREPARE (frames st)"
          using st'(1) 2 ready_ne [OF assms(1)] by (intro remark_again) (auto simp: frames_def)
        moreover have "blockState (last (transactionStack st')) = TBLOCK_END"
          using last_frames [OF ne] st'(1) 2 last_remark [OF ready_ne [OF assms(1)]] by simp
        ultimately show ?thesis using st' False 2
          by (auto simp: wp_then_return top_chain_def frames_def intro!: Q)
      qed
    qed
  qed (use assms(1) E in auto)
  then show ?thesis by (simp add: PrepareTransactionBlock_def)
qed


section \<open>Savepoints\<close>

abbreviation from_name :: "string \<Rightarrow> string option list \<Rightarrow> string option list" where
  "from_name name \<equiv> dropWhile (\<lambda>nm. nm \<noteq> Some name)"

lemma view_parts: "view x = (b, t, nm, n, l) \<Longrightarrow>
    blockState x = b \<and> ts_state x = t \<and> ts_name x = nm \<and> nestingLevel x = n \<and> savepointLevel x = l"
  by (simp add: view_def)

lemma live_sub_cases:
  assumes "live (map view (x # y # zs))"
  obtains nm where "view x = (TBLOCK_SUBINPROGRESS, TRANS_INPROGRESS, nm, int (length zs) + 2, 0)"
    "live (map view (y # zs))" "names (map view (x # y # zs)) = nm # names (map view (y # zs))"
proof -
  obtain b t nm n l where x: "view x = (b, t, nm, n, l)" by (rule prod_cases5)
  then show ?thesis using assms that by simp
qed

lemma live_head: "live (f # fs) \<Longrightarrow> fst f \<in> {TBLOCK_INPROGRESS, TBLOCK_SUBINPROGRESS}"
  by (erule live_top_or_sub) auto

lemma prefixed_abort_state:
  "prefixed TBLOCK_SUBRELEASE live fs \<Longrightarrow>
     abort_state fs = Failed (names (dropWhile (\<lambda>f. fst f = TBLOCK_SUBRELEASE) fs))"
proof (induction fs rule: recoverable.induct)
  case (3 b t nm n l g fs)
  then have b: "b = TBLOCK_SUBRELEASE" by simp
  show ?case
  proof (cases "fst g = TBLOCK_SUBRELEASE")
    case True
    then show ?thesis using 3 b by simp
  next
    case False
    then have "live (g # fs)" using 3(2) b by simp
    then show ?thesis using False b live_abort_state by simp
  qed
qed auto

lemma prefixed_pending:
  "prefixed TBLOCK_SUBRELEASE live fs \<Longrightarrow> pending fs \<and> settle c fs = dropWhile (\<lambda>f. fst f = TBLOCK_SUBRELEASE) fs"
  by (cases fs rule: recoverable.cases) auto

lemma length_release_frames [simp]: "length (release_frames k ss) = length ss"
  by (induction k ss rule: release_frames.induct) auto

lemma find_savepoint_None:
  assumes "live (map view ss) \<or> failed (map view ss)" "Some name \<notin> set (names (map view ss))"
  shows "find_savepoint name ss = None"
  using assms
proof (induction ss rule: induct_list012)
  case (2 x)
  obtain b t nm n l where x: "view x = (b, t, nm, n, l)" by (rule prod_cases5)
  then show ?case using 2 view_parts [OF x] by auto
next
  case (3 x y zs)
  obtain b t nm n l where x: "view x = (b, t, nm, n, l)" by (rule prod_cases5)
  then show ?case using 3 view_parts [OF x] by auto
qed simp

lemma release_frames_live:
  assumes "live (map view ss)" "Some name \<in> set (names (map view ss))"
  shows "\<exists>k. find_savepoint name ss = Some k \<and> savepointLevel (ss ! k) = 0
    \<and> prefixed TBLOCK_SUBRELEASE live (map view (release_frames k ss))
    \<and> live (dropWhile (\<lambda>f. fst f = TBLOCK_SUBRELEASE) (map view (release_frames k ss)))
    \<and> names (dropWhile (\<lambda>f. fst f = TBLOCK_SUBRELEASE) (map view (release_frames k ss))) = tl (from_name name (names (map view ss)))
    \<and> fst (hd (map view (release_frames k ss))) = TBLOCK_SUBRELEASE"
  using assms
proof (induction ss rule: induct_list012)
  case (3 x y zs)
  obtain nm where x: "view x = (TBLOCK_SUBINPROGRESS, TRANS_INPROGRESS, nm, int (length zs) + 2, 0)"
      and l: "live (map view (y # zs))" and nms: "names (map view (x # y # zs)) = nm # names (map view (y # zs))"
    using live_sub_cases [OF 3(3)] .
  note vx = view_parts [OF x]
  show ?case
  proof (cases "nm = Some name")
    case True
    show ?thesis
      by (rule exI [of _ 0]) (use True vx x l nms live_head [of "view y" "map view zs"] in \<open>auto\<close>)
  next
    case False
    then have "Some name \<in> set (names (map view (y # zs)))" using 3(4) nms by simp
    then obtain k where k: "find_savepoint name (y # zs) = Some k" "savepointLevel ((y # zs) ! k) = 0"
       "prefixed TBLOCK_SUBRELEASE live (map view (release_frames k (y # zs)))"
       "live (dropWhile (\<lambda>f. fst f = TBLOCK_SUBRELEASE) (map view (release_frames k (y # zs))))"
       "names (dropWhile (\<lambda>f. fst f = TBLOCK_SUBRELEASE) (map view (release_frames k (y # zs)))) = tl (from_name name (names (map view (y # zs))))"
       "fst (hd (map view (release_frames k (y # zs)))) = TBLOCK_SUBRELEASE"
      using 3(2) l by blast
    show ?thesis
      by (rule exI [of _ "Suc k"]) (use k False vx x l nms length_release_frames [of k "y # zs"] in \<open>cases "release_frames k (y # zs)"; auto\<close>)
  qed
qed (auto simp: names_def)


lemma rollback_frames_live:
  assumes "live (map view ss)" "Some name \<in> set (names (map view ss))"
  shows "\<exists>k ss'. find_savepoint name ss = Some k \<and> savepointLevel (ss ! k) = 0
    \<and> rollback_frames k ss = (True, ss') \<and> length ss' = length ss
    \<and> pending (map view ss') \<and> live (settle c (map view ss'))
    \<and> names (settle c (map view ss')) = from_name name (names (map view ss))
    \<and> abort_state (map view ss') = Failed (tl (from_name name (names (map view ss))))
    \<and> fst (hd (map view ss')) \<in> {TBLOCK_SUBRESTART, TBLOCK_SUBABORT_PENDING}"
  using assms
proof (induction ss rule: induct_list012)
  case (3 x y zs)
  obtain nm where x: "view x = (TBLOCK_SUBINPROGRESS, TRANS_INPROGRESS, nm, int (length zs) + 2, 0)"
      and l: "live (map view (y # zs))" and nms: "names (map view (x # y # zs)) = nm # names (map view (y # zs))"
    using live_sub_cases [OF 3(3)] .
  note vx = view_parts [OF x]
  show ?case
  proof (cases "nm = Some name")
    case True
    show ?thesis
      by (intro exI [of _ 0] exI [of _ "x\<lparr>blockState := TBLOCK_SUBRESTART\<rparr> # y # zs"]) (use True vx x l nms live_abort_state in auto)
  next
    case False
    then have "Some name \<in> set (names (map view (y # zs)))" using 3(4) nms by simp
    then obtain k ss' where k: "find_savepoint name (y # zs) = Some k" "savepointLevel ((y # zs) ! k) = 0"
       "rollback_frames k (y # zs) = (True, ss')" "length ss' = length (y # zs)"
       "pending (map view ss')" "live (settle c (map view ss'))"
       "names (settle c (map view ss')) = from_name name (names (map view (y # zs)))"
       "abort_state (map view ss') = Failed (tl (from_name name (names (map view (y # zs)))))"
       "fst (hd (map view ss')) \<in> {TBLOCK_SUBRESTART, TBLOCK_SUBABORT_PENDING}"
      using 3(2) l by blast
    have len: "int (length zs) + 2 = int (length (map view ss')) + 1" using k(4) by simp
    have "pending ((TBLOCK_SUBABORT_PENDING, TRANS_INPROGRESS, nm, int (length zs) + 2, 0) # map view ss')"
      unfolding len by (rule pending_Cons_abort) (use k in auto)
    moreover have "ss' \<noteq> []" using k(4) by auto
    ultimately show ?thesis
      by (intro exI [of _ "Suc k"] exI [of _ "x\<lparr>blockState := TBLOCK_SUBABORT_PENDING\<rparr> # ss'"])
        (use k False vx x l nms in auto)
  qed
qed (auto simp: names_def)

lemma rollback_frames_failed:
  assumes "failed (map view ss)" "Some name \<in> set (names (map view ss))"
  shows "\<exists>k ss'. find_savepoint name ss = Some k \<and> savepointLevel (ss ! k) = 0
    \<and> rollback_frames k ss = (True, ss')
    \<and> pending (map view ss') \<and> live (settle c (map view ss'))
    \<and> names (settle c (map view ss')) = from_name name (names (map view ss))
    \<and> abort_state (map view ss') = Failed (tl (from_name name (names (map view ss))))"
proof -
  obtain x y zs where ss: "ss = x # y # zs"
    using assms(2) by (cases ss rule: remdups_adj.cases) (auto simp: names_def)
  obtain b t nm n l where x: "view x = (b, t, nm, n, l)" by (rule prod_cases5)
  have b: "b = TBLOCK_SUBABORT" "t = TRANS_ABORT" "n = int (length zs) + 2" "l = 0" and lv: "live (map view (y # zs))"
    using assms(1) x ss by auto
  note vx = view_parts [OF x]
  show ?thesis
  proof (cases "nm = Some name")
    case True
    show ?thesis
      by (intro exI [of _ 0] exI [of _ "x\<lparr>blockState := TBLOCK_SUBABORT_RESTART\<rparr> # y # zs"]) (use True vx x b lv ss live_abort_state in auto)
  next
    case False
    then have "Some name \<in> set (names (map view (y # zs)))" using assms(2) x ss by simp
    then obtain k ss' where k: "find_savepoint name (y # zs) = Some k" "savepointLevel ((y # zs) ! k) = 0"
       "rollback_frames k (y # zs) = (True, ss')" "length ss' = length (y # zs)"
       "pending (map view ss')" "live (settle c (map view ss'))"
       "names (settle c (map view ss')) = from_name name (names (map view (y # zs)))"
       "abort_state (map view ss') = Failed (tl (from_name name (names (map view (y # zs)))))"
       "fst (hd (map view ss')) \<in> {TBLOCK_SUBRESTART, TBLOCK_SUBABORT_PENDING}"
      using rollback_frames_live [OF lv, of name c] by blast
    have len: "int (length zs) + 2 = int (length (map view ss')) + 1" using k(4) by simp
    have "pending ((TBLOCK_SUBABORT_END, TRANS_ABORT, nm, int (length zs) + 2, 0) # map view ss')"
      unfolding len by (rule pending_Cons_abort) (use k in auto)
    moreover have "ss' \<noteq> []" using k(4) by auto
    ultimately show ?thesis
      by (intro exI [of _ "Suc k"] exI [of _ "x\<lparr>blockState := TBLOCK_SUBABORT_END\<rparr> # ss'"])
        (use k False vx x b ss in auto)
  qed
qed


text \<open>RELEASE and ROLLBACK TO fail without change where the savepoint does not exist.\<close>

lemma ReleaseSavepoint_steps:
  "blockState (cur st) = TBLOCK_INPROGRESS \<Longrightarrow> wp (ReleaseSavepoint name) Q E st =
     (if IsInParallelMode st then E parallel_error st else E no_savepoint st)"
  "blockState (cur st) = TBLOCK_IMPLICIT_INPROGRESS \<Longrightarrow> wp (ReleaseSavepoint name) Q E st =
     (if IsInParallelMode st then E parallel_error st else E no_active_transaction st)"
  "blockState (cur st) = TBLOCK_SUBINPROGRESS \<Longrightarrow> wp (ReleaseSavepoint name) Q E st =
     (if IsInParallelMode st then E parallel_error st
      else wp (seek_savepoint name (\<lambda>target. modify (\<lambda>st.
              st\<lparr>transactionStack := release_frames target (transactionStack st)\<rparr>))) Q E st)"
  by (auto simp: wp_def ReleaseSavepoint_def raise_def)

lemma RollbackToSavepoint_steps:
  "blockState (cur st) \<in> {TBLOCK_INPROGRESS, TBLOCK_ABORT} \<Longrightarrow> wp (RollbackToSavepoint name) Q E st =
     (if IsInParallelMode st then E parallel_error st else E no_savepoint st)"
  "blockState (cur st) = TBLOCK_IMPLICIT_INPROGRESS \<Longrightarrow> wp (RollbackToSavepoint name) Q E st =
     (if IsInParallelMode st then E parallel_error st else E no_active_transaction st)"
  "blockState (cur st) \<in> {TBLOCK_SUBINPROGRESS, TBLOCK_SUBABORT} \<Longrightarrow> wp (RollbackToSavepoint name) Q E st =
     (if IsInParallelMode st then E parallel_error st else wp (seek_savepoint name mark_rollback) Q E st)"
  by (auto simp: wp_def RollbackToSavepoint_def raise_def)

lemma wp_seek_savepoint:
  "find_savepoint name (transactionStack st) = None \<Longrightarrow> wp (seek_savepoint name act) Q E st = E no_savepoint st"
  "find_savepoint name (transactionStack st) = Some k \<Longrightarrow>
     savepointLevel (transactionStack st ! k) = savepointLevel (cur st) \<Longrightarrow>
     wp (seek_savepoint name act) Q E st = wp (act k) Q E st"
  by (auto simp: wp_def seek_savepoint_def raise_def)

lemma savepoint_errors [simp]: "is_ERROR parallel_error" "is_ERROR no_savepoint" "is_ERROR no_active_transaction"
  by (simp_all add: parallel_error_def no_savepoint_def no_active_transaction_def)

definition savepoint_reached :: "(frame list \<Rightarrow> frame list) \<Rightarrow> string option list \<Rightarrow> string option list \<Rightarrow> frame list \<Rightarrow> bool" where
  "savepoint_reached f nms nms' fs \<longleftrightarrow>
     pending fs \<and> abort_state fs = Failed nms \<and> live (f fs) \<and> names (f fs) = nms'"

lemma wp_ReleaseSavepoint:
  assumes "frames st = [(TBLOCK_IMPLICIT_INPROGRESS, TRANS_INPROGRESS, None, 1, 0)] \<or> live (frames st)"
    and Q: "\<And>st'. live (frames st) \<Longrightarrow> Some name \<in> set (names (frames st)) \<Longrightarrow>
       savepoint_reached (settle (top_chain st')) (tl (from_name name (names (frames st)))) (tl (from_name name (names (frames st)))) (frames st') \<Longrightarrow> Q () st'"
    and E: "\<And>e. is_ERROR e \<Longrightarrow> E e st"
  shows "wp (ReleaseSavepoint name) Q E st"
  using assms(1)
proof
  assume fs: "frames st = [(TBLOCK_IMPLICIT_INPROGRESS, TRANS_INPROGRESS, None, 1, 0)]"
  then show ?thesis using cur_block [OF fs] by (simp add: ReleaseSavepoint_steps E)
next
  assume live: "live (frames st)"
  then show ?thesis
  proof (cases rule: live_top_or_sub)
    case 1
    then show ?thesis using cur_block [OF 1] by (simp add: ReleaseSavepoint_steps E)
  next
    case (2 nm gs)
    note cb = cur_block [OF 2(1)]
    have level: "savepointLevel (cur st) = 0" using 2(1) by (auto elim: framesE)
    show ?thesis
    proof (cases "Some name \<in> set (names (frames st))")
      case True
      obtain k where k: "find_savepoint name (transactionStack st) = Some k" "savepointLevel (transactionStack st ! k) = 0"
        "prefixed TBLOCK_SUBRELEASE live (map view (release_frames k (transactionStack st)))"
        "live (dropWhile (\<lambda>f. fst f = TBLOCK_SUBRELEASE) (map view (release_frames k (transactionStack st))))"
        "names (dropWhile (\<lambda>f. fst f = TBLOCK_SUBRELEASE) (map view (release_frames k (transactionStack st))))
           = tl (from_name name (names (frames st)))"
        using release_frames_live [of "transactionStack st" name] live True unfolding frames_def by blast
      show ?thesis using cb level k prefixed_pending [OF k(3)] prefixed_abort_state [OF k(3)] True live
        by (simp add: ReleaseSavepoint_steps wp_seek_savepoint E)
          (auto simp: frames_def savepoint_reached_def intro!: Q)
    next
      case False
      then show ?thesis using cb live find_savepoint_None [of "transactionStack st" name]
        by (simp add: ReleaseSavepoint_steps wp_seek_savepoint E frames_def)
    qed
  qed
qed

lemma wp_seek_rollback:
  assumes ok: "live (frames st) \<or> failed (frames st)" and level: "savepointLevel (cur st) = 0"
    and Q: "\<And>st'. Some name \<in> set (names (frames st)) \<Longrightarrow>
       savepoint_reached (settle (top_chain st')) (tl (from_name name (names (frames st)))) (from_name name (names (frames st))) (frames st') \<Longrightarrow> Q () st'"
    and E: "E no_savepoint st"
  shows "wp (seek_savepoint name mark_rollback) Q E st"
proof (cases "Some name \<in> set (names (frames st))")
  case True
  have ex: "\<exists>k ss'. find_savepoint name (transactionStack st) = Some k \<and> savepointLevel (transactionStack st ! k) = 0
      \<and> rollback_frames k (transactionStack st) = (True, ss') \<and> pending (map view ss') \<and> live (settle c (map view ss'))
      \<and> names (settle c (map view ss')) = from_name name (names (frames st))
      \<and> abort_state (map view ss') = Failed (tl (from_name name (names (frames st))))" for c
    using ok True rollback_frames_live [of "transactionStack st" name c] rollback_frames_failed [of "transactionStack st" name c]
    unfolding frames_def by blast
  then obtain k ss' where k: "find_savepoint name (transactionStack st) = Some k" "savepointLevel (transactionStack st ! k) = 0"
      "rollback_frames k (transactionStack st) = (True, ss')" "pending (map view ss')"
      "abort_state (map view ss') = Failed (tl (from_name name (names (frames st))))" by blast
  have settled: "live (settle c (map view ss'))" "names (settle c (map view ss')) = from_name name (names (frames st))" for c
    using ex [of c] k(1,3) by auto
  have fr: "frames (st\<lparr>transactionStack := ss'\<rparr>) = map view ss'" by (simp add: frames_def)
  have "Q () (st\<lparr>transactionStack := ss'\<rparr>)"
    by (rule Q [OF True]) (simp add: fr savepoint_reached_def k(4,5) settled)
  then have "wp (mark_rollback k) Q E st" by (simp add: wp_def mark_rollback_def ret_def k(3))
  then show ?thesis using level k(1,2) by (simp add: wp_seek_savepoint)
next
  case False
  then show ?thesis using ok find_savepoint_None [of "transactionStack st" name]
    by (simp add: wp_seek_savepoint E frames_def)
qed

lemma wp_RollbackToSavepoint:
  assumes "frames st = [(TBLOCK_IMPLICIT_INPROGRESS, TRANS_INPROGRESS, None, 1, 0)] \<or> live (frames st) \<or> failed (frames st)"
    and Q: "\<And>st'. live (frames st) \<or> failed (frames st) \<Longrightarrow> Some name \<in> set (names (frames st)) \<Longrightarrow>
       savepoint_reached (settle (top_chain st')) (tl (from_name name (names (frames st)))) (from_name name (names (frames st))) (frames st') \<Longrightarrow> Q () st'"
    and E: "\<And>e. is_ERROR e \<Longrightarrow> E e st"
  shows "wp (RollbackToSavepoint name) Q E st"
proof -
  have "ready (frames st)" using assms(1) by (auto simp: ready_def)
  then show ?thesis
  proof (cases rule: ready_cases)
    case started
    then show ?thesis using assms(1) by simp
  next
    case implicit
    then show ?thesis using cur_block [OF implicit] by (simp add: RollbackToSavepoint_steps E)
  next
    case failed_top
    then show ?thesis using cur_block [OF failed_top] by (simp add: RollbackToSavepoint_steps E)
  next
    case live
    then show ?thesis
    proof (cases rule: live_top_or_sub)
      case 1
      then show ?thesis using cur_block [OF 1] by (simp add: RollbackToSavepoint_steps E)
    next
      case (2 nm gs)
      have level: "savepointLevel (cur st) = 0" using 2(1) by (auto elim: framesE)
      have "wp (seek_savepoint name mark_rollback) Q E st"
        by (rule wp_seek_rollback [OF _ level]) (use live Q E in auto)
      then show ?thesis using cur_block [OF 2(1)] by (simp add: RollbackToSavepoint_steps E)
    qed
  next
    case (failed_sub nm gs)
    have level: "savepointLevel (cur st) = 0" using failed_sub(1) by (auto elim: framesE)
    have "failed (frames st)" using Cons_live(1) [OF failed_sub(2)] failed_sub(1) by simp
    then have "wp (seek_savepoint name mark_rollback) Q E st"
      by (intro wp_seek_rollback [OF _ level]) (use Q E in auto)
    then show ?thesis using cur_block [OF failed_sub(1)] by (simp add: RollbackToSavepoint_steps E)
  qed
qed

end
