(* ===== verification/SimpleQuery.thy ===== *)
theory SimpleQuery
  imports XactBlock
begin

text \<open>
  A session: the statements of one query message under the transaction commands
  (\<^verbatim>\<open>exec_simple_query\<close> and the error handler of the main loop in
  \<^verbatim>\<open>src/backend/tcop/postgres.c\<close>), transaction statements (\<^verbatim>\<open>src/backend/tcop/utility.c\<close>) with the
  settings of BEGIN (\<^verbatim>\<open>src/backend/commands/variable.c\<close>), and blocks with exception handlers
  (\<^verbatim>\<open>src/pl/plpgsql/src/pl_exec.c\<close>).
\<close>

section \<open>Statements\<close>

datatype transaction_option = transaction_isolation int | transaction_read_only bool | transaction_deferrable bool

text \<open>Each kind of \<open>TransactionStmt\<close> with the fields it uses.\<close>

datatype TransactionStmt =
    TRANS_STMT_BEGIN "transaction_option list"
  | TRANS_STMT_START "transaction_option list"
  | TRANS_STMT_COMMIT bool
  | TRANS_STMT_ROLLBACK bool
  | TRANS_STMT_SAVEPOINT string
  | TRANS_STMT_RELEASE string
  | TRANS_STMT_ROLLBACK_TO string
  | TRANS_STMT_PREPARE string
  | TRANS_STMT_COMMIT_PREPARED string
  | TRANS_STMT_ROLLBACK_PREPARED string

text \<open>What other statements do to the transaction state, in order.  An \<open>ExceptionBlock\<close> has its body
  and its handlers, each with the condition under which it takes an error.\<close>

datatype act =
    AssignXid
  | MarkCommandIdUsed
  | NextCommand
  | OtherModules
  | Throw pg_error
  | ExceptionBlock "act list" "((pg_error \<Rightarrow> bool) \<times> act list) list"

datatype statement = Transaction TransactionStmt | Other "act list"

section \<open>Exception blocks\<close>

text \<open>\<open>PG_TRY\<close> and \<open>PG_CATCH\<close>: a FATAL or PANIC error does not reach the handler.\<close>

definition pg_try :: "'a xact \<Rightarrow> (pg_error \<Rightarrow> 'a xact) \<Rightarrow> 'a xact" where
  "pg_try m h st = (case m st of (Inl (ERROR e), st) \<Rightarrow> h e st | (r, st) \<Rightarrow> (r, st))"

text \<open>The first handler whose conditions match; without one the error is thrown again.\<close>

fun exec_handlers :: "((pg_error \<Rightarrow> bool) \<times> unit xact) list \<Rightarrow> pg_error \<Rightarrow> unit xact" where
  "exec_handlers [] e = raise (ERROR e)"
| "exec_handlers ((conditions, action) # hs) e = (if conditions e then action else exec_handlers hs e)"

definition exec_stmt_block :: "unit xact \<Rightarrow> ((pg_error \<Rightarrow> bool) \<times> unit xact) list \<Rightarrow> unit xact" where
  "exec_stmt_block body handlers = block [
     BeginInternalSubTransaction None,
     pg_try (block [body, ReleaseCurrentSubTransaction])
       (\<lambda>e. block [RollbackAndReleaseCurrentSubTransaction, exec_handlers handlers e])]"

primrec exec_act :: "act \<Rightarrow> unit xact" where
  "exec_act AssignXid = xbind GetCurrentTransactionId (\<lambda>_. skip)"
| "exec_act MarkCommandIdUsed = xbind (GetCurrentCommandId True) (\<lambda>_. skip)"
| "exec_act NextCommand = CommandCounterIncrement"
| "exec_act OtherModules = external AtStatement"
| "exec_act (Throw e) = raise (ERROR e)"
| "exec_act (ExceptionBlock body handlers) =
     exec_stmt_block (block (map exec_act body))
       (map (map_prod id block) (map (map_prod id (map exec_act)) handlers))"

section \<open>Transaction statements\<close>

abbreviation XACT_SERIALIZABLE :: int where "XACT_SERIALIZABLE \<equiv> 3"

definition check_transaction_read_only :: "bool \<Rightarrow> bool \<Rightarrow> xact_state \<Rightarrow> pg_error option" where
  "check_transaction_read_only FirstSnapshotSet newval st =
     (if \<not> newval \<and> XactReadOnly st \<and> IsTransactionState st
      then if IsSubTransaction st then Some (Ereport ''ACTIVE_SQL_TRANSACTION'')
           else if FirstSnapshotSet then Some (Ereport ''ACTIVE_SQL_TRANSACTION'')
           else if RecoveryInProgress (proc_mode st) then Some (Ereport ''FEATURE_NOT_SUPPORTED'')
           else None
      else None)"

definition check_XactIsoLevel :: "bool \<Rightarrow> int \<Rightarrow> xact_state \<Rightarrow> pg_error option" where
  "check_XactIsoLevel FirstSnapshotSet newXactIsoLevel st =
     (if newXactIsoLevel \<noteq> XactIsoLevel st \<and> IsTransactionState st
      then if FirstSnapshotSet then Some (Ereport ''ACTIVE_SQL_TRANSACTION'')
           else if IsSubTransaction st then Some (Ereport ''ACTIVE_SQL_TRANSACTION'')
           else if newXactIsoLevel = XACT_SERIALIZABLE \<and> RecoveryInProgress (proc_mode st)
           then Some (Ereport ''FEATURE_NOT_SUPPORTED'')
           else None
      else None)"

definition check_transaction_deferrable :: "bool \<Rightarrow> xact_state \<Rightarrow> pg_error option" where
  "check_transaction_deferrable FirstSnapshotSet st =
     (if IsSubTransaction st then Some (Ereport ''ACTIVE_SQL_TRANSACTION'')
      else if FirstSnapshotSet then Some (Ereport ''ACTIVE_SQL_TRANSACTION'')
      else None)"

text \<open>\<open>SetPGVariable\<close> on the three settings: it may fail for reasons of its own, and it checks the
  new value before it stores it.\<close>

definition set_checked :: "(xact_state \<Rightarrow> pg_error option) \<Rightarrow> (xact_state \<Rightarrow> xact_state) \<Rightarrow> unit xact" where
  "set_checked check assign st =
     (case check st of None \<Rightarrow> modify assign st | Some e \<Rightarrow> raise (ERROR e) st)"

definition SetPGVariable :: "transaction_option \<Rightarrow> unit xact" where
  "SetPGVariable item = ask AtStatement (\<lambda>answer.
     case ext_error answer of
       Some e \<Rightarrow> raise (ERROR e)
     | None \<Rightarrow>
         (case item of
            transaction_isolation l \<Rightarrow>
              set_checked (check_XactIsoLevel (ext_snapshot_set answer) l) (\<lambda>st. st\<lparr>XactIsoLevel := l\<rparr>)
          | transaction_read_only b \<Rightarrow>
              set_checked (check_transaction_read_only (ext_snapshot_set answer) b) (\<lambda>st. st\<lparr>XactReadOnly := b\<rparr>)
          | transaction_deferrable b \<Rightarrow>
              set_checked (check_transaction_deferrable (ext_snapshot_set answer)) (\<lambda>st. st\<lparr>XactDeferrable := b\<rparr>)))"

fun strictly_read_only :: "TransactionStmt \<Rightarrow> bool" where
  "strictly_read_only (TRANS_STMT_PREPARE _) = False"
| "strictly_read_only (TRANS_STMT_COMMIT_PREPARED _) = False"
| "strictly_read_only (TRANS_STMT_ROLLBACK_PREPARED _) = False"
| "strictly_read_only _ = True"

text \<open>\<open>standard_ProcessUtility\<close> on a transaction statement.  Statements that are not strictly read-only
  are refused in parallel mode and during recovery.\<close>

fun TransactionStmt_case :: "bool \<Rightarrow> TransactionStmt \<Rightarrow> unit xact" where
  "TransactionStmt_case isTopLevel (TRANS_STMT_BEGIN options) =
     block (BeginTransactionBlock # map SetPGVariable options)"
| "TransactionStmt_case isTopLevel (TRANS_STMT_START options) =
     block (BeginTransactionBlock # map SetPGVariable options)"
| "TransactionStmt_case isTopLevel (TRANS_STMT_COMMIT andChain) = xbind (EndTransactionBlock andChain) (\<lambda>_. skip)"
| "TransactionStmt_case isTopLevel (TRANS_STMT_PREPARE gid) = xbind (PrepareTransactionBlock gid) (\<lambda>_. skip)"
| "TransactionStmt_case isTopLevel (TRANS_STMT_COMMIT_PREPARED gid) =
     block [PreventInTransactionBlock isTopLevel, external AtStatement]"
| "TransactionStmt_case isTopLevel (TRANS_STMT_ROLLBACK_PREPARED gid) =
     block [PreventInTransactionBlock isTopLevel, external AtStatement]"
| "TransactionStmt_case isTopLevel (TRANS_STMT_ROLLBACK andChain) = UserAbortTransactionBlock andChain"
| "TransactionStmt_case isTopLevel (TRANS_STMT_SAVEPOINT name) =
     block [RequireTransactionBlock isTopLevel, DefineSavepoint (Some name)]"
| "TransactionStmt_case isTopLevel (TRANS_STMT_RELEASE name) =
     block [RequireTransactionBlock isTopLevel, ReleaseSavepoint name]"
| "TransactionStmt_case isTopLevel (TRANS_STMT_ROLLBACK_TO name) =
     block [RequireTransactionBlock isTopLevel, RollbackToSavepoint name]"

definition standard_ProcessUtility :: "bool \<Rightarrow> TransactionStmt \<Rightarrow> unit xact" where
  "standard_ProcessUtility isTopLevel stmt = block [
     only_if (\<lambda>st. \<not> strictly_read_only stmt \<and> (XactReadOnly st \<or> IsInParallelMode st)) (block [
       only_if IsInParallelMode (raise (ERROR (Ereport ''INVALID_TRANSACTION_STATE''))),
       only_if (\<lambda>st. RecoveryInProgress (proc_mode st)) (raise (ERROR (Ereport ''READ_ONLY_SQL_TRANSACTION'')))]),
     TransactionStmt_case isTopLevel stmt]"

section \<open>The statements of a query\<close>

text \<open>The variable \<open>xact_started\<close> is passed along.  Between queries it is false.\<close>

definition start_xact_command :: "bool \<Rightarrow> unit xact" where
  "start_xact_command xact_started = (if \<not> xact_started then StartTransactionCommand else skip)"

definition finish_xact_command :: "bool \<Rightarrow> unit xact" where
  "finish_xact_command xact_started = (if xact_started then CommitTransactionCommand else skip)"

fun IsTransactionExitStmt :: "statement \<Rightarrow> bool" where
  "IsTransactionExitStmt (Transaction (TRANS_STMT_COMMIT _)) = True"
| "IsTransactionExitStmt (Transaction (TRANS_STMT_PREPARE _)) = True"
| "IsTransactionExitStmt (Transaction (TRANS_STMT_ROLLBACK _)) = True"
| "IsTransactionExitStmt (Transaction (TRANS_STMT_ROLLBACK_TO _)) = True"
| "IsTransactionExitStmt _ = False"

fun is_TransactionStmt :: "statement \<Rightarrow> bool" where
  "is_TransactionStmt (Transaction _) = True"
| "is_TransactionStmt (Other _) = False"

text \<open>\<open>PortalRun\<close> on the statement, at the top level.\<close>

fun run_statement :: "statement \<Rightarrow> unit xact" where
  "run_statement (Transaction stmt) = standard_ProcessUtility True stmt"
| "run_statement (Other acts) = block (map exec_act acts)"

definition in_failed_transaction :: pg_error where
  "in_failed_transaction = Ereport ''IN_FAILED_SQL_TRANSACTION''"

text \<open>The part of the loop body before the end of the statement: the first external call stands for
  interrupts, analysis, planning and portal creation, the second for the portal's end.\<close>

definition begin_statement :: "bool \<Rightarrow> bool \<Rightarrow> statement \<Rightarrow> unit xact" where
  "begin_statement use_implicit_block xact_started parsetree = block [
     only_if (\<lambda>st. IsAbortedTransactionBlockState st \<and> \<not> IsTransactionExitStmt parsetree)
       (raise (ERROR in_failed_transaction)),
     start_xact_command xact_started,
     only_if (\<lambda>_. use_implicit_block) BeginImplicitTransactionBlock,
     external AtStatement,
     run_statement parsetree,
     external AtStatement]"

fun exec_statements :: "bool \<Rightarrow> bool \<Rightarrow> statement list \<Rightarrow> bool xact" where
  "exec_statements use_implicit_block xact_started [] = ret xact_started"
| "exec_statements use_implicit_block xact_started (parsetree # rest) =
     xbind (begin_statement use_implicit_block xact_started parsetree) (\<lambda>_.
       if rest = [] then
         xbind (block [only_if (\<lambda>_. use_implicit_block) EndImplicitTransactionBlock, finish_xact_command True])
           (\<lambda>_. ret False)
       else if is_TransactionStmt parsetree then
         xbind (finish_xact_command True) (\<lambda>_. exec_statements use_implicit_block False rest)
       else
         xbind CommandCounterIncrement (\<lambda>_. exec_statements use_implicit_block True rest))"

text \<open>\<open>pg_parse_query\<close> gives the list of statements or an error.\<close>

definition exec_simple_query :: "statement list result \<Rightarrow> unit xact" where
  "exec_simple_query parsetree_list = xbind (start_xact_command False) (\<lambda>_.
     case parsetree_list of
       Inl e \<Rightarrow> raise (ERROR e)
     | Inr stmts \<Rightarrow> xbind (exec_statements (length stmts > 1) True stmts) finish_xact_command)"

text \<open>One round of the main loop: an ERROR is reported and the transaction aborted; the answer is that
  error or none.  What is left as an error of this function ends the backend.\<close>

definition serve_query :: "statement list result \<Rightarrow> pg_error option xact" where
  "serve_query query = pg_try (xbind (exec_simple_query query) (\<lambda>_. ret None))
     (\<lambda>e. xbind AbortCurrentTransaction (\<lambda>_. ret (Some e)))"

fun serve_session :: "statement list result list \<Rightarrow> pg_error option list xact" where
  "serve_session [] = ret []"
| "serve_session (query # queries) =
     xbind (serve_query query) (\<lambda>answer. xbind (serve_session queries) (\<lambda>answers. ret (answer # answers)))"

end
