(* ===== verification/Session.thy ===== *)
theory Session
  imports SimpleQuery XactRequests
begin

text \<open>
  What a session means to its client: a machine whose states are no transaction, an implicit
  block, an open block with its savepoints and a failed block with its savepoints; and the proof
  that the session of \<open>SimpleQuery\<close> is that machine, whatever errors occur.
\<close>

section \<open>The specification\<close>

fun commit_spec :: "bool \<Rightarrow> session_state \<Rightarrow> session_state option" where
  "commit_spec andChain (Open nms) = Some (if andChain then Open [] else Idle)"
| "commit_spec andChain (Failed nms) = Some (if andChain then Open [] else Idle)"
| "commit_spec andChain s = (if andChain then None else Some Idle)"

fun begin_spec :: "session_state \<Rightarrow> session_state option" where
  "begin_spec (Open nms) = Some (Open nms)"
| "begin_spec (Failed nms) = None"
| "begin_spec s = Some (Open [])"

fun savepoint_spec :: "string \<Rightarrow> session_state \<Rightarrow> session_state option" where
  "savepoint_spec name (Open nms) = Some (Open (Some name # nms))"
| "savepoint_spec name s = None"

fun release_spec :: "string \<Rightarrow> session_state \<Rightarrow> session_state option" where
  "release_spec name (Open nms) = (if Some name \<in> set nms then Some (Open (tl (from_name name nms))) else None)"
| "release_spec name s = None"

fun rollback_to_spec :: "string \<Rightarrow> session_state \<Rightarrow> session_state option" where
  "rollback_to_spec name (Open nms) = (if Some name \<in> set nms then Some (Open (from_name name nms)) else None)"
| "rollback_to_spec name (Failed nms) = (if Some name \<in> set nms then Some (Open (from_name name nms)) else None)"
| "rollback_to_spec name s = None"

fun transaction_spec :: "TransactionStmt \<Rightarrow> session_state \<Rightarrow> session_state option" where
  "transaction_spec (TRANS_STMT_BEGIN _) s = begin_spec s"
| "transaction_spec (TRANS_STMT_START _) s = begin_spec s"
| "transaction_spec (TRANS_STMT_COMMIT andChain) s = commit_spec andChain s"
| "transaction_spec (TRANS_STMT_ROLLBACK andChain) s = commit_spec andChain s"
| "transaction_spec (TRANS_STMT_PREPARE _) s = Some Idle"
| "transaction_spec (TRANS_STMT_COMMIT_PREPARED _) s = (if s = Idle then Some Idle else None)"
| "transaction_spec (TRANS_STMT_ROLLBACK_PREPARED _) s = (if s = Idle then Some Idle else None)"
| "transaction_spec (TRANS_STMT_SAVEPOINT name) s = savepoint_spec name s"
| "transaction_spec (TRANS_STMT_RELEASE name) s = release_spec name s"
| "transaction_spec (TRANS_STMT_ROLLBACK_TO name) s = rollback_to_spec name s"

fun other_spec :: "session_state \<Rightarrow> session_state option" where
  "other_spec (Failed nms) = None"
| "other_spec s = Some s"

fun statement_spec :: "statement \<Rightarrow> session_state \<Rightarrow> session_state option" where
  "statement_spec (Transaction stmt) s = transaction_spec stmt s"
| "statement_spec (Other acts) s = other_spec s"

text \<open>An error: the block, if there is one, has failed and keeps its savepoints.  A statement that ends
  the block or discards savepoints may have done so before it failed.\<close>

fun fail :: "session_state \<Rightarrow> session_state" where
  "fail (Open nms) = Failed nms"
| "fail (Failed nms) = Failed nms"
| "fail s = Idle"

fun late_fail :: "statement \<Rightarrow> session_state \<Rightarrow> session_state" where
  "late_fail (Transaction (TRANS_STMT_COMMIT _)) s = Idle"
| "late_fail (Transaction (TRANS_STMT_ROLLBACK _)) s = Idle"
| "late_fail (Transaction (TRANS_STMT_PREPARE _)) s = Idle"
| "late_fail (Transaction (TRANS_STMT_RELEASE name)) (Open nms) = Failed (tl (from_name name nms))"
| "late_fail (Transaction (TRANS_STMT_ROLLBACK_TO name)) (Open nms) = Failed (tl (from_name name nms))"
| "late_fail (Transaction (TRANS_STMT_ROLLBACK_TO name)) (Failed nms) = Failed (tl (from_name name nms))"
| "late_fail stmt s = fail s"

fun enter :: "bool \<Rightarrow> session_state \<Rightarrow> session_state" where
  "enter use_implicit_block s = (if use_implicit_block \<and> s = Idle then Implicit else s)"

fun leave :: "session_state \<Rightarrow> session_state" where
  "leave s = (if s = Implicit then Idle else s)"

fun statements_spec :: "bool \<Rightarrow> statement list \<Rightarrow> session_state \<Rightarrow> session_state option" where
  "statements_spec implicit [] s = Some s"
| "statements_spec implicit (stmt # stmts) s =
     (case statement_spec stmt (enter implicit s) of
        None \<Rightarrow> None | Some s' \<Rightarrow> statements_spec implicit stmts s')"

text \<open>The states an error may leave the session in: each statement before it has succeeded.\<close>

fun error_spec :: "bool \<Rightarrow> statement list \<Rightarrow> session_state \<Rightarrow> session_state list" where
  "error_spec implicit [] s = []"
| "error_spec implicit (stmt # stmts) s =
     fail s # late_fail stmt (enter implicit s)
       # (case statement_spec stmt (enter implicit s) of None \<Rightarrow> [] | Some s' \<Rightarrow> error_spec implicit stmts s')"

fun query_spec :: "statement list result \<Rightarrow> session_state \<Rightarrow> session_state option" where
  "query_spec (Inl e) s = None"
| "query_spec (Inr stmts) s = map_option leave (statements_spec (length stmts > 1) stmts s)"

fun query_errors :: "statement list result \<Rightarrow> session_state \<Rightarrow> session_state list" where
  "query_errors (Inl e) s = [fail s]"
| "query_errors (Inr stmts) s = fail s # error_spec (length stmts > 1) stmts s"

section \<open>Exception blocks\<close>

text \<open>No exception block inside the body of another.\<close>

primrec plain :: "act \<Rightarrow> bool" where
  "plain AssignXid = True"
| "plain MarkCommandIdUsed = True"
| "plain NextCommand = True"
| "plain OtherModules = True"
| "plain (Throw e) = True"
| "plain (ExceptionBlock body handlers) = False"

primrec shallow :: "act \<Rightarrow> bool" where
  "shallow AssignXid = True"
| "shallow MarkCommandIdUsed = True"
| "shallow NextCommand = True"
| "shallow OtherModules = True"
| "shallow (Throw e) = True"
| "shallow (ExceptionBlock body handlers) =
     (list_all plain body
      \<and> list_all (\<lambda>(_, action). list_all id action) (map (map_prod id (map shallow)) handlers))"

abbreviation in_transaction :: "frame list \<Rightarrow> bool" where
  "in_transaction \<equiv> run_frames {TBLOCK_STARTED, TBLOCK_INPROGRESS, TBLOCK_IMPLICIT_INPROGRESS}"

lemma harmless_plain: "plain a \<Longrightarrow> harmless (exec_act a)"
  by (cases a)
    (auto intro!: harmless_rules harmless_GetCurrentTransactionId harmless_CommandCounterIncrement
      simp: harmless_def [of "GetCurrentCommandId True"] wp_def GetCurrentCommandId_def frames_def)

lemma harmless_plain_acts: "list_all plain acts \<Longrightarrow> harmless (block (map exec_act acts))"
  by (rule harmless_block) (auto simp: list_all_iff harmless_plain)

lemma wp_pg_try:
  "wp (pg_try m h) Q E st = wp m Q (\<lambda>e st'. case e of ERROR x \<Rightarrow> wp (h x) Q E st' | _ \<Rightarrow> E e st') st"
  by (auto simp: wp_def pg_try_def split: prod.splits sum.splits xact_error.splits)

text \<open>The error of an act: the stack is as it was, or a subtransaction has just been pushed.\<close>

definition spoiled :: "frame list \<Rightarrow> xact_error \<Rightarrow> xact_state \<Rightarrow> bool" where
  "spoiled fs e st' \<longleftrightarrow> severe e \<or> is_ERROR e \<and>
     (frames st' = fs \<or> (\<exists>t. frames st' = (TBLOCK_SUBBEGIN, t, None, int (length fs) + 1, 0) # fs))"

lemma wp_ConsI: "wp p (\<lambda>_. wp (block ps) Q E) E st \<Longrightarrow> wp (block (p # ps)) Q E st"
  and wp_NilI: "Q () st \<Longrightarrow> wp (block []) Q E st"
  by simp_all

lemma wp_no_op [simp]: "wp (block []) Q E = Q ()" "wp (ret x) Q' E = Q' x"
  by (rule ext, simp)+

lemma StartTransactionCommand_steps:
  "blockState (cur st) = TBLOCK_DEFAULT \<Longrightarrow>
     wp StartTransactionCommand Q E st = wp (block [StartTransaction, set_block TBLOCK_STARTED]) Q E st"
  "blockState (cur st) \<in> {TBLOCK_INPROGRESS, TBLOCK_IMPLICIT_INPROGRESS, TBLOCK_SUBINPROGRESS, TBLOCK_ABORT,
     TBLOCK_SUBABORT} \<Longrightarrow> wp StartTransactionCommand Q E st = Q () st"
  by (auto simp: wp_def StartTransactionCommand_def ret_def)

lemma BeginInternal_steps:
  assumes "in_transaction (frames st)"
  shows "wp (BeginInternalSubTransaction name) Q E st =
    (if IsInParallelMode st then E parallel_error st
     else wp (block [push_named name, CommitTransactionCommand, StartTransactionCommand]) Q E st)"
proof -
  obtain b nm gs where fs: "frames st = (b, TRANS_INPROGRESS, nm, int (length (frames st)), 0) # gs"
      and b: "b \<in> {TBLOCK_STARTED, TBLOCK_INPROGRESS, TBLOCK_IMPLICIT_INPROGRESS} \<or> b = TBLOCK_SUBINPROGRESS"
    using run_frames_hd [OF assms] by blast
  then show ?thesis using cur_block [OF fs] by (auto simp: wp_def BeginInternalSubTransaction_def raise_def)
qed

lemma wp_BeginInternal:
  assumes fs: "in_transaction (frames st)"
    and Q: "\<And>st'. frames st' = (TBLOCK_SUBINPROGRESS, TRANS_INPROGRESS, None, int (length (frames st)) + 1, 0) # frames st \<Longrightarrow> Q () st'"
    and E: "\<And>e st'. spoiled (frames st) e st' \<Longrightarrow> E e st'"
  shows "wp (BeginInternalSubTransaction None) Q E st"
proof -
  let ?f = "\<lambda>b t. (b, t, None, int (length (frames st)) + 1, 0)"
  have start: "wp (block [StartTransactionCommand]) Q E st1" if "frames st1 = ?f TBLOCK_SUBINPROGRESS TRANS_INPROGRESS # frames st" for st1
    using cur_block [OF that] Q [OF that] by (simp add: StartTransactionCommand_steps)
  have commit: "wp (block [CommitTransactionCommand, StartTransactionCommand]) Q E st1"
    if "frames st1 = ?f TBLOCK_SUBBEGIN TRANS_DEFAULT # frames st" for st1
  proof -
    have "wp (block [StartSubTransaction, set_block TBLOCK_SUBINPROGRESS]) (\<lambda>_. wp (block [StartTransactionCommand]) Q E) E
        (snd (commit_prologue st1))"
      by (intro wp_ConsI wp_StartSub wp_set_block wp_NilI start E) (auto simp: commit_prologue_frames spoiled_def that)
    then show ?thesis using cur_block [OF that] by (simp add: CommitCommand_steps)
  qed
  have "wp (block [push_named None, CommitTransactionCommand, StartTransactionCommand]) Q E st"
    unfolding wp_statements(3) [of "push_named None"] by (rule wp_push_named [OF fs commit]) (auto intro!: E simp: spoiled_def)
  then show ?thesis unfolding BeginInternal_steps [OF fs] by (auto intro!: E simp: spoiled_def)
qed

lemma wp_Release:
  assumes "frames st = (TBLOCK_SUBINPROGRESS, t, nm, n, l) # g # fs"
    "\<And>st'. frames st' = g # fs \<Longrightarrow> Q () st'"
    "\<And>e st' t. is_ERROR e \<Longrightarrow> frames st' = (TBLOCK_SUBINPROGRESS, t, nm, n, l) # g # fs \<Longrightarrow> E e st'"
  shows "wp ReleaseCurrentSubTransaction Q E st"
proof -
  have "wp CommitSubTransaction Q E st" by (rule wp_CommitSub) (use assms in auto)
  then show ?thesis using cur_block [OF assms(1)] assms(1,3)
    by (auto simp: wp_def ReleaseCurrentSubTransaction_def raise_def)
qed

lemma wp_RollbackAndRelease:
  assumes "frames st = (TBLOCK_SUBINPROGRESS, t, nm, n, l) # g # fs"
    "\<And>st'. frames st' = g # fs \<Longrightarrow> Q () st'" "\<And>e st'. severe e \<Longrightarrow> E e st'"
  shows "wp RollbackAndReleaseCurrentSubTransaction Q E st"
proof -
  have "wp (block [AbortSubTransaction, CleanupSubTransaction]) Q E st"
    unfolding wp_statements by (intro wp_AbortSub wp_CleanupSub assms(2)) (use assms in auto)
  then show ?thesis using cur_block [OF assms(1)]
    by (simp add: wp_def RollbackAndReleaseCurrentSubTransaction_def test_def)
qed

text \<open>An exception block whose body leaves the stack alone leaves it alone, whichever way it ends.\<close>

lemma wp_exec_stmt_block:
  assumes fs: "in_transaction (frames st)" and body: "harmless body"
    and handlers: "\<And>c action st'. (c, action) \<in> set handlers \<Longrightarrow> frames st' = frames st \<Longrightarrow>
       wp action (\<lambda>_ st''. frames st'' = frames st) (spoiled (frames st)) st'"
  shows "wp (exec_stmt_block body handlers) (\<lambda>_ st'. frames st' = frames st) (spoiled (frames st)) st"
proof -
  obtain g gs where g: "frames st = g # gs" using run_frames_hd [OF fs] by auto
  let ?f = "\<lambda>t. (TBLOCK_SUBINPROGRESS, t, None, int (length (frames st)) + 1, 0)"
  let ?catch = "\<lambda>e. block [RollbackAndReleaseCurrentSubTransaction, exec_handlers handlers e]"
  let ?Q = "\<lambda>_ st'. frames st' = frames st"
  have run: "wp (exec_handlers hs e) ?Q (spoiled (frames st)) st'" if "set hs \<subseteq> set handlers" "frames st' = frames st" for hs e st'
    using that by (induction hs) (auto simp: spoiled_def handlers)
  have catch: "wp (?catch e) ?Q (spoiled (frames st)) st'" if "frames st' = ?f t # frames st" for e t st'
    by (intro wp_ConsI wp_RollbackAndRelease [where g = g and fs = gs]) (use that g run in \<open>auto simp: spoiled_def\<close>)
  have "wp (pg_try (block [body, ReleaseCurrentSubTransaction]) ?catch) ?Q (spoiled (frames st)) st'"
    if "frames st' = ?f TRANS_INPROGRESS # frames st" for st'
    unfolding wp_pg_try
  proof (rule wp_ConsI, rule harmlessD [OF body])
    fix st1 assume "frames st1 = frames st'"
    then show "wp (block [ReleaseCurrentSubTransaction]) ?Q (\<lambda>e st'. case e of ERROR x \<Rightarrow> wp (?catch x) ?Q (spoiled (frames st)) st'
        | _ \<Rightarrow> spoiled (frames st) e st') st1"
      by (intro wp_ConsI wp_Release [where g = g and fs = gs] wp_NilI) (use that g catch in \<open>auto elim!: is_ERROR.elims\<close>)
  next
    fix e st1 assume "is_ERROR e" "frames st1 = frames st'"
    then show "case e of ERROR x \<Rightarrow> wp (?catch x) ?Q (spoiled (frames st)) st1 | _ \<Rightarrow> spoiled (frames st) e st1"
      using catch that by (cases e) auto
  qed (use that in auto)
  then show ?thesis unfolding exec_stmt_block_def
    by (intro wp_ConsI wp_BeginInternal [OF fs]) auto
qed


lemma wp_acts:
  assumes acts: "\<And>a st. a \<in> set acts \<Longrightarrow> frames st = fs \<Longrightarrow> wp (exec_act a) (\<lambda>_ st'. frames st' = fs) (spoiled fs) st"
    and "frames st = fs"
  shows "wp (block (map exec_act acts)) (\<lambda>_ st'. frames st' = fs) (spoiled fs) st"
  using assms
proof (induction acts arbitrary: st)
  case (Cons a acts)
  have "wp (exec_act a) (\<lambda>_. wp (block (map exec_act acts)) (\<lambda>_ st'. frames st' = fs) (spoiled fs)) (spoiled fs) st"
    by (rule wp_mono [OF Cons(2) [of a]]) (use Cons in auto)
  then show ?case unfolding list.map by (rule wp_ConsI)
qed simp

lemma wp_plain:
  assumes "plain a" "in_transaction fs" "frames st = fs"
  shows "wp (exec_act a) (\<lambda>_ st'. frames st' = fs) (spoiled fs) st"
  by (rule harmlessD [OF harmless_plain [OF assms(1)]])
    (use assms(2,3) in \<open>auto simp: spoiled_def dest!: run_frames_hd\<close>)

lemma wp_exec_act:
  assumes "in_transaction fs"
  shows "shallow a \<Longrightarrow> frames st = fs \<Longrightarrow> wp (exec_act a) (\<lambda>_ st'. frames st' = fs) (spoiled fs) st"
proof (induction a arbitrary: st)
  case (ExceptionBlock body handlers)
  have ne: "frames st \<noteq> []" using run_frames_hd assms ExceptionBlock(4) by fastforce
  have "wp (exec_stmt_block (block (map exec_act body)) (map (map_prod id block) (map (map_prod id (map exec_act)) handlers)))
      (\<lambda>_ st'. frames st' = frames st) (spoiled (frames st)) st"
  proof (rule wp_exec_stmt_block)
    show "in_transaction (frames st)" using assms ExceptionBlock(4) by simp
    show "harmless (block (map exec_act body))" using ExceptionBlock(3) by (simp add: harmless_plain_acts)
    fix c action st' assume "(c, action) \<in> set (map (map_prod id block) (map (map_prod id (map exec_act)) handlers))"
      and st': "frames st' = frames st"
    then obtain acts where acts: "(c, acts) \<in> set handlers" "action = block (map exec_act acts)" by auto
    have "\<forall>a \<in> set acts. shallow a" using ExceptionBlock(3) acts(1) by (force simp: list_all_iff)
    then show "wp action (\<lambda>_ st''. frames st'' = frames st) (spoiled (frames st)) st'"
      unfolding acts(2) ExceptionBlock(4)
      by (intro wp_acts) (use ExceptionBlock(2) ExceptionBlock(4) acts(1) st' in force)+
  qed
  then show ?case using ExceptionBlock(4) by simp
qed (rule wp_plain [OF _ assms]; simp)+


section \<open>Transaction statements\<close>

lemma harmless_ask:
  assumes "\<And>a. harmless (f a)"
  shows "harmless (ask site f)"
  unfolding harmless_def
proof (intro allI impI)
  fix st assume "frames st \<noteq> []"
  then show "wp (ask site f) (\<lambda>_ st'. frames st' = frames st) (\<lambda>e st'. is_ERROR e \<and> frames st' = frames st) st"
    unfolding wp_simps by (intro harmlessD [OF assms]) simp_all
qed

lemma harmless_SetPGVariable: "harmless (SetPGVariable item)"
  unfolding SetPGVariable_def
  by (auto intro!: harmless_ask harmless_basic split: option.splits transaction_option.splits)
    (auto simp: harmless_def set_checked_def wp_def modify_def raise_def frames_def split: option.splits)

lemma session_of_live: "live fs \<Longrightarrow> session_of fs = Open (names fs)"
  by (erule live_top_or_sub) (auto simp: session_of_def)

lemma session_of_failed: "failed fs \<Longrightarrow> session_of fs = Failed (names fs)"
  by (cases fs rule: recoverable.cases) (auto simp: session_of_def)

lemma live_pending: "live fs \<Longrightarrow> pending fs \<and> settle c fs = fs"
  by (cases fs rule: recoverable.cases) auto

lemma failed_pending: "failed fs \<Longrightarrow> pending fs \<and> settle c fs = fs \<and> abort_state fs = Failed (names fs)"
  by (cases fs rule: recoverable.cases) auto

lemma ended_session [simp]: "session_of (ended c) = (if c then Open [] else Idle)" "between (ended c)"
  by (auto simp: ended_def session_of_def between_def idle_def names_def)

lemma ready_facts:
  assumes "ready fs"
  shows "abort_state fs = fail (session_of fs)" "pending fs" "recoverable fs"
proof -
  consider "lone {TBLOCK_STARTED, TBLOCK_IMPLICIT_INPROGRESS} fs" | "live fs" | "failed fs"
    using assms unfolding ready_def by blast
  then have "abort_state fs = fail (session_of fs) \<and> pending fs \<and> recoverable fs"
  proof cases
    case 1
    then show ?thesis by (cases fs rule: recoverable.cases) (auto simp: session_of_def)
  next
    case 2
    then show ?thesis by (simp add: live_pending session_of_live live_abort_state live_recoverable)
  next
    case 3
    then show ?thesis by (simp add: failed_pending session_of_failed failed_recoverable)
  qed
  then show "abort_state fs = fail (session_of fs)" "pending fs" "recoverable fs" by auto
qed

text \<open>The stack after a transaction statement, still to be settled, and where the statement fails.\<close>

definition arranged :: "statement \<Rightarrow> session_state \<Rightarrow> xact_state \<Rightarrow> bool" where
  "arranged stmt s st' \<longleftrightarrow> pending (frames st') \<and> abort_state (frames st') = late_fail stmt s
     \<and> fst (hd (frames st')) \<noteq> TBLOCK_IMPLICIT_INPROGRESS
     \<and> between (settle (top_chain st') (frames st'))
     \<and> statement_spec stmt s = Some (session_of (settle (top_chain st') (frames st')))"

definition upset :: "statement \<Rightarrow> session_state \<Rightarrow> xact_error \<Rightarrow> xact_state \<Rightarrow> bool" where
  "upset stmt s e st' \<longleftrightarrow> severe e \<or> is_ERROR e \<and> recoverable (frames st')
     \<and> (abort_state (frames st') = fail s \<or> abort_state (frames st') = late_fail stmt s)"

lemma upset_same: "ready fs \<Longrightarrow> frames st' = fs \<Longrightarrow> is_ERROR e \<Longrightarrow> upset stmt (session_of fs) e st'"
  by (simp add: upset_def ready_facts)

lemma ready_not_failed:
  assumes "ready fs" "\<not> failed fs"
  obtains "fs = [(TBLOCK_STARTED, TRANS_INPROGRESS, None, 1, 0)]"
  | "fs = [(TBLOCK_IMPLICIT_INPROGRESS, TRANS_INPROGRESS, None, 1, 0)]" | "live fs"
  using assms by (cases rule: ready_cases) (auto simp: Cons_live)

lemma live_hd: "live fs \<Longrightarrow> fst (hd fs) \<in> {TBLOCK_INPROGRESS, TBLOCK_SUBINPROGRESS}"
  by (cases fs) (use live_head in auto)

lemma arranged_live:
  assumes "live (frames st')" "late_fail stmt s = Failed (names (frames st'))"
    "statement_spec stmt s = Some (Open (names (frames st')))"
  shows "arranged stmt s st'"
  unfolding arranged_def between_def
  using assms live_hd [OF assms(1)] by (auto simp: live_pending session_of_live live_abort_state)

lemma arranged_begin:
  assumes "ready (frames st)" "\<not> failed (frames st)" "frames st' = begin_marks (frames st)"
    "x = TRANS_STMT_BEGIN opts \<or> x = TRANS_STMT_START opts"
  shows "arranged (Transaction x) (session_of (frames st)) st' \<and> recoverable (frames st')
    \<and> abort_state (frames st') = fail (session_of (frames st))"
  using assms(1,2)
proof (cases rule: ready_not_failed)
  case 3
  have "frames st' = frames st" using live_hd [OF 3] assms(3) by (auto simp: begin_marks_def)
  then show ?thesis using 3 assms(4)
    by (auto intro!: arranged_live simp: session_of_live live_abort_state live_recoverable)
qed (use assms(3,4) in \<open>auto simp: begin_marks_def arranged_def session_of_def between_def names_def\<close>)

lemma arranged_end:
  assumes "pending (frames st')" "settle (top_chain st') (frames st') = ended c" "abort_state (frames st') = Idle"
    "fst (hd (frames st')) \<noteq> TBLOCK_IMPLICIT_INPROGRESS"
    "late_fail stmt s = Idle" "statement_spec stmt s = Some (if c then Open [] else Idle)"
  shows "arranged stmt s st'"
  using assms by (simp add: arranged_def)

lemma marks_hd:
  assumes "ready fs" "e \<noteq> TBLOCK_IMPLICIT_INPROGRESS"
  shows "fst (hd (abort_marks fs)) \<noteq> TBLOCK_IMPLICIT_INPROGRESS \<and> fst (hd (end_marks e fs)) \<noteq> TBLOCK_IMPLICIT_INPROGRESS"
proof -
  obtain f gs where fs: "fs = f # gs" using ready_ne [OF assms(1)] by (cases fs) auto
  then show ?thesis
    using remark_hd [of fs TBLOCK_SUBABORT_PENDING TBLOCK_ABORT_PENDING] remark_hd [of fs TBLOCK_SUBCOMMIT e] assms(2)
    by (cases f) (auto simp: abort_marks_def end_marks_def)
qed

lemma commit_spec_ready:
  assumes "ready fs" "fst (hd fs) \<in> {TBLOCK_STARTED, TBLOCK_IMPLICIT_INPROGRESS} \<longrightarrow> \<not> c"
  shows "commit_spec c (session_of fs) = Some (if c then Open [] else Idle)"
  using assms(1)
proof (cases rule: ready_cases)
  case live
  then show ?thesis by (simp add: session_of_live)
next
  case (failed_sub nm gs)
  then show ?thesis by (simp add: session_of_def)
qed (use assms(2) in \<open>auto simp: session_of_def\<close>)

lemma wp_end_statement:
  assumes r: "ready (frames st)" and s: "s = session_of (frames st)"
  shows "wp (EndTransactionBlock c) (\<lambda>_. arranged (Transaction (TRANS_STMT_COMMIT c)) s)
      (upset (Transaction (TRANS_STMT_COMMIT c)) s) st"
    "wp (UserAbortTransactionBlock c) (\<lambda>_. arranged (Transaction (TRANS_STMT_ROLLBACK c)) s)
      (upset (Transaction (TRANS_STMT_ROLLBACK c)) s) st"
    "wp (PrepareTransactionBlock gid) (\<lambda>_. arranged (Transaction (TRANS_STMT_PREPARE gid)) s)
      (upset (Transaction (TRANS_STMT_PREPARE gid)) s) st"
proof -
  note up = upset_same [OF r refl, folded s]
  show "wp (EndTransactionBlock c) (\<lambda>_. arranged (Transaction (TRANS_STMT_COMMIT c)) s)
      (upset (Transaction (TRANS_STMT_COMMIT c)) s) st"
  proof (rule wp_EndTransactionBlock [OF r])
    fix r' st' assume "frames st' = end_marks TBLOCK_END (frames st)" "top_chain st' = c"
      "fst (hd (frames st)) \<in> {TBLOCK_STARTED, TBLOCK_IMPLICIT_INPROGRESS} \<longrightarrow> \<not> c"
    then show "arranged (Transaction (TRANS_STMT_COMMIT c)) s st'"
      using end_marks_settle [OF r, of TBLOCK_END c] marks_hd [OF r, of TBLOCK_END]
      by (intro arranged_end [where c = c]) (auto simp: s commit_spec_ready [OF r])
  qed (auto intro: up)
  show "wp (UserAbortTransactionBlock c) (\<lambda>_. arranged (Transaction (TRANS_STMT_ROLLBACK c)) s)
      (upset (Transaction (TRANS_STMT_ROLLBACK c)) s) st"
  proof (rule wp_UserAbortTransactionBlock [OF r])
    fix st' assume "frames st' = abort_marks (frames st)" "top_chain st' = c"
      "fst (hd (frames st)) \<in> {TBLOCK_STARTED, TBLOCK_IMPLICIT_INPROGRESS} \<longrightarrow> \<not> c"
    then show "arranged (Transaction (TRANS_STMT_ROLLBACK c)) s st'"
      using abort_marks_settle [OF r, of c] marks_hd [OF r, of TBLOCK_END]
      by (intro arranged_end [where c = c]) (auto simp: s commit_spec_ready [OF r])
  qed (auto intro: up)
  show "wp (PrepareTransactionBlock gid) (\<lambda>_. arranged (Transaction (TRANS_STMT_PREPARE gid)) s)
      (upset (Transaction (TRANS_STMT_PREPARE gid)) s) st"
  proof (rule wp_PrepareTransactionBlock [OF r])
    fix r' st' assume "frames st' = end_marks TBLOCK_PREPARE (frames st)" "\<not> top_chain st'"
    then show "arranged (Transaction (TRANS_STMT_PREPARE gid)) s st'"
      using end_marks_settle [OF r, of TBLOCK_PREPARE False] marks_hd [OF r, of TBLOCK_PREPARE]
      by (intro arranged_end [where c = False]) (auto simp: s)
  qed (auto intro: up)
qed


lemma block_checks:
  "blockState (cur st) \<notin> {TBLOCK_DEFAULT, TBLOCK_STARTED} \<Longrightarrow> wp (RequireTransactionBlock True) Q E st = Q () st"
  "blockState (cur st) = TBLOCK_STARTED \<Longrightarrow> nestingLevel (cur st) = 1 \<Longrightarrow>
     wp (RequireTransactionBlock True) Q E st = E no_active_transaction st"
  "blockState (cur st) \<notin> {TBLOCK_DEFAULT, TBLOCK_STARTED} \<Longrightarrow>
     wp (PreventInTransactionBlock True) Q E st = E (ERROR (Ereport ''ACTIVE_SQL_TRANSACTION'')) st"
  "blockState (cur st) = TBLOCK_STARTED \<Longrightarrow> nestingLevel (cur st) = 1 \<Longrightarrow>
     wp (PreventInTransactionBlock True) Q E st = Q () st"
  by (simp_all add: wp_def RequireTransactionBlock_def CheckTransactionBlock_def PreventInTransactionBlock_def
      IsTransactionBlock_def IsSubTransaction_def ret_def raise_def)

lemma frames_nesting: "frames st = (b, t, nm, n, l) # fs \<Longrightarrow> nestingLevel (cur st) = n"
  by (auto elim: framesE)

lemma ready_block:
  assumes "ready (frames st)"
  shows "blockState (cur st) = TBLOCK_STARTED \<and> nestingLevel (cur st) = 1
      \<and> frames st = [(TBLOCK_STARTED, TRANS_INPROGRESS, None, 1, 0)]
    \<or> blockState (cur st) \<notin> {TBLOCK_DEFAULT, TBLOCK_STARTED}
      \<and> (frames st = [(TBLOCK_IMPLICIT_INPROGRESS, TRANS_INPROGRESS, None, 1, 0)] \<or> live (frames st) \<or> failed (frames st))"
  using assms
proof (cases rule: ready_cases)
  case started
  then show ?thesis using cur_block [OF started] frames_nesting [OF started] by simp
next
  case implicit
  then show ?thesis using cur_block [OF implicit] by simp
next
  case live
  then show ?thesis using live_hd [OF live] frames_cur [of st "hd (frames st)" "tl (frames st)"] by (cases "frames st") auto
next
  case failed_top
  then show ?thesis using cur_block [OF failed_top] by simp
next
  case (failed_sub nm gs)
  then show ?thesis using cur_block [OF failed_sub(1)] Cons_live by simp
qed

lemma wp_require:
  assumes "ready (frames st)" "is_ERROR no_active_transaction \<Longrightarrow> E no_active_transaction st"
    "frames st = [(TBLOCK_IMPLICIT_INPROGRESS, TRANS_INPROGRESS, None, 1, 0)] \<or> live (frames st) \<or> failed (frames st) \<Longrightarrow> wp m Q E st"
  shows "wp (block [RequireTransactionBlock True, m]) Q E st"
  using ready_block [OF assms(1)] assms(2,3) by (auto simp: block_checks)

lemma arranged_savepoint:
  assumes "live (frames st)" "frames st' = (TBLOCK_SUBBEGIN, TRANS_DEFAULT, Some name, int (length (frames st)) + 1, 0) # frames st"
  shows "arranged (Transaction (TRANS_STMT_SAVEPOINT name)) (session_of (frames st)) st'"
proof -
  have ne: "frames st \<noteq> []" using assms(1) by auto
  have "settle c (frames st') = (TBLOCK_SUBINPROGRESS, TRANS_INPROGRESS, Some name, int (length (frames st)) + 1, 0) # frames st" for c
    using assms(2) by simp
  moreover have "live \<dots>" by (rule Cons_live(2) [OF assms(1)])
  ultimately show ?thesis using Cons_live(3) [OF assms(1)] ne assms(1,2)
    by (simp add: arranged_def between_def session_of_live live_abort_state)
qed

lemma pending_implicit: "pending fs \<Longrightarrow> fst (hd fs) = TBLOCK_IMPLICIT_INPROGRESS \<Longrightarrow> abort_state fs = Idle"
  by (cases fs rule: recoverable.cases) auto

lemma arranged_reached:
  assumes "savepoint_reached (settle (top_chain st')) nms nms' (frames st')" "late_fail stmt s = Failed nms"
    "statement_spec stmt s = Some (Open nms')"
  shows "arranged stmt s st'"
  using assms pending_implicit [of "frames st'"]
  by (auto simp: arranged_def savepoint_reached_def between_def session_of_live)

lemma wp_savepoint_statement:
  assumes r: "ready (frames st)" "\<not> failed (frames st)" and s: "s = session_of (frames st)"
  shows "wp (block [RequireTransactionBlock True, DefineSavepoint (Some name)])
      (\<lambda>_. arranged (Transaction (TRANS_STMT_SAVEPOINT name)) s) (upset (Transaction (TRANS_STMT_SAVEPOINT name)) s) st"
    "wp (block [RequireTransactionBlock True, ReleaseSavepoint name])
      (\<lambda>_. arranged (Transaction (TRANS_STMT_RELEASE name)) s) (upset (Transaction (TRANS_STMT_RELEASE name)) s) st"
proof -
  note up = upset_same [OF r(1) refl, folded s] and same = upset_same [OF r(1), folded s]
  show "wp (block [RequireTransactionBlock True, DefineSavepoint (Some name)])
      (\<lambda>_. arranged (Transaction (TRANS_STMT_SAVEPOINT name)) s) (upset (Transaction (TRANS_STMT_SAVEPOINT name)) s) st"
  proof (rule wp_require [OF r(1)])
    assume "frames st = [(TBLOCK_IMPLICIT_INPROGRESS, TRANS_INPROGRESS, None, 1, 0)] \<or> live (frames st) \<or> failed (frames st)"
    then consider (implicit) "frames st = [(TBLOCK_IMPLICIT_INPROGRESS, TRANS_INPROGRESS, None, 1, 0)]" | (live) "live (frames st)"
      using r(2) by blast
    then show "wp (DefineSavepoint (Some name)) (\<lambda>_. arranged (Transaction (TRANS_STMT_SAVEPOINT name)) s)
        (upset (Transaction (TRANS_STMT_SAVEPOINT name)) s) st"
    proof cases
      case implicit
      then show ?thesis using cur_block [OF implicit] up
        by (simp add: wp_def DefineSavepoint_def raise_def)
    next
      case live
      then show ?thesis
        by (rule wp_DefineSavepoint) (use live s r(1) in \<open>auto intro: arranged_savepoint upset_same\<close>)
    qed
  qed (rule up)
  show "wp (block [RequireTransactionBlock True, ReleaseSavepoint name])
      (\<lambda>_. arranged (Transaction (TRANS_STMT_RELEASE name)) s) (upset (Transaction (TRANS_STMT_RELEASE name)) s) st"
  proof (rule wp_require [OF r(1)])
    assume "frames st = [(TBLOCK_IMPLICIT_INPROGRESS, TRANS_INPROGRESS, None, 1, 0)] \<or> live (frames st) \<or> failed (frames st)"
    then show "wp (ReleaseSavepoint name) (\<lambda>_. arranged (Transaction (TRANS_STMT_RELEASE name)) s)
        (upset (Transaction (TRANS_STMT_RELEASE name)) s) st"
    proof (intro wp_ReleaseSavepoint)
      fix st' assume "live (frames st)" "Some name \<in> set (names (frames st))"
        "savepoint_reached (settle (top_chain st')) (tl (from_name name (names (frames st))))
          (tl (from_name name (names (frames st)))) (frames st')"
      then show "arranged (Transaction (TRANS_STMT_RELEASE name)) s st'"
        by (intro arranged_reached) (auto simp: s session_of_live)
    qed (use r(2) up in auto)
  qed (rule up)
qed


lemma wp_rollback_to_statement:
  assumes r: "ready (frames st)" and s: "s = session_of (frames st)"
  shows "wp (block [RequireTransactionBlock True, RollbackToSavepoint name])
      (\<lambda>_. arranged (Transaction (TRANS_STMT_ROLLBACK_TO name)) s) (upset (Transaction (TRANS_STMT_ROLLBACK_TO name)) s) st"
proof (rule wp_require [OF r])
  note up = upset_same [OF r refl, folded s]
  assume "frames st = [(TBLOCK_IMPLICIT_INPROGRESS, TRANS_INPROGRESS, None, 1, 0)] \<or> live (frames st) \<or> failed (frames st)"
  then show "wp (RollbackToSavepoint name) (\<lambda>_. arranged (Transaction (TRANS_STMT_ROLLBACK_TO name)) s)
      (upset (Transaction (TRANS_STMT_ROLLBACK_TO name)) s) st"
  proof (intro wp_RollbackToSavepoint)
    fix st' assume "live (frames st) \<or> failed (frames st)" "Some name \<in> set (names (frames st))"
      "savepoint_reached (settle (top_chain st')) (tl (from_name name (names (frames st))))
        (from_name name (names (frames st))) (frames st')"
    then show "arranged (Transaction (TRANS_STMT_ROLLBACK_TO name)) s st'"
      by (intro arranged_reached) (auto simp: s session_of_live session_of_failed)
  qed (use up in auto)
qed (use s r in \<open>auto intro: upset_same\<close>)

lemma wp_prepared_statement:
  assumes r: "ready (frames st)" and s: "s = session_of (frames st)"
    and x: "x = TRANS_STMT_COMMIT_PREPARED gid \<or> x = TRANS_STMT_ROLLBACK_PREPARED gid"
  shows "wp (block [PreventInTransactionBlock True, external AtStatement])
      (\<lambda>_. arranged (Transaction x) s) (upset (Transaction x) s) st"
  using ready_block [OF r]
proof
  assume fs: "blockState (cur st) = TBLOCK_STARTED \<and> nestingLevel (cur st) = 1
      \<and> frames st = [(TBLOCK_STARTED, TRANS_INPROGRESS, None, 1, 0)]"
  have "s = Idle" using fs s by (simp add: session_of_def)
  then have "wp (external AtStatement) (\<lambda>_. arranged (Transaction x) s) (upset (Transaction x) s) st"
    by (intro wp_externalI) (use fs x in \<open>auto simp: arranged_def upset_def\<close>)
  then show ?thesis using fs by (simp add: block_checks)
qed (use r s in \<open>auto simp: block_checks intro: upset_same\<close>)

lemma wp_begin_statement:
  assumes r: "ready (frames st)" "\<not> failed (frames st)" and s: "s = session_of (frames st)"
    and x: "x = TRANS_STMT_BEGIN options \<or> x = TRANS_STMT_START options"
  shows "wp (block (BeginTransactionBlock # map SetPGVariable options))
      (\<lambda>_. arranged (Transaction x) s) (upset (Transaction x) s) st"
proof (rule wp_ConsI, rule wp_BeginTransactionBlock [OF r(1)])
  fix st1 assume st1: "frames st1 = begin_marks (frames st)"
  note facts = arranged_begin [OF r _ x, folded s]
  have ne: "frames st1 \<noteq> []" using facts [OF st1] by auto
  have "harmless (block (map SetPGVariable options))" by (rule harmless_block) (auto simp: harmless_SetPGVariable)
  then show "wp (block (map SetPGVariable options)) (\<lambda>_. arranged (Transaction x) s) (upset (Transaction x) s) st1"
  proof (rule harmlessD [OF _ ne])
    fix st' assume "frames st' = frames st1"
    then have st': "frames st' = begin_marks (frames st)" using st1 by simp
    show "arranged (Transaction x) s st'" using facts [OF st'] by blast
    show "upset (Transaction x) s e st'" if "is_ERROR e" for e
      using facts [OF st'] that by (simp add: upset_def)
  qed
qed

lemma wp_ProcessUtility:
  assumes r: "ready (frames st)" and s: "s = session_of (frames st)"
    and ok: "failed (frames st) \<longrightarrow> IsTransactionExitStmt (Transaction x)"
  shows "wp (run_statement (Transaction x)) (\<lambda>_. arranged (Transaction x) s) (upset (Transaction x) s) st"
proof -
  let ?checks = "only_if (\<lambda>st. \<not> strictly_read_only x \<and> (XactReadOnly st \<or> IsInParallelMode st)) (block [
       only_if IsInParallelMode (raise (ERROR (Ereport ''INVALID_TRANSACTION_STATE''))),
       only_if (\<lambda>st. RecoveryInProgress (proc_mode st)) (raise (ERROR (Ereport ''READ_ONLY_SQL_TRANSACTION'')))])"
  have checks: "harmless ?checks" by (auto intro!: harmless_rules)
  have skips: "wp (xbind m (\<lambda>_. skip)) (\<lambda>_. Q) E st' \<longleftrightarrow> wp m (\<lambda>_. Q) E st'" for m :: "'z xact" and Q E st' by simp
  have stmt: "wp (TransactionStmt_case True x) (\<lambda>_. arranged (Transaction x) s) (upset (Transaction x) s) st'"
    if "frames st' = frames st" for st'
  proof -
    have r': "ready (frames st')" "s = session_of (frames st')" "failed (frames st') = failed (frames st)" using that r s by simp_all
    then show ?thesis using ok
      by (cases x) (auto simp only: TransactionStmt_case.simps IsTransactionExitStmt.simps skips simp_thms
          intro!: wp_end_statement wp_savepoint_statement wp_rollback_to_statement wp_prepared_statement wp_begin_statement)
  qed
  have "wp (block [?checks, TransactionStmt_case True x]) (\<lambda>_. arranged (Transaction x) s) (upset (Transaction x) s) st"
    by (rule wp_ConsI, rule harmlessD [OF checks ready_ne [OF r]])
      (auto intro!: stmt simp: upset_same [OF r, folded s])
  then show ?thesis by (simp only: run_statement.simps standard_ProcessUtility_def)
qed


section \<open>The statements of a query\<close>

lemma pending_recoverable: "pending fs \<Longrightarrow> recoverable fs"
proof (induction fs rule: pending.induct)
  case (3 b t nm n l g fs)
  have "recoverable (put_state t ((b, t, nm, n, l) # g # fs))"
    if "prefixed TBLOCK_SUBCOMMIT (lone {TBLOCK_END, TBLOCK_PREPARE}) ((b, t, nm, n, l) # g # fs)" "b = TBLOCK_SUBCOMMIT"
    by (rule prefixed_recoverable [OF that(1)]) (auto intro: lone_recoverable)
  moreover have "recoverable (put_state t ((b, t, nm, n, l) # g # fs))"
    if "prefixed TBLOCK_SUBRELEASE live ((b, t, nm, n, l) # g # fs)"
    using prefixed_release [OF that] .
  ultimately show ?case using 3 live_recoverable [of "g # fs"] by (auto simp: marked_def)
qed auto

fun shallow_statement :: "statement \<Rightarrow> bool" where
  "shallow_statement (Transaction x) = True"
| "shallow_statement (Other acts) = list_all shallow acts"

definition at_statement :: "bool \<Rightarrow> bool \<Rightarrow> frame list \<Rightarrow> bool" where
  "at_statement u xact_started fs \<longleftrightarrow>
     (if xact_started then ready fs \<and> (fst (hd fs) = TBLOCK_IMPLICIT_INPROGRESS \<longrightarrow> u) else between fs)"

fun finished :: "bool \<Rightarrow> statement \<Rightarrow> session_state \<Rightarrow> xact_state \<Rightarrow> bool" where
  "finished u (Transaction x) s st' = arranged (Transaction x) s st'"
| "finished u (Other acts) s st' =
     (ready (frames st') \<and> \<not> failed (frames st') \<and> session_of (frames st') = s
      \<and> (fst (hd (frames st')) = TBLOCK_IMPLICIT_INPROGRESS \<longrightarrow> u))"

lemma finished_Transaction [simp]: "finished u (Transaction x) s = arranged (Transaction x) s"
  by (rule ext) simp

lemma finished_keep: "finished u x s (st\<lparr>clock := n\<rparr>) = finished u x s st"
  by (cases x) (simp_all add: arranged_def top_chain_def)

lemma finished_upset:
  assumes "finished u x s st" "is_ERROR e" "frames st' = frames st"
  shows "upset x s e st'"
proof (cases x)
  case (Transaction y)
  then show ?thesis using assms pending_recoverable by (auto simp: arranged_def upset_def)
next
  case (Other acts)
  then show ?thesis using assms by (auto intro: upset_same)
qed

lemma spoiled_upset:
  assumes "spoiled fs e st'" "ready fs" "\<not> failed fs"
  shows "upset x (session_of fs) e st'"
proof -
  have "recoverable ((TBLOCK_SUBBEGIN, t, None, int (length fs) + 1, 0) # fs)" for t
    using ready_facts(3) [OF assms(2)] by (cases fs) auto
  then show ?thesis using assms ready_ne [OF assms(2)]
    by (auto simp: spoiled_def upset_def ready_facts)
qed

lemma run_frames_mono: "run_frames B fs \<Longrightarrow> B \<subseteq> C \<Longrightarrow> run_frames C fs"
  by (induction B fs rule: run_frames.induct) auto

lemma wp_run_statement:
  assumes r: "ready (frames st)" and sh: "shallow_statement x"
    and ok: "failed (frames st) \<longrightarrow> IsTransactionExitStmt x" and u: "fst (hd (frames st)) = TBLOCK_IMPLICIT_INPROGRESS \<longrightarrow> u"
  shows "wp (run_statement x) (\<lambda>_. finished u x (session_of (frames st))) (upset x (session_of (frames st))) st"
proof (cases x)
  case (Transaction y)
  then show ?thesis using wp_ProcessUtility [OF r refl, of y] ok by simp
next
  case (Other acts)
  then have nf: "\<not> failed (frames st)" using ok by auto
  have tx: "in_transaction (frames st)" using r nf
  proof (cases rule: ready_not_failed)
    case 3
    then show ?thesis by (rule run_frames_mono) auto
  qed auto
  have "wp (block (map exec_act acts)) (\<lambda>_ st'. frames st' = frames st) (spoiled (frames st)) st"
    by (rule wp_acts [OF wp_exec_act [OF tx]]) (use sh Other in \<open>auto simp: list_all_iff\<close>)
  then have "wp (block (map exec_act acts)) (\<lambda>_. finished u x (session_of (frames st))) (upset x (session_of (frames st))) st"
    by (rule wp_mono) (use Other r nf u in \<open>auto intro: spoiled_upset\<close>)
  then show ?thesis using Other by simp
qed

lemma failed_block:
  assumes "ready (frames st) \<or> between (frames st)"
  shows "IsAbortedTransactionBlockState st = failed (frames st)"
proof -
  obtain f fs where fs: "frames st = f # fs"
    using assms ready_ne by (cases "frames st") (auto simp: between_def idle_def)
  then have "IsAbortedTransactionBlockState st \<longleftrightarrow> fst f \<in> {TBLOCK_ABORT, TBLOCK_SUBABORT}"
    using frames_cur [OF fs] by (simp add: IsAbortedTransactionBlockState_def)
  moreover have "fst f \<in> {TBLOCK_ABORT, TBLOCK_SUBABORT} \<longleftrightarrow> failed (f # fs)"
    using assms live_hd [of "f # fs"] fs unfolding between_def ready_def idle_def
    by (cases "f # fs" rule: recoverable.cases) auto
  ultimately show ?thesis using fs by simp
qed

lemma between_cases:
  assumes "between fs"
  obtains "fs = [(TBLOCK_DEFAULT, TRANS_DEFAULT, None, 0, 0)]" | "ready fs" "fst (hd fs) \<noteq> TBLOCK_IMPLICIT_INPROGRESS"
    "fst (hd fs) \<noteq> TBLOCK_DEFAULT" "fst (hd fs) \<noteq> TBLOCK_STARTED"
proof -
  have "fst (hd fs) \<notin> {TBLOCK_IMPLICIT_INPROGRESS, TBLOCK_DEFAULT, TBLOCK_STARTED}" if "live fs \<or> failed fs"
    using that live_hd [of fs] by (cases fs rule: recoverable.cases) auto
  then show ?thesis using assms that by (auto simp: between_def idle_def ready_def)
qed

lemma wp_start_xact_command:
  assumes "at_statement u xact_started (frames st)"
    and Q: "\<And>st'. at_statement u True (frames st') \<Longrightarrow> session_of (frames st') = session_of (frames st) \<Longrightarrow>
       failed (frames st') = failed (frames st) \<Longrightarrow> Q () st'"
    and E: "\<And>e st'. is_ERROR e \<Longrightarrow> frames st' = [(TBLOCK_DEFAULT, TRANS_START, None, 1, 0)] \<Longrightarrow> session_of (frames st) = Idle \<Longrightarrow> E e st'"
  shows "wp (start_xact_command xact_started) Q E st"
proof (cases xact_started)
  case True
  then show ?thesis using assms(1) Q by (simp add: start_xact_command_def)
next
  case False
  then have "between (frames st)" using assms(1) by (simp add: at_statement_def)
  then have "wp StartTransactionCommand Q E st"
  proof (cases rule: between_cases)
    case 1
    have "wp (block [StartTransaction, set_block TBLOCK_STARTED]) Q E st"
      by (intro wp_ConsI wp_Start wp_set_block wp_NilI Q E)
        (use 1 in \<open>auto simp: at_statement_def ready_def session_of_def\<close>)
    then show ?thesis using cur_block [OF 1] by (simp add: StartTransactionCommand_steps)
  next
    case 2
    then have "blockState (cur st) = fst (hd (frames st))" using ready_ne frames_cur by (cases "frames st") auto
    then have "wp StartTransactionCommand Q E st = Q () st"
      using 2 by (intro StartTransactionCommand_steps) (auto elim!: ready_cases dest: live_hd)
    then show ?thesis using 2 Q [of st] by (simp add: at_statement_def)
  qed
  then show ?thesis using False by (simp add: start_xact_command_def)
qed

lemma wp_BeginImplicit:
  assumes r: "at_statement u True (frames st)"
    and Q: "\<And>st'. at_statement u True (frames st') \<Longrightarrow> session_of (frames st') = enter u (session_of (frames st)) \<Longrightarrow>
       failed (frames st') = failed (frames st) \<Longrightarrow> Q () st'"
  shows "wp (only_if (\<lambda>_. u) BeginImplicitTransactionBlock) Q E st"
proof (cases u)
  case True
  have r: "ready (frames st)" using r by (simp add: at_statement_def)
  have cb: "blockState (cur st) = fst (hd (frames st))" using ready_ne [OF r] frames_cur by (cases "frames st") auto
  show ?thesis
  proof (cases "fst (hd (frames st)) = TBLOCK_STARTED")
    case started: True
    have fs: "frames st = [(TBLOCK_STARTED, TRANS_INPROGRESS, None, 1, 0)]"
      using r started by (cases rule: ready_cases) (auto dest: live_hd)
    show ?thesis using cb started True fs
      by (auto simp: BeginImplicitTransactionBlock_def at_statement_def ready_def session_of_def intro!: wp_set_block Q)
  next
    case False
    have "session_of (frames st) \<noteq> Idle" using r False live_hd [of "frames st"] by (cases rule: ready_cases) (auto simp: session_of_def)
    then show ?thesis using cb False True r Q [of st] by (simp add: BeginImplicitTransactionBlock_def at_statement_def)
  qed
qed (use r Q in simp)

lemma fail_enter [simp]: "fail (enter u s) = fail s"
  by (cases s) auto

lemma at_statement_failed: "at_statement u b (frames st) \<Longrightarrow> IsAbortedTransactionBlockState st = failed (frames st)"
  by (rule failed_block) (auto simp: at_statement_def split: if_splits)

lemma failed_ready: "failed fs \<Longrightarrow> ready fs \<and> enter u (session_of fs) = session_of fs"
  by (simp add: ready_def session_of_failed)

lemma upset_fail: "is_ERROR e \<Longrightarrow> recoverable (frames st') \<Longrightarrow> abort_state (frames st') = fail s \<Longrightarrow> upset x s e st'"
  by (simp add: upset_def)

lemma wp_statement:
  assumes r: "at_statement u xact_started (frames st)" and sh: "shallow_statement x"
  defines "s \<equiv> enter u (session_of (frames st))"
  shows "wp (begin_statement u xact_started x) (\<lambda>_. finished u x s) (upset x s) st"
proof -
  let ?Q = "\<lambda>_ :: unit. finished u x s" and ?E = "upset x s"
  have run: "wp (block [run_statement x, external AtStatement]) ?Q ?E st1"
    if "at_statement u True (frames st1)" "session_of (frames st1) = s" "failed (frames st1) \<longrightarrow> IsTransactionExitStmt x" for st1
  proof (rule wp_ConsI, rule wp_mono)
    show "wp (run_statement x) (\<lambda>_. finished u x (session_of (frames st1))) (upset x (session_of (frames st1))) st1"
      by (rule wp_run_statement) (use that sh in \<open>auto simp: at_statement_def\<close>)
    show "wp (block [external AtStatement]) ?Q ?E st2" if "finished u x (session_of (frames st1)) st2" for st2
      using that \<open>session_of (frames st1) = s\<close> finished_upset [of u x s st2]
      by (intro wp_ConsI wp_externalI) (auto simp: finished_keep)
  qed (use that in simp)
  have interrupt: "wp (block [external AtStatement, run_statement x, external AtStatement]) ?Q ?E st1"
    if "at_statement u True (frames st1)" "session_of (frames st1) = s" "failed (frames st1) \<longrightarrow> IsTransactionExitStmt x" for st1
  proof (intro wp_ConsI [of "external AtStatement"] wp_externalI run)
    have "ready (frames st1)" using that(1) by (simp add: at_statement_def)
    then show "upset x s (ERROR e) (st1\<lparr>clock := n\<rparr>)" for e n
      using upset_same [of "frames st1" "st1\<lparr>clock := n\<rparr>" "ERROR e" x] that(2) by simp
  qed (use that in simp_all)
  have start: "wp (block [start_xact_command xact_started, only_if (\<lambda>_. u) BeginImplicitTransactionBlock,
      external AtStatement, run_statement x, external AtStatement]) ?Q ?E st" if "failed (frames st) \<longrightarrow> IsTransactionExitStmt x"
  proof (intro wp_ConsI [of "start_xact_command xact_started"] wp_start_xact_command [OF r])
    fix st1 assume st1: "at_statement u True (frames st1)" "session_of (frames st1) = session_of (frames st)"
      "failed (frames st1) = failed (frames st)"
    show "wp (block [only_if (\<lambda>_. u) BeginImplicitTransactionBlock,
      external AtStatement, run_statement x, external AtStatement]) ?Q ?E st1"
      by (rule wp_ConsI, rule wp_BeginImplicit [OF st1(1)], rule interrupt) (use st1 that in \<open>auto simp: s_def\<close>)
  qed (auto intro!: upset_fail simp: s_def)
  show ?thesis
  proof (cases "failed (frames st) \<and> \<not> IsTransactionExitStmt x")
    case True
    then have "upset x s (ERROR in_failed_transaction) st"
      using failed_ready [of "frames st" u] upset_same [of "frames st" st] by (simp add: s_def)
    then show ?thesis using True at_statement_failed [OF r] by (simp add: begin_statement_def)
  next
    case False
    then show ?thesis using at_statement_failed [OF r] start
      unfolding begin_statement_def by (intro wp_ConsI) auto
  qed
qed


lemma wp_finish_xact:
  assumes "pending (frames st)" "\<And>st'. frames st' = settle (top_chain st) (frames st) \<Longrightarrow> Q () st'"
    "\<And>e st'. failing (frames st) e st' \<Longrightarrow> E e st'"
  shows "wp (finish_xact_command True) Q E st"
  unfolding finish_xact_command_def
  by (simp, rule wp_mono [OF CommitTransactionCommand_settles [OF assms(1)]]) (use assms(2,3) in auto)

lemma between_explicit: "between fs \<Longrightarrow> session_of fs \<noteq> Implicit"
  by (erule between_cases) (auto simp: session_of_def)

lemma cur_hd: "frames st \<noteq> [] \<Longrightarrow> blockState (cur st) = fst (hd (frames st))"
  using frames_cur by (cases "frames st") auto

lemma failing_upset: "failing fs e st' \<Longrightarrow> abort_state fs = fail s \<or> abort_state fs = late_fail x s \<Longrightarrow> upset x s e st'"
  by (auto simp: failing_def upset_def)

lemma arranged_ne: "arranged x s st \<Longrightarrow> frames st \<noteq> []"
  by (auto simp: arranged_def)

lemma wp_last_statement:
  assumes "finished u x s st"
  shows "wp (block [only_if (\<lambda>_. u) EndImplicitTransactionBlock, finish_xact_command True])
     (\<lambda>_ st'. between (frames st') \<and> map_option leave (statement_spec x s) = Some (session_of (frames st')))
     (upset x s) st"
proof (cases x)
  case (Transaction y)
  then have a: "arranged x s st" using assms by simp
  then have "blockState (cur st) \<noteq> TBLOCK_IMPLICIT_INPROGRESS"
    using cur_hd [OF arranged_ne [OF a]] by (simp add: arranged_def)
  moreover have "wp (finish_xact_command True)
     (\<lambda>_ st'. between (frames st') \<and> map_option leave (statement_spec x s) = Some (session_of (frames st')))
     (upset x s) st"
    by (rule wp_finish_xact) (use a in \<open>auto simp: arranged_def dest: between_explicit intro!: failing_upset\<close>)
  ultimately show ?thesis by (simp add: EndImplicitTransactionBlock_def)
next
  case (Other acts)
  then have r: "ready (frames st)" "\<not> failed (frames st)" "session_of (frames st) = s"
     "fst (hd (frames st)) = TBLOCK_IMPLICIT_INPROGRESS \<longrightarrow> u" using assms by auto
  have finish: "wp (finish_xact_command True)
     (\<lambda>_ st'. between (frames st') \<and> map_option leave (statement_spec x s) = Some (session_of (frames st')))
     (upset x s) st1"
    if "frames st1 = [(TBLOCK_STARTED, TRANS_INPROGRESS, None, 1, 0)] \<and> (s = Idle \<or> s = Implicit)
        \<or> live (frames st1) \<and> s = Open (names (frames st1))" for st1
  proof -
    have "pending (frames st1) \<and> abort_state (frames st1) = fail s \<and> other_spec s = Some s
        \<and> between (settle c (frames st1)) \<and> session_of (settle c (frames st1)) = leave s" for c
      using that
    proof
      assume "live (frames st1) \<and> s = Open (names (frames st1))"
      then show ?thesis by (simp add: live_pending session_of_live live_abort_state between_def)
    qed auto
    then show ?thesis by (intro wp_finish_xact) (auto simp: Other intro!: failing_upset)
  qed
  show ?thesis using r(1,2)
  proof (cases rule: ready_not_failed)
    case 1
    have "s = Idle" using r(3) 1 by (simp add: session_of_def)
    then show ?thesis using finish [of st] cur_block [OF 1] 1 by (simp add: EndImplicitTransactionBlock_def)
  next
    case 2
    have "s = Implicit" u using r(3,4) 2 by (simp_all add: session_of_def)
    then show ?thesis using finish cur_block [OF 2] 2
      by (simp add: EndImplicitTransactionBlock_def split del: if_split) (rule wp_set_block, simp split del: if_split)
  next
    case 3
    have "frames st \<noteq> []" using 3 by auto
    then have "blockState (cur st) \<noteq> TBLOCK_IMPLICIT_INPROGRESS" using live_hd [OF 3] cur_hd [of st] by auto
    then show ?thesis using finish [of st] r(3) 3 by (simp add: EndImplicitTransactionBlock_def session_of_live)
  qed
qed


definition broken :: "bool \<Rightarrow> statement list \<Rightarrow> session_state \<Rightarrow> xact_error \<Rightarrow> xact_state \<Rightarrow> bool" where
  "broken u stmts s e st' \<longleftrightarrow> severe e \<or> is_ERROR e \<and> recoverable (frames st')
     \<and> abort_state (frames st') \<in> set (error_spec u stmts s)"

lemma broken_first: "upset x (enter u s) e st' \<Longrightarrow> broken u (x # stmts) s e st'"
  by (auto simp: upset_def broken_def simp del: enter.simps)

lemma broken_rest: "broken u stmts s' e st' \<Longrightarrow> statement_spec x (enter u s) = Some s' \<Longrightarrow> broken u (x # stmts) s e st'"
  by (auto simp: broken_def simp del: enter.simps)

lemma enter_twice [simp]: "enter u (enter u s) = enter u s"
  by simp

lemma wp_exec_statements:
  assumes "at_statement u xact_started (frames st)" "list_all shallow_statement stmts" "stmts \<noteq> []"
  shows "wp (exec_statements u xact_started stmts)
    (\<lambda>started st'. \<not> started \<and> between (frames st')
       \<and> map_option leave (statements_spec u stmts (session_of (frames st))) = Some (session_of (frames st')))
    (broken u stmts (session_of (frames st))) st"
  using assms
proof (induction stmts arbitrary: st xact_started)
  case (Cons x stmts)
  define s where "s = session_of (frames st)"
  let ?Q = "\<lambda>started st'. \<not> started \<and> between (frames st')
       \<and> map_option leave (statements_spec u (x # stmts) s) = Some (session_of (frames st'))"
  let ?E = "broken u (x # stmts) s"
  have first: "wp (begin_statement u xact_started x) (\<lambda>_. finished u x (enter u s)) (upset x (enter u s)) st"
    unfolding s_def by (rule wp_statement) (use Cons in auto)
  have later: "wp (exec_statements u started stmts) ?Q ?E st1"
    if "stmts \<noteq> []" "at_statement u started (frames st1)" "statement_spec x (enter u s) = Some (session_of (frames st1))" for started st1
    by (rule wp_mono [OF Cons(1)]) (use that Cons(3) in \<open>auto intro: broken_rest simp del: enter.simps\<close>)
  have "wp (if stmts = [] then
         xbind (block [only_if (\<lambda>_. u) EndImplicitTransactionBlock, finish_xact_command True]) (\<lambda>_. ret False)
       else if is_TransactionStmt x then
         xbind (finish_xact_command True) (\<lambda>_. exec_statements u False stmts)
       else xbind CommandCounterIncrement (\<lambda>_. exec_statements u True stmts)) ?Q ?E st1"
    if "finished u x (enter u s) st1" for st1
  proof -
    consider "stmts = []" | y where "stmts \<noteq> []" "x = Transaction y" | acts where "stmts \<noteq> []" "x = Other acts"
      by (cases x) auto
    then show ?thesis
    proof cases
      case 1
      have "wp (block [only_if (\<lambda>_. u) EndImplicitTransactionBlock, finish_xact_command True]) (\<lambda>_. ?Q False) ?E st1"
      proof (rule wp_mono [OF wp_last_statement [OF that]])
        have "statements_spec u (x # stmts) s = statement_spec x (enter u s)"
          using 1 by (simp del: enter.simps split: option.split)
        then show "?Q False st2"
          if "between (frames st2) \<and> map_option leave (statement_spec x (enter u s)) = Some (session_of (frames st2))" for st2
          using that by (simp only: simp_thms)
      qed (rule broken_first)
      then show ?thesis using 1 by (simp only: wp_xbind wp_no_op if_True simp_thms)
    next
      case 2
      then have a: "arranged x (enter u s) st1" using that by simp
      have "wp (finish_xact_command True) (\<lambda>_. wp (exec_statements u False stmts) ?Q ?E) ?E st1"
      proof (rule wp_finish_xact)
        show "pending (frames st1)" using a by (simp add: arranged_def)
        show "wp (exec_statements u False stmts) ?Q ?E st2" if "frames st2 = settle (top_chain st1) (frames st1)" for st2
        proof (rule later [OF 2(1)])
          show "at_statement u False (frames st2)" using that a unfolding arranged_def at_statement_def by simp
          show "statement_spec x (enter u s) = Some (session_of (frames st2))" using a unfolding arranged_def that by blast
        qed
        show "?E e st2" if "failing (frames st1) e st2" for e st2
          by (rule broken_first, rule failing_upset [OF that]) (use a in \<open>simp add: arranged_def del: enter.simps\<close>)
      qed
      then show ?thesis using 2 by simp
    next
      case 3
      then have r: "ready (frames st1)" "\<not> failed (frames st1)" "session_of (frames st1) = enter u s" "at_statement u True (frames st1)"
        using that by (auto simp: at_statement_def simp del: enter.simps)
      have "other_spec (enter u s) = Some (enter u s)"
        using r(1,2) live_hd [of "frames st1"] unfolding r(3) [symmetric]
        by (cases rule: ready_not_failed) (auto simp: session_of_def)
      then have spec: "statement_spec x (enter u s) = Some (enter u s)" using 3(2) by simp
      have "wp CommandCounterIncrement (\<lambda>_. wp (exec_statements u True stmts) ?Q ?E) ?E st1"
      proof (rule harmlessD [OF harmless_CommandCounterIncrement ready_ne [OF r(1)]])
        show "wp (exec_statements u True stmts) ?Q ?E st2" if "frames st2 = frames st1" for st2
          by (rule later [OF 3(1)]) (use that r spec in \<open>simp_all del: enter.simps\<close>)
        show "?E e st2" if "is_ERROR e" "frames st2 = frames st1" for e st2
          by (rule broken_first) (use that upset_same [OF r(1)] r(3) in metis)
      qed
      then show ?thesis using 3 by simp
    qed
  qed
  then show ?case unfolding s_def [symmetric] exec_statements.simps wp_xbind
    by (intro wp_mono [OF first]) (auto intro: broken_first)
qed simp


fun shallow_query :: "statement list result \<Rightarrow> bool" where
  "shallow_query (Inl e) = True"
| "shallow_query (Inr stmts) = list_all shallow_statement stmts"

definition query_broken :: "statement list result \<Rightarrow> session_state \<Rightarrow> xact_error \<Rightarrow> xact_state \<Rightarrow> bool" where
  "query_broken query s e st' \<longleftrightarrow> severe e \<or> is_ERROR e \<and> recoverable (frames st')
     \<and> abort_state (frames st') \<in> set (query_errors query s)"

lemma query_broken_fail:
  "is_ERROR e \<Longrightarrow> recoverable (frames st') \<Longrightarrow> abort_state (frames st') = fail s \<Longrightarrow> query_broken query s e st'"
  by (cases query) (simp_all add: query_broken_def)

lemma wp_empty_query:
  assumes "at_statement False True (frames st)"
  shows "wp (finish_xact_command True)
    (\<lambda>_ st'. between (frames st') \<and> query_spec (Inr []) (session_of (frames st)) = Some (session_of (frames st')))
    (query_broken (Inr []) (session_of (frames st))) st"
proof -
  have r: "ready (frames st)" "fst (hd (frames st)) \<noteq> TBLOCK_IMPLICIT_INPROGRESS" using assms by (simp_all add: at_statement_def)
  have "between (settle c (frames st)) \<and> leave (session_of (frames st)) = session_of (settle c (frames st))" for c
    using r(1)
  proof (cases rule: ready_cases)
    case live
    then show ?thesis by (simp add: live_pending session_of_live between_def)
  next
    case (failed_sub nm gs)
    then have "failed (frames st)" by (simp add: Cons_live)
    then show ?thesis by (simp add: failed_pending session_of_failed between_def)
  qed (use r(2) in \<open>auto simp: between_def idle_def ended_def session_of_def names_def\<close>)
  then show ?thesis
    by (intro wp_finish_xact) (auto simp: failing_def query_broken_def ready_facts [OF r(1)] simp del: leave.simps)
qed

lemma wp_exec_simple_query:
  assumes "between (frames st)" "shallow_query query"
  shows "wp (exec_simple_query query)
    (\<lambda>_ st'. between (frames st') \<and> query_spec query (session_of (frames st)) = Some (session_of (frames st')))
    (query_broken query (session_of (frames st))) st"
  unfolding exec_simple_query_def wp_xbind
proof (rule wp_start_xact_command)
  let ?Q = "\<lambda>_ st'. between (frames st') \<and> query_spec query (session_of (frames st)) = Some (session_of (frames st'))"
  let ?E = "query_broken query (session_of (frames st))"
  show "at_statement False False (frames st)" using assms(1) by (simp add: at_statement_def)
  show "?E e st'" if "is_ERROR e" "frames st' = [(TBLOCK_DEFAULT, TRANS_START, None, 1, 0)]" "session_of (frames st) = Idle" for e st'
    by (rule query_broken_fail) (use that in auto)
  fix st1 assume st1: "at_statement False True (frames st1)" "session_of (frames st1) = session_of (frames st)"
  then have r: "ready (frames st1)" by (simp add: at_statement_def)
  consider (parse) e where "query = Inl e" | (empty) "query = Inr []" | (some) stmts where "query = Inr stmts" "stmts \<noteq> []"
    by (cases query) auto
  then show "wp (case query of Inl e \<Rightarrow> raise (ERROR e)
      | Inr stmts \<Rightarrow> xbind (exec_statements (length stmts > 1) True stmts) finish_xact_command) ?Q ?E st1"
  proof cases
    case parse
    then show ?thesis using r st1(2) by (auto intro!: query_broken_fail simp: ready_facts)
  next
    case empty
    then show ?thesis using wp_empty_query [OF st1(1)] st1(2) by simp
  next
    case some
    let ?u = "length stmts > 1"
    have "wp (exec_statements ?u True stmts) (\<lambda>started. wp (finish_xact_command started) ?Q ?E) ?E st1"
    proof (rule wp_mono)
      show "wp (exec_statements ?u True stmts)
        (\<lambda>started st'. \<not> started \<and> between (frames st')
          \<and> map_option leave (statements_spec ?u stmts (session_of (frames st1))) = Some (session_of (frames st')))
        (broken ?u stmts (session_of (frames st1))) st1"
        by (rule wp_exec_statements) (use st1(1) some assms(2) in \<open>auto simp: at_statement_def\<close>)
      show "wp (finish_xact_command started) ?Q ?E st2"
        if "\<not> started \<and> between (frames st2)
          \<and> map_option leave (statements_spec ?u stmts (session_of (frames st1))) = Some (session_of (frames st2))" for started st2
        using that some(1) st1(2) by (simp add: finish_xact_command_def)
      show "?E e st2" if "broken ?u stmts (session_of (frames st1)) e st2" for e st2
        using that some(1) st1(2) by (auto simp: broken_def query_broken_def)
    qed
    then show ?thesis using some(1) by simp
  qed
qed

lemma wp_serve_query:
  assumes "between (frames st)" "shallow_query query"
  shows "wp (serve_query query)
    (\<lambda>answer st'. between (frames st') \<and> (case answer of
       None \<Rightarrow> query_spec query (session_of (frames st)) = Some (session_of (frames st'))
     | Some e \<Rightarrow> session_of (frames st') \<in> set (query_errors query (session_of (frames st)))))
    (\<lambda>e _. severe e) st"
proof -
  let ?Q = "\<lambda>answer st'. between (frames st') \<and> (case answer of
       None \<Rightarrow> query_spec query (session_of (frames st)) = Some (session_of (frames st'))
     | Some e \<Rightarrow> session_of (frames st') \<in> set (query_errors query (session_of (frames st))))"
  have recover: "wp AbortCurrentTransaction (\<lambda>_. ?Q (Some x)) (\<lambda>e _. severe e) st'"
    if "query_broken query (session_of (frames st)) (ERROR x) st'" for x st'
    by (rule wp_mono [OF AbortCurrentTransaction_recovers])
      (use that in \<open>auto simp: query_broken_def aborted_from_def between_def\<close>)
  show ?thesis unfolding serve_query_def wp_pg_try wp_xbind
  proof (rule wp_mono [OF wp_exec_simple_query [OF assms]])
    fix e st' assume b: "query_broken query (session_of (frames st)) e st'"
    show "case e of ERROR x \<Rightarrow> wp AbortCurrentTransaction (\<lambda>_. wp (ret (Some x)) ?Q (\<lambda>e _. severe e)) (\<lambda>e _. severe e) st'
        | _ \<Rightarrow> severe e"
      using b recover by (cases e) (auto simp: query_broken_def)
  qed simp
qed

end
