(* ===== verification/SessionProps.thy ===== *)
theory SessionProps
  imports Session
begin

text \<open>
  What the session's proofs give: it refines the machine of \<open>Session\<close>, a failed block refuses statements,
  exception blocks keep errors to themselves, every transaction can be left, and what COMMIT AND CHAIN
  hands on.
\<close>

section \<open>Sessions from the start of a backend\<close>

text \<open>The static initial values of \<open>xact.c\<close>.\<close>

definition fresh_backend :: "process_mode \<Rightarrow> VariableCacheData \<Rightarrow> xact_log \<Rightarrow> (nat \<Rightarrow> xact_site \<Rightarrow> ext_answer) \<Rightarrow> xact_state" where
  "fresh_backend m cache log env =
     \<lparr>XactTopFullTransactionId = 0, ParallelCurrentXids = [],
      transactionStack =
        [\<lparr>fullTransactionId = 0, subTransactionId = 0, ts_name = None, savepointLevel = 0, ts_state = TRANS_DEFAULT,
          blockState = TBLOCK_DEFAULT, nestingLevel = 0, curTransactionOwner = False, childXids = [], maxChildXids = 0,
          prevXactReadOnly = False, startedInRecovery = False, didLogXid = False, parallelModeLevel = 0, chain = False\<rparr>],
      currentSubTransactionId = 0, currentCommandId = 0, currentCommandIdUsed = False, forceSyncCommit = False,
      MyXactFlags = 0, XactIsoLevel = 0, XactReadOnly = False, XactDeferrable = False, DefaultXactIsoLevel = 1,
      DefaultXactReadOnly = False, DefaultXactDeferrable = False, save_XactIsoLevel = 0, save_XactReadOnly = False,
      save_XactDeferrable = False, prepareGID = None, unreportedXids = [], xact_assignments = [],
      synchronous_commit = True, XLogStandbyInfoActive = True, XLogLogicalInfoActive = False, XactLastRecEnd = 0,
      IsParallelWorker = False, proc_mode = m, ShmemVariableCache = cache,
      MyProc = \<lparr>proc_xid = 0, proc_subxids = [], proc_overflowed = False\<rparr>, outcome_log = log,
      outcome_cache = \<lparr>cachedFetchXid = 0, cachedFetchXidStatus = 0, cachedCommitLSN = 0\<rparr>, clock = 0, answers = env\<rparr>"

text \<open>For examples: an environment without errors, and a young cluster.\<close>

definition calm :: "nat \<Rightarrow> xact_site \<Rightarrow> ext_answer" where
  "calm t site = \<lparr>ext_error = None, ext_nrels = 0, ext_lsn = 100, ext_others = 0, ext_snapshot_set = False\<rparr>"

definition fail_at :: "xact_site \<Rightarrow> nat \<Rightarrow> nat \<Rightarrow> xact_site \<Rightarrow> ext_answer" where
  "fail_at site n t site' = (calm t site')\<lparr>ext_error :=
     if site' = site \<and> n \<le> t then Some (Ereport ''OUT_OF_MEMORY'') else None\<rparr>"

definition young_backend :: "(nat \<Rightarrow> xact_site \<Rightarrow> ext_answer) \<Rightarrow> xact_state" where
  "young_backend env = fresh_backend
     \<lparr>IsUnderPostmaster = True, IsPostmasterEnvironment = True, IsBootstrapProcessingMode = False, RecoveryInProgress = False\<rparr>
     \<lparr>nextOid = 20000, oidCount = 0, nextXid = 800, oldestXid = 3, xidVacLimit = 200000003, xidWarnLimit = 2107483650,
      xidStopLimit = 2144483650, xidWrapLimit = 2147483650, oldestXidDB = 1, oldestClogXid = 3\<rparr>
     \<lparr>xl_clog = \<lparr>page_buffer = (\<lambda>_ _. 0), group_lsn = (\<lambda>_ _. 0)\<rparr>, xl_subtrans = (\<lambda>_ _. 0), xl_xmin = 800\<rparr> env"

lemma young_idle [simp]: "frames (young_backend env) = [(TBLOCK_DEFAULT, TRANS_DEFAULT, None, 0, 0)]"
  by (simp add: young_backend_def fresh_backend_def frames_def view_def)

lemma young_between [simp]: "between (frames (young_backend env))" "session_of [(TBLOCK_DEFAULT, r)] = Idle"
  by (simp_all add: between_def idle_def session_of_def)

declare TransactionIdDidCommit.simps [code]

section \<open>Refinement\<close>

text \<open>The states the specification allows after the queries with these replies.\<close>

fun session_spec :: "statement list result list \<Rightarrow> pg_error option list \<Rightarrow> session_state \<Rightarrow> session_state list" where
  "session_spec [] [] s = [s]"
| "session_spec (query # queries) (None # replies) s =
     (case query_spec query s of None \<Rightarrow> [] | Some s' \<Rightarrow> session_spec queries replies s')"
| "session_spec (query # queries) (Some e # replies) s =
     concat (map (session_spec queries replies) (query_errors query s))"
| "session_spec _ _ s = []"

lemma wp_serve_session:
  assumes "between (frames st)" "list_all shallow_query queries"
  shows "wp (serve_session queries)
    (\<lambda>replies st'. between (frames st')
       \<and> session_of (frames st') \<in> set (session_spec queries replies (session_of (frames st))))
    (\<lambda>e _. severe e) st"
  using assms
proof (induction queries arbitrary: st)
  case (Cons query queries)
  have rest: "wp (serve_session queries)
      (\<lambda>replies st''. between (frames st'')
         \<and> session_of (frames st'') \<in> set (session_spec queries replies (session_of (frames st'))))
      (\<lambda>e _. severe e) st'" if "between (frames st')" for st'
    using Cons(1) [OF that] Cons(3) by simp
  show ?case unfolding serve_session.simps wp_xbind
  proof (rule wp_mono [OF wp_serve_query])
    fix answer :: "pg_error option" and st' assume a: "between (frames st') \<and> (case answer of
        None \<Rightarrow> query_spec query (session_of (frames st)) = Some (session_of (frames st'))
      | Some e \<Rightarrow> session_of (frames st') \<in> set (query_errors query (session_of (frames st))))"
    show "wp (serve_session queries) (\<lambda>x. wp (ret (answer # x))
        (\<lambda>replies st'. between (frames st')
           \<and> session_of (frames st') \<in> set (session_spec (query # queries) replies (session_of (frames st))))
        (\<lambda>e _. severe e)) (\<lambda>e _. severe e) st'"
      by (rule wp_mono [OF rest]) (use a in \<open>auto split: option.splits\<close>)
  qed (use Cons in auto)
qed simp



section \<open>What a failed block refuses\<close>

text \<open>C12. Every statement but COMMIT, PREPARE, ROLLBACK and ROLLBACK TO is refused in a failed block,
  with no change of the backend's state at all, so the savepoints stay available.\<close>

theorem failed_block_refuses:
  assumes "failed (frames st)" "\<not> IsTransactionExitStmt stmt"
  shows "serve_query (Inr (stmt # stmts)) st = (Inr (Some in_failed_transaction), st)"
proof -
  have b: "blockState (cur st) = TBLOCK_ABORT \<or> blockState (cur st) = TBLOCK_SUBABORT"
    using failed_block [of st] assms(1) by (simp add: ready_def IsAbortedTransactionBlockState_def)
  then have start: "start_xact_command False st = (Inr (), st)"
    by (auto simp: start_xact_command_def StartTransactionCommand_def ret_def)
  have "begin_statement u True stmt st = (Inl (ERROR in_failed_transaction), st)" for u
    using b assms(2) by (auto simp: begin_statement_def test_def raise_def IsAbortedTransactionBlockState_def)
  then have "exec_simple_query (Inr (stmt # stmts)) st = (Inl (ERROR in_failed_transaction), st)"
    using start by (simp add: exec_simple_query_def xbind_def)
  moreover have "AbortCurrentTransaction st = (Inr (), st)"
    using b by (auto simp: AbortCurrentTransaction.simps [of st] ret_def)
  ultimately show ?thesis by (simp add: serve_query_def pg_try_def xbind_def ret_def)
qed


theorem failed_block_refuses_witness:
  "let st = snd (serve_session [Inr [Transaction (TRANS_STMT_BEGIN [])], Inr [Transaction (TRANS_STMT_SAVEPOINT ''a'')],
       Inr [Other [Throw (Elog ''x'')]]] (young_backend calm));
     queries = Inr [Transaction (TRANS_STMT_SAVEPOINT ''b''), Transaction (TRANS_STMT_COMMIT False)]
   in session_of (frames st) = Failed [Some ''a''] \<and> serve_query queries st = (Inr (Some in_failed_transaction), st)"
proof -
  define st where "st = snd (serve_session [Inr [Transaction (TRANS_STMT_BEGIN [])], Inr [Transaction (TRANS_STMT_SAVEPOINT ''a'')],
       Inr [Other [Throw (Elog ''x'')]]] (young_backend calm))"
  have "failed (frames st) \<and> session_of (frames st) = Failed [Some ''a'']" unfolding st_def by code_simp
  then show ?thesis unfolding Let_def st_def [symmetric]
    by (intro conjI failed_block_refuses) simp_all
qed

section \<open>Leaving a transaction\<close>

text \<open>Every stack the code builds, in whichever state an error left it.\<close>

fun stacked :: "frame list \<Rightarrow> bool" where
  "stacked [] = False"
| "stacked [(b, t, nm, n, l)] =
     (nm = None \<and> l = 0 \<and> (b = TBLOCK_DEFAULT \<longrightarrow> t = TRANS_DEFAULT \<and> n = 0 \<or> t = TRANS_START)
      \<and> (b \<in> {TBLOCK_ABORT, TBLOCK_ABORT_END} \<longrightarrow> t = TRANS_ABORT)
      \<and> b \<notin> marked \<union> {TBLOCK_SUBINPROGRESS, TBLOCK_SUBABORT})"
| "stacked ((b, r) # g # fs) = (b \<in> marked \<union> {TBLOCK_SUBINPROGRESS, TBLOCK_SUBABORT}
      \<and> fst g \<noteq> TBLOCK_DEFAULT \<and> stacked (g # fs))"

lemma AbortOut_default:
  assumes "blockState (cur st) = TBLOCK_DEFAULT"
  shows "AbortOutOfAnyTransaction st = abort_default st"
  by (subst AbortOutOfAnyTransaction.simps) (simp add: assms)

lemma AbortOut_ended:
  assumes "blockState (cur st) \<in> {TBLOCK_ABORT, TBLOCK_ABORT_END}"
  shows "AbortOutOfAnyTransaction st = block [CleanupTransaction, set_block TBLOCK_DEFAULT] st"
  using assms by (subst AbortOutOfAnyTransaction.simps) (elim insertE emptyE; simp)

lemma AbortOut_running:
  assumes "blockState (cur st) \<in> {TBLOCK_STARTED, TBLOCK_BEGIN, TBLOCK_INPROGRESS, TBLOCK_IMPLICIT_INPROGRESS,
     TBLOCK_PARALLEL_INPROGRESS, TBLOCK_END, TBLOCK_ABORT_PENDING, TBLOCK_PREPARE}"
  shows "AbortOutOfAnyTransaction st = abort_to_default st"
  using assms by (subst AbortOutOfAnyTransaction.simps) (elim insertE emptyE; simp)

lemma AbortOut_sub:
  assumes "blockState (cur st) \<in> {TBLOCK_SUBBEGIN, TBLOCK_SUBINPROGRESS, TBLOCK_SUBRELEASE, TBLOCK_SUBCOMMIT,
     TBLOCK_SUBABORT_PENDING, TBLOCK_SUBRESTART}"
  shows "wp AbortOutOfAnyTransaction Q E st =
     wp abort_and_cleanup_sub (\<lambda>_ st'. if blockState (cur st') = TBLOCK_DEFAULT then Q () st'
       else wp AbortOutOfAnyTransaction Q E st') E st"
proof -
  have "AbortOutOfAnyTransaction st = (case abort_and_cleanup_sub st of
      (Inl e, st) \<Rightarrow> (Inl e, st)
    | (Inr _, st) \<Rightarrow> if blockState (cur st) = TBLOCK_DEFAULT then (Inr (), st) else AbortOutOfAnyTransaction st)"
    using assms by (subst AbortOutOfAnyTransaction.simps) (elim insertE emptyE; simp)
  then show ?thesis by (simp add: wp_def split: prod.split sum.split)
qed

lemma AbortOut_subended:
  assumes "blockState (cur st) \<in> {TBLOCK_SUBABORT, TBLOCK_SUBABORT_END, TBLOCK_SUBABORT_RESTART}"
  shows "wp AbortOutOfAnyTransaction Q E st =
     wp CleanupSubTransaction (\<lambda>_ st'. if blockState (cur st') = TBLOCK_DEFAULT then Q () st'
       else wp AbortOutOfAnyTransaction Q E st') E st"
proof -
  have "AbortOutOfAnyTransaction st = (case CleanupSubTransaction st of
      (Inl e, st) \<Rightarrow> (Inl e, st)
    | (Inr _, st) \<Rightarrow> if blockState (cur st) = TBLOCK_DEFAULT then (Inr (), st) else AbortOutOfAnyTransaction st)"
    using assms by (subst AbortOutOfAnyTransaction.simps) (elim insertE emptyE; simp)
  then show ?thesis by (simp add: wp_def split: prod.split sum.split)
qed

lemma wp_AbortOut:
  assumes "stacked (frames st)"
  shows "wp AbortOutOfAnyTransaction (\<lambda>_ st'. idle (frames st')) (\<lambda>e _. severe e) st"
  using assms
proof (induction "frames st" arbitrary: st rule: stacked.induct)
  case (2 b t nm n l)
  note fs = 2(1) [symmetric] and cb = cur_block [OF 2(1) [symmetric]]
  consider (default) "b = TBLOCK_DEFAULT" | (ended) "b \<in> {TBLOCK_ABORT, TBLOCK_ABORT_END}"
    | (running) "b \<in> {TBLOCK_STARTED, TBLOCK_BEGIN, TBLOCK_INPROGRESS, TBLOCK_IMPLICIT_INPROGRESS,
     TBLOCK_PARALLEL_INPROGRESS, TBLOCK_END, TBLOCK_ABORT_PENDING, TBLOCK_PREPARE}"
    using 2(2) unfolding fs by (cases b) (auto simp: marked_def)
  then show ?case
  proof cases
    case default
    then have "wp abort_default (\<lambda>_ st'. idle (frames st')) (\<lambda>e _. severe e) st"
      using 2(2) fs by (intro wp_abort_default [where t = t and n = n]) auto
    then show ?thesis using cb default by (simp add: AbortOut_default wp_def)
  next
    case ended
    then have "wp (block [CleanupTransaction, set_block TBLOCK_DEFAULT]) (\<lambda>_ st'. idle (frames st')) (\<lambda>e _. severe e) st"
      using 2(2) fs by (intro wp_ConsI wp_Cleanup wp_set_block wp_NilI) (auto simp: idle_def)
    then show ?thesis using AbortOut_ended [of st] cb ended by (simp add: wp_def)
  next
    case running
    then have "wp abort_to_default (\<lambda>_ st'. idle (frames st')) (\<lambda>e _. severe e) st"
      using 2(2) fs by (intro wp_abort_to_default) (auto simp: idle_def)
    then show ?thesis using AbortOut_running [of st] cb running by (simp add: wp_def)
  qed
next
  case (3 b r g fs)
  note fs = 3(2) [symmetric]
  have cb: "blockState (cur st) = b" using frames_cur [OF fs] by simp
  have b: "b \<in> marked \<union> {TBLOCK_SUBINPROGRESS, TBLOCK_SUBABORT}" "fst g \<noteq> TBLOCK_DEFAULT" "stacked (g # fs)"
    using 3(3) unfolding fs by (cases r; simp)+
  let ?k = "\<lambda>(_ :: unit) st'. if blockState (cur st') = TBLOCK_DEFAULT then idle (frames st')
       else wp AbortOutOfAnyTransaction (\<lambda>_ st'. idle (frames st')) (\<lambda>e _. severe e) st'"
  have rest: "?k () st'" if "frames st' = g # fs" for st'
    using 3(1) [of st'] that frames_cur [OF that] b by simp
  consider (abort) "b \<in> {TBLOCK_SUBBEGIN, TBLOCK_SUBINPROGRESS, TBLOCK_SUBRELEASE, TBLOCK_SUBCOMMIT,
     TBLOCK_SUBABORT_PENDING, TBLOCK_SUBRESTART}" | (clean) "b \<in> {TBLOCK_SUBABORT, TBLOCK_SUBABORT_END, TBLOCK_SUBABORT_RESTART}"
    using b(1) by (auto simp: marked_def)
  then show ?case
  proof cases
    case abort
    have "wp abort_and_cleanup_sub ?k (\<lambda>e _. severe e) st"
      by (rule wp_abort_and_cleanup; (rule rest)?; simp add: fs)
    then show ?thesis using abort cb by (simp only: AbortOut_sub)
  next
    case clean
    have "wp CleanupSubTransaction ?k (\<lambda>e _. severe e) st"
      by (rule wp_CleanupSub; (rule rest)?; simp add: fs)
    then show ?thesis using clean cb by (simp only: AbortOut_subended)
  qed
qed simp


text \<open>In the example the start of the inner of two nested exception blocks fails, after which the
  handler of the outer one ends the backend.\<close>

definition nested_blocks :: statement where
  "nested_blocks = Other [ExceptionBlock [ExceptionBlock [] []] [(\<lambda>_. True, [])]]"



section \<open>Chained transactions\<close>

definition characteristics :: "xact_state \<Rightarrow> int \<times> bool \<times> bool" where
  "characteristics st = (XactIsoLevel st, XactReadOnly st, XactDeferrable st)"

definition saved :: "xact_state \<Rightarrow> int \<times> bool \<times> bool" where
  "saved st = (save_XactIsoLevel st, save_XactReadOnly st, save_XactDeferrable st)"

lemma saved_records: "keeps saved (RecordTransactionAbort b)" "keeps saved RecordTransactionCommit"
  by (auto simp: keeps_def RecordTransactionAbort_def RecordTransactionCommit_def Let_def ret_def raise_def ask_def
      saved_def split: option.splits prod.splits bool.splits)

lemma saved_external: "keeps saved (external site)"
  by (rule keeps_basic(4)) (simp add: saved_def)

lemma saved_modify: "(\<And>st. saved (g st) = saved st) \<Longrightarrow> keeps saved (modify g)"
  by (rule keeps_basic(3))

lemma saved_set_cur: "keeps saved (set_cur f)"
  by (simp add: set_cur_def saved_modify saved_def)

lemmas saved_rules = keeps_block keeps_basic(1,2) keeps_test keeps_bind saved_set_cur saved_records saved_external
  saved_modify

lemma saved_operations:
  "keeps saved CommitTransaction" "keeps saved AbortTransaction" "keeps saved CleanupTransaction"
  "keeps saved StartTransaction"
  unfolding CommitTransaction_def AbortTransaction_def CleanupTransaction_def forget_transaction_def EnterParallelMode_def
    ProcArrayEndTransaction_def StartTransaction_def
  by (auto intro!: saved_rules simp: saved_def)

text \<open>The top transaction alone in block state \<open>b\<close>, marked for a chained end.\<close>

definition chained :: "TBlockState \<Rightarrow> TransState set \<Rightarrow> int \<times> bool \<times> bool \<Rightarrow> xact_state \<Rightarrow> bool" where
  "chained b T c st \<longleftrightarrow> (\<exists>t \<in> T. \<exists>n. frames st = [(b, t, None, n, 0)]) \<and> top_chain st \<and> saved st = c"

lemma chained_step:
  assumes "chained b T c st" "keeps saved m" "keeps top_chain m"
    "\<And>t n. t \<in> T \<Longrightarrow> frames st = [(b, t, None, n, 0)] \<Longrightarrow>
       wp m (\<lambda>_ st'. \<exists>t \<in> T'. \<exists>n. frames st' = [(b', t, None, n, 0)]) (\<lambda>_ _. True) st"
  shows "wp m (\<lambda>_. chained b' T' c) (\<lambda>_ _. True) st"
proof -
  have "wp m (\<lambda>_ st'. \<exists>t \<in> T'. \<exists>n. frames st' = [(b', t, None, n, 0)]) (\<lambda>_ _. True) st"
    using assms(1,4) by (auto simp: chained_def)
  then show ?thesis
    by (rule wp_mono [OF wp_keeps [OF assms(2) wp_keeps [OF assms(3)]]])
      (use assms(1) in \<open>auto simp: chained_def\<close>)
qed

lemma chained_ends:
  "chained b T c st \<Longrightarrow> wp CommitTransaction (\<lambda>_. chained b UNIV c) (\<lambda>_ _. True) st"
  "chained b T c st \<Longrightarrow> wp AbortTransaction (\<lambda>_. chained b {TRANS_ABORT} c) (\<lambda>_ _. True) st"
  "chained b {TRANS_ABORT} c st \<Longrightarrow> wp CleanupTransaction (\<lambda>_. chained b UNIV c) (\<lambda>_ _. True) st"
  "chained b T c st \<Longrightarrow> wp (set_block b') (\<lambda>_. chained b' T c) (\<lambda>_ _. True) st"
proof -
  show "chained b T c st \<Longrightarrow> wp CommitTransaction (\<lambda>_. chained b UNIV c) (\<lambda>_ _. True) st"
    by (erule chained_step) (auto intro!: wp_Commit saved_operations chain_operations)
  show "chained b T c st \<Longrightarrow> wp AbortTransaction (\<lambda>_. chained b {TRANS_ABORT} c) (\<lambda>_ _. True) st"
    by (erule chained_step) (auto intro!: wp_Abort saved_operations chain_operations)
  show "chained b {TRANS_ABORT} c st \<Longrightarrow> wp CleanupTransaction (\<lambda>_. chained b UNIV c) (\<lambda>_ _. True) st"
    by (erule chained_step) (auto intro!: wp_Cleanup saved_operations chain_operations)
  show "chained b T c st \<Longrightarrow> wp (set_block b') (\<lambda>_. chained b' T c) (\<lambda>_ _. True) st"
    by (erule chained_step) (auto intro!: wp_set_block saved_set_cur chain_set_cur)
qed

text \<open>What the next transaction of the chain begins with.\<close>

definition continues :: "int \<times> bool \<times> bool \<Rightarrow> xact_state \<Rightarrow> bool" where
  "continues c st \<longleftrightarrow> frames st = [(TBLOCK_INPROGRESS, TRANS_INPROGRESS, None, 1, 0)]
     \<and> characteristics st = c \<and> \<not> chain (cur st)"

lemma start_chained_continues:
  assumes "chained TBLOCK_DEFAULT T c st"
  shows "wp start_chained (\<lambda>_. continues c) (\<lambda>_ _. True) st"
proof -
  obtain t n where f: "frames st = [(TBLOCK_DEFAULT, t, None, n, 0)]" using assms by (auto simp: chained_def)
  have c: "chain (cur st)" using assms f by (auto simp: chained_def top_chain_def elim: framesE)
  have "wp StartTransaction (\<lambda>_ st'. saved st' = c \<and> frames st' = [(TBLOCK_DEFAULT, TRANS_INPROGRESS, None, 1, 0)])
     (\<lambda>_ _. True) st"
    by (rule wp_mono [OF wp_keeps [OF saved_operations(4) StartTransaction_frames [OF f]]])
      (use assms in \<open>simp_all add: chained_def\<close>)
  moreover have "wp (block [set_block TBLOCK_INPROGRESS, set_cur (\<lambda>s. s\<lparr>chain := False\<rparr>), RestoreTransactionCharacteristics])
      (\<lambda>_. continues c) (\<lambda>_ _. True) st'"
    if "saved st' = c" "frames st' = [(TBLOCK_DEFAULT, TRANS_INPROGRESS, None, 1, 0)]" for st'
    using that by (auto elim!: framesE simp: set_cur_def RestoreTransactionCharacteristics_def continues_def
        frames_def view_def saved_def characteristics_def cur_def)
  ultimately show ?thesis using c
    by (auto simp: start_chained_def elim!: wp_mono simp del: wp_statements(3) intro: wp_ConsI)
qed

text \<open>Marked for a chained end, with the characteristics still in place.\<close>

definition ending :: "int \<times> bool \<times> bool \<Rightarrow> xact_state \<Rightarrow> bool" where
  "ending c st \<longleftrightarrow> characteristics st = c \<and> chain (cur st) \<and> (\<exists>b t n. frames st = [(b, t, None, n, 0)] \<and>
     (b \<in> {TBLOCK_END, TBLOCK_ABORT_PENDING} \<or> b = TBLOCK_ABORT_END \<and> t = TRANS_ABORT))"

lemma clock_irrelevant [simp]:
  "ending c (st\<lparr>clock := n\<rparr>) = ending c st" "characteristics (st\<lparr>clock := n\<rparr>) = characteristics st"
  by (simp_all add: ending_def characteristics_def cur_def)

lemma wp_commit_chained:
  assumes "ending (characteristics st) st"
  shows "wp CommitTransactionCommand (\<lambda>_. continues (characteristics st)) (\<lambda>_ _. True) st"
proof -
  from assms obtain b t n where f: "frames st = [(b, t, None, n, 0)]" and ch: "chain (cur st)"
    and b: "b \<in> {TBLOCK_END, TBLOCK_ABORT_PENDING} \<or> b = TBLOCK_ABORT_END \<and> t = TRANS_ABORT"
    by (auto simp: ending_def)
  define st1 where "st1 = snd (commit_prologue st)"
  have "chain (last (transactionStack st))" "saved st1 = characteristics st" "transactionStack st1 = transactionStack st"
    using f ch by (auto simp: st1_def commit_prologue_def SaveTransactionCharacteristics_def saved_def
      characteristics_def test_def modify_def elim!: framesE)
  then have c: "chained b {t} (characteristics st) st1"
    using f by (simp add: chained_def top_chain_def frames_def)
  have cb: "blockState (cur st1) = b" using frames_cur [OF f] \<open>transactionStack st1 = _\<close> by (simp add: cur_def)
  let ?Q = "\<lambda>_. continues (characteristics st)"
  have fin: "wp (block [set_block TBLOCK_DEFAULT, start_chained]) ?Q (\<lambda>_ _. True) st'"
    if "chained b T (characteristics st) st'" for T st'
    by (rule wp_ConsI, rule wp_mono [OF chained_ends(4) [OF that]], rule wp_ConsI, rule wp_mono [OF start_chained_continues]) auto
  consider "b = TBLOCK_END" | "b = TBLOCK_ABORT_PENDING" | "b = TBLOCK_ABORT_END" "t = TRANS_ABORT" using b by blast
  then show ?thesis
  proof cases
    case 1
    have "wp finish_commit ?Q (\<lambda>_ _. True) st1" unfolding finish_commit_def
      by (rule wp_ConsI, rule wp_mono [OF chained_ends(1) [OF c]], rule fin) auto
    then show ?thesis using 1 cb by (simp add: wp_def CommitTransactionCommand.simps [of st] st1_def [symmetric])
  next
    case 2
    have "wp (block [AbortTransaction, CleanupTransaction, set_block TBLOCK_DEFAULT, start_chained]) ?Q (\<lambda>_ _. True) st1"
      by (rule wp_ConsI, rule wp_mono [OF chained_ends(2) [OF c]], rule wp_ConsI,
          rule wp_mono [OF chained_ends(3)], assumption, rule fin) auto
    then show ?thesis using 2 cb by (simp add: wp_def CommitTransactionCommand.simps [of st] st1_def [symmetric])
  next
    case 3
    have "wp (block [CleanupTransaction, set_block TBLOCK_DEFAULT, start_chained]) ?Q (\<lambda>_ _. True) st1"
      by (rule wp_ConsI, rule wp_mono [OF chained_ends(3) [OF c [unfolded 3(2)]]], rule fin) auto
    then show ?thesis using 3 cb by (simp add: wp_def CommitTransactionCommand.simps [of st] st1_def [symmetric])
  qed
qed

text \<open>One statement that leaves the transaction, in a block without savepoints.\<close>

lemma wp_end_chained:
  assumes "frames st = [(b, t, None, n, 0)]" "b = TBLOCK_INPROGRESS \<or> b = TBLOCK_ABORT \<and> t = TRANS_ABORT"
    "stmt \<in> {TRANS_STMT_COMMIT True, TRANS_STMT_ROLLBACK True}"
  shows "wp (standard_ProcessUtility True stmt) (\<lambda>_. ending (characteristics st)) (\<lambda>_ _. True) st"
proof -
  from assms(1) obtain s where s: "transactionStack st = [s]" "view s = (b, t, None, n, 0)" "cur st = s"
    by (auto elim!: framesE simp: view_def)
  then have b: "blockState s = b" by (simp add: view_def)
  show ?thesis using assms(2,3) s b
    by (elim disjE conjE insertE emptyE)
      (auto simp: standard_ProcessUtility_def EndTransactionBlock_def UserAbortTransactionBlock_def then_return_def
        set_chain_def set_cur_def wp_def [of "EndTransactionBlock True"] wp_def [of "UserAbortTransactionBlock True"]
        xbind_def modify_def ret_def characteristics_def frames_def view_def cur_def ending_def)
qed




section \<open>Exception blocks\<close>



end
