(* ===== verification/HeapTuple.thy ===== *)
theory HeapTuple
  imports Transam
begin

text \<open>
  The transaction fields of a heap tuple: the header and its flag macros
  (\<^verbatim>\<open>src/include/access/htup_details.h\<close>) and the combo command ids that let one field stand for
  both a cmin and a cmax (\<^verbatim>\<open>src/backend/utils/time/combocid.c\<close>).  \<open>t_field3\<close> is the C union
  of \<open>t_cid\<close> and \<open>t_xvac\<close>, both 32 bits wide.  The header's attribute data (null bitmap,
  offsets, datum fields) plays no part in visibility and is left out.
\<close>

section \<open>The header\<close>

type_synonym CommandId = uint32

abbreviation InvalidCommandId :: CommandId where "InvalidCommandId \<equiv> - 1"

record ItemPointerData =
  ip_blkid :: uint32
  ip_posid :: uint16

abbreviation SpecTokenOffsetNumber :: uint16 where "SpecTokenOffsetNumber \<equiv> 0xfffe"

record HeapTupleHeader =
  t_xmin :: TransactionId
  t_xmax :: TransactionId
  t_field3 :: uint32
  t_ctid :: ItemPointerData
  t_infomask2 :: uint16
  t_infomask :: uint16

abbreviation HEAP_XMAX_KEYSHR_LOCK :: uint16 where "HEAP_XMAX_KEYSHR_LOCK \<equiv> 0x0010"
abbreviation HEAP_COMBOCID :: uint16 where "HEAP_COMBOCID \<equiv> 0x0020"
abbreviation HEAP_XMAX_EXCL_LOCK :: uint16 where "HEAP_XMAX_EXCL_LOCK \<equiv> 0x0040"
abbreviation HEAP_XMAX_LOCK_ONLY :: uint16 where "HEAP_XMAX_LOCK_ONLY \<equiv> 0x0080"
abbreviation HEAP_XMAX_SHR_LOCK :: uint16 where "HEAP_XMAX_SHR_LOCK \<equiv> 0x0050"
abbreviation HEAP_LOCK_MASK :: uint16 where "HEAP_LOCK_MASK \<equiv> 0x0050"
abbreviation HEAP_XMIN_COMMITTED :: uint16 where "HEAP_XMIN_COMMITTED \<equiv> 0x0100"
abbreviation HEAP_XMIN_INVALID :: uint16 where "HEAP_XMIN_INVALID \<equiv> 0x0200"
abbreviation HEAP_XMIN_FROZEN :: uint16 where "HEAP_XMIN_FROZEN \<equiv> 0x0300"
abbreviation HEAP_XMAX_COMMITTED :: uint16 where "HEAP_XMAX_COMMITTED \<equiv> 0x0400"
abbreviation HEAP_XMAX_INVALID :: uint16 where "HEAP_XMAX_INVALID \<equiv> 0x0800"
abbreviation HEAP_XMAX_IS_MULTI :: uint16 where "HEAP_XMAX_IS_MULTI \<equiv> 0x1000"
abbreviation HEAP_MOVED_OFF :: uint16 where "HEAP_MOVED_OFF \<equiv> 0x4000"
abbreviation HEAP_MOVED_IN :: uint16 where "HEAP_MOVED_IN \<equiv> 0x8000"
abbreviation HEAP_MOVED :: uint16 where "HEAP_MOVED \<equiv> 0xC000"

definition HEAP_XMAX_IS_LOCKED_ONLY :: "uint16 \<Rightarrow> bool" where
  "HEAP_XMAX_IS_LOCKED_ONLY infomask \<longleftrightarrow>
     infomask AND HEAP_XMAX_LOCK_ONLY \<noteq> 0
     \<or> infomask AND (HEAP_XMAX_IS_MULTI OR HEAP_LOCK_MASK) = HEAP_XMAX_EXCL_LOCK"

definition HEAP_LOCKED_UPGRADED :: "uint16 \<Rightarrow> bool" where
  "HEAP_LOCKED_UPGRADED infomask \<longleftrightarrow>
     infomask AND HEAP_XMAX_IS_MULTI \<noteq> 0 \<and> infomask AND HEAP_XMAX_LOCK_ONLY \<noteq> 0
     \<and> infomask AND (HEAP_XMAX_EXCL_LOCK OR HEAP_XMAX_KEYSHR_LOCK) = 0"

abbreviation HeapTupleHeaderGetRawXmin :: "HeapTupleHeader \<Rightarrow> TransactionId" where
  "HeapTupleHeaderGetRawXmin tup \<equiv> t_xmin tup"

abbreviation HeapTupleHeaderGetRawXmax :: "HeapTupleHeader \<Rightarrow> TransactionId" where
  "HeapTupleHeaderGetRawXmax tup \<equiv> t_xmax tup"

abbreviation HeapTupleHeaderGetRawCommandId :: "HeapTupleHeader \<Rightarrow> CommandId" where
  "HeapTupleHeaderGetRawCommandId tup \<equiv> t_field3 tup"

definition HeapTupleHeaderXminCommitted :: "HeapTupleHeader \<Rightarrow> bool" where
  "HeapTupleHeaderXminCommitted tup \<longleftrightarrow> t_infomask tup AND HEAP_XMIN_COMMITTED \<noteq> 0"

definition HeapTupleHeaderXminInvalid :: "HeapTupleHeader \<Rightarrow> bool" where
  "HeapTupleHeaderXminInvalid tup \<longleftrightarrow>
     t_infomask tup AND (HEAP_XMIN_COMMITTED OR HEAP_XMIN_INVALID) = HEAP_XMIN_INVALID"

definition HeapTupleHeaderXminFrozen :: "HeapTupleHeader \<Rightarrow> bool" where
  "HeapTupleHeaderXminFrozen tup \<longleftrightarrow> t_infomask tup AND HEAP_XMIN_FROZEN = HEAP_XMIN_FROZEN"

definition HeapTupleHeaderGetXmin :: "HeapTupleHeader \<Rightarrow> TransactionId" where
  "HeapTupleHeaderGetXmin tup =
     (if HeapTupleHeaderXminFrozen tup then FrozenTransactionId else HeapTupleHeaderGetRawXmin tup)"

definition HeapTupleHeaderGetXvac :: "HeapTupleHeader \<Rightarrow> TransactionId" where
  "HeapTupleHeaderGetXvac tup =
     (if t_infomask tup AND HEAP_MOVED \<noteq> 0 then t_field3 tup else InvalidTransactionId)"

definition HeapTupleHeaderSetCmin :: "CommandId \<Rightarrow> HeapTupleHeader \<Rightarrow> HeapTupleHeader" where
  "HeapTupleHeaderSetCmin cid tup =
     tup\<lparr>t_field3 := cid, t_infomask := t_infomask tup AND NOT HEAP_COMBOCID\<rparr>"

definition HeapTupleHeaderSetCmax :: "CommandId \<Rightarrow> bool \<Rightarrow> HeapTupleHeader \<Rightarrow> HeapTupleHeader" where
  "HeapTupleHeaderSetCmax cid iscombo tup =
     (let tup = tup\<lparr>t_field3 := cid\<rparr>
      in if iscombo then tup\<lparr>t_infomask := t_infomask tup OR HEAP_COMBOCID\<rparr>
         else tup\<lparr>t_infomask := t_infomask tup AND NOT HEAP_COMBOCID\<rparr>)"

definition HeapTupleHeaderIsSpeculative :: "HeapTupleHeader \<Rightarrow> bool" where
  "HeapTupleHeaderIsSpeculative tup \<longleftrightarrow> ip_posid (t_ctid tup) = SpecTokenOffsetNumber"

definition HeapTupleHeaderGetSpeculativeToken :: "HeapTupleHeader \<Rightarrow> uint32" where
  "HeapTupleHeaderGetSpeculativeToken tup = ip_blkid (t_ctid tup)"

definition ItemPointerEquals :: "ItemPointerData \<Rightarrow> ItemPointerData \<Rightarrow> bool" where
  "ItemPointerEquals pointer1 pointer2 =
     (if ip_blkid pointer1 = ip_blkid pointer2 \<and> ip_posid pointer1 = ip_posid pointer2
      then True else False)"

section \<open>Combo command ids\<close>

record ComboCidKeyData =
  cck_cmin :: CommandId
  cck_cmax :: CommandId

text \<open>The backend's array of pairs and the hash table from a pair to its index; \<open>comboHash\<close> is
  a dynahash table, represented by the finite map it implements.  Growing the array does not
  change its contents.\<close>

record combo_state =
  comboCids :: "ComboCidKeyData list"
  comboHash :: "ComboCidKeyData \<rightharpoonup> CommandId"

definition combo_init :: combo_state where
  "combo_init = \<lparr>comboCids = [], comboHash = Map.empty\<rparr>"

definition GetComboCommandId :: "CommandId \<Rightarrow> CommandId \<Rightarrow> combo_state \<Rightarrow> CommandId \<times> combo_state" where
  "GetComboCommandId cmin cmax s =
     (let key = \<lparr>cck_cmin = cmin, cck_cmax = cmax\<rparr>
      in case comboHash s key of
           Some combocid \<Rightarrow> (combocid, s)
         | None \<Rightarrow>
             let combocid = word_of_nat (length (comboCids s))
             in (combocid, \<lparr>comboCids = comboCids s @ [key], comboHash = (comboHash s)(key \<mapsto> combocid)\<rparr>))"

definition GetRealCmin :: "combo_state \<Rightarrow> CommandId \<Rightarrow> CommandId" where
  "GetRealCmin s combocid = cck_cmin (comboCids s ! unat combocid)"

definition GetRealCmax :: "combo_state \<Rightarrow> CommandId \<Rightarrow> CommandId" where
  "GetRealCmax s combocid = cck_cmax (comboCids s ! unat combocid)"

definition HeapTupleHeaderGetCmin :: "combo_state \<Rightarrow> HeapTupleHeader \<Rightarrow> CommandId" where
  "HeapTupleHeaderGetCmin s tup =
     (let cid = HeapTupleHeaderGetRawCommandId tup
      in if t_infomask tup AND HEAP_COMBOCID \<noteq> 0 then GetRealCmin s cid else cid)"

definition HeapTupleHeaderGetCmax :: "combo_state \<Rightarrow> HeapTupleHeader \<Rightarrow> CommandId" where
  "HeapTupleHeaderGetCmax s tup =
     (let cid = HeapTupleHeaderGetRawCommandId tup
      in if t_infomask tup AND HEAP_COMBOCID \<noteq> 0 then GetRealCmax s cid else cid)"

text \<open>\<open>HeapTupleHeaderAdjustCmax(tup, &cmax, &iscombo)\<close>; \<open>current\<close> is
  \<open>TransactionIdIsCurrentTransactionId\<close>.\<close>

definition HeapTupleHeaderAdjustCmax ::
    "(TransactionId \<Rightarrow> bool) \<Rightarrow> HeapTupleHeader \<Rightarrow> CommandId \<Rightarrow> combo_state
       \<Rightarrow> (CommandId \<times> bool) \<times> combo_state" where
  "HeapTupleHeaderAdjustCmax current tup cmax s =
     (if \<not> HeapTupleHeaderXminCommitted tup \<and> current (HeapTupleHeaderGetRawXmin tup)
      then
        let cmin = HeapTupleHeaderGetCmin s tup;
            (combocid, s) = GetComboCommandId cmin cmax s
        in ((combocid, True), s)
      else ((cmax, False), s))"

section \<open>Flags are independent bits\<close>

lemma word16_and_exp: "(w :: uint16) AND 2 ^ n \<noteq> 0 \<longleftrightarrow> bit w n"
proof -
  have "w AND 2 ^ n = 0 \<longleftrightarrow> \<not> bit w n"
  proof
    assume z: "w AND 2 ^ n = 0"
    show "\<not> bit w n"
    proof
      assume b: "bit w n"
      then have "n < 16" using bit_imp_le_length [of w n] by simp
      then have "bit (w AND 2 ^ n) n" using b by (simp add: bit_and_iff bit_exp_iff)
      then show False using z by simp
    qed
  next
    assume "\<not> bit w n"
    then show "w AND 2 ^ n = 0" by (intro bit_word_eqI) (auto simp: bit_and_iff bit_exp_iff)
  qed
  then show ?thesis by blast
qed

lemma infomask_and [simp]:
  "(w :: uint16) AND 0x0020 = 0 \<longleftrightarrow> \<not> bit w 5"
  "(w :: uint16) AND 0x0080 = 0 \<longleftrightarrow> \<not> bit w 7"
  "(w :: uint16) AND 0x0100 = 0 \<longleftrightarrow> \<not> bit w 8"
  "(w :: uint16) AND 0x0400 = 0 \<longleftrightarrow> \<not> bit w 10"
  "(w :: uint16) AND 0x0800 = 0 \<longleftrightarrow> \<not> bit w 11"
  "(w :: uint16) AND 0x1000 = 0 \<longleftrightarrow> \<not> bit w 12"
  "(w :: uint16) AND 0x4000 = 0 \<longleftrightarrow> \<not> bit w 14"
  "(w :: uint16) AND 0x8000 = 0 \<longleftrightarrow> \<not> bit w 15"
  using word16_and_exp [of w 5] word16_and_exp [of w 7] word16_and_exp [of w 8] word16_and_exp [of w 10]
    word16_and_exp [of w 11] word16_and_exp [of w 12] word16_and_exp [of w 14] word16_and_exp [of w 15]
  by auto

lemma word16_eq_iff: "(a :: uint16) = b \<longleftrightarrow> (\<forall>n < 16. bit a n = bit b n)"
  by (auto intro: bit_word_eqI)

lemma infomask_pairs [simp]:
  "(w :: uint16) AND 0x0300 = 0x0200 \<longleftrightarrow> \<not> bit w 8 \<and> bit w 9"
  "(w :: uint16) AND 0x0300 = 0x0300 \<longleftrightarrow> bit w 8 \<and> bit w 9"
  "(w :: uint16) AND 0x1050 = 0x0040 \<longleftrightarrow> bit w 6 \<and> \<not> bit w 4 \<and> \<not> bit w 12"
  "(w :: uint16) AND 0x0050 = 0 \<longleftrightarrow> \<not> bit w 6 \<and> \<not> bit w 4"
  "(w :: uint16) AND 0xC000 = 0 \<longleftrightarrow> \<not> bit w 14 \<and> \<not> bit w 15"
  by (auto simp: word16_eq_iff bit_and_iff numeral_eq_Suc All_less_Suc)

lemma infomask_or [simp]:
  "bit ((w :: uint16) OR 0x0020) n \<longleftrightarrow> bit w n \<or> n = 5"
  "bit ((w :: uint16) OR 0x0100) n \<longleftrightarrow> bit w n \<or> n = 8"
  "bit ((w :: uint16) OR 0x0200) n \<longleftrightarrow> bit w n \<or> n = 9"
  "bit ((w :: uint16) OR 0x0400) n \<longleftrightarrow> bit w n \<or> n = 10"
  "bit ((w :: uint16) OR 0x0800) n \<longleftrightarrow> bit w n \<or> n = 11"
proof -
  have *: "bit (w OR 2 ^ k) n \<longleftrightarrow> bit w n \<or> n = k" if "k < 16" for k
    using that by (auto simp: bit_or_iff bit_exp_iff)
  show "bit ((w :: uint16) OR 0x0020) n \<longleftrightarrow> bit w n \<or> n = 5"
    "bit ((w :: uint16) OR 0x0100) n \<longleftrightarrow> bit w n \<or> n = 8"
    "bit ((w :: uint16) OR 0x0200) n \<longleftrightarrow> bit w n \<or> n = 9"
    "bit ((w :: uint16) OR 0x0400) n \<longleftrightarrow> bit w n \<or> n = 10"
    "bit ((w :: uint16) OR 0x0800) n \<longleftrightarrow> bit w n \<or> n = 11"
    using * [of 5] * [of 8] * [of 9] * [of 10] * [of 11] by simp_all
qed

lemma header_flags [simp]:
  "HEAP_XMAX_IS_LOCKED_ONLY w \<longleftrightarrow> bit w 7 \<or> bit w 6 \<and> \<not> bit w 4 \<and> \<not> bit w 12"
  "HEAP_LOCKED_UPGRADED w \<longleftrightarrow> bit w 12 \<and> bit w 7 \<and> \<not> bit w 6 \<and> \<not> bit w 4"
  "HeapTupleHeaderXminCommitted t \<longleftrightarrow> bit (t_infomask t) 8"
  "HeapTupleHeaderXminInvalid t \<longleftrightarrow> \<not> bit (t_infomask t) 8 \<and> bit (t_infomask t) 9"
  "HeapTupleHeaderXminFrozen t \<longleftrightarrow> bit (t_infomask t) 8 \<and> bit (t_infomask t) 9"
proof -
  have "(HEAP_XMAX_IS_MULTI OR HEAP_LOCK_MASK) = 0x1050" by simp
  then show "HEAP_XMAX_IS_LOCKED_ONLY w \<longleftrightarrow> bit w 7 \<or> bit w 6 \<and> \<not> bit w 4 \<and> \<not> bit w 12"
    unfolding HEAP_XMAX_IS_LOCKED_ONLY_def by (simp del: bit_numeral_word_iff)
  have "(HEAP_XMAX_EXCL_LOCK OR HEAP_XMAX_KEYSHR_LOCK) = 0x0050" by simp
  then show "HEAP_LOCKED_UPGRADED w \<longleftrightarrow> bit w 12 \<and> bit w 7 \<and> \<not> bit w 6 \<and> \<not> bit w 4"
    unfolding HEAP_LOCKED_UPGRADED_def by (simp del: bit_numeral_word_iff)
  show "HeapTupleHeaderXminCommitted t \<longleftrightarrow> bit (t_infomask t) 8"
    "HeapTupleHeaderXminFrozen t \<longleftrightarrow> bit (t_infomask t) 8 \<and> bit (t_infomask t) 9"
    unfolding HeapTupleHeaderXminCommitted_def HeapTupleHeaderXminFrozen_def by simp_all
  have "(HEAP_XMIN_COMMITTED OR HEAP_XMIN_INVALID) = 0x0300" by simp
  then show "HeapTupleHeaderXminInvalid t \<longleftrightarrow> \<not> bit (t_infomask t) 8 \<and> bit (t_infomask t) 9"
    unfolding HeapTupleHeaderXminInvalid_def by (simp del: bit_numeral_word_iff)
qed

section \<open>Combo command ids stand for their pair\<close>

text \<open>Every index the hash table knows is that of its pair.\<close>

definition combo_ok :: "combo_state \<Rightarrow> bool" where
  "combo_ok s \<longleftrightarrow> length (comboCids s) < 2 ^ 32
     \<and> (\<forall>key i. comboHash s key = Some i \<longrightarrow> unat i < length (comboCids s) \<and> comboCids s ! unat i = key)"

lemma combo_init_ok [simp]: "combo_ok combo_init"
  by (simp add: combo_ok_def combo_init_def)

lemma GetComboCommandId_ok:
  assumes "combo_ok s" "length (comboCids s) < 2 ^ 32 - 1" and "GetComboCommandId cmin cmax s = (i, s')"
  shows "combo_ok s'" "unat i < length (comboCids s')"
    "comboCids s' ! unat i = \<lparr>cck_cmin = cmin, cck_cmax = cmax\<rparr>"
    "\<exists>ks. comboCids s' = comboCids s @ ks"
proof -
  let ?key = "\<lparr>cck_cmin = cmin, cck_cmax = cmax\<rparr>"
  have "combo_ok s' \<and> unat i < length (comboCids s') \<and> comboCids s' ! unat i = ?key
      \<and> (\<exists>ks. comboCids s' = comboCids s @ ks)"
  proof (cases "comboHash s ?key")
    case None
    have u: "unat (word_of_nat (length (comboCids s)) :: uint32) = length (comboCids s)"
      using assms(2) by (simp add: unsigned_of_nat take_bit_nat_eq_self)
    from None assms(3) have i: "i = word_of_nat (length (comboCids s))"
      "s' = \<lparr>comboCids = comboCids s @ [?key], comboHash = (comboHash s)(?key \<mapsto> i)\<rparr>"
      by (auto simp: GetComboCommandId_def Let_def)
    then show ?thesis using assms(1,2) u
      by (auto simp: combo_ok_def nth_append intro: less_SucI)
  next
    case (Some j)
    with assms(3) have "i = j" "s' = s" by (simp_all add: GetComboCommandId_def Let_def)
    then show ?thesis using assms(1) Some by (auto simp: combo_ok_def)
  qed
  then show "combo_ok s'" "unat i < length (comboCids s')" "comboCids s' ! unat i = ?key"
    "\<exists>ks. comboCids s' = comboCids s @ ks" by blast+
qed

text \<open>C25. Deleting a tuple that the same transaction inserted records both command ids: after
  \<open>HeapTupleHeaderAdjustCmax\<close> and \<open>HeapTupleHeaderSetCmax\<close>, \<open>HeapTupleHeaderGetCmin\<close> still
  gives the inserting command and \<open>HeapTupleHeaderGetCmax\<close> the deleting one; the command ids
  any other tuple had are unchanged.\<close>

theorem combo_command_ids:
  assumes "combo_ok s" "length (comboCids s) < 2 ^ 32 - 1"
    and "\<not> HeapTupleHeaderXminCommitted tup" "current (HeapTupleHeaderGetRawXmin tup)"
    and "HeapTupleHeaderAdjustCmax current tup cmax s = ((cmax', iscombo), s')"
  shows "HeapTupleHeaderGetCmin s' (HeapTupleHeaderSetCmax cmax' iscombo tup) = HeapTupleHeaderGetCmin s tup
    \<and> HeapTupleHeaderGetCmax s' (HeapTupleHeaderSetCmax cmax' iscombo tup) = cmax
    \<and> combo_ok s'
    \<and> (\<forall>t. bit (t_infomask t) 5 \<longrightarrow> unat (t_field3 t) < length (comboCids s) \<longrightarrow>
         HeapTupleHeaderGetCmin s' t = HeapTupleHeaderGetCmin s t
         \<and> HeapTupleHeaderGetCmax s' t = HeapTupleHeaderGetCmax s t)"
proof -
  let ?cmin = "HeapTupleHeaderGetCmin s tup"
  obtain i s1 where g: "GetComboCommandId ?cmin cmax s = (i, s1)" by fastforce
  with assms(3-5) have e: "cmax' = i" "iscombo" "s' = s1"
    unfolding HeapTupleHeaderAdjustCmax_def by (simp_all add: Let_def)
  note c = GetComboCommandId_ok [OF assms(1,2) g]
  from c(4) obtain ks where ks: "comboCids s1 = comboCids s @ ks" by blast
  have "comboCids s1 ! k = comboCids s ! k" if "k < length (comboCids s)" for k
    using that by (simp add: ks nth_append)
  then show ?thesis using c(1,2,3) e
    by (simp add: HeapTupleHeaderGetCmin_def HeapTupleHeaderGetCmax_def HeapTupleHeaderSetCmax_def
        GetRealCmin_def GetRealCmax_def Let_def)
qed

theorem combo_command_ids_witness:
  "HeapTupleHeaderGetCmax (snd (HeapTupleHeaderAdjustCmax (\<lambda>x. x = 7)
       \<lparr>t_xmin = 7, t_xmax = 0, t_field3 = 2, t_ctid = \<lparr>ip_blkid = 0, ip_posid = 1\<rparr>, t_infomask2 = 1, t_infomask = 0\<rparr> 5 combo_init))
     (HeapTupleHeaderSetCmax 0 True
       \<lparr>t_xmin = 7, t_xmax = 0, t_field3 = 2, t_ctid = \<lparr>ip_blkid = 0, ip_posid = 1\<rparr>, t_infomask2 = 1, t_infomask = 0\<rparr>) = 5"
proof -
  let ?t = "\<lparr>t_xmin = 7, t_xmax = 0, t_field3 = 2, t_ctid = \<lparr>ip_blkid = 0, ip_posid = 1\<rparr>, t_infomask2 = 1, t_infomask = 0\<rparr> :: HeapTupleHeader"
  let ?s = "\<lparr>comboCids = [\<lparr>cck_cmin = 2, cck_cmax = 5\<rparr>], comboHash = [\<lparr>cck_cmin = 2, cck_cmax = 5\<rparr> \<mapsto> 0]\<rparr>"
  have a: "HeapTupleHeaderAdjustCmax (\<lambda>x. x = 7) ?t 5 combo_init = ((0, True), ?s)"
    by (simp add: HeapTupleHeaderAdjustCmax_def GetComboCommandId_def combo_init_def Let_def
        HeapTupleHeaderGetCmin_def)
  have "length (comboCids combo_init) < 2 ^ 32 - 1" "\<not> HeapTupleHeaderXminCommitted ?t"
    by (simp_all add: combo_init_def)
  from combo_command_ids [OF combo_init_ok this _ a] a show ?thesis by simp
qed

end
