(* ===== verification/ProcArray.thy ===== *)
theory ProcArray
  imports FullXid
begin

text \<open>
  Which transactions are running: \<^verbatim>\<open>src/backend/storage/ipc/procarray.c\<close> (the array of
  backends' xids, the snapshot built from it and the running test) and the snapshot test of
  \<^verbatim>\<open>src/backend/utils/time/snapmgr.c\<close>.  The array is the list of its entries in
  \<open>pgxactoff\<close> order; the known-assigned xids of a standby are the slots between the tail and the
  head with their valid flags.  \<open>ProcArrayLock\<close> is held while a function scans, so a scan sees one
  state.  Memory for the result arrays and the old-snapshot time map are not represented.
\<close>

section \<open>Horizon arithmetic\<close>

definition TransactionIdOlder :: "TransactionId \<Rightarrow> TransactionId \<Rightarrow> TransactionId" where
  "TransactionIdOlder a b =
     (if \<not> TransactionIdIsValid a then b
      else if \<not> TransactionIdIsValid b then a
      else if TransactionIdPrecedes a b then a else b)"

definition FullTransactionIdNewer :: "FullTransactionId \<Rightarrow> FullTransactionId \<Rightarrow> FullTransactionId" where
  "FullTransactionIdNewer a b =
     (if \<not> FullTransactionIdIsValid a then b
      else if \<not> FullTransactionIdIsValid b then a
      else if a > b then a else b)"

definition TransactionIdRetreatedBy :: "TransactionId \<Rightarrow> uint32 \<Rightarrow> TransactionId" where
  "TransactionIdRetreatedBy xid amount =
     (let xid = xid - amount
      in if xid < FirstNormalTransactionId then TransactionIdRetreat xid else xid)"

definition FullXidRelativeTo :: "FullTransactionId \<Rightarrow> TransactionId \<Rightarrow> FullTransactionId" where
  "FullXidRelativeTo rel xid =
     (let rel_xid = XidFromFullTransactionId rel in rel + scast (xid - rel_xid))"

section \<open>The array and snapshots\<close>

abbreviation PROC_IN_VACUUM :: uint8 where "PROC_IN_VACUUM \<equiv> 0x02"
abbreviation PROC_IN_LOGICAL_DECODING :: uint8 where "PROC_IN_LOGICAL_DECODING \<equiv> 0x10"

record proc_entry =
  px_xid :: TransactionId
  px_subxids :: "TransactionId list"
  px_overflowed :: bool
  px_statusFlags :: uint8

record proc_array =
  pa_procs :: "proc_entry list"
  latestCompletedXid :: FullTransactionId
  xactCompletionCount :: uint64
  oldestXid :: TransactionId
  pa_recovery :: bool
  KnownAssignedXids :: "(TransactionId \<times> bool) list"
  lastOverflowedXid :: TransactionId
  replication_slot_xmin :: TransactionId
  replication_slot_catalog_xmin :: TransactionId

datatype SnapshotType = SNAPSHOT_MVCC | SNAPSHOT_SELF | SNAPSHOT_ANY | SNAPSHOT_TOAST
  | SNAPSHOT_DIRTY | SNAPSHOT_HISTORIC_MVCC | SNAPSHOT_NON_VACUUMABLE

record GlobalVisState =
  definitely_needed :: FullTransactionId
  maybe_needed :: FullTransactionId

record SnapshotData =
  snapshot_type :: SnapshotType
  snap_xmin :: TransactionId
  snap_xmax :: TransactionId
  xip :: "TransactionId list"
  subxip :: "TransactionId list"
  suboverflowed :: bool
  takenDuringRecovery :: bool
  curcid :: uint32
  speculativeToken :: uint32
  vistest :: GlobalVisState
  snapXactCompletionCount :: uint64

text \<open>The backend's own variables: \<open>MyProc->pgxactoff\<close>, \<open>MyProc->xmin\<close>, \<open>TransactionXmin\<close>,
  \<open>RecentXmin\<close>, \<open>currentCommandId\<close> and the removal horizons.\<close>

record snap_vars =
  mypgxactoff :: nat
  my_xmin :: TransactionId
  TransactionXmin :: TransactionId
  RecentXmin :: TransactionId
  currentCommandId :: uint32
  vacuum_defer_cleanup_age :: uint32
  GlobalVisSharedRels :: GlobalVisState
  GlobalVisCatalogRels :: GlobalVisState
  GlobalVisDataRels :: GlobalVisState
  GlobalVisTempRels :: GlobalVisState

section \<open>Taking a snapshot\<close>

definition GetSnapshotDataReuse ::
    "proc_array \<Rightarrow> snap_vars \<Rightarrow> SnapshotData \<Rightarrow> (SnapshotData \<times> snap_vars) option" where
  "GetSnapshotDataReuse pa v snapshot =
     (if snapXactCompletionCount snapshot = 0 then None
      else if xactCompletionCount pa \<noteq> snapXactCompletionCount snapshot then None
      else
        let v = (if \<not> TransactionIdIsValid (my_xmin v)
                 then v\<lparr>my_xmin := snap_xmin snapshot, TransactionXmin := snap_xmin snapshot\<rparr> else v);
            v = v\<lparr>RecentXmin := snap_xmin snapshot\<rparr>
        in Some (snapshot\<lparr>curcid := currentCommandId v\<rparr>, v))"

text \<open>The loop over the array: \<open>off\<close> is \<open>pgxactoff\<close>; the running values are \<open>xmin\<close>, the two
  arrays filled so far and \<open>suboverflowed\<close>.\<close>

fun snapshot_scan ::
    "nat \<Rightarrow> TransactionId \<Rightarrow> nat \<Rightarrow> proc_entry list
       \<Rightarrow> TransactionId \<times> TransactionId list \<times> TransactionId list \<times> bool
       \<Rightarrow> TransactionId \<times> TransactionId list \<times> TransactionId list \<times> bool" where
  "snapshot_scan my xmax off [] acc = acc"
| "snapshot_scan my xmax off (p # ps) (xmin, xs, subs, over) =
     (let xid = px_xid p
      in if xid = InvalidTransactionId then snapshot_scan my xmax (Suc off) ps (xmin, xs, subs, over)
         else if off = my then snapshot_scan my xmax (Suc off) ps (xmin, xs, subs, over)
         else if \<not> NormalTransactionIdPrecedes xid xmax
         then snapshot_scan my xmax (Suc off) ps (xmin, xs, subs, over)
         else if px_statusFlags p AND (PROC_IN_LOGICAL_DECODING OR PROC_IN_VACUUM) \<noteq> 0
         then snapshot_scan my xmax (Suc off) ps (xmin, xs, subs, over)
         else
           let xmin = (if NormalTransactionIdPrecedes xid xmin then xid else xmin);
               xs = xs @ [xid];
               (subs, over) =
                 (if \<not> over
                  then (if px_overflowed p then (subs, True) else (subs @ px_subxids p, over))
                  else (subs, over))
           in snapshot_scan my xmax (Suc off) ps (xmin, xs, subs, over))"

text \<open>\<open>KnownAssignedXidsGetAndSetXmin(xarray, &xmin, xmax)\<close>: the array filled so far and
  \<open>xmin\<close> are threaded through the loop.\<close>

fun KnownAssignedXidsGetAndSetXmin ::
    "(TransactionId \<times> bool) list \<Rightarrow> TransactionId list \<Rightarrow> TransactionId \<Rightarrow> TransactionId
       \<Rightarrow> TransactionId list \<times> TransactionId" where
  "KnownAssignedXidsGetAndSetXmin [] xarray xmin xmax = (xarray, xmin)"
| "KnownAssignedXidsGetAndSetXmin ((knownXid, valid) # ks) xarray xmin xmax =
     (if valid
      then
        let xmin = (if xarray = [] \<and> TransactionIdPrecedes knownXid xmin then knownXid else xmin)
        in if TransactionIdIsValid xmax \<and> TransactionIdFollowsOrEquals knownXid xmax then (xarray, xmin)
           else KnownAssignedXidsGetAndSetXmin ks (xarray @ [knownXid]) xmin xmax
      else KnownAssignedXidsGetAndSetXmin ks xarray xmin xmax)"

text \<open>The horizon maintenance at the end of \<open>GetSnapshotData\<close>.\<close>

definition snapshot_update_horizons ::
    "proc_array \<Rightarrow> TransactionId \<Rightarrow> TransactionId \<Rightarrow> snap_vars \<Rightarrow> snap_vars" where
  "snapshot_update_horizons pa myxid xmin v =
     (let latest_completed = latestCompletedXid pa;
          oldestfxid = FullXidRelativeTo latest_completed (oldestXid pa);
          def_vis_xid_data = TransactionIdRetreatedBy xmin (vacuum_defer_cleanup_age v);
          def_vis_xid_data = TransactionIdOlder def_vis_xid_data (replication_slot_xmin pa);
          def_vis_xid = def_vis_xid_data;
          def_vis_xid = TransactionIdOlder (replication_slot_catalog_xmin pa) def_vis_xid;
          def_vis_fxid = FullXidRelativeTo latest_completed def_vis_xid;
          def_vis_fxid_data = FullXidRelativeTo latest_completed def_vis_xid_data;
          bump = (\<lambda>d g. \<lparr>definitely_needed = FullTransactionIdNewer d (definitely_needed g),
                          maybe_needed = FullTransactionIdNewer (maybe_needed g) oldestfxid\<rparr>);
          temp = (if TransactionIdIsNormal myxid then FullXidRelativeTo latest_completed myxid
                  else FullTransactionIdAdvance latest_completed)
      in v\<lparr>GlobalVisSharedRels := bump def_vis_fxid (GlobalVisSharedRels v),
           GlobalVisCatalogRels := bump def_vis_fxid (GlobalVisCatalogRels v),
           GlobalVisDataRels := bump def_vis_fxid_data (GlobalVisDataRels v),
           GlobalVisTempRels := \<lparr>definitely_needed = temp, maybe_needed = temp\<rparr>\<rparr>)"

text \<open>The xids the new snapshot lists, with its \<open>xmin\<close> and \<open>suboverflowed\<close>.\<close>

definition snapshot_xids ::
    "proc_array \<Rightarrow> nat \<Rightarrow> TransactionId \<Rightarrow> TransactionId
       \<Rightarrow> TransactionId \<times> TransactionId list \<times> TransactionId list \<times> bool" where
  "snapshot_xids pa my myxid xmax =
     (let xmin = xmax;
          xmin = (if TransactionIdIsNormal myxid \<and> NormalTransactionIdPrecedes myxid xmin
                  then myxid else xmin)
      in if \<not> pa_recovery pa then snapshot_scan my xmax 0 (pa_procs pa) (xmin, [], [], False)
         else
           let (subxids, xmin) = KnownAssignedXidsGetAndSetXmin (KnownAssignedXids pa) [] xmin xmax
           in (xmin, [], subxids, TransactionIdPrecedesOrEquals xmin (lastOverflowedXid pa)))"

definition GetSnapshotData :: "proc_array \<Rightarrow> snap_vars \<Rightarrow> SnapshotData \<Rightarrow> SnapshotData \<times> snap_vars" where
  "GetSnapshotData pa v snapshot =
     (case GetSnapshotDataReuse pa v snapshot of
        Some r \<Rightarrow> r
      | None \<Rightarrow>
          let myxid = px_xid (pa_procs pa ! mypgxactoff v);
              xmax = TransactionIdAdvance (XidFromFullTransactionId (latestCompletedXid pa))
          in case snapshot_xids pa (mypgxactoff v) myxid xmax of (xmin, xids, subxids, overflowed) \<Rightarrow>
               let v = (if \<not> TransactionIdIsValid (my_xmin v)
                        then v\<lparr>my_xmin := xmin, TransactionXmin := xmin\<rparr> else v);
                   v = snapshot_update_horizons pa myxid xmin v;
                   v = v\<lparr>RecentXmin := xmin\<rparr>
               in (snapshot\<lparr>takenDuringRecovery := pa_recovery pa, snap_xmin := xmin, snap_xmax := xmax,
                     xip := xids, subxip := subxids, suboverflowed := overflowed,
                     snapXactCompletionCount := xactCompletionCount pa, curcid := currentCommandId v\<rparr>, v))"

section \<open>Testing an xid\<close>

text \<open>\<open>SubTransGetTopmostTransaction\<close> may raise an error or, on other data than pg_subtrans
  can hold, not return; both carry over.\<close>

definition XidInMVCCSnapshot :: "xact_log \<Rightarrow> TransactionId \<Rightarrow> SnapshotData \<Rightarrow> bool result option" where
  "XidInMVCCSnapshot l xid snapshot =
     (if TransactionIdPrecedes xid (snap_xmin snapshot) then Some (Inr False)
      else if TransactionIdFollowsOrEquals xid (snap_xmax snapshot) then Some (Inr True)
      else if \<not> takenDuringRecovery snapshot then
        (if \<not> suboverflowed snapshot
         then (if xid \<in> set (subxip snapshot) then Some (Inr True)
               else Some (Inr (xid \<in> set (xip snapshot))))
         else
           (case SubTransGetTopmostTransaction (xl_subtrans l) (xl_xmin l) xid of
              None \<Rightarrow> None
            | Some (Inl e) \<Rightarrow> Some (Inl e)
            | Some (Inr xid) \<Rightarrow>
                if TransactionIdPrecedes xid (snap_xmin snapshot) then Some (Inr False)
                else Some (Inr (xid \<in> set (xip snapshot)))))
      else
        (case (if suboverflowed snapshot
               then SubTransGetTopmostTransaction (xl_subtrans l) (xl_xmin l) xid
               else Some (Inr xid)) of
           None \<Rightarrow> None
         | Some (Inl e) \<Rightarrow> Some (Inl e)
         | Some (Inr xid) \<Rightarrow>
             if suboverflowed snapshot \<and> TransactionIdPrecedes xid (snap_xmin snapshot)
             then Some (Inr False)
             else Some (Inr (xid \<in> set (subxip snapshot)))))"

text \<open>\<open>KnownAssignedXidExists\<close>: binary search between tail and head.\<close>

function known_search :: "(TransactionId \<times> bool) list \<Rightarrow> TransactionId \<Rightarrow> int \<Rightarrow> int \<Rightarrow> int" where
  "known_search ks xid lo hi =
     (if lo \<le> hi
      then
        let mid_index = (lo + hi) div 2;
            mid_xid = fst (ks ! nat mid_index)
        in if xid = mid_xid then mid_index
           else if TransactionIdPrecedes xid mid_xid then known_search ks xid lo (mid_index - 1)
           else known_search ks xid (mid_index + 1) hi
      else -1)"
  by pat_completeness auto
termination
  by (relation "measure (\<lambda>(_, _, lo, hi). nat (hi - lo + 1))") auto

declare known_search.simps [simp del]

definition KnownAssignedXidExists :: "(TransactionId \<times> bool) list \<Rightarrow> TransactionId \<Rightarrow> bool" where
  "KnownAssignedXidExists ks xid =
     (let result_index = known_search ks xid 0 (int (length ks) - 1)
      in if result_index < 0 then False else snd (ks ! nat result_index))"

text \<open>The scan of \<open>TransactionIdIsInProgress\<close>: \<open>Inl ()\<close> when the xid is found, otherwise the
  overflowed main xids to check in pg_subtrans.\<close>

fun progress_scan ::
    "nat \<Rightarrow> TransactionId \<Rightarrow> nat \<Rightarrow> proc_entry list \<Rightarrow> TransactionId list \<Rightarrow> unit + TransactionId list" where
  "progress_scan my xid off [] xids = Inr xids"
| "progress_scan my xid off (p # ps) xids =
     (if off = my then progress_scan my xid (Suc off) ps xids
      else
        let pxid = px_xid p
        in if \<not> TransactionIdIsValid pxid then progress_scan my xid (Suc off) ps xids
           else if pxid = xid then Inl ()
           else if TransactionIdPrecedes xid pxid then progress_scan my xid (Suc off) ps xids
           else if xid \<in> set (px_subxids p) then Inl ()
           else if px_overflowed p then progress_scan my xid (Suc off) ps (xids @ [pxid])
           else progress_scan my xid (Suc off) ps xids)"

definition TransactionIdIsInProgress ::
    "proc_array \<Rightarrow> snap_vars \<Rightarrow> xact_ids \<Rightarrow> xact_log \<Rightarrow> xid_cache \<Rightarrow> TransactionId
       \<Rightarrow> (bool result \<times> xid_cache) option" where
  "TransactionIdIsInProgress pa v own l cache xid =
     (if TransactionIdPrecedes xid (RecentXmin v) then Some (Inr False, cache)
      else if TransactionIdIsKnownCompleted cache xid then Some (Inr False, cache)
      else if TransactionIdIsCurrentTransactionId own xid then Some (Inr True, cache)
      else if TransactionIdPrecedes (XidFromFullTransactionId (latestCompletedXid pa)) xid
      then Some (Inr True, cache)
      else
        (case progress_scan (mypgxactoff v) xid 0 (pa_procs pa) [] of
           Inl _ \<Rightarrow> Some (Inr True, cache)
         | Inr xids \<Rightarrow>
             if pa_recovery pa \<and> KnownAssignedXidExists (KnownAssignedXids pa) xid
             then Some (Inr True, cache)
             else
               let xids = (if pa_recovery pa \<and> TransactionIdPrecedesOrEquals xid (lastOverflowedXid pa)
                           then fst (KnownAssignedXidsGetAndSetXmin (KnownAssignedXids pa) []
                                       InvalidTransactionId xid)
                           else xids)
               in if xids = [] then Some (Inr False, cache)
                  else
                    (case TransactionIdDidAbort l xid cache of
                       None \<Rightarrow> None
                     | Some (True, cache) \<Rightarrow> Some (Inr False, cache)
                     | Some (False, cache) \<Rightarrow>
                         (case SubTransGetTopmostTransaction (xl_subtrans l) (xl_xmin l) xid of
                            None \<Rightarrow> None
                          | Some (Inl e) \<Rightarrow> Some (Inl e, cache)
                          | Some (Inr topxid) \<Rightarrow>
                              Some (Inr (topxid \<noteq> xid \<and> topxid \<in> set xids), cache)))))"

section \<open>What a snapshot contains\<close>

text \<open>The entries a snapshot lists.\<close>

fun listed :: "nat \<Rightarrow> TransactionId \<Rightarrow> nat \<Rightarrow> proc_entry list \<Rightarrow> proc_entry list" where
  "listed my xmax off [] = []"
| "listed my xmax off (p # ps) =
     (if px_xid p = InvalidTransactionId \<or> off = my \<or> \<not> NormalTransactionIdPrecedes (px_xid p) xmax
         \<or> px_statusFlags p AND (PROC_IN_LOGICAL_DECODING OR PROC_IN_VACUUM) \<noteq> 0
      then [] else [p]) @ listed my xmax (Suc off) ps"

lemma set_listed:
  "set (listed my xmax off ps) = {p. \<exists>i < length ps. p = ps ! i \<and> off + i \<noteq> my
     \<and> px_xid p \<noteq> InvalidTransactionId \<and> NormalTransactionIdPrecedes (px_xid p) xmax
     \<and> px_statusFlags p AND (PROC_IN_LOGICAL_DECODING OR PROC_IN_VACUUM) = 0}" (is "_ = ?R off ps")
proof (induction ps arbitrary: off)
  case (Cons p ps)
  have "?R off (p # ps) = (if px_xid p = InvalidTransactionId \<or> off = my \<or> \<not> NormalTransactionIdPrecedes (px_xid p) xmax
         \<or> px_statusFlags p AND (PROC_IN_LOGICAL_DECODING OR PROC_IN_VACUUM) \<noteq> 0 then {} else {p}) \<union> ?R (Suc off) ps"
    by (simp only: list.size Ex_less_Suc2 nth_Cons_0 nth_Cons_Suc add_0_right add_Suc_right add_Suc) auto
  then show ?case using Cons [of "Suc off"] by simp
qed simp

lemma snapshot_scan_listed:
  assumes "snapshot_scan my xmax off ps (xmin, xs, subs, over) = (xmin', xs', subs', over')"
  shows "xs' = xs @ map px_xid (listed my xmax off ps)
    \<and> (over' \<longleftrightarrow> over \<or> (\<exists>p \<in> set (listed my xmax off ps). px_overflowed p))
    \<and> (\<not> over' \<longrightarrow> subs' = subs @ concat (map px_subxids (listed my xmax off ps)))
    \<and> xmin' = fold (\<lambda>p m. if NormalTransactionIdPrecedes (px_xid p) m then px_xid p else m)
                (listed my xmax off ps) xmin"
  using assms
proof (induction ps arbitrary: off xmin xs subs over)
  case (Cons p ps)
  show ?case
  proof (cases "px_xid p = InvalidTransactionId \<or> off = my \<or> \<not> NormalTransactionIdPrecedes (px_xid p) xmax
         \<or> px_statusFlags p AND (PROC_IN_LOGICAL_DECODING OR PROC_IN_VACUUM) \<noteq> 0")
    case True
    then have "snapshot_scan my xmax off (p # ps) (xmin, xs, subs, over)
        = snapshot_scan my xmax (Suc off) ps (xmin, xs, subs, over)" by (auto simp: Let_def)
    moreover have "listed my xmax off (p # ps) = listed my xmax (Suc off) ps" using True by simp
    ultimately show ?thesis using Cons.IH [of "Suc off" xmin xs subs over] Cons.prems
      by (simp del: snapshot_scan.simps listed.simps)
  next
    case False
    let ?m = "if NormalTransactionIdPrecedes (px_xid p) xmin then px_xid p else xmin"
    let ?subs = "if \<not> over \<and> \<not> px_overflowed p then subs @ px_subxids p else subs"
    have "snapshot_scan my xmax off (p # ps) (xmin, xs, subs, over)
        = snapshot_scan my xmax (Suc off) ps (?m, xs @ [px_xid p], ?subs, over \<or> px_overflowed p)"
      using False by (auto simp: Let_def)
    moreover have "listed my xmax off (p # ps) = p # listed my xmax (Suc off) ps" using False by simp
    ultimately show ?thesis using Cons.IH [of "Suc off" ?m "xs @ [px_xid p]" ?subs "over \<or> px_overflowed p"] Cons.prems
      by (auto simp del: snapshot_scan.simps listed.simps)
  qed
qed simp

lemma fold_min_window:
  assumes "in_window b m" "\<forall>p \<in> set ps. in_window b (px_xid p)"
  defines "r \<equiv> fold (\<lambda>p m. if NormalTransactionIdPrecedes (px_xid p) m then px_xid p else m) ps m"
  shows "in_window b r \<and> dist b r \<le> dist b m \<and> (\<forall>p \<in> set ps. dist b r \<le> dist b (px_xid p))"
  using assms(1,2) unfolding r_def
proof (induction ps arbitrary: m)
  case (Cons p ps)
  let ?m = "if NormalTransactionIdPrecedes (px_xid p) m then px_xid p else m"
  have m: "in_window b ?m" "dist b ?m \<le> dist b m" "dist b ?m \<le> dist b (px_xid p)"
    using Cons.prems window_compare(2) [of b "px_xid p" m] by auto
  show ?case using Cons.IH [OF m(1)] Cons.prems(2) m(2,3) by fastforce
qed simp

section \<open>Consistency of the array with pg_subtrans\<close>

definition topmost :: "xact_log \<Rightarrow> TransactionId \<Rightarrow> TransactionId \<Rightarrow> bool" where
  "topmost l x t \<longleftrightarrow> SubTransGetTopmostTransaction (xl_subtrans l) (xl_xmin l) x = Some (Inr t)"

lemma topmost_unique: "topmost l x t \<Longrightarrow> topmost l x u \<Longrightarrow> t = u"
  by (simp add: topmost_def)

text \<open>Each running entry and its cached subtransactions lie in the window, subtransactions come
  after their main transaction and lead to it in pg_subtrans; the latest completed xid lies in
  the window too.\<close>

definition procs_ok :: "TransactionId \<Rightarrow> xact_log \<Rightarrow> proc_array \<Rightarrow> bool" where
  "procs_ok b l pa \<longleftrightarrow>
     in_window b (XidFromFullTransactionId (latestCompletedXid pa))
     \<and> dist b (XidFromFullTransactionId (latestCompletedXid pa)) < 2 ^ 31 - 4
     \<and> (\<forall>p \<in> set (pa_procs pa). px_xid p \<noteq> InvalidTransactionId \<longrightarrow>
          in_window b (px_xid p) \<and> topmost l (px_xid p) (px_xid p)
          \<and> (\<forall>x \<in> set (px_subxids p). in_window b x \<and> dist b (px_xid p) < dist b x
                                      \<and> topmost l x (px_xid p)))"

text \<open>Running under an entry: as its main xid, as a cached subtransaction, or, when the cache
  overflowed, as a subtransaction only pg_subtrans knows.\<close>

definition runs_under :: "TransactionId \<Rightarrow> xact_log \<Rightarrow> proc_entry \<Rightarrow> TransactionId \<Rightarrow> bool" where
  "runs_under b l p x \<longleftrightarrow> x = px_xid p \<or> x \<in> set (px_subxids p)
     \<or> px_overflowed p \<and> topmost l x (px_xid p) \<and> dist b (px_xid p) \<le> dist b x"

text \<open>The entries a snapshot takes into account: other backends that have an xid and are neither
  vacuuming nor decoding.\<close>

definition snapshot_entry :: "proc_array \<Rightarrow> snap_vars \<Rightarrow> proc_entry \<Rightarrow> bool" where
  "snapshot_entry pa v p \<longleftrightarrow> (\<exists>i < length (pa_procs pa). p = pa_procs pa ! i \<and> i \<noteq> mypgxactoff v
     \<and> px_xid p \<noteq> InvalidTransactionId
     \<and> px_statusFlags p AND (PROC_IN_LOGICAL_DECODING OR PROC_IN_VACUUM) = 0)"

lemma GetSnapshotData_fresh:
  assumes ok: "procs_ok b l pa" and "\<not> pa_recovery pa" "mypgxactoff v < length (pa_procs pa)"
    and "snapXactCompletionCount s0 = 0 \<or> snapXactCompletionCount s0 \<noteq> xactCompletionCount pa"
    and s: "GetSnapshotData pa v s0 = (s, v')"
  defines "xmax \<equiv> TransactionIdAdvance (XidFromFullTransactionId (latestCompletedXid pa))"
  defines "ps \<equiv> listed (mypgxactoff v) xmax 0 (pa_procs pa)"
  shows "snap_xmax s = xmax" "in_window b xmax" "in_window b (snap_xmin s)"
    "xip s = map px_xid ps" "\<not> takenDuringRecovery s"
    "suboverflowed s \<longleftrightarrow> (\<exists>p \<in> set ps. px_overflowed p)"
    "\<not> suboverflowed s \<Longrightarrow> subxip s = concat (map px_subxids ps)"
    "p \<in> set ps \<Longrightarrow> dist b (snap_xmin s) \<le> dist b (px_xid p)"
    "dist b (snap_xmin s) \<le> dist b xmax"
    "p \<in> set ps \<longleftrightarrow> snapshot_entry pa v p \<and> dist b (px_xid p) < dist b xmax"
    "p \<in> set ps \<Longrightarrow> in_window b (px_xid p)"
    "RecentXmin v' = snap_xmin s"
    "px_xid (pa_procs pa ! mypgxactoff v) \<noteq> 0 \<Longrightarrow> dist b (snap_xmin s) \<le> dist b (px_xid (pa_procs pa ! mypgxactoff v))
      \<or> dist b (snap_xmin s) \<le> dist b xmax"
proof -
  let ?L = "XidFromFullTransactionId (latestCompletedXid pa)"
  have L: "in_window b ?L" "dist b ?L < 2 ^ 31 - 4" using ok by (auto simp: procs_ok_def)
  have wmax: "in_window b xmax" using Advance_window(1) [OF L(1) L] by (simp add: xmax_def)
  let ?my = "px_xid (pa_procs pa ! mypgxactoff v)"
  define m where "m = (if TransactionIdIsNormal ?my \<and> NormalTransactionIdPrecedes ?my xmax then ?my else xmax)"
  have my: "?my \<noteq> 0 \<Longrightarrow> in_window b ?my" using ok assms(3) by (auto simp: procs_ok_def)
  have m: "in_window b m" "dist b m \<le> dist b xmax"
    using wmax my window_compare(2) [of b ?my xmax] by (auto simp: m_def Normal_word)
  obtain xmin xs subs over where sc: "snapshot_scan (mypgxactoff v) xmax 0 (pa_procs pa) (m, [], [], False)
      = (xmin, xs, subs, over)" by (metis prod_cases4)
  note S = snapshot_scan_listed [OF sc, folded ps_def]
  have none: "GetSnapshotDataReuse pa v s0 = None" using assms(4) by (auto simp: GetSnapshotDataReuse_def)
  have x: "snapshot_xids pa (mypgxactoff v) ?my xmax = (xmin, xs, subs, over)"
    using sc assms(2) by (simp add: snapshot_xids_def Let_def m_def)
  have "\<exists>c. fst (GetSnapshotData pa v s0) = s0\<lparr>takenDuringRecovery := pa_recovery pa, snap_xmin := xmin, snap_xmax := xmax,
        xip := xs, subxip := subs, suboverflowed := over, snapXactCompletionCount := xactCompletionCount pa, curcid := c\<rparr>"
    unfolding GetSnapshotData_def none option.case Let_def xmax_def [symmetric] x prod.case fst_conv
    by (rule exI, rule refl)
  moreover have "RecentXmin (snd (GetSnapshotData pa v s0)) = xmin"
    unfolding GetSnapshotData_def none option.case Let_def xmax_def [symmetric] x prod.case snd_conv by simp
  ultimately have s': "snap_xmin s = xmin" "snap_xmax s = xmax" "xip s = xs" "subxip s = subs" "suboverflowed s = over"
    "\<not> takenDuringRecovery s" "RecentXmin v' = xmin" using s assms(2) by auto
  have lp: "set ps \<subseteq> {p. snapshot_entry pa v p}" "\<forall>p \<in> set ps. NormalTransactionIdPrecedes (px_xid p) xmax"
    by (auto simp: ps_def set_listed snapshot_entry_def)
  have ew: "snapshot_entry pa v p \<Longrightarrow> in_window b (px_xid p)" for p
    using ok by (auto simp: snapshot_entry_def procs_ok_def)
  have wps: "\<forall>p \<in> set ps. in_window b (px_xid p)" using lp(1) ew by blast
  note F = fold_min_window [OF m(1) wps]
  show "snap_xmax s = xmax" "in_window b xmax" "xip s = map px_xid ps" "\<not> takenDuringRecovery s"
    "suboverflowed s \<longleftrightarrow> (\<exists>p \<in> set ps. px_overflowed p)"
    "\<not> suboverflowed s \<Longrightarrow> subxip s = concat (map px_subxids ps)" "RecentXmin v' = snap_xmin s"
    using s' S wmax by auto
  show "in_window b (snap_xmin s)" "p \<in> set ps \<Longrightarrow> dist b (snap_xmin s) \<le> dist b (px_xid p)"
    using s' S F by auto
  show "dist b (snap_xmin s) \<le> dist b xmax" using s' S F m(2) by (auto intro: order_trans)
  then show "?my \<noteq> 0 \<Longrightarrow> dist b (snap_xmin s) \<le> dist b ?my \<or> dist b (snap_xmin s) \<le> dist b xmax" by simp
  show "p \<in> set ps \<Longrightarrow> in_window b (px_xid p)" using wps by blast
  have "p \<in> set ps \<longleftrightarrow> snapshot_entry pa v p \<and> NormalTransactionIdPrecedes (px_xid p) xmax"
    unfolding ps_def set_listed snapshot_entry_def mem_Collect_eq add_0 by (intro iffI; elim exE conjE; blast)
  then show "p \<in> set ps \<longleftrightarrow> snapshot_entry pa v p \<and> dist b (px_xid p) < dist b xmax"
    using window_compare(2) [OF ew wmax, of p] by blast
qed

lemma snapshot_complete:
  assumes ok: "procs_ok b l pa" and rec: "\<not> pa_recovery pa" and my: "mypgxactoff v < length (pa_procs pa)"
    and fresh: "snapXactCompletionCount s0 = 0 \<or> snapXactCompletionCount s0 \<noteq> xactCompletionCount pa"
    and s: "GetSnapshotData pa v s0 = (s, v')"
    and p: "snapshot_entry pa v p" "runs_under b l p x" "in_window b x"
  shows "XidInMVCCSnapshot l x s = Some (Inr True)"
proof -
  note G = GetSnapshotData_fresh [OF ok rec my fresh s]
  let ?xmax = "TransactionIdAdvance (XidFromFullTransactionId (latestCompletedXid pa))"
  have pin: "p \<in> set (pa_procs pa)" "px_xid p \<noteq> 0" using p(1) by (auto simp: snapshot_entry_def)
  have wp: "in_window b (px_xid p)" and top: "topmost l (px_xid p) (px_xid p)"
    and sub: "\<forall>x \<in> set (px_subxids p). dist b (px_xid p) < dist b x \<and> topmost l x (px_xid p)"
    using ok pin by (auto simp: procs_ok_def)
  have le: "dist b (px_xid p) \<le> dist b x" using p(2) sub by (auto simp: runs_under_def)
  have t: "topmost l x (px_xid p)" using p(2) sub top by (auto simp: runs_under_def)
  show ?thesis
  proof (cases "dist b ?xmax \<le> dist b x")
    case True
    have "dist b (snap_xmin s) \<le> dist b x" using True G(9) by linarith
    then show ?thesis using True window_compare [OF p(3) G(2)] window_compare [OF p(3) G(3)] G(1)
      by (simp add: XidInMVCCSnapshot_def)
  next
    case False
    then have inl: "p \<in> set (listed (mypgxactoff v) ?xmax 0 (pa_procs pa))" using G(10) p(1) le by auto
    have xmin: "dist b (snap_xmin s) \<le> dist b (px_xid p)" by (rule G(8) [OF inl])
    have 1: "\<not> TransactionIdPrecedes x (snap_xmin s)" "\<not> TransactionIdFollowsOrEquals x (snap_xmax s)"
      "\<not> TransactionIdPrecedes (px_xid p) (snap_xmin s)"
      using xmin le False window_compare [OF p(3) G(2)] window_compare [OF p(3) G(3)]
        window_compare [OF wp G(3)] G(1) by auto
    have mem: "px_xid p \<in> set (xip s)" using inl G(4) by auto
    show ?thesis
    proof (cases "suboverflowed s")
      case True
      then show ?thesis using 1 mem t G(5) by (simp add: XidInMVCCSnapshot_def topmost_def)
    next
      case False
      then have "\<not> px_overflowed p" using G(6) inl by blast
      then have "x = px_xid p \<or> x \<in> set (px_subxids p)" using p(2) by (auto simp: runs_under_def)
      then have "x \<in> set (subxip s) \<or> x \<in> set (xip s)" using mem G(7) [OF False] inl by auto
      then show ?thesis using 1 False G(5) by (auto simp: XidInMVCCSnapshot_def)
    qed
  qed
qed

lemma snapshot_sound:
  assumes ok: "procs_ok b l pa" and rec: "\<not> pa_recovery pa" and my: "mypgxactoff v < length (pa_procs pa)"
    and fresh: "snapXactCompletionCount s0 = 0 \<or> snapXactCompletionCount s0 \<noteq> xactCompletionCount pa"
    and s: "GetSnapshotData pa v s0 = (s, v')"
    and x: "in_window b x" "XidInMVCCSnapshot l x s = Some (Inr True)"
  shows "TransactionIdPrecedes (XidFromFullTransactionId (latestCompletedXid pa)) x
    \<or> (\<exists>p. snapshot_entry pa v p \<and> (x = px_xid p \<or> x \<in> set (px_subxids p) \<or> topmost l x (px_xid p)))"
proof -
  note G = GetSnapshotData_fresh [OF ok rec my fresh s]
  let ?L = "XidFromFullTransactionId (latestCompletedXid pa)"
  have L: "in_window b ?L" "dist b ?L < 2 ^ 31 - 4" using ok by (auto simp: procs_ok_def)
  show ?thesis
  proof (cases "TransactionIdFollowsOrEquals x (snap_xmax s)")
    case True
    then have "dist b ?L < dist b x"
      using window_compare(3) [OF x(1) G(2)] G(1) Advance_window(2) [OF x(1) L] by simp
    then show ?thesis using window_compare(1) [OF L(1) x(1)] by simp
  next
    case False
    then show ?thesis using x(2) G(4,5,7,10)
      by (auto simp: XidInMVCCSnapshot_def topmost_def split: if_splits option.splits sum.splits)
  qed
qed

section \<open>What the running test answers\<close>

definition other_entry :: "nat \<Rightarrow> nat \<Rightarrow> proc_entry list \<Rightarrow> proc_entry \<Rightarrow> bool" where
  "other_entry my off ps p \<longleftrightarrow> (\<exists>i < length ps. p = ps ! i \<and> off + i \<noteq> my \<and> px_xid p \<noteq> InvalidTransactionId)"

lemma other_entry_simps [simp]:
  "\<not> other_entry my off [] p"
  "other_entry my off (q # ps) p \<longleftrightarrow>
     off \<noteq> my \<and> px_xid q \<noteq> InvalidTransactionId \<and> p = q \<or> other_entry my (Suc off) ps p"
  by (auto simp: other_entry_def Ex_less_Suc2)

definition found_under :: "TransactionId \<Rightarrow> proc_entry \<Rightarrow> bool" where
  "found_under x p \<longleftrightarrow> px_xid p = x \<or> \<not> TransactionIdPrecedes x (px_xid p) \<and> x \<in> set (px_subxids p)"

lemma progress_scan_Inl:
  "progress_scan my x off ps xids = Inl () \<longleftrightarrow> (\<exists>p. other_entry my off ps p \<and> found_under x p)"
proof (induction ps arbitrary: off xids)
  case (Cons q ps)
  show ?case
  proof (cases "off \<noteq> my \<and> px_xid q \<noteq> InvalidTransactionId \<and> found_under x q")
    case True
    then have "progress_scan my x off (q # ps) xids = Inl ()"
      by (auto simp: Let_def found_under_def TransactionIdIsValid_def)
    moreover have "other_entry my off (q # ps) q" using True by simp
    ultimately show ?thesis using True by blast
  next
    case False
    then have "progress_scan my x off (q # ps) xids = progress_scan my x (Suc off) ps xids
      \<or> progress_scan my x off (q # ps) xids = progress_scan my x (Suc off) ps (xids @ [px_xid q])"
      by (auto simp: Let_def found_under_def TransactionIdIsValid_def)
    moreover have "(\<exists>p. other_entry my off (q # ps) p \<and> found_under x p)
      \<longleftrightarrow> (\<exists>p. other_entry my (Suc off) ps p \<and> found_under x p)" using False by auto
    ultimately show ?thesis using Cons by metis
  qed
qed simp

lemma progress_scan_Inr:
  "progress_scan my x off ps xids = Inr ys \<Longrightarrow> set ys = set xids
     \<union> px_xid ` {p. other_entry my off ps p \<and> \<not> TransactionIdPrecedes x (px_xid p) \<and> px_overflowed p}"
proof (induction ps arbitrary: off xids)
  case (Cons q ps)
  let ?S = "\<lambda>off ps. {p. other_entry my off ps p \<and> \<not> TransactionIdPrecedes x (px_xid p) \<and> px_overflowed p}"
  show ?case
  proof (cases "off \<noteq> my \<and> px_xid q \<noteq> InvalidTransactionId \<and> \<not> TransactionIdPrecedes x (px_xid q) \<and> px_overflowed q")
    case True
    then have "progress_scan my x (Suc off) ps (xids @ [px_xid q]) = Inr ys"
      using Cons.prems by (auto simp: Let_def TransactionIdIsValid_def split: if_splits)
    moreover have "?S off (q # ps) = insert q (?S (Suc off) ps)" using True by auto
    ultimately show ?thesis using Cons.IH by simp
  next
    case False
    then have "progress_scan my x (Suc off) ps xids = Inr ys"
      using Cons.prems by (auto simp: Let_def TransactionIdIsValid_def split: if_splits)
    moreover have "?S off (q # ps) = ?S (Suc off) ps" using False by auto
    ultimately show ?thesis using Cons.IH by simp
  qed
qed simp

lemma running_in_progress:
  assumes ok: "procs_ok b l pa" and rec: "\<not> pa_recovery pa" and w: "in_window b x"
    and x: "\<not> TransactionIdPrecedes x (RecentXmin v)" "\<not> TransactionIdIsKnownCompleted cache x"
    and p: "other_entry (mypgxactoff v) 0 (pa_procs pa) p" "runs_under b l p x"
    and ab: "TransactionIdDidAbort l x cache = Some (False, cache')"
  shows "\<exists>c. TransactionIdIsInProgress pa v own l cache x = Some (Inr True, c)"
proof -
  have pin: "p \<in> set (pa_procs pa)" "px_xid p \<noteq> 0" using p(1) by (auto simp: other_entry_def)
  have wp: "in_window b (px_xid p)" and top: "topmost l (px_xid p) (px_xid p)"
    and sub: "\<forall>x \<in> set (px_subxids p). dist b (px_xid p) < dist b x \<and> topmost l x (px_xid p)"
    using ok pin by (auto simp: procs_ok_def)
  have "dist b (px_xid p) \<le> dist b x" using p(2) sub by (auto simp: runs_under_def)
  then have np: "\<not> TransactionIdPrecedes x (px_xid p)" using window_compare(1) [OF w wp] by simp
  show ?thesis
  proof (cases "progress_scan (mypgxactoff v) x 0 (pa_procs pa) []")
    case (Inl a)
    then show ?thesis using x by (auto simp: TransactionIdIsInProgress_def)
  next
    case (Inr xids)
    then have nf: "\<not> found_under x p" using progress_scan_Inl [of "mypgxactoff v" x 0 "pa_procs pa" "[]"] p(1) by auto
    then have o: "px_overflowed p" "topmost l x (px_xid p)" "x \<noteq> px_xid p"
      using p(2) np by (auto simp: found_under_def runs_under_def)
    then have mem: "px_xid p \<in> set xids" using progress_scan_Inr [OF Inr] p(1) np by auto
    then have "xids \<noteq> []" by auto
    then show ?thesis using x Inr rec ab o mem
      by (auto simp: TransactionIdIsInProgress_def topmost_def Let_def)
  qed
qed

lemma in_progress_runs:
  assumes ok: "procs_ok b l pa" and rec: "\<not> pa_recovery pa" and w: "in_window b x"
    and P: "TransactionIdIsInProgress pa v own l cache x = Some (Inr True, c)"
  shows "TransactionIdIsCurrentTransactionId own x
    \<or> TransactionIdPrecedes (XidFromFullTransactionId (latestCompletedXid pa)) x
    \<or> (\<exists>p. other_entry (mypgxactoff v) 0 (pa_procs pa) p \<and> runs_under b l p x)"
proof (rule ccontr)
  assume n: "\<not> ?thesis"
  show False
  proof (cases "progress_scan (mypgxactoff v) x 0 (pa_procs pa) []")
    case (Inl a)
    then have "\<exists>p. other_entry (mypgxactoff v) 0 (pa_procs pa) p \<and> found_under x p"
      using progress_scan_Inl [of "mypgxactoff v" x 0 "pa_procs pa" "[]"] by simp
    then show False using n by (auto simp: found_under_def runs_under_def)
  next
    case (Inr xids)
    then obtain t where t: "topmost l x t" "t \<in> set xids"
      using P n rec
      by (auto simp: TransactionIdIsInProgress_def topmost_def Let_def split: if_splits option.splits sum.splits bool.splits prod.splits)
    then obtain p where p: "other_entry (mypgxactoff v) 0 (pa_procs pa) p" "\<not> TransactionIdPrecedes x (px_xid p)"
      "px_overflowed p" "topmost l x (px_xid p)"
      using progress_scan_Inr [OF Inr] by auto
    have "in_window b (px_xid p)" using ok p(1) by (auto simp: procs_ok_def other_entry_def)
    then have "dist b (px_xid p) \<le> dist b x" using p(2) window_compare(1) [OF w] by auto
    then show False using n p by (auto simp: runs_under_def)
  qed
qed

section \<open>Properties\<close>

lemma running_in_snapshot:
  assumes "procs_ok b l pa" "\<not> pa_recovery pa" "mypgxactoff v < length (pa_procs pa)"
    and "snapXactCompletionCount s0 = 0 \<or> snapXactCompletionCount s0 \<noteq> xactCompletionCount pa"
    and "GetSnapshotData pa v s0 = (s, v')" "in_window b x"
    and "\<forall>p \<in> set (pa_procs pa). px_xid p \<noteq> InvalidTransactionId \<longrightarrow>
           px_statusFlags p AND (PROC_IN_LOGICAL_DECODING OR PROC_IN_VACUUM) = 0"
    and "TransactionIdIsInProgress pa v own l cache x = Some (Inr True, c)"
    and "\<not> TransactionIdIsCurrentTransactionId own x"
  shows "XidInMVCCSnapshot l x s = Some (Inr True)"
proof -
  note G = GetSnapshotData_fresh [OF assms(1-5)]
  let ?L = "XidFromFullTransactionId (latestCompletedXid pa)"
  have L: "in_window b ?L" "dist b ?L < 2 ^ 31 - 4" using assms(1) by (auto simp: procs_ok_def)
  from in_progress_runs [OF assms(1,2,6,8)] assms(9)
  consider "TransactionIdPrecedes ?L x"
    | p where "other_entry (mypgxactoff v) 0 (pa_procs pa) p" "runs_under b l p x" by blast
  then show ?thesis
  proof cases
    case 1
    then have "dist b (snap_xmax s) \<le> dist b x"
      using window_compare(1) [OF L(1) assms(6)] Advance_window(2) [OF assms(6) L] G(1) by simp
    moreover have "in_window b (snap_xmax s)" using G(1,2) by simp
    moreover have "dist b (snap_xmin s) \<le> dist b (snap_xmax s)" using G(1,9) by simp
    ultimately show ?thesis using window_compare [OF assms(6), of "snap_xmax s"] window_compare(1) [OF assms(6) G(3)]
      by (auto simp: XidInMVCCSnapshot_def)
  next
    case 2
    have "snapshot_entry pa v p" using 2(1) assms(7) by (auto simp: other_entry_def snapshot_entry_def)
    then show ?thesis by (rule snapshot_complete [OF assms(1-5) _ 2(2) assms(6)])
  qed
qed


definition example_log :: xact_log where
  "example_log = \<lparr>xl_clog = \<lparr>page_buffer = (\<lambda>_ _. 0), group_lsn = (\<lambda>_ _. 0)\<rparr>,
     xl_subtrans = SubTransSetParent 101 100 (\<lambda>_ _. 0), xl_xmin = 50\<rparr>"

definition example_procs :: proc_array where
  "example_procs = \<lparr>pa_procs = [\<lparr>px_xid = 0, px_subxids = [], px_overflowed = False, px_statusFlags = 0\<rparr>,
       \<lparr>px_xid = 100, px_subxids = [101], px_overflowed = False, px_statusFlags = 0\<rparr>],
     latestCompletedXid = 200, xactCompletionCount = 9, oldestXid = 3, pa_recovery = False,
     KnownAssignedXids = [], lastOverflowedXid = 0, replication_slot_xmin = 0, replication_slot_catalog_xmin = 0\<rparr>"

definition example_vars :: snap_vars where
  "example_vars = \<lparr>mypgxactoff = 0, my_xmin = 0, TransactionXmin = 50, RecentXmin = 50, currentCommandId = 0,
     vacuum_defer_cleanup_age = 0,
     GlobalVisSharedRels = \<lparr>definitely_needed = 3, maybe_needed = 3\<rparr>,
     GlobalVisCatalogRels = \<lparr>definitely_needed = 3, maybe_needed = 3\<rparr>,
     GlobalVisDataRels = \<lparr>definitely_needed = 3, maybe_needed = 3\<rparr>,
     GlobalVisTempRels = \<lparr>definitely_needed = 3, maybe_needed = 3\<rparr>\<rparr>"

definition example_snapshot :: SnapshotData where
  "example_snapshot = \<lparr>snapshot_type = SNAPSHOT_MVCC, snap_xmin = 0, snap_xmax = 0, xip = [], subxip = [],
     suboverflowed = False, takenDuringRecovery = False, curcid = 0, speculativeToken = 0,
     vistest = \<lparr>definitely_needed = 3, maybe_needed = 3\<rparr>, snapXactCompletionCount = 0\<rparr>"

lemma example_parent:
  "SubTransGetParent (xl_subtrans example_log) x = (if x = 101 then 100 else 0)"
  using SubTransGetParent_set [of 101 100 "\<lambda>_ _. 0" x]
  by (simp add: example_log_def TransactionIdIsNormal_def SubTransGetParent_def)

lemma example_topmost: "topmost example_log 100 100" "topmost example_log 101 100"
proof -
  have v: "TransactionIdIsValid 100" "TransactionIdIsValid 101" "\<not> TransactionIdIsValid 0"
    by (simp_all add: TransactionIdIsValid_def)
  have p: "\<not> TransactionIdPrecedes 100 50" "\<not> TransactionIdPrecedes 101 50"
    "TransactionIdPrecedes 100 101" "TransactionIdPrecedes 0 100"
    by (simp_all add: TransactionIdPrecedes_def TransactionIdIsNormal_def)
  have m: "xl_xmin example_log = 50" by (simp add: example_log_def)
  have 0: "topmost_loop (xl_subtrans example_log) 50 0 100 = Some (Inr 100)"
    using v by (subst topmost_loop.simps) simp
  have 1: "topmost_loop (xl_subtrans example_log) 50 100 q = Some (Inr 100)" for q
    using v p 0 by (subst topmost_loop.simps) (simp add: Let_def example_parent)
  have 2: "topmost_loop (xl_subtrans example_log) 50 101 q = Some (Inr 100)" for q
    using v p 1 by (subst topmost_loop.simps) (simp add: Let_def example_parent)
  show "topmost example_log 100 100" "topmost example_log 101 100"
    using 1 2 by (simp_all add: topmost_def SubTransGetTopmostTransaction_def m)
qed

lemma example_ok: "procs_ok 50 example_log example_procs"
  by (simp add: procs_ok_def example_procs_def in_window_def TransactionIdIsNormal_def
      XidFromFullTransactionId_def example_topmost)


text \<open>C19. The running test and the snapshot agree at the time the snapshot is taken: an xid that
  \<open>TransactionIdIsInProgress\<close> reports and that is not the backend's own tests as in the snapshot
  when no backend with an xid is vacuuming or decoding.\<close>

theorem in_progress_in_snapshot:
  assumes "procs_ok b l pa" "\<not> pa_recovery pa" "mypgxactoff v < length (pa_procs pa)"
    and "snapXactCompletionCount s0 = 0 \<or> snapXactCompletionCount s0 \<noteq> xactCompletionCount pa"
    and "GetSnapshotData pa v s0 = (s, v')" "in_window b x"
    and "\<forall>p \<in> set (pa_procs pa). px_xid p \<noteq> InvalidTransactionId \<longrightarrow>
           px_statusFlags p AND (PROC_IN_LOGICAL_DECODING OR PROC_IN_VACUUM) = 0"
    and "TransactionIdIsInProgress pa v own l cache x = Some (Inr True, c)"
    and "\<not> TransactionIdIsCurrentTransactionId own x"
  shows "XidInMVCCSnapshot l x s = Some (Inr True)"
  by (rule running_in_snapshot [OF assms])

definition example_own :: xact_ids where
  "example_own = \<lparr>XactTopFullTransactionId = 0, ParallelCurrentXids = [], transactionStack = []\<rparr>"

definition example_cache :: xid_cache where
  "example_cache = \<lparr>cachedFetchXid = 0, cachedFetchXidStatus = 0, cachedCommitLSN = 0\<rparr>"

theorem in_progress_in_snapshot_witness:
  "XidInMVCCSnapshot example_log 100 (fst (GetSnapshotData example_procs example_vars example_snapshot))
     = Some (Inr True)"
proof -
  obtain s v' where g: "GetSnapshotData example_procs example_vars example_snapshot = (s, v')" by fastforce
  have a: "\<not> pa_recovery example_procs" "mypgxactoff example_vars < length (pa_procs example_procs)"
    "snapXactCompletionCount example_snapshot = 0
     \<or> snapXactCompletionCount example_snapshot \<noteq> xactCompletionCount example_procs"
    "\<forall>p \<in> set (pa_procs example_procs). px_xid p \<noteq> InvalidTransactionId \<longrightarrow>
       px_statusFlags p AND (PROC_IN_LOGICAL_DECODING OR PROC_IN_VACUUM) = 0"
    by (simp_all add: example_procs_def example_vars_def example_snapshot_def)
  have w: "in_window 50 100" by (simp add: in_window_def TransactionIdIsNormal_def)
  have n: "\<not> TransactionIdIsCurrentTransactionId example_own 100"
    by (simp add: TransactionIdIsCurrentTransactionId_def example_own_def GetTopTransactionIdIfAny_def
        XidFromFullTransactionId_def)
  have "TransactionIdIsInProgress example_procs example_vars example_own example_log example_cache 100
      = Some (Inr True, example_cache)"
    using n by (simp add: TransactionIdIsInProgress_def example_procs_def example_vars_def example_cache_def
        TransactionIdIsKnownCompleted_def TransactionIdPrecedes_def TransactionIdIsNormal_def
        XidFromFullTransactionId_def TransactionIdIsValid_def)
  from in_progress_in_snapshot [OF example_ok a(1-3) g w a(4) this n] show ?thesis using g by simp
qed

text \<open>C20. The running test misses no running transaction: an xid that runs under another
  backend's entry and is neither before \<open>RecentXmin\<close> nor already known completed is reported as
  in progress, also when its backend's subtransaction cache overflowed.\<close>

theorem in_progress_complete:
  assumes "procs_ok b l pa" "\<not> pa_recovery pa" "in_window b x"
    and "\<not> TransactionIdPrecedes x (RecentXmin v)" "\<not> TransactionIdIsKnownCompleted cache x"
    and "i < length (pa_procs pa)" "i \<noteq> mypgxactoff v" "px_xid (pa_procs pa ! i) \<noteq> InvalidTransactionId"
    and "runs_under b l (pa_procs pa ! i) x"
    and "TransactionIdDidAbort l x cache = Some (False, cache')"
  shows "\<exists>c. TransactionIdIsInProgress pa v own l cache x = Some (Inr True, c)"
proof -
  have "other_entry (mypgxactoff v) 0 (pa_procs pa) (pa_procs pa ! i)"
    using assms(6-8) by (auto simp: other_entry_def)
  from running_in_progress [OF assms(1-5) this assms(9,10)] show ?thesis .
qed

theorem in_progress_complete_witness:
  "\<exists>c. TransactionIdIsInProgress example_procs example_vars example_own example_log example_cache 101
     = Some (Inr True, c)"
proof -
  have w: "in_window 50 101" by (simp add: in_window_def TransactionIdIsNormal_def)
  have a: "\<not> pa_recovery example_procs" "\<not> TransactionIdPrecedes 101 (RecentXmin example_vars)"
    "\<not> TransactionIdIsKnownCompleted example_cache 101"
    "1 < length (pa_procs example_procs)" "1 \<noteq> mypgxactoff example_vars"
    "px_xid (pa_procs example_procs ! 1) \<noteq> InvalidTransactionId"
    "runs_under 50 example_log (pa_procs example_procs ! 1) 101"
    by (simp_all add: example_procs_def example_vars_def example_cache_def TransactionIdPrecedes_def
        TransactionIdIsNormal_def TransactionIdIsKnownCompleted_def runs_under_def)
  have "TransactionIdDidAbort example_log 101 example_cache = Some (False, example_cache)"
    by (subst TransactionIdDidAbort.simps)
      (simp add: TransactionLogFetch_def example_cache_def example_log_def TransactionIdGetStatus_def
        TransactionIdIsNormal_def Let_def)
  from in_progress_complete [OF example_ok a(1) w a(2-7) this] show ?thesis .
qed

end
