(* ===== verification/Multixact.thy ===== *)
theory Multixact
  imports Transam "HOL-Library.Product_Lexorder"
begin

text \<open>
  \<^verbatim>\<open>src/backend/access/transam/multixact.c\<close>: the sets of transactions that lock or update one
  row together.  The shared state is \<open>MultiXactStateData\<close> with the two page areas: the offsets
  area holds where the members of each multixact start in the members area, a ring of \<open>2 ^ 32\<close>
  slots in which slot 0 is never used.  Pages are addressed by page number and entry (offsets) or
  byte offset of an aligned 32-bit field (members), as in the clog model.  Each backend has its
  cache of recent multixacts.

  Left out: WAL records and their replay, the signals to the autovacuum launcher and warnings,
  truncation, startup and the two-phase state files.  \<open>MultiXactGenLock\<close> is released and taken
  again in the middle of \<open>GetNewMultiXactId\<close> when the vacuum limit has been passed; here nothing
  happens in between.
\<close>

section \<open>Types and addresses\<close>

type_synonym MultiXactId = uint32
type_synonym MultiXactOffset = uint32

abbreviation InvalidMultiXactId :: MultiXactId where "InvalidMultiXactId \<equiv> 0"
abbreviation FirstMultiXactId :: MultiXactId where "FirstMultiXactId \<equiv> 1"
abbreviation MaxMultiXactId :: MultiXactId where "MaxMultiXactId \<equiv> 0xFFFFFFFF"
abbreviation MaxMultiXactOffset :: MultiXactOffset where "MaxMultiXactOffset \<equiv> 0xFFFFFFFF"

definition MultiXactIdIsValid :: "MultiXactId \<Rightarrow> bool" where
  "MultiXactIdIsValid multi \<longleftrightarrow> multi \<noteq> InvalidMultiXactId"

text \<open>The C enum is stored in a flag byte and read back without a check, so it is the number.\<close>

type_synonym MultiXactStatus = uint32

abbreviation MultiXactStatusForKeyShare :: MultiXactStatus where "MultiXactStatusForKeyShare \<equiv> 0"
abbreviation MultiXactStatusForShare :: MultiXactStatus where "MultiXactStatusForShare \<equiv> 1"
abbreviation MultiXactStatusForNoKeyUpdate :: MultiXactStatus where "MultiXactStatusForNoKeyUpdate \<equiv> 2"
abbreviation MultiXactStatusForUpdate :: MultiXactStatus where "MultiXactStatusForUpdate \<equiv> 3"
abbreviation MultiXactStatusNoKeyUpdate :: MultiXactStatus where "MultiXactStatusNoKeyUpdate \<equiv> 4"
abbreviation MultiXactStatusUpdate :: MultiXactStatus where "MultiXactStatusUpdate \<equiv> 5"

definition ISUPDATE_from_mxstatus :: "MultiXactStatus \<Rightarrow> bool" where
  "ISUPDATE_from_mxstatus status \<longleftrightarrow> status > MultiXactStatusForUpdate"

record MultiXactMember =
  mxm_xid :: TransactionId
  mxm_status :: MultiXactStatus

abbreviation MULTIXACT_OFFSETS_PER_PAGE :: uint32 where "MULTIXACT_OFFSETS_PER_PAGE \<equiv> 2048"
abbreviation MULTIXACT_FLAGBYTES_PER_GROUP :: uint32 where "MULTIXACT_FLAGBYTES_PER_GROUP \<equiv> 4"
abbreviation MULTIXACT_MEMBERS_PER_MEMBERGROUP :: uint32 where "MULTIXACT_MEMBERS_PER_MEMBERGROUP \<equiv> 4"
abbreviation MULTIXACT_MEMBERGROUP_SIZE :: uint32 where "MULTIXACT_MEMBERGROUP_SIZE \<equiv> 20"
abbreviation MULTIXACT_MEMBERGROUPS_PER_PAGE :: uint32 where "MULTIXACT_MEMBERGROUPS_PER_PAGE \<equiv> 409"
abbreviation MULTIXACT_MEMBERS_PER_PAGE :: uint32 where "MULTIXACT_MEMBERS_PER_PAGE \<equiv> 1636"
abbreviation MXACT_MEMBER_BITS_PER_XACT :: uint32 where "MXACT_MEMBER_BITS_PER_XACT \<equiv> 8"
abbreviation MXACT_MEMBER_XACT_BITMASK :: uint32 where "MXACT_MEMBER_XACT_BITMASK \<equiv> 255"
abbreviation SLRU_PAGES_PER_SEGMENT :: uint32 where "SLRU_PAGES_PER_SEGMENT \<equiv> 32"
abbreviation MULTIXACT_MEMBER_SAFE_THRESHOLD :: uint32 where
  "MULTIXACT_MEMBER_SAFE_THRESHOLD \<equiv> 0x7FFFFFFF"

definition MAX_MEMBERS_IN_LAST_MEMBERS_PAGE :: uint32 where
  "MAX_MEMBERS_IN_LAST_MEMBERS_PAGE = 0xFFFFFFFF mod MULTIXACT_MEMBERS_PER_PAGE + 1"

definition MultiXactIdToOffsetPage :: "MultiXactId \<Rightarrow> uint32" where
  "MultiXactIdToOffsetPage xid = xid div MULTIXACT_OFFSETS_PER_PAGE"

definition MultiXactIdToOffsetEntry :: "MultiXactId \<Rightarrow> uint32" where
  "MultiXactIdToOffsetEntry xid = xid mod MULTIXACT_OFFSETS_PER_PAGE"

definition MXOffsetToMemberPage :: "MultiXactOffset \<Rightarrow> uint32" where
  "MXOffsetToMemberPage xid = xid div MULTIXACT_MEMBERS_PER_PAGE"

definition MXOffsetToFlagsOffset :: "MultiXactOffset \<Rightarrow> uint32" where
  "MXOffsetToFlagsOffset xid =
     (xid div MULTIXACT_MEMBERS_PER_MEMBERGROUP) mod MULTIXACT_MEMBERGROUPS_PER_PAGE * MULTIXACT_MEMBERGROUP_SIZE"

definition MXOffsetToFlagsBitShift :: "MultiXactOffset \<Rightarrow> uint32" where
  "MXOffsetToFlagsBitShift xid = xid mod MULTIXACT_MEMBERS_PER_MEMBERGROUP * MXACT_MEMBER_BITS_PER_XACT"

definition MXOffsetToMemberOffset :: "MultiXactOffset \<Rightarrow> uint32" where
  "MXOffsetToMemberOffset xid =
     MXOffsetToFlagsOffset xid + MULTIXACT_FLAGBYTES_PER_GROUP + xid mod MULTIXACT_MEMBERS_PER_MEMBERGROUP * 4"

definition PreviousMultiXactId :: "MultiXactId \<Rightarrow> MultiXactId" where
  "PreviousMultiXactId xid = (if xid = FirstMultiXactId then MaxMultiXactId else xid - 1)"

definition MultiXactIdPrecedes :: "MultiXactId \<Rightarrow> MultiXactId \<Rightarrow> bool" where
  "MultiXactIdPrecedes multi1 multi2 \<longleftrightarrow> sint (multi1 - multi2) < 0"

definition MultiXactIdPrecedesOrEquals :: "MultiXactId \<Rightarrow> MultiXactId \<Rightarrow> bool" where
  "MultiXactIdPrecedesOrEquals multi1 multi2 \<longleftrightarrow> sint (multi1 - multi2) \<le> 0"

definition MultiXactOffsetPrecedes :: "MultiXactOffset \<Rightarrow> MultiXactOffset \<Rightarrow> bool" where
  "MultiXactOffsetPrecedes offset1 offset2 \<longleftrightarrow> sint (offset1 - offset2) < 0"

definition MultiXactOffsetPagePrecedes :: "uint32 \<Rightarrow> uint32 \<Rightarrow> bool" where
  "MultiXactOffsetPagePrecedes page1 page2 =
     (let multi1 = page1 * MULTIXACT_OFFSETS_PER_PAGE + (FirstMultiXactId + 1);
          multi2 = page2 * MULTIXACT_OFFSETS_PER_PAGE + (FirstMultiXactId + 1)
      in MultiXactIdPrecedes multi1 multi2
         \<and> MultiXactIdPrecedes multi1 (multi2 + MULTIXACT_OFFSETS_PER_PAGE - 1))"

definition MultiXactMemberPagePrecedes :: "uint32 \<Rightarrow> uint32 \<Rightarrow> bool" where
  "MultiXactMemberPagePrecedes page1 page2 =
     (let offset1 = page1 * MULTIXACT_MEMBERS_PER_PAGE;
          offset2 = page2 * MULTIXACT_MEMBERS_PER_PAGE
      in MultiXactOffsetPrecedes offset1 offset2
         \<and> MultiXactOffsetPrecedes offset1 (offset2 + MULTIXACT_MEMBERS_PER_PAGE - 1))"

section \<open>State\<close>

record MultiXactStateData =
  nextMXact :: MultiXactId
  nextOffset :: MultiXactOffset
  finishedStartup :: bool
  oldestMultiXactId :: MultiXactId
  oldestMultiXactDB :: uint32
  oldestOffset :: MultiXactOffset
  oldestOffsetKnown :: bool
  multiVacLimit :: MultiXactId
  multiWarnLimit :: MultiXactId
  multiStopLimit :: MultiXactId
  multiWrapLimit :: MultiXactId
  offsetStopLimit :: MultiXactOffset
  OldestMemberMXactId :: "MultiXactId list"
  OldestVisibleMXactId :: "MultiXactId list"
  offset_pages :: "uint32 \<Rightarrow> uint32 \<Rightarrow> MultiXactOffset"
  member_pages :: "uint32 \<Rightarrow> uint32 \<Rightarrow> uint32"

record mXactCacheEnt =
  ent_multi :: MultiXactId
  ent_members :: "MultiXactMember list"

text \<open>One backend: \<open>MyBackendId\<close> as an index into the two arrays, the cache in list order.\<close>

record mx_backend =
  MyBackend :: nat
  under_postmaster :: bool
  in_recovery :: bool
  MXactCache :: "mXactCacheEnt list"
  MXactCacheMembers :: int

section \<open>The cache\<close>

definition mxactMemberComparator :: "MultiXactMember \<Rightarrow> MultiXactMember \<Rightarrow> int" where
  "mxactMemberComparator member1 member2 =
     (if mxm_xid member1 > mxm_xid member2 then 1
      else if mxm_xid member1 < mxm_xid member2 then - 1
      else if mxm_status member1 > mxm_status member2 then 1
      else if mxm_status member1 < mxm_status member2 then - 1
      else 0)"

text \<open>\<open>qsort\<close> by that comparison, whose equal elements are identical.\<close>

definition sort_members :: "MultiXactMember list \<Rightarrow> MultiXactMember list" where
  "sort_members ms = sort_key (\<lambda>m. (mxm_xid m, mxm_status m)) ms"

definition mXactCacheGetBySet ::
    "MultiXactMember list \<Rightarrow> mx_backend \<Rightarrow> MultiXactId \<times> MultiXactMember list \<times> mx_backend" where
  "mXactCacheGetBySet ms b =
     (let ms = sort_members ms
      in case List.find (\<lambda>entry. length (ent_members entry) = length ms \<and> ms = ent_members entry) (MXactCache b) of
           Some entry \<Rightarrow> (ent_multi entry, ms, b\<lparr>MXactCache := entry # remove1 entry (MXactCache b)\<rparr>)
         | None \<Rightarrow> (InvalidMultiXactId, ms, b))"

definition mXactCacheGetById :: "MultiXactId \<Rightarrow> mx_backend \<Rightarrow> MultiXactMember list option \<times> mx_backend" where
  "mXactCacheGetById multi b =
     (case List.find (\<lambda>entry. ent_multi entry = multi) (MXactCache b) of
        Some entry \<Rightarrow> (Some (ent_members entry), b\<lparr>MXactCache := entry # remove1 entry (MXactCache b)\<rparr>)
      | None \<Rightarrow> (None, b))"

abbreviation MAX_CACHE_ENTRIES :: int where "MAX_CACHE_ENTRIES \<equiv> 256"

definition mXactCachePut :: "MultiXactId \<Rightarrow> MultiXactMember list \<Rightarrow> mx_backend \<Rightarrow> mx_backend" where
  "mXactCachePut multi ms b =
     (let entry = \<lparr>ent_multi = multi, ent_members = sort_members ms\<rparr>;
          cache = entry # MXactCache b
      in if MXactCacheMembers b \<ge> MAX_CACHE_ENTRIES
         then b\<lparr>MXactCache := butlast cache, MXactCacheMembers := MXactCacheMembers b\<rparr>
         else b\<lparr>MXactCache := cache, MXactCacheMembers := MXactCacheMembers b + 1\<rparr>)"

section \<open>Oldest multixacts\<close>

definition MultiXactIdSetOldestMember :: "MultiXactStateData \<Rightarrow> mx_backend \<Rightarrow> MultiXactStateData" where
  "MultiXactIdSetOldestMember st b =
     (if \<not> MultiXactIdIsValid (OldestMemberMXactId st ! MyBackend b) then
        (let nx = nextMXact st;
             nx = (if nx < FirstMultiXactId then FirstMultiXactId else nx)
         in st\<lparr>OldestMemberMXactId := (OldestMemberMXactId st)[MyBackend b := nx]\<rparr>)
      else st)"

text \<open>\<open>if (MultiXactIdIsValid(thisoldest) && MultiXactIdPrecedes(thisoldest, oldestMXact)) oldestMXact = thisoldest;\<close>\<close>

definition older_multi :: "MultiXactId \<Rightarrow> MultiXactId \<Rightarrow> MultiXactId" where
  "older_multi thisoldest oldestMXact =
     (if MultiXactIdIsValid thisoldest \<and> MultiXactIdPrecedes thisoldest oldestMXact then thisoldest else oldestMXact)"

definition MultiXactIdSetOldestVisible :: "MultiXactStateData \<Rightarrow> mx_backend \<Rightarrow> MultiXactStateData" where
  "MultiXactIdSetOldestVisible st b =
     (if \<not> MultiXactIdIsValid (OldestVisibleMXactId st ! MyBackend b) then
        (let nx = nextMXact st;
             nx = (if nx < FirstMultiXactId then FirstMultiXactId else nx);
             oldestMXact = fold older_multi (OldestMemberMXactId st) nx
         in st\<lparr>OldestVisibleMXactId := (OldestVisibleMXactId st)[MyBackend b := oldestMXact]\<rparr>)
      else st)"

definition GetOldestMultiXactId :: "MultiXactStateData \<Rightarrow> MultiXactId" where
  "GetOldestMultiXactId st =
     (let nx = nextMXact st;
          nx = (if nx < FirstMultiXactId then FirstMultiXactId else nx)
      in fold (\<lambda>(m, v) oldest. older_multi v (older_multi m oldest))
           (zip (OldestMemberMXactId st) (OldestVisibleMXactId st)) nx)"

definition ReadNextMultiXactId :: "MultiXactStateData \<Rightarrow> MultiXactId" where
  "ReadNextMultiXactId st = (if nextMXact st < FirstMultiXactId then FirstMultiXactId else nextMXact st)"

definition ReadMultiXactIdRange :: "MultiXactStateData \<Rightarrow> MultiXactId \<times> MultiXactId" where
  "ReadMultiXactIdRange st =
     (if oldestMultiXactId st < FirstMultiXactId then FirstMultiXactId else oldestMultiXactId st,
      if nextMXact st < FirstMultiXactId then FirstMultiXactId else nextMXact st)"

definition AtEOXact_MultiXact :: "MultiXactStateData \<Rightarrow> mx_backend \<Rightarrow> MultiXactStateData \<times> mx_backend" where
  "AtEOXact_MultiXact st b =
     (st\<lparr>OldestMemberMXactId := (OldestMemberMXactId st)[MyBackend b := InvalidMultiXactId],
         OldestVisibleMXactId := (OldestVisibleMXactId st)[MyBackend b := InvalidMultiXactId]\<rparr>,
      b\<lparr>MXactCache := [], MXactCacheMembers := 0\<rparr>)"

section \<open>Writing a new multixact\<close>

definition put_offset :: "MultiXactId \<Rightarrow> MultiXactOffset \<Rightarrow> MultiXactStateData \<Rightarrow> MultiXactStateData" where
  "put_offset multi off st =
     st\<lparr>offset_pages := (\<lambda>p e. if p = MultiXactIdToOffsetPage multi \<and> e = MultiXactIdToOffsetEntry multi
                               then off else offset_pages st p e)\<rparr>"

definition put_member_word :: "uint32 \<Rightarrow> uint32 \<Rightarrow> uint32 \<Rightarrow> MultiXactStateData \<Rightarrow> MultiXactStateData" where
  "put_member_word pageno byteoff v st =
     st\<lparr>member_pages := (\<lambda>p o'. if p = pageno \<and> o' = byteoff then v else member_pages st p o')\<rparr>"

definition record_member :: "MultiXactOffset \<Rightarrow> MultiXactMember \<Rightarrow> MultiXactStateData \<Rightarrow> MultiXactStateData" where
  "record_member off m st =
     (let pageno = MXOffsetToMemberPage off;
          memberoff = MXOffsetToMemberOffset off;
          flagsoff = MXOffsetToFlagsOffset off;
          bshift = unat (MXOffsetToFlagsBitShift off);
          st = put_member_word pageno memberoff (mxm_xid m) st;
          flagsval = member_pages st pageno flagsoff;
          flagsval = flagsval AND NOT (push_bit bshift MXACT_MEMBER_XACT_BITMASK);
          flagsval = flagsval OR push_bit bshift (mxm_status m)
      in put_member_word pageno flagsoff flagsval st)"

fun record_members :: "MultiXactOffset \<Rightarrow> MultiXactMember list \<Rightarrow> MultiXactStateData \<Rightarrow> MultiXactStateData" where
  "record_members off [] st = st"
| "record_members off (m # ms) st = record_members (off + 1) ms (record_member off m st)"

definition RecordNewMultiXact ::
    "MultiXactId \<Rightarrow> MultiXactOffset \<Rightarrow> MultiXactMember list \<Rightarrow> MultiXactStateData \<Rightarrow> MultiXactStateData" where
  "RecordNewMultiXact multi off ms st = record_members off ms (put_offset multi off st)"

definition ZeroMultiXactOffsetPage :: "uint32 \<Rightarrow> MultiXactStateData \<Rightarrow> MultiXactStateData" where
  "ZeroMultiXactOffsetPage pageno st = st\<lparr>offset_pages := (offset_pages st)(pageno := (\<lambda>_. 0))\<rparr>"

definition ZeroMultiXactMemberPage :: "uint32 \<Rightarrow> MultiXactStateData \<Rightarrow> MultiXactStateData" where
  "ZeroMultiXactMemberPage pageno st = st\<lparr>member_pages := (member_pages st)(pageno := (\<lambda>_. 0))\<rparr>"

definition ExtendMultiXactOffset :: "MultiXactId \<Rightarrow> MultiXactStateData \<Rightarrow> MultiXactStateData" where
  "ExtendMultiXactOffset multi st =
     (if MultiXactIdToOffsetEntry multi \<noteq> 0 \<and> multi \<noteq> FirstMultiXactId then st
      else ZeroMultiXactOffsetPage (MultiXactIdToOffsetPage multi) st)"

text \<open>The step to the first member of the next page, smaller on the last page of the ring.\<close>

definition page_difference :: "MultiXactOffset \<Rightarrow> uint32" where
  "page_difference off =
     (if off + MAX_MEMBERS_IN_LAST_MEMBERS_PAGE < off then MaxMultiXactOffset - off + 1
      else MULTIXACT_MEMBERS_PER_PAGE - off mod MULTIXACT_MEMBERS_PER_PAGE)"

lemma page_difference_pos: "0 < unat (page_difference off)"
proof (cases "off + MAX_MEMBERS_IN_LAST_MEMBERS_PAGE < off")
  case True
  then have "off \<noteq> 0" by auto
  moreover have "MaxMultiXactOffset - off + 1 = - off"
  proof -
    have "MaxMultiXactOffset = - 1" by simp
    then show ?thesis
      by (metis add.commute add_diff_cancel_left' diff_add_eq minus_diff_commute uminus_add_conv_diff)
  qed
  ultimately show ?thesis using True by (simp only: page_difference_def if_True unat_gt_0 neg_equal_0_iff_equal not_False_eq_True)
next
  case False
  have "off mod 1636 < 1636" by (rule word_mod_less_divisor) simp
  then have "1636 - off mod 1636 \<noteq> 0" by auto
  then show ?thesis using False by (simp add: page_difference_def unat_gt_0)
qed

lemma page_difference_uint: "0 < uint (page_difference off)"
  using page_difference_pos [of off] by (metis of_nat_unat of_nat_0_less_iff)

function ExtendMultiXactMember :: "MultiXactOffset \<Rightarrow> int \<Rightarrow> MultiXactStateData \<Rightarrow> MultiXactStateData" where
  "ExtendMultiXactMember off nmembers st =
     (if nmembers > 0 then
        (let st = (if MXOffsetToFlagsOffset off = 0 \<and> MXOffsetToFlagsBitShift off = 0
                   then ZeroMultiXactMemberPage (MXOffsetToMemberPage off) st else st);
             difference = page_difference off
         in ExtendMultiXactMember (off + difference) (nmembers - int (unat difference)) st)
      else st)"
  by pat_completeness auto
termination
  by (relation "measure (\<lambda>(_, n, _). nat n)") (simp_all add: page_difference_uint)

section \<open>Creating\<close>

definition MultiXactOffsetWouldWrap :: "MultiXactOffset \<Rightarrow> MultiXactOffset \<Rightarrow> uint32 \<Rightarrow> bool" where
  "MultiXactOffsetWouldWrap boundary start distance =
     (let finish = start + distance;
          finish = (if finish < start then finish + 1 else finish)
      in if start < boundary then finish \<ge> boundary \<or> finish < start
         else finish \<ge> boundary \<and> finish < start)"

text \<open>The part of \<open>GetNewMultiXactId\<close> after the wraparound checks on the id.\<close>

definition allocate_members ::
    "MultiXactId \<Rightarrow> int \<Rightarrow> MultiXactStateData \<Rightarrow> (MultiXactId \<times> MultiXactOffset) result \<times> MultiXactStateData" where
  "allocate_members multi nmembers st =
     (let st = ExtendMultiXactOffset multi st;
          nx = nextOffset st;
          (off, nmembers) = (if nx = 0 then (1, nmembers + 1) else (nx, nmembers))
      in if oldestOffsetKnown st \<and> MultiXactOffsetWouldWrap (offsetStopLimit st) nx (word_of_int nmembers)
         then (Inl (Ereport ''ERRCODE_PROGRAM_LIMIT_EXCEEDED''), st)
         else
           let st = ExtendMultiXactMember nx nmembers st
           in (Inr (multi, off),
               st\<lparr>nextMXact := nextMXact st + 1, nextOffset := nextOffset st + word_of_int nmembers\<rparr>))"

definition GetNewMultiXactId ::
    "int \<Rightarrow> MultiXactStateData \<Rightarrow> mx_backend \<Rightarrow> (MultiXactId \<times> MultiXactOffset) result \<times> MultiXactStateData" where
  "GetNewMultiXactId nmembers st b =
     (if in_recovery b then (Inl (Elog ''cannot assign MultiXactIds during recovery''), st)
      else
        let st = (if nextMXact st < FirstMultiXactId then st\<lparr>nextMXact := FirstMultiXactId\<rparr> else st);
            multi = nextMXact st
        in if \<not> MultiXactIdPrecedes multi (multiVacLimit st) then
             (if under_postmaster b \<and> \<not> MultiXactIdPrecedes multi (multiStopLimit st)
              then (Inl (Ereport ''ERRCODE_PROGRAM_LIMIT_EXCEEDED''), st)
              else
                let multi = (if nextMXact st < FirstMultiXactId then FirstMultiXactId else nextMXact st)
                in allocate_members multi nmembers st)
           else allocate_members multi nmembers st)"

text \<open>The loop that looks for a second updating member.\<close>

fun second_update :: "bool \<Rightarrow> MultiXactMember list \<Rightarrow> bool" where
  "second_update has_update [] = False"
| "second_update has_update (m # ms) =
     (if ISUPDATE_from_mxstatus (mxm_status m)
      then (if has_update then True else second_update True ms)
      else second_update has_update ms)"

definition MultiXactIdCreateFromMembers ::
    "MultiXactMember list \<Rightarrow> MultiXactStateData \<Rightarrow> mx_backend
       \<Rightarrow> MultiXactId result \<times> MultiXactStateData \<times> mx_backend" where
  "MultiXactIdCreateFromMembers ms st b =
     (let (multi, ms, b) = mXactCacheGetBySet ms b
      in if MultiXactIdIsValid multi then (Inr multi, st, b)
         else if second_update False ms
         then (Inl (Elog ''new multixact has more than one updating member''), st, b)
         else
           case GetNewMultiXactId (int (length ms)) st b of
             (Inl e, st) \<Rightarrow> (Inl e, st, b)
           | (Inr (multi, off), st) \<Rightarrow>
               let st = RecordNewMultiXact multi off ms st;
                   b = mXactCachePut multi ms b
               in (Inr multi, st, b))"

definition MultiXactIdCreate ::
    "TransactionId \<Rightarrow> MultiXactStatus \<Rightarrow> TransactionId \<Rightarrow> MultiXactStatus \<Rightarrow> MultiXactStateData \<Rightarrow> mx_backend
       \<Rightarrow> MultiXactId result \<times> MultiXactStateData \<times> mx_backend" where
  "MultiXactIdCreate xid1 status1 xid2 status2 st b =
     MultiXactIdCreateFromMembers [\<lparr>mxm_xid = xid1, mxm_status = status1\<rparr>, \<lparr>mxm_xid = xid2, mxm_status = status2\<rparr>] st b"

section \<open>Reading\<close>

text \<open>One member slot: its xid and the status in the flag word.\<close>

definition read_member :: "MultiXactStateData \<Rightarrow> MultiXactOffset \<Rightarrow> MultiXactMember" where
  "read_member st off =
     (let pageno = MXOffsetToMemberPage off;
          bshift = unat (MXOffsetToFlagsBitShift off)
      in \<lparr>mxm_xid = member_pages st pageno (MXOffsetToMemberOffset off),
          mxm_status = drop_bit bshift (member_pages st pageno (MXOffsetToFlagsOffset off))
                         AND MXACT_MEMBER_XACT_BITMASK\<rparr>)"

fun read_members :: "MultiXactStateData \<Rightarrow> MultiXactOffset \<Rightarrow> nat \<Rightarrow> MultiXactMember list" where
  "read_members st off 0 = []"
| "read_members st off (Suc n) =
     (if \<not> TransactionIdIsValid (mxm_xid (read_member st off)) then read_members st (off + 1) n
      else read_member st off # read_members st (off + 1) n)"

definition read_offset :: "MultiXactStateData \<Rightarrow> MultiXactId \<Rightarrow> MultiXactOffset" where
  "read_offset st multi = offset_pages st (MultiXactIdToOffsetPage multi) (MultiXactIdToOffsetEntry multi)"

abbreviation MaxAllocSize :: int where "MaxAllocSize \<equiv> 0x3fffffff"

text \<open>The number of slots from the start of \<open>multi\<close> to the next start; \<open>None\<close> when the next
  multixact has an id but its start is not written yet: the code sleeps and looks again, which
  ends when another backend writes it.\<close>

definition members_length :: "MultiXactStateData \<Rightarrow> MultiXactId \<Rightarrow> int option" where
  "members_length st multi =
     (let off = read_offset st multi;
          tmpMXact = multi + 1
      in if nextMXact st = tmpMXact then Some (sint (nextOffset st - off))
         else
           let tmpMXact = (if tmpMXact < FirstMultiXactId then FirstMultiXactId else tmpMXact);
               nextMXOffset = read_offset st tmpMXact
           in if nextMXOffset = 0 then None else Some (sint (nextMXOffset - off)))"

text \<open>\<open>Some members\<close>, or \<open>None\<close> for a return value of -1; \<open>palloc\<close> refuses a negative size.\<close>

definition GetMultiXactIdMembers ::
    "MultiXactId \<Rightarrow> bool \<Rightarrow> bool \<Rightarrow> MultiXactStateData \<Rightarrow> mx_backend
       \<Rightarrow> (MultiXactMember list option result \<times> MultiXactStateData \<times> mx_backend) option" where
  "GetMultiXactIdMembers multi from_pgupgrade onlyLock st b =
     (if \<not> MultiXactIdIsValid multi \<or> from_pgupgrade then Some (Inr None, st, b)
      else case mXactCacheGetById multi b of
        (Some ms, b) \<Rightarrow> Some (Inr (Some ms), st, b)
      | (None, b) \<Rightarrow>
          let st = MultiXactIdSetOldestVisible st b
          in if onlyLock \<and> MultiXactIdPrecedes multi (OldestVisibleMXactId st ! MyBackend b)
             then Some (Inr None, st, b)
             else if MultiXactIdPrecedes multi (oldestMultiXactId st)
             then Some (Inl (Ereport ''ERRCODE_INTERNAL_ERROR''), st, b)
             else if \<not> MultiXactIdPrecedes multi (nextMXact st)
             then Some (Inl (Ereport ''ERRCODE_INTERNAL_ERROR''), st, b)
             else case members_length st multi of
               None \<Rightarrow> None
             | Some len \<Rightarrow>
                 if len < 0 \<or> len * 8 > MaxAllocSize then Some (Inl (Elog ''invalid memory alloc request size''), st, b)
                 else
                   let ptr = read_members st (read_offset st multi) (nat len)
                   in Some (Inr (Some ptr), st, mXactCachePut multi ptr b))"

text \<open>\<open>running\<close> and \<open>committed\<close> are \<open>TransactionIdIsInProgress\<close> and \<open>TransactionIdDidCommit\<close>.\<close>

definition MultiXactIdExpand ::
    "(TransactionId \<Rightarrow> bool) \<Rightarrow> (TransactionId \<Rightarrow> bool) \<Rightarrow> MultiXactId \<Rightarrow> TransactionId \<Rightarrow> MultiXactStatus
       \<Rightarrow> MultiXactStateData \<Rightarrow> mx_backend \<Rightarrow> (MultiXactId result \<times> MultiXactStateData \<times> mx_backend) option" where
  "MultiXactIdExpand running committed multi xid status st b =
     (case GetMultiXactIdMembers multi False False st b of
        None \<Rightarrow> None
      | Some (Inl e, st, b) \<Rightarrow> Some (Inl e, st, b)
      | Some (Inr None, st, b) \<Rightarrow>
          Some (MultiXactIdCreateFromMembers [\<lparr>mxm_xid = xid, mxm_status = status\<rparr>] st b)
      | Some (Inr (Some ms), st, b) \<Rightarrow>
          if \<exists>m \<in> set ms. mxm_xid m = xid \<and> mxm_status m = status then Some (Inr multi, st, b)
          else
            let newMembers = filter (\<lambda>m. running (mxm_xid m)
                  \<or> ISUPDATE_from_mxstatus (mxm_status m) \<and> committed (mxm_xid m)) ms
            in Some (MultiXactIdCreateFromMembers (newMembers @ [\<lparr>mxm_xid = xid, mxm_status = status\<rparr>]) st b))"

section \<open>Limits\<close>

text \<open>\<open>start_of\<close> is \<open>find_multixact_start\<close>: the start of the multixact, \<open>None\<close> when its page is
  not on disk.\<close>

definition SetOffsetVacuumLimit ::
    "(MultiXactId \<Rightarrow> MultiXactOffset option) \<Rightarrow> MultiXactStateData \<Rightarrow> bool \<times> MultiXactStateData" where
  "SetOffsetVacuumLimit start_of st =
     (let found = (if oldestMultiXactId st = nextMXact st then Some (nextOffset st)
                   else start_of (oldestMultiXactId st));
          (oldestOff, known, stop) =
            (case found of
               Some off \<Rightarrow>
                 (off, True,
                  off - off mod (MULTIXACT_MEMBERS_PER_PAGE * SLRU_PAGES_PER_SEGMENT)
                    - MULTIXACT_MEMBERS_PER_PAGE * SLRU_PAGES_PER_SEGMENT)
             | None \<Rightarrow>
                 if oldestOffsetKnown st then (oldestOffset st, True, offsetStopLimit st) else (0, False, 0));
          st' = st\<lparr>oldestOffset := oldestOff, oldestOffsetKnown := known, offsetStopLimit := stop\<rparr>
      in (\<not> known \<or> nextOffset st - oldestOff > MULTIXACT_MEMBER_SAFE_THRESHOLD, st'))"

definition SetMultiXactIdLimit ::
    "(MultiXactId \<Rightarrow> MultiXactOffset option) \<Rightarrow> uint32 \<Rightarrow> MultiXactId \<Rightarrow> uint32 \<Rightarrow> MultiXactStateData \<Rightarrow> MultiXactStateData" where
  "SetMultiXactIdLimit start_of freeze_max_age oldest_datminmxid oldest_datoid st =
     (let wrapLimit = oldest_datminmxid + 0x7FFFFFFF;
          wrapLimit = (if wrapLimit < FirstMultiXactId then wrapLimit + FirstMultiXactId else wrapLimit);
          stopLimit = wrapLimit - 3000000;
          stopLimit = (if stopLimit < FirstMultiXactId then stopLimit - FirstMultiXactId else stopLimit);
          warnLimit = wrapLimit - 40000000;
          warnLimit = (if warnLimit < FirstMultiXactId then warnLimit - FirstMultiXactId else warnLimit);
          vacLimit = oldest_datminmxid + freeze_max_age;
          vacLimit = (if vacLimit < FirstMultiXactId then vacLimit + FirstMultiXactId else vacLimit);
          st = st\<lparr>oldestMultiXactId := oldest_datminmxid, oldestMultiXactDB := oldest_datoid,
                 multiVacLimit := vacLimit, multiWarnLimit := warnLimit, multiStopLimit := stopLimit,
                 multiWrapLimit := wrapLimit\<rparr>
      in if \<not> finishedStartup st then st else snd (SetOffsetVacuumLimit start_of st))"

definition MultiXactAdvanceNextMXact ::
    "MultiXactId \<Rightarrow> MultiXactOffset \<Rightarrow> MultiXactStateData \<Rightarrow> MultiXactStateData" where
  "MultiXactAdvanceNextMXact minMulti minMultiOffset st =
     (let st = (if MultiXactIdPrecedes (nextMXact st) minMulti then st\<lparr>nextMXact := minMulti\<rparr> else st)
      in if MultiXactOffsetPrecedes (nextOffset st) minMultiOffset then st\<lparr>nextOffset := minMultiOffset\<rparr> else st)"

definition MultiXactAdvanceOldest ::
    "(MultiXactId \<Rightarrow> MultiXactOffset option) \<Rightarrow> uint32 \<Rightarrow> MultiXactId \<Rightarrow> uint32 \<Rightarrow> MultiXactStateData \<Rightarrow> MultiXactStateData" where
  "MultiXactAdvanceOldest start_of freeze_max_age oldestMulti oldestMultiDB st =
     (if MultiXactIdPrecedes (oldestMultiXactId st) oldestMulti
      then SetMultiXactIdLimit start_of freeze_max_age oldestMulti oldestMultiDB st else st)"

definition ReadMultiXactCounts :: "MultiXactStateData \<Rightarrow> (uint32 \<times> MultiXactOffset) option" where
  "ReadMultiXactCounts st =
     (if \<not> oldestOffsetKnown st then None
      else Some (nextMXact st - oldestMultiXactId st, nextOffset st - oldestOffset st))"

end
