(* ===== verification/MultixactStore.thy ===== *)
theory MultixactStore
  imports Multixact
begin

text \<open>
  The page areas of \<^verbatim>\<open>multixact.c\<close> as a store: addresses of member slots, the member ring and its
  wraparound check, and the map from multixact ids to member sets that creation and reading
  implement.
\<close>

section \<open>Addresses\<close>

lemma group_unique:
  fixes a b c d :: nat
  assumes "b < 4" "d < 4" "a * 20 + 4 + b * 4 = c * 20 + 4 + d * 4"
  shows "a = c \<and> b = d"
proof -
  have e: "b + a * 5 = d + c * 5" using assms(3) by simp
  have "(b + a * 5) mod 5 = b" "(d + c * 5) mod 5 = d" using assms(1,2) by simp_all
  then have "b = d" unfolding e by simp
  then show ?thesis using e by simp
qed

lemma group_xid_not_flag:
  fixes a b c :: nat
  assumes "b < 4"
  shows "a * 20 + 4 + b * 4 \<noteq> c * 20"
proof
  assume "a * 20 + 4 + b * 4 = c * 20"
  then have "b + 1 + a * 5 = c * 5" by simp
  then have "(b + 1 + a * 5) mod 5 = 0" by simp
  moreover have "(b + 1 + a * 5) mod 5 = b + 1" using assms by (simp add: mod_less)
  ultimately show False by simp
qed

lemma group_aligned: "(a * 20 + 4 + b * 4) mod 4 = 0" "a * 20 mod 4 = 0" for a b :: nat
proof -
  have "a * 20 + 4 + b * 4 = (a * 5 + 1 + b) * 4" "a * 20 = a * 5 * 4" by simp_all
  then show "(a * 20 + 4 + b * 4) mod 4 = 0" "a * 20 mod 4 = 0" by (metis mod_mult_self2_is_0)+
qed

lemma address_unat:
  "unat (MXOffsetToMemberPage x) = unat x div 1636"
  "unat (MXOffsetToFlagsOffset x) = unat x div 4 mod 409 * 20"
  "unat (MXOffsetToFlagsBitShift x) = unat x mod 4 * 8"
  "unat (MXOffsetToMemberOffset x) = unat x div 4 mod 409 * 20 + 4 + unat x mod 4 * 4"
proof -
  have f: "unat x div 4 mod 409 < 409" and g: "unat x mod 4 < 4" by simp_all
  show "unat (MXOffsetToMemberPage x) = unat x div 1636"
    by (simp add: MXOffsetToMemberPage_def unat_div)
  show F: "unat (MXOffsetToFlagsOffset x) = unat x div 4 mod 409 * 20"
    using f by (simp add: MXOffsetToFlagsOffset_def unat_word_ariths(2) unat_div unat_mod)
  show "unat (MXOffsetToFlagsBitShift x) = unat x mod 4 * 8"
    using g by (simp add: MXOffsetToFlagsBitShift_def unat_word_ariths unat_mod)
  have m: "unat (x mod 4 * 4) = unat x mod 4 * 4"
    using g by (simp add: unat_word_ariths unat_mod)
  have "unat (MXOffsetToMemberOffset x) = (unat x div 4 mod 409 * 20 + 4 + unat x mod 4 * 4) mod 2 ^ 32"
    by (simp add: MXOffsetToMemberOffset_def unat_word_ariths F m mod_simps)
  then show "unat (MXOffsetToMemberOffset x) = unat x div 4 mod 409 * 20 + 4 + unat x mod 4 * 4"
    using f g by simp
qed

lemma group_split: "q = p * 409 + r \<Longrightarrow> n = q * 4 + m \<Longrightarrow> n = p * 1636 + r * 4 + m" for n p q r m :: nat
  by simp

lemma slot_parts: "(n :: nat) = n div 1636 * 1636 + n div 4 mod 409 * 4 + n mod 4"
proof (rule group_split)
  have "n div 4 div 409 = n div 1636" using div_mult2_eq [of n 4 409] by simp
  then show "n div 4 = n div 1636 * 409 + n div 4 mod 409" using div_mult_mod_eq [of "n div 4" 409] by metis
  show "n = n div 4 * 4 + n mod 4" by (rule div_mult_mod_eq [symmetric])
qed

text \<open>Each slot has its own xid field and its own flag byte, and no xid field overlaps a flag
  word; all fields are aligned and end inside the page.\<close>

lemma address_bounds:
  "unat (MXOffsetToMemberOffset x) + 4 \<le> 8180" "unat (MXOffsetToFlagsOffset x) + 4 \<le> 8180"
  "unat (MXOffsetToMemberOffset x) mod 4 = 0" "unat (MXOffsetToFlagsOffset x) mod 4 = 0"
  "unat (MXOffsetToFlagsBitShift x) \<in> {0, 8, 16, 24}"
proof -
  have f: "unat x div 4 mod 409 < 409" and g: "unat x mod 4 < 4" by simp_all
  then have "unat x div 4 mod 409 \<le> 408" "unat x mod 4 \<le> 3" by linarith+
  then show "unat (MXOffsetToMemberOffset x) + 4 \<le> 8180" "unat (MXOffsetToFlagsOffset x) + 4 \<le> 8180"
    unfolding address_unat by linarith+
  show "unat (MXOffsetToMemberOffset x) mod 4 = 0" "unat (MXOffsetToFlagsOffset x) mod 4 = 0"
    unfolding address_unat by (rule group_aligned)+
  have "unat x mod 4 = 0 \<or> unat x mod 4 = 1 \<or> unat x mod 4 = 2 \<or> unat x mod 4 = 3" using g by linarith
  then show "unat (MXOffsetToFlagsBitShift x) \<in> {0, 8, 16, 24}" unfolding address_unat by auto
qed

lemma member_address_inj:
  assumes "MXOffsetToMemberPage x = MXOffsetToMemberPage y" "MXOffsetToMemberOffset x = MXOffsetToMemberOffset y"
  shows "x = y"
proof -
  have p: "unat x div 1636 = unat y div 1636" using assms(1) address_unat(1) by metis
  have m: "unat x div 4 mod 409 * 20 + 4 + unat x mod 4 * 4 = unat y div 4 mod 409 * 20 + 4 + unat y mod 4 * 4"
    using assms(2) address_unat(4) by metis
  have "unat x mod 4 < 4" "unat y mod 4 < 4" by simp_all
  note group_unique [OF this m]
  then have "unat x = unat y" using p slot_parts [of "unat x"] slot_parts [of "unat y"] by metis
  then show ?thesis by (simp only: word_unat_eq_iff)
qed

lemma flag_address_inj:
  assumes "MXOffsetToMemberPage x = MXOffsetToMemberPage y" "MXOffsetToFlagsOffset x = MXOffsetToFlagsOffset y"
    "MXOffsetToFlagsBitShift x = MXOffsetToFlagsBitShift y"
  shows "x = y"
proof -
  have "unat x div 1636 = unat y div 1636" using assms(1) address_unat(1) by metis
  moreover have "unat x div 4 mod 409 * 20 = unat y div 4 mod 409 * 20" using assms(2) address_unat(2) by metis
  moreover have "unat x mod 4 * 8 = unat y mod 4 * 8" using assms(3) address_unat(3) by metis
  ultimately have "unat x = unat y" using slot_parts [of "unat x"] slot_parts [of "unat y"] by simp
  then show ?thesis by (simp only: word_unat_eq_iff)
qed

lemma member_not_flag: "MXOffsetToMemberOffset x \<noteq> MXOffsetToFlagsOffset y"
proof
  assume "MXOffsetToMemberOffset x = MXOffsetToFlagsOffset y"
  then have "unat x div 4 mod 409 * 20 + 4 + unat x mod 4 * 4 = unat y div 4 mod 409 * 20"
    using address_unat(2,4) by metis
  then show False using group_xid_not_flag [of "unat x mod 4"] by simp
qed


section \<open>Slots\<close>

lemma bit_small: "v < 256 \<Longrightarrow> bit (v :: uint32) n \<Longrightarrow> n < 8"
proof (rule ccontr)
  assume v: "v < 256" "bit v n" "\<not> n < 8"
  have "unat v < 2 ^ 8" using v(1) by (simp add: word_less_nat_alt)
  then have "take_bit 8 v = v" by (simp add: word_unat_eq_iff unsigned_take_bit_eq take_bit_nat_eq_self)
  then have "bit (take_bit 8 v) n" using v(2) by simp
  then show False using v(3) by (simp add: bit_take_bit_iff)
qed

lemma bit_255: "bit (255 :: uint32) n \<longleftrightarrow> n < 8"
proof -
  have "(255 :: uint32) = mask 8" by (simp add: mask_eq_exp_minus_1)
  then show ?thesis by (simp only: bit_mask_iff) (auto)
qed

lemma flag_byte_same:
  assumes "v < 256" "s \<in> {0, 8, 16, 24 :: nat}"
  shows "drop_bit s (w AND NOT (push_bit s 255) OR push_bit s v) AND 255 = (v :: uint32)"
proof (rule bit_word_eqI)
  fix n assume "n < LENGTH(32)"
  show "bit (drop_bit s (w AND NOT (push_bit s 255) OR push_bit s v) AND 255) n = bit v n"
  proof (cases "n < 8")
    case True
    then have "s + n < 32" using assms(2) by auto
    then show ?thesis using True by (simp add: bit_and_iff bit_or_iff bit_not_iff bit_drop_bit_eq bit_push_bit_iff bit_255 del: bit_numeral_word_iff)
  next
    case False
    then have "\<not> bit v n" using bit_small [OF assms(1)] by blast
    then show ?thesis using False by (simp add: bit_and_iff bit_255 del: bit_numeral_word_iff)
  qed
qed

lemma flag_byte_other:
  assumes "v < 256" "s \<in> {0, 8, 16, 24 :: nat}" "s' \<in> {0, 8, 16, 24 :: nat}" "s' \<noteq> s"
  shows "drop_bit s' (w AND NOT (push_bit s 255) OR push_bit s v) AND 255 = drop_bit s' w AND (255 :: uint32)"
proof (rule bit_word_eqI)
  fix n assume "n < LENGTH(32)"
  show "bit (drop_bit s' (w AND NOT (push_bit s 255) OR push_bit s v) AND 255) n = bit (drop_bit s' w AND 255) n"
  proof (cases "n < 8")
    case True
    then have b: "s' + n < 32" "\<not> (s \<le> s' + n \<and> s' + n - s < 8)" using assms(2-4) by auto
    then have v: "s \<le> s' + n \<Longrightarrow> \<not> bit v (s' + n - s)" using bit_small [OF assms(1)] by blast
    have p: "\<not> bit (push_bit s 255 :: uint32) (s' + n)" "\<not> bit (push_bit s v) (s' + n)"
      using b v by (auto simp: bit_push_bit_iff bit_255 simp del: bit_numeral_word_iff)
    show ?thesis using True b(1) p
      by (simp add: bit_and_iff bit_or_iff bit_not_iff bit_drop_bit_eq bit_255 del: bit_numeral_word_iff)
  next
    case False
    then show ?thesis by (simp add: bit_and_iff bit_255 del: bit_numeral_word_iff)
  qed
qed

lemma record_member_fields [simp]:
  "nextMXact (record_member off m st) = nextMXact st" "nextOffset (record_member off m st) = nextOffset st"
  "offset_pages (record_member off m st) = offset_pages st"
  "oldestMultiXactId (record_member off m st) = oldestMultiXactId st"
  by (simp_all add: record_member_def Let_def put_member_word_def)

lemma read_record_same:
  assumes "mxm_status m < 256"
  shows "read_member (record_member off m st) off = m"
proof -
  have "unat (MXOffsetToFlagsBitShift off) \<in> {0, 8, 16, 24}" by (rule address_bounds)
  note flag_byte_same [OF assms this]
  then show ?thesis
    by (simp add: read_member_def record_member_def Let_def put_member_word_def member_not_flag)
qed

lemma read_record_other:
  assumes "mxm_status m < 256" "off' \<noteq> off"
  shows "read_member (record_member off m st) off' = read_member st off'"
proof -
  let ?s = "unat (MXOffsetToFlagsBitShift off)" and ?s' = "unat (MXOffsetToFlagsBitShift off')"
  have f: "MXOffsetToMemberPage off' = MXOffsetToMemberPage off \<Longrightarrow> MXOffsetToFlagsOffset off' = MXOffsetToFlagsOffset off
      \<Longrightarrow> ?s' \<noteq> ?s"
    using flag_address_inj [of off' off] assms(2) by (auto simp: word_unat_eq_iff)
  have s: "?s \<in> {0, 8, 16, 24}" "?s' \<in> {0, 8, 16, 24}" by (rule address_bounds)+
  show ?thesis
    using member_address_inj [of off' off] assms(2) flag_byte_other [OF assms(1) s f] member_not_flag
      member_not_flag [symmetric]
    by (auto simp: read_member_def record_member_def Let_def put_member_word_def)
qed

lemma record_members_fields [simp]:
  "nextMXact (record_members off ms st) = nextMXact st" "nextOffset (record_members off ms st) = nextOffset st"
  "offset_pages (record_members off ms st) = offset_pages st"
  "oldestMultiXactId (record_members off ms st) = oldestMultiXactId st"
  by (induction ms arbitrary: off st) simp_all

lemma read_record_members:
  assumes "\<forall>m \<in> set ms. mxm_status m < 256" "length ms \<le> 2 ^ 32"
  shows "read_member (record_members off ms st) o' =
    (if unat (o' - off) < length ms then ms ! unat (o' - off) else read_member st o')"
  using assms
proof (induction ms arbitrary: off st)
  case (Cons m ms)
  show ?case
  proof (cases "o' = off")
    case True
    have "unat (o' - (off + 1)) = 2 ^ 32 - 1" using True by (simp add: unsigned_minus_1_eq_mask mask_eq_exp_minus_1)
    then have "\<not> unat (o' - (off + 1)) < length ms" using Cons.prems(2) by simp
    then show ?thesis using True Cons by (simp add: read_record_same)
  next
    case False
    then have "o' - off \<noteq> 0" by simp
    then have u: "unat (o' - off) = Suc (unat (o' - (off + 1)))"
      using unat_minus_one [of "o' - off"] unat_gt_0 [of "o' - off"] by (simp add: diff_diff_eq)
    then show ?thesis using False Cons by (simp add: read_record_other)
  qed
qed simp

lemma read_members_eq:
  "read_members st off n = filter (\<lambda>m. TransactionIdIsValid (mxm_xid m)) (map (\<lambda>i. read_member st (off + word_of_nat i)) [0..<n])"
proof (induction n arbitrary: off)
  case (Suc n)
  have "map (\<lambda>i. read_member st (off + word_of_nat i)) [0..<Suc n]
      = read_member st off # map (\<lambda>i. read_member st (off + 1 + word_of_nat i)) [0..<n]"
    by (simp add: upt_conv_Cons map_Suc_upt [symmetric] add.assoc comp_def del: upt_Suc map_Suc_upt)
  then show ?case using Suc by simp
qed simp


section \<open>Room in the member ring\<close>

lemma unat_add32: "unat (a + b :: uint32) = (if unat a + unat b < 4294967296 then unat a + unat b else unat a + unat b - 4294967296)"
  using unat_plus_if' [of a b] by simp

lemma unat_sub32: "unat (a - b :: uint32) = (if unat b \<le> unat a then unat a - unat b else unat a + 4294967296 - unat b)"
  using unat_sub_if' [of a b] by simp

definition ring_size :: "MultiXactOffset \<Rightarrow> MultiXactOffset \<Rightarrow> nat" where
  "ring_size start boundary = (if start = boundary then 2 ^ 32 else unat (boundary - start))"

definition crosses_zero :: "MultiXactOffset \<Rightarrow> nat \<Rightarrow> bool" where
  "crosses_zero start n \<longleftrightarrow> 2 ^ 32 \<le> unat start + n"

lemma would_wrap:
  assumes "unat distance < 2 ^ 32 - 1"
  shows "MultiXactOffsetWouldWrap boundary start distance \<longleftrightarrow>
     ring_size start boundary \<le> unat distance + (if crosses_zero start (unat distance) then 1 else 0)"
proof -
  define S D B where "S = unat start" and "D = unat distance" and "B = unat boundary"
  have b: "S < 4294967296" "D < 4294967295" "B < 4294967296"
    using assms unsigned_less [of start] unsigned_less [of boundary] by (simp_all add: S_def D_def B_def)
  let ?f = "start + distance"
  have f: "unat ?f = (if S + D < 4294967296 then S + D else S + D - 4294967296)"
    by (simp add: unat_add32 S_def D_def)
  have lt: "?f < start \<longleftrightarrow> 4294967296 \<le> S + D"
    using b unfolding word_less_nat_alt f by (auto simp flip: S_def)
  define F where "F = (if ?f < start then ?f + 1 else ?f)"
  have F: "unat F = (if S + D < 4294967296 then S + D else S + D + 1 - 4294967296)"
    using b f lt by (auto simp: F_def unat_add32)
  have r: "ring_size start boundary = (if S = B then 4294967296 else if S \<le> B then B - S else B + 4294967296 - S)"
    by (simp add: ring_size_def unat_sub32 S_def B_def word_unat_eq_iff)
  have "MultiXactOffsetWouldWrap boundary start distance \<longleftrightarrow>
      (if S < B then B \<le> unat F \<or> unat F < S else B \<le> unat F \<and> unat F < S)"
    by (simp add: MultiXactOffsetWouldWrap_def Let_def F_def word_less_nat_alt word_le_nat_alt S_def B_def)
  also have "\<dots> \<longleftrightarrow> ring_size start boundary \<le> D + (if 4294967296 \<le> S + D then 1 else 0)"
    using b unfolding F r by (auto split: if_splits)
  finally show ?thesis by (simp add: crosses_zero_def S_def D_def)
qed


section \<open>Entering new pages\<close>

definition page_first :: "MultiXactOffset \<Rightarrow> bool" where
  "page_first off \<longleftrightarrow> unat off mod 1636 = 0"

lemma page_first_iff: "MXOffsetToFlagsOffset off = 0 \<and> MXOffsetToFlagsBitShift off = 0 \<longleftrightarrow> page_first off"
proof -
  have "MXOffsetToFlagsOffset off = 0 \<longleftrightarrow> unat off div 4 mod 409 = 0"
    using address_unat(2) [of off] by (simp add: word_unat_eq_iff)
  moreover have "MXOffsetToFlagsBitShift off = 0 \<longleftrightarrow> unat off mod 4 = 0"
    using address_unat(3) [of off] by (simp add: word_unat_eq_iff)
  moreover have "unat off mod 1636 = unat off div 4 mod 409 * 4 + unat off mod 4"
    using mod_mult2_eq [of "unat off" 4 409] by simp
  ultimately show ?thesis by (simp add: page_first_def)
qed

lemma page_difference_unat:
  "unat (page_difference off) = (if unat off < 4294966260 then 1636 - unat off mod 1636 else 4294967296 - unat off)"
proof -
  have L: "MAX_MEMBERS_IN_LAST_MEMBERS_PAGE = 1036" by (simp add: MAX_MEMBERS_IN_LAST_MEMBERS_PAGE_def)
  have u: "unat off < 4294967296" using unsigned_less [of off] by simp
  have c: "off + MAX_MEMBERS_IN_LAST_MEMBERS_PAGE < off \<longleftrightarrow> \<not> unat off < 4294966260"
    using u unfolding word_less_nat_alt L by (auto simp: unat_add32)
  have m: "unat off mod 1636 < 1636" by simp
  have "MaxMultiXactOffset - off + 1 = - off"
  proof -
    have "MaxMultiXactOffset = - 1" by simp
    then show ?thesis
      by (metis add.commute add_diff_cancel_left' diff_add_eq minus_diff_commute uminus_add_conv_diff)
  qed
  moreover have "unat (- off) = 4294967296 - unat off" if "\<not> unat off < 4294966260"
    using that unat_sub32 [of 0 off] by simp
  moreover have "unat (MULTIXACT_MEMBERS_PER_PAGE - off mod MULTIXACT_MEMBERS_PER_PAGE) = 1636 - unat off mod 1636"
    using m by (simp add: unat_sub32 unat_mod)
  ultimately show ?thesis unfolding page_difference_def c by (simp only: split: if_split) simp
qed

lemma page_end: "u < 4294966260 \<Longrightarrow> u + (1636 - u mod 1636) \<le> 4294966260" for u :: nat
proof -
  assume "u < 4294966260"
  then have "u < 2625285 * 1636" by simp
  then have "u div 1636 < 2625285" by (rule less_mult_imp_div_less)
  moreover have "u = u div 1636 * 1636 + u mod 1636" "u mod 1636 < 1636" by simp_all
  ultimately show ?thesis by linarith
qed

lemma no_page_first_before:
  assumes "0 < unat (f - off)" "unat (f - off) < unat (page_difference off)"
  shows "\<not> page_first f"
proof -
  let ?k = "unat (f - off)"
  have u: "unat off < 4294967296" using unsigned_less [of off] by simp
  have f: "unat f = unat off + ?k"
  proof -
    have "unat off + ?k < 4294967296"
      using assms(2) u page_end [of "unat off"] by (auto simp: page_difference_unat split: if_splits)
    then show ?thesis using unat_add32 [of off "f - off"] by simp
  qed
  show ?thesis
  proof (cases "unat off < 4294966260")
    case True
    then have k: "unat off mod 1636 + ?k < 1636" using assms(2) by (simp add: page_difference_unat)
    have "unat f mod 1636 = (unat off mod 1636 + ?k) mod 1636" unfolding f by (simp add: mod_simps)
    also have "\<dots> = unat off mod 1636 + ?k" using k by (rule mod_less)
    finally show ?thesis using assms(1) by (simp add: page_first_def)
  next
    case False
    define j where "j = unat f - 4294966260"
    have j: "unat f = 4294966260 + j" "0 < j" "j < 1636" using False f u assms by (simp_all add: j_def page_difference_unat)
    have "unat f mod 1636 = (1636 * 2625285 + j) mod 1636" using j(1) by simp
    also have "\<dots> = j" using j(3) by (simp only: mod_mult_self4 mod_less)
    finally show ?thesis using j(2) by (simp add: page_first_def)
  qed
qed

definition entered_pages :: "MultiXactOffset \<Rightarrow> int \<Rightarrow> uint32 set" where
  "entered_pages off n = {p. \<exists>f. page_first f \<and> MXOffsetToMemberPage f = p \<and> int (unat (f - off)) < n}"

lemma entered_pages_step:
  assumes "0 < n" "n \<le> 4294967296"
  shows "entered_pages off n = (if page_first off then {MXOffsetToMemberPage off} else {})
    \<union> entered_pages (off + page_difference off) (n - int (unat (page_difference off)))"
proof -
  let ?d = "page_difference off"
  have far: "unat (f - (off + ?d)) = unat (f - off) - unat ?d" if "unat ?d \<le> unat (f - off)" for f
    using that unat_sub32 [of "f - off" ?d] by (simp add: diff_diff_eq)
  have near: "unat (f - off) = unat (f - (off + ?d)) + unat ?d"
    if "int (unat (f - (off + ?d))) < n - int (unat ?d)" for f
  proof -
    have "int (unat (f - (off + ?d)) + unat ?d) < 4294967296" using that assms(2) unfolding of_nat_add by linarith
    then have "unat (f - (off + ?d)) + unat ?d < 4294967296" by linarith
    then show ?thesis using unat_add32 [of "f - (off + ?d)" ?d] by simp
  qed
  show ?thesis
  proof (intro set_eqI iffI)
    fix p assume "p \<in> entered_pages off n"
    then obtain f where f: "page_first f" "MXOffsetToMemberPage f = p" "int (unat (f - off)) < n"
      by (auto simp: entered_pages_def)
    show "p \<in> (if page_first off then {MXOffsetToMemberPage off} else {}) \<union> entered_pages (off + ?d) (n - int (unat ?d))"
    proof (cases "unat (f - off) < unat ?d")
      case True
      then have "unat (f - off) = 0" using no_page_first_before [of f off] f(1) by auto
      then have "f - off = 0" by (simp only: word_unat_eq_iff unsigned_0)
      then have "f = off" by simp
      then show ?thesis using f by simp
    next
      case False
      then have "int (unat (f - (off + ?d))) < n - int (unat ?d)" using far [of f] f(3) by simp
      then show ?thesis using f by (auto simp: entered_pages_def)
    qed
  next
    fix p assume "p \<in> (if page_first off then {MXOffsetToMemberPage off} else {}) \<union> entered_pages (off + ?d) (n - int (unat ?d))"
    then consider "page_first off" "p = MXOffsetToMemberPage off"
      | f where "page_first f" "MXOffsetToMemberPage f = p" "int (unat (f - (off + ?d))) < n - int (unat ?d)"
      by (auto simp: entered_pages_def split: if_splits)
    then show "p \<in> entered_pages off n"
    proof cases
      case 1
      then show ?thesis using assms(1) by (auto simp: entered_pages_def intro!: exI [of _ off])
    next
      case 2
      then have "int (unat (f - off)) < n" using near [OF 2(3)] by linarith
      then show ?thesis using 2(1,2) unfolding entered_pages_def by blast
    qed
  qed
qed

declare ExtendMultiXactMember.simps [simp del]

lemma ExtendMultiXactMember_spec:
  assumes "n \<le> 4294967296"
  shows "ExtendMultiXactMember off n st = st\<lparr>member_pages :=
     (\<lambda>p. if p \<in> entered_pages off n then (\<lambda>_. 0) else member_pages st p)\<rparr>"
  using assms
proof (induction off n st rule: ExtendMultiXactMember.induct)
  case (1 off n st)
  show ?case
  proof (cases "0 < n")
    case True
    let ?d = "page_difference off"
    let ?st = "if MXOffsetToFlagsOffset off = 0 \<and> MXOffsetToFlagsBitShift off = 0
                   then ZeroMultiXactMemberPage (MXOffsetToMemberPage off) st else st"
    have "n - int (unat ?d) \<le> 4294967296" using "1.prems" page_difference_uint [of off] by simp
    then have IH: "ExtendMultiXactMember (off + ?d) (n - int (unat ?d)) ?st = ?st\<lparr>member_pages :=
     (\<lambda>p. if p \<in> entered_pages (off + ?d) (n - int (unat ?d)) then (\<lambda>_. 0) else member_pages ?st p)\<rparr>"
      using "1.IH" [OF True refl refl] by blast
    show ?thesis
      using True by (subst ExtendMultiXactMember.simps)
        (simp only: if_True Let_def IH, auto simp: page_first_iff ZeroMultiXactMemberPage_def entered_pages_step [OF True "1.prems"] fun_eq_iff)
  next
    case False
    then have "\<not> int (unat (f - off)) < n" for f by linarith
    then have "entered_pages off n = {}" by (simp add: entered_pages_def)
    then show ?thesis using False by (subst ExtendMultiXactMember.simps) simp
  qed
qed

section \<open>The store\<close>

lemma window_sint:
  assumes "unat (x - b :: uint32) < 2 ^ 31" "unat (y - b) < 2 ^ 31"
  shows "sint (x - y) < 0 \<longleftrightarrow> unat (x - b) < unat (y - b)"
proof -
  define u v where uv: "u = x - b" "v = y - b"
  have "x - y = u - v" by (simp add: uv)
  then have "sint (x - y) < 0 \<longleftrightarrow> 2 ^ 31 \<le> unat (u - v)" by (simp only: sint_neg_iff)
  also have "\<dots> \<longleftrightarrow> unat u < unat v"
    using assms by (auto simp: unat_sub_if' uv [symmetric])
  finally show ?thesis by (simp only: uv)
qed

definition next_multi :: "MultiXactId \<Rightarrow> MultiXactId" where
  "next_multi m = (if m + 1 < FirstMultiXactId then FirstMultiXactId else m + 1)"

lemma sint_small:
  assumes "unat (w :: uint32) < 2 ^ 31"
  shows "sint w = int (unat w)"
proof -
  have "\<not> bit w 31" using assms sint_neg_iff [of w] bit_last_iff [of w] by simp
  then have "\<not> bit (uint w) 31" by (simp add: bit_unsigned_iff)
  moreover have "take_bit 32 (uint w) = uint w"
    using take_bit_int_eq_self [of "uint w" 32] unsigned_less [of w, where 'a = int] by simp
  ultimately show ?thesis by (simp add: sint_uint signed_take_bit_eq_take_bit_minus)
qed

text \<open>Where the members of a multixact end.\<close>

definition end_of :: "MultiXactStateData \<Rightarrow> MultiXactId \<Rightarrow> MultiXactOffset" where
  "end_of st m = (if nextMXact st = m + 1 then nextOffset st else read_offset st (next_multi m))"

definition slots :: "MultiXactStateData \<Rightarrow> MultiXactId \<Rightarrow> nat" where
  "slots st m = unat (end_of st m - read_offset st m)"

text \<open>The ids in use and the member slots in use lie in windows that neither limit lets grow
  around the ring: \<open>offsetStopLimit\<close> stays at least a page before the oldest member.\<close>

definition mx_limits :: "MultiXactStateData \<Rightarrow> bool" where
  "mx_limits st \<longleftrightarrow>
     unat (nextMXact st - oldestMultiXactId st) \<le> unat (multiStopLimit st - oldestMultiXactId st)
     \<and> unat (multiVacLimit st - oldestMultiXactId st) \<le> unat (multiStopLimit st - oldestMultiXactId st)
     \<and> unat (multiStopLimit st - oldestMultiXactId st) + 3 \<le> 2 ^ 31
     \<and> oldestOffsetKnown st \<and> 1636 \<le> unat (oldestOffset st - offsetStopLimit st)
     \<and> unat (nextOffset st - oldestOffset st) + unat (oldestOffset st - offsetStopLimit st) < 2 ^ 32"

text \<open>One multixact of the abstract map, as the pages hold it.\<close>

definition mx_entry :: "MultiXactStateData \<Rightarrow> MultiXactId \<Rightarrow> MultiXactMember list \<Rightarrow> bool" where
  "mx_entry st m ms \<longleftrightarrow> m \<noteq> 0
     \<and> unat (m - oldestMultiXactId st) < unat (nextMXact st - oldestMultiXactId st)
     \<and> read_offset st m \<noteq> 0
     \<and> (if nextMXact st = m + 1 then slots st m = length ms
        else read_offset st (next_multi m) \<noteq> 0 \<and> slots st m \<le> length ms + 1
          \<and> unat (next_multi m - oldestMultiXactId st) < unat (nextMXact st - oldestMultiXactId st))
     \<and> length ms < 2 ^ 20
     \<and> unat (read_offset st m - oldestOffset st) + slots st m \<le> unat (nextOffset st - oldestOffset st)
     \<and> read_members st (read_offset st m) (slots st m) = ms"

definition mx_rel :: "MultiXactStateData \<Rightarrow> (MultiXactId \<rightharpoonup> MultiXactMember list) \<Rightarrow> bool" where
  "mx_rel st A \<longleftrightarrow> mx_limits st \<and> (\<forall>m ms. A m = Some ms \<longrightarrow> mx_entry st m ms)"

definition mx_cache_ok :: "mx_backend \<Rightarrow> (MultiXactId \<rightharpoonup> MultiXactMember list) \<Rightarrow> bool" where
  "mx_cache_ok b A \<longleftrightarrow> (\<forall>entry \<in> set (MXactCache b).
     A (ent_multi entry) = Some (ent_members entry) \<and> sort_members (ent_members entry) = ent_members entry)"

subsection \<open>Reading\<close>

lemma members_length_entry:
  assumes "mx_entry st m ms"
  shows "members_length st m = Some (int (slots st m))"
proof -
  have b: "slots st m < 2 ^ 31" using assms by (auto simp: mx_entry_def split: if_splits)
  have s: "sint (end_of st m - read_offset st m) = int (slots st m)"
    using b sint_small by (simp add: slots_def)
  show ?thesis using assms s
    by (auto simp: members_length_def Let_def mx_entry_def end_of_def next_multi_def split: if_splits)
qed


lemma SetOldestVisible_fields [simp]:
  "nextMXact (MultiXactIdSetOldestVisible st b) = nextMXact st"
  "nextOffset (MultiXactIdSetOldestVisible st b) = nextOffset st"
  "offset_pages (MultiXactIdSetOldestVisible st b) = offset_pages st"
  "member_pages (MultiXactIdSetOldestVisible st b) = member_pages st"
  "oldestMultiXactId (MultiXactIdSetOldestVisible st b) = oldestMultiXactId st"
  "oldestOffset (MultiXactIdSetOldestVisible st b) = oldestOffset st"
  "oldestOffsetKnown (MultiXactIdSetOldestVisible st b) = oldestOffsetKnown st"
  "offsetStopLimit (MultiXactIdSetOldestVisible st b) = offsetStopLimit st"
  "multiVacLimit (MultiXactIdSetOldestVisible st b) = multiVacLimit st"
  "multiStopLimit (MultiXactIdSetOldestVisible st b) = multiStopLimit st"
  by (simp_all add: MultiXactIdSetOldestVisible_def Let_def)

lemma read_member_cong: "member_pages st' = member_pages st \<Longrightarrow> read_member st' off = read_member st off"
  by (simp add: read_member_def)

lemma read_members_cong:
  assumes "\<And>i. i < n \<Longrightarrow> read_member st' (off + word_of_nat i) = read_member st (off + word_of_nat i)"
  shows "read_members st' off n = read_members st off n"
proof -
  have "map (\<lambda>i. read_member st' (off + word_of_nat i)) [0..<n] = map (\<lambda>i. read_member st (off + word_of_nat i)) [0..<n]"
    using assms by (intro map_cong) simp_all
  then show ?thesis by (simp only: read_members_eq)
qed

lemma mx_rel_SetOldestVisible: "mx_rel st A \<Longrightarrow> mx_rel (MultiXactIdSetOldestVisible st b) A"
proof -
  let ?st = "MultiXactIdSetOldestVisible st b"
  have r: "read_offset ?st m = read_offset st m" for m by (simp add: read_offset_def)
  have e: "slots ?st m = slots st m" for m by (simp add: slots_def end_of_def r)
  have m: "read_members ?st off n = read_members st off n" for off n
    by (rule read_members_cong) (rule read_member_cong, simp)
  show "mx_rel st A \<Longrightarrow> mx_rel ?st A"
    unfolding mx_rel_def mx_limits_def mx_entry_def r e m SetOldestVisible_fields .
qed

lemma sort_sorted: "sort_members (sort_members ms) = sort_members ms"
  unfolding sort_members_def by (rule sort_key_id_if_sorted) (rule sorted_sort_key)

lemma cache_put_ok:
  assumes "mx_cache_ok b A" "A multi = Some (sort_members ms)"
  shows "mx_cache_ok (mXactCachePut multi ms b) A"
  using assms by (auto simp: mx_cache_ok_def mXactCachePut_def Let_def sort_sorted dest!: in_set_butlastD split: if_splits)

lemma cache_by_id_ok:
  assumes "mx_cache_ok b A" "mXactCacheGetById multi b = (r, b')"
  shows "mx_cache_ok b' A \<and> (\<forall>ms. r = Some ms \<longrightarrow> A multi = Some ms)"
proof (cases "List.find (\<lambda>entry. ent_multi entry = multi) (MXactCache b)")
  case None
  then show ?thesis using assms by (auto simp: mXactCacheGetById_def)
next
  case (Some e)
  then have "e \<in> set (MXactCache b)" "ent_multi e = multi" by (auto simp: find_Some_iff)
  moreover have "set (e # remove1 e (MXactCache b)) \<subseteq> set (MXactCache b)"
    using calculation(1) set_remove1_subset by fastforce
  ultimately show ?thesis using assms Some
    by (auto simp: mXactCacheGetById_def mx_cache_ok_def)
qed

definition map_sorted :: "(MultiXactId \<rightharpoonup> MultiXactMember list) \<Rightarrow> bool" where
  "map_sorted A \<longleftrightarrow> (\<forall>m ms. A m = Some ms \<longrightarrow> sort_members ms = ms)"

lemma multixact_read:
  assumes rel: "mx_rel st A" and srt: "map_sorted A" and c: "mx_cache_ok b A" and m: "A m = Some ms"
  shows "\<exists>st' b'. GetMultiXactIdMembers m False False st b = Some (Inr (Some ms), st', b')
     \<and> mx_rel st' A \<and> mx_cache_ok b' A"
proof -
  have e: "mx_entry st m ms" using rel m by (simp add: mx_rel_def)
  then have v: "MultiXactIdIsValid m" by (simp add: mx_entry_def MultiXactIdIsValid_def)
  obtain r b1 where g: "mXactCacheGetById m b = (r, b1)" by fastforce
  note c1 = cache_by_id_ok [OF c g]
  show ?thesis
  proof (cases r)
    case (Some ms')
    then show ?thesis using g v c1 m rel by (simp add: GetMultiXactIdMembers_def)
  next
    case None
    let ?st = "MultiXactIdSetOldestVisible st b1"
    have rel': "mx_rel ?st A" by (rule mx_rel_SetOldestVisible [OF rel])
    then have e': "mx_entry ?st m ms" and lim: "mx_limits ?st" using m by (simp_all add: mx_rel_def)
    define o' where "o' = oldestMultiXactId st"
    have w: "unat (m - o') < unat (nextMXact ?st - o')" "unat (nextMXact ?st - o') < 2 ^ 31" "unat (o' - o') < 2 ^ 31"
      using e' lim by (simp_all add: mx_entry_def mx_limits_def o'_def)
    have p: "\<not> MultiXactIdPrecedes m (oldestMultiXactId ?st)" "MultiXactIdPrecedes m (nextMXact ?st)"
      using window_sint [of m o' o'] window_sint [of m o' "nextMXact ?st"] w
      by (simp_all add: MultiXactIdPrecedes_def flip: o'_def)
    have b: "\<not> (int (slots ?st m) < 0 \<or> int (slots ?st m) * 8 > MaxAllocSize)"
      using e' by (auto simp: mx_entry_def split: if_splits)
    have ptr: "read_members ?st (read_offset ?st m) (nat (int (slots ?st m))) = ms"
      using e' by (simp add: mx_entry_def)
    have "GetMultiXactIdMembers m False False st b = Some (Inr (Some ms), ?st, mXactCachePut m ms b1)"
      using v g None p b members_length_entry [OF e'] ptr
      by (simp add: GetMultiXactIdMembers_def Let_def del: SetOldestVisible_fields)
    moreover have "mx_cache_ok (mXactCachePut m ms b1) A"
      using cache_put_ok [of b1 A m ms] c1 m srt by (simp add: map_sorted_def)
    ultimately show ?thesis using rel' by blast
  qed
qed


subsection \<open>Creating\<close>

lemma entry_address_inj:
  assumes "MultiXactIdToOffsetPage x = MultiXactIdToOffsetPage y" "MultiXactIdToOffsetEntry x = MultiXactIdToOffsetEntry y"
  shows "x = y"
proof -
  have "unat x div 2048 = unat y div 2048"
    using arg_cong [OF assms(1), of unat] by (simp add: MultiXactIdToOffsetPage_def unat_div)
  moreover have "unat x mod 2048 = unat y mod 2048"
    using arg_cong [OF assms(2), of unat] by (simp add: MultiXactIdToOffsetEntry_def unat_mod)
  ultimately have "unat x = unat y" by (metis div_mult_mod_eq)
  then show ?thesis by (simp only: word_unat_eq_iff)
qed

lemma read_put_offset: "read_offset (put_offset r off st) m = (if m = r then off else read_offset st m)"
  using entry_address_inj [of m r] by (auto simp: read_offset_def put_offset_def)

text \<open>Starting a page of the offsets area touches no id of the window before it.\<close>

lemma extend_offset_frame:
  assumes "m \<noteq> 0" "m \<noteq> r" "2 ^ 31 \<le> unat (m - r)"
  shows "read_offset (ExtendMultiXactOffset r st) m = read_offset st m"
proof (rule ccontr)
  assume c: "\<not> ?thesis"
  then have p: "MultiXactIdToOffsetEntry r = 0 \<or> r = 1" "MultiXactIdToOffsetPage m = MultiXactIdToOffsetPage r"
    by (auto simp: ExtendMultiXactOffset_def ZeroMultiXactOffsetPage_def read_offset_def split: if_splits)
  have pg: "unat m div 2048 = unat r div 2048"
    using arg_cong [OF p(2), of unat] by (simp add: MultiXactIdToOffsetPage_def unat_div)
  have "unat m div 2048 * 2048 + unat m mod 2048 = unat m" "unat m mod 2048 < 2048" by simp_all
  from p(1) show False
  proof
    assume "MultiXactIdToOffsetEntry r = 0"
    then have "unat (MultiXactIdToOffsetEntry r) = 0" by (simp only: unsigned_0)
    then have "unat r mod 2048 = 0" unfolding MultiXactIdToOffsetEntry_def unat_mod by simp
    then have "unat r = unat m div 2048 * 2048" using pg div_mult_mod_eq [of "unat r" 2048] by simp
    then have "unat m - unat r < 2048" "unat r \<le> unat m"
      using \<open>unat m div 2048 * 2048 + unat m mod 2048 = unat m\<close> \<open>unat m mod 2048 < 2048\<close> by linarith+
    then show False using assms(3) unat_sub32 [of m r] by simp
  next
    assume r: "r = 1"
    then have "unat m div 2048 = 0" using pg by simp
    then have m: "unat m < 2048"
      using \<open>unat m div 2048 * 2048 + unat m mod 2048 = unat m\<close> \<open>unat m mod 2048 < 2048\<close> by linarith
    have "unat m \<noteq> 0" using assms(1) by (metis unat_eq_zero)
    then show False using assms(3) m r unat_sub32 [of m r] by simp
  qed
qed

lemma ExtendMultiXactOffset_fields [simp]:
  "nextMXact (ExtendMultiXactOffset r st) = nextMXact st" "nextOffset (ExtendMultiXactOffset r st) = nextOffset st"
  "member_pages (ExtendMultiXactOffset r st) = member_pages st"
  "oldestMultiXactId (ExtendMultiXactOffset r st) = oldestMultiXactId st"
  "oldestOffset (ExtendMultiXactOffset r st) = oldestOffset st"
  "oldestOffsetKnown (ExtendMultiXactOffset r st) = oldestOffsetKnown st"
  "offsetStopLimit (ExtendMultiXactOffset r st) = offsetStopLimit st"
  "multiVacLimit (ExtendMultiXactOffset r st) = multiVacLimit st"
  "multiStopLimit (ExtendMultiXactOffset r st) = multiStopLimit st"
  by (simp_all add: ExtendMultiXactOffset_def ZeroMultiXactOffsetPage_def)

text \<open>A slot before the new members keeps its contents while their pages are started.\<close>

lemma entered_page_near:
  assumes "MXOffsetToMemberPage x \<in> entered_pages nx N"
  shows "\<exists>f. int (unat (f - nx)) < N \<and> unat (x - f) < 1636"
proof -
  obtain f where f: "page_first f" "MXOffsetToMemberPage f = MXOffsetToMemberPage x" "int (unat (f - nx)) < N"
    using assms by (auto simp: entered_pages_def)
  have "unat f div 1636 = unat x div 1636" using f(2) address_unat(1) by metis
  moreover have "unat f mod 1636 = 0" using f(1) by (simp add: page_first_def)
  moreover have "unat f = unat f div 1636 * 1636 + unat f mod 1636" "unat x = unat x div 1636 * 1636 + unat x mod 1636"
    "unat x mod 1636 < 1636" by simp_all
  ultimately have "unat f \<le> unat x" "unat x - unat f < 1636" by linarith+
  then have "unat (x - f) < 1636" by (simp add: unat_sub32)
  then show ?thesis using f(3) by blast
qed

lemma ring_triangle: "unat (x - a :: uint32) \<le> unat (x - f) + unat (f - a)"
proof -
  have "x - a = (x - f) + (f - a)" by simp
  then show ?thesis using unat_add32 [of "x - f" "f - a"] by (metis diff_le_self order_refl)
qed


text \<open>The state after the ids and slots are taken and the members written.\<close>

definition created ::
    "MultiXactStateData \<Rightarrow> MultiXactId \<Rightarrow> MultiXactMember list \<Rightarrow> MultiXactStateData" where
  "created st r ms =
     (let nx = nextOffset st; N = (if nx = 0 then int (length ms) + 1 else int (length ms))
      in RecordNewMultiXact r (if nx = 0 then 1 else nx) ms
           ((ExtendMultiXactMember nx N (ExtendMultiXactOffset r st))
              \<lparr>nextMXact := r + 1, nextOffset := nx + word_of_int N\<rparr>))"

definition new_slots :: "MultiXactStateData \<Rightarrow> MultiXactMember list \<Rightarrow> nat" where
  "new_slots st ms = (if nextOffset st = 0 then Suc (length ms) else length ms)"

definition new_start :: "MultiXactStateData \<Rightarrow> MultiXactOffset" where
  "new_start st = (if nextOffset st = 0 then 1 else nextOffset st)"

lemma ring3:
  assumes "unat (n - o' :: uint32) + unat (o' - s) < 2 ^ 32" "0 < unat (o' - s)"
  shows "n \<noteq> s" "unat (s - n) + unat (n - o') + unat (o' - s) = 2 ^ 32"
proof -
  have "n - s = (n - o') + (o' - s)" by simp
  then have a: "unat (n - s) = unat (n - o') + unat (o' - s)"
    using assms(1) unat_add32 [of "n - o'" "o' - s"] by simp
  then show ne: "n \<noteq> s" using assms(2) by auto
  have "s - n = - (n - s)" by simp
  moreover have "n - s \<noteq> 0" using ne by simp
  moreover have "0 < unat (n - s)" using a assms(2) by simp
  ultimately have "unat (s - n) = 2 ^ 32 - unat (n - s)" using unat_sub32 [of 0 "n - s"] by simp
  then show "unat (s - n) + unat (n - o') + unat (o' - s) = 2 ^ 32" using a assms(1) by simp
qed

lemma created_fields [simp]:
  "nextMXact (created st r ms) = r + 1"
  "nextOffset (created st r ms) = nextOffset st + word_of_nat (new_slots st ms)"
  by (simp_all add: created_def Let_def RecordNewMultiXact_def put_offset_def new_slots_def)


lemma record_members_olds [simp]:
  "oldestOffset (record_members off ms st) = oldestOffset st"
  "oldestOffsetKnown (record_members off ms st) = oldestOffsetKnown st"
  "offsetStopLimit (record_members off ms st) = offsetStopLimit st"
  "multiVacLimit (record_members off ms st) = multiVacLimit st"
  "multiStopLimit (record_members off ms st) = multiStopLimit st"
  by (induction ms arbitrary: off st) (simp_all add: record_member_def Let_def put_member_word_def)

lemma new_slots_bound: "length ms < 2 ^ 20 \<Longrightarrow> int (new_slots st ms) \<le> 4294967296"
  by (simp add: new_slots_def)

lemma created_eq:
  assumes "length ms < 2 ^ 20"
  shows "created st r ms = RecordNewMultiXact r (new_start st) ms
    (ExtendMultiXactOffset r st\<lparr>member_pages :=
        (\<lambda>p. if p \<in> entered_pages (nextOffset st) (int (new_slots st ms)) then (\<lambda>_. 0) else member_pages st p),
      nextMXact := r + 1, nextOffset := nextOffset st + word_of_nat (new_slots st ms)\<rparr>)"
proof -
  have N: "(if nextOffset st = 0 then int (length ms) + 1 else int (length ms)) = int (new_slots st ms)"
    by (simp add: new_slots_def)
  show ?thesis
    unfolding created_def Let_def N ExtendMultiXactMember_spec [OF new_slots_bound [OF assms]]
      ExtendMultiXactOffset_fields(3)
    by (simp add: new_start_def)
qed

lemma created_olds [simp]:
  assumes "length ms < 2 ^ 20"
  shows "oldestMultiXactId (created st r ms) = oldestMultiXactId st"
  "oldestOffset (created st r ms) = oldestOffset st"
  "oldestOffsetKnown (created st r ms) = oldestOffsetKnown st"
  "offsetStopLimit (created st r ms) = offsetStopLimit st"
  "multiVacLimit (created st r ms) = multiVacLimit st"
  "multiStopLimit (created st r ms) = multiStopLimit st"
  by (simp_all add: created_eq [OF assms] RecordNewMultiXact_def put_offset_def)

lemma created_read_offset:
  assumes "length ms < 2 ^ 20"
  shows "read_offset (created st r ms) m = (if m = r then new_start st else read_offset (ExtendMultiXactOffset r st) m)"
proof -
  have "read_offset (record_members off ms st) m = read_offset st m" for off st by (simp add: read_offset_def)
  then show ?thesis
    by (simp add: created_eq [OF assms] RecordNewMultiXact_def read_put_offset) (simp add: read_offset_def)
qed

lemma created_read_member:
  assumes "length ms < 2 ^ 20" "\<forall>m \<in> set ms. mxm_status m < 256"
  shows "read_member (created st r ms) x =
    (if unat (x - new_start st) < length ms then ms ! unat (x - new_start st)
     else if MXOffsetToMemberPage x \<in> entered_pages (nextOffset st) (int (new_slots st ms)) then \<lparr>mxm_xid = 0, mxm_status = 0\<rparr>
     else read_member st x)"
proof -
  have "length ms \<le> 2 ^ 32" using assms(1) by simp
  note r = read_record_members [OF assms(2) this]
  show ?thesis
    by (simp add: created_eq [OF assms(1)] RecordNewMultiXact_def r) (simp add: read_member_def put_offset_def Let_def)
qed

text \<open>Room for the new members, as the limit check left it.\<close>

definition room_for :: "MultiXactStateData \<Rightarrow> MultiXactMember list \<Rightarrow> bool" where
  "room_for st ms \<longleftrightarrow> new_slots st ms + unat (nextOffset st - oldestOffset st)
     + unat (oldestOffset st - offsetStopLimit st) < 2 ^ 32"

lemma room_from_check:
  assumes "mx_limits st" "length ms < 2 ^ 20"
    "\<not> MultiXactOffsetWouldWrap (offsetStopLimit st) (nextOffset st) (word_of_int (int (new_slots st ms)))"
  shows "room_for st ms"
proof -
  have n: "new_slots st ms < 2 ^ 32 - 1" using assms(2) by (simp add: new_slots_def)
  then have u: "unat (word_of_int (int (new_slots st ms)) :: uint32) = new_slots st ms"
    by (simp add: unsigned_of_nat take_bit_nat_eq_self)
  have l: "unat (nextOffset st - oldestOffset st) + unat (oldestOffset st - offsetStopLimit st) < 2 ^ 32"
    "0 < unat (oldestOffset st - offsetStopLimit st)" using assms(1) by (simp_all add: mx_limits_def)
  have "\<not> ring_size (nextOffset st) (offsetStopLimit st) \<le> new_slots st ms"
    using would_wrap [of "word_of_int (int (new_slots st ms))" "offsetStopLimit st" "nextOffset st"] assms(3) n u
    by (auto split: if_splits)
  then have "new_slots st ms < unat (offsetStopLimit st - nextOffset st)"
    using ring3(1) [OF l] by (simp add: ring_size_def)
  then show ?thesis using ring3(2) [OF l] by (simp add: room_for_def)
qed

lemma old_slot_far:
  assumes "room_for st ms" "mx_limits st" "unat (x - oldestOffset st) < unat (nextOffset st - oldestOffset st)"
  shows "new_slots st ms + 1636 < unat (x - nextOffset st)"
proof -
  let ?a = "x - oldestOffset st" and ?b = "nextOffset st - oldestOffset st"
  have "unat (?a - ?b) = unat ?a + 2 ^ 32 - unat ?b" using unat_sub32 [of ?a ?b] assms(3) by simp
  moreover have "?a - ?b = x - nextOffset st" by simp
  moreover have "1636 \<le> unat (oldestOffset st - offsetStopLimit st)" using assms(2) by (simp add: mx_limits_def)
  ultimately show ?thesis using assms(1,3) by (simp add: room_for_def)
qed

lemma created_old_slot:
  assumes "room_for st ms" "mx_limits st" "length ms < 2 ^ 20" "\<forall>m \<in> set ms. mxm_status m < 256"
    and "unat (x - oldestOffset st) < unat (nextOffset st - oldestOffset st)"
  shows "read_member (created st r ms) x = read_member st x"
proof -
  note far = old_slot_far [OF assms(1,2,5)]
  have "unat (new_start st - nextOffset st) + length ms = new_slots st ms"
    by (simp add: new_start_def new_slots_def)
  then have 1: "\<not> unat (x - new_start st) < length ms"
    using far ring_triangle [of x "nextOffset st" "new_start st"] by linarith
  have 2: "MXOffsetToMemberPage x \<notin> entered_pages (nextOffset st) (int (new_slots st ms))"
  proof
    assume "MXOffsetToMemberPage x \<in> entered_pages (nextOffset st) (int (new_slots st ms))"
    then obtain f where "int (unat (f - nextOffset st)) < int (new_slots st ms)" "unat (x - f) < 1636"
      using entered_page_near by blast
    then show False using far ring_triangle [of x "nextOffset st" f] by linarith
  qed
  show ?thesis using 1 2 by (simp add: created_read_member [OF assms(3,4)])
qed


lemma read_members_snoc:
  "read_members st off (Suc n) = read_members st off n @
     (if TransactionIdIsValid (mxm_xid (read_member st (off + word_of_nat n)))
      then [read_member st (off + word_of_nat n)] else [])"
  by (simp add: read_members_eq)

lemma read_offset_created_old:
  assumes "length ms < 2 ^ 20" "m \<noteq> 0" "unat (m - b) < unat (r - b)" "unat (r - b) < 2 ^ 31"
  shows "read_offset (created st r ms) m = read_offset st m"
proof -
  have "unat ((m - b) - (r - b)) = unat (m - b) + 4294967296 - unat (r - b)"
    using assms(3) unat_sub32 [of "m - b" "r - b"] by simp
  then have "unat (m - r) = unat (m - b) + 4294967296 - unat (r - b)" by simp
  then have "2 ^ 31 \<le> unat (m - r)" using assms(4) by simp
  moreover have "m \<noteq> r" using assms(3) by auto
  ultimately show ?thesis by (simp add: created_read_offset [OF assms(1)] extend_offset_frame [OF assms(2)])
qed

lemma slot_position:
  assumes "unat (a - b :: uint32) + i < 2 ^ 32"
  shows "unat (a + word_of_nat i - b) = unat (a - b) + i"
proof -
  have "unat (word_of_nat i :: uint32) = i" using assms by (simp add: unsigned_of_nat take_bit_nat_eq_self)
  then have "unat (a - b + word_of_nat i) = unat (a - b) + i" using assms unat_add32 [of "a - b" "word_of_nat i"] by simp
  then show ?thesis by (simp only: add_diff_eq diff_add_eq)
qed

lemma next_window:
  assumes "r = (if nextMXact st = 0 then 1 else nextMXact st)" "mx_limits st"
  shows "unat (nextMXact st - oldestMultiXactId st) \<le> unat (r - oldestMultiXactId st)"
    "unat (r - oldestMultiXactId st) < 2 ^ 31"
proof -
  have b: "unat (nextMXact st - oldestMultiXactId st) + 3 \<le> 2 ^ 31" using assms(2) by (simp add: mx_limits_def)
  have "unat (1 - oldestMultiXactId st) = unat (0 - oldestMultiXactId st) + 1" if "nextMXact st = 0"
    using slot_position [of 0 "oldestMultiXactId st" 1] b that by simp
  then show "unat (nextMXact st - oldestMultiXactId st) \<le> unat (r - oldestMultiXactId st)"
    "unat (r - oldestMultiXactId st) < 2 ^ 31" using assms(1) b by auto
qed

lemma created_old_entry:
  assumes lim: "mx_limits st" and room: "room_for st ms" and ms: "length ms < 2 ^ 20" "\<forall>m \<in> set ms. mxm_status m < 256"
    and r: "r = (if nextMXact st = 0 then 1 else nextMXact st)"
    and e: "mx_entry st m ms0"
  shows "mx_entry (created st r ms) m ms0"
proof -
  let ?o = "oldestMultiXactId st" and ?st = "created st r ms" and ?start = "read_offset st m"
  note W = next_window [OF r lim]
  have m0: "m \<noteq> 0" and km: "unat (m - ?o) < unat (r - ?o)" using e W by (simp_all add: mx_entry_def)
  have start: "read_offset ?st m = ?start" by (rule read_offset_created_old [OF ms(1) m0 km W(2)])
  have used: "unat (?start - oldestOffset st) + slots st m \<le> unat (nextOffset st - oldestOffset st)"
    using e by (simp add: mx_entry_def)
  have nx': "unat (nextOffset ?st - oldestOffset st) = unat (nextOffset st - oldestOffset st) + new_slots st ms"
    using room slot_position [of "nextOffset st" "oldestOffset st" "new_slots st ms"] by (simp add: room_for_def)
  have r1: "unat (r + 1 - ?o) = unat (r - ?o) + 1" using slot_position [of r ?o 1] W(2) by simp
  have old: "read_members ?st ?start (slots st m) = ms0"
  proof -
    have "read_members ?st ?start (slots st m) = read_members st ?start (slots st m)"
    proof (rule read_members_cong)
      fix i assume i: "i < slots st m"
      have "unat (nextOffset st - oldestOffset st) < 2 ^ 32" by (rule order_less_le_trans [OF unsigned_less]) simp
      then have "unat (?start + word_of_nat i - oldestOffset st) < unat (nextOffset st - oldestOffset st)"
        using slot_position [of ?start "oldestOffset st" i] used i by simp
      then show "read_member ?st (?start + word_of_nat i) = read_member st (?start + word_of_nat i)"
        by (rule created_old_slot [OF room lim ms])
    qed
    then show ?thesis using e by (simp add: mx_entry_def)
  qed
  have ne: "r + 1 \<noteq> m + 1" using km by auto
  have basic: "m \<noteq> 0 \<and> unat (m - ?o) < unat (r + 1 - ?o) \<and> read_offset st m \<noteq> 0 \<and> length ms0 < 2 ^ 20"
    using e km r1 by (simp add: mx_entry_def)
  show ?thesis
  proof (cases "nextMXact st = m + 1")
    case True
    then have nm: "next_multi m = r" using r by (auto simp: next_multi_def)
    have len: "slots st m = length ms0" using e True by (simp add: mx_entry_def)
    have ns: "read_offset ?st r = new_start st" by (simp add: created_read_offset [OF ms(1)])
    have sl: "slots ?st m = slots st m + (if nextOffset st = 0 then 1 else 0)"
      using slot_position [of "nextOffset st" ?start 1] len basic True ne
      by (auto simp: slots_def end_of_def nm ns start new_start_def)
    have rd: "read_members ?st ?start (slots ?st m) = ms0"
    proof (cases "nextOffset st = 0")
      case nz: True
      have "int 0 < int (new_slots st ms)" by (simp add: new_slots_def nz)
      then have "MXOffsetToMemberPage 0 \<in> entered_pages 0 (int (new_slots st ms))"
        unfolding entered_pages_def by (intro CollectI exI [of _ 0]) (simp add: page_first_def)
      moreover have "\<not> unat (0 - new_start st) < length ms"
        using ms(1) nz by (simp add: new_start_def unsigned_minus_1_eq_mask mask_eq_exp_minus_1)
      ultimately have "mxm_xid (read_member ?st 0) = 0"
        using nz by (simp add: created_read_member [OF ms])
      moreover have "?start + word_of_nat (slots st m) = 0"
        using True nz by (simp add: slots_def end_of_def)
      ultimately show ?thesis using nz old by (simp add: sl read_members_snoc TransactionIdIsValid_def del: read_members.simps)
    next
      case False
      then show ?thesis using old by (simp add: sl)
    qed
    have "new_start st \<noteq> 0" by (simp add: new_start_def)
    moreover have "unat (?start - oldestOffset st) + slots ?st m \<le> unat (nextOffset ?st - oldestOffset st)"
      using used nx' by (auto simp: sl new_slots_def)
    ultimately show ?thesis using basic rd len ne r1
      by (simp add: mx_entry_def start nm ns sl created_olds [OF ms(1)] del: created_fields(2))
  next
    case False
    then have B: "read_offset st (next_multi m) \<noteq> 0" "slots st m \<le> length ms0 + 1"
      "unat (next_multi m - ?o) < unat (r - ?o)" using e W(1) by (simp_all add: mx_entry_def)
    have "next_multi m \<noteq> 0" by (auto simp: next_multi_def)
    then have nm: "read_offset ?st (next_multi m) = read_offset st (next_multi m)"
      by (rule read_offset_created_old [OF ms(1) _ B(3) W(2)])
    have sl: "slots ?st m = slots st m" using False ne by (simp add: slots_def end_of_def nm start)
    have "unat (?start - oldestOffset st) + slots st m \<le> unat (nextOffset ?st - oldestOffset st)"
      using used nx' by simp
    then show ?thesis using basic B ne r1 old
      by (simp add: mx_entry_def start nm sl created_olds [OF ms(1)] del: created_fields(2))
  qed
qed


lemma created_new_entry:
  assumes lim: "mx_limits st" and room: "room_for st ms"
    and ms: "length ms < 2 ^ 20" "\<forall>m \<in> set ms. mxm_status m < 256" "\<forall>m \<in> set ms. TransactionIdIsValid (mxm_xid m)"
    and r: "r = (if nextMXact st = 0 then 1 else nextMXact st)"
  shows "mx_entry (created st r ms) r ms"
proof -
  let ?st = "created st r ms" and ?n = "length ms"
  have "unat (r + 1 - oldestMultiXactId st) = unat (r - oldestMultiXactId st) + 1"
    using slot_position [of r "oldestMultiXactId st" 1] next_window(2) [OF r lim] by simp
  moreover have r0: "r \<noteq> 0" using r by auto
  have start: "read_offset ?st r = new_start st" by (simp add: created_read_offset [OF ms(1)])
  have sl: "slots ?st r = ?n"
  proof -
    have "nextOffset ?st - new_start st = word_of_nat ?n" by (simp add: new_start_def new_slots_def)
    then show ?thesis using ms(1) by (simp add: slots_def end_of_def start unsigned_of_nat take_bit_nat_eq_self del: created_fields(2))
  qed
  have nx': "unat (nextOffset ?st - oldestOffset st) = unat (nextOffset st - oldestOffset st) + new_slots st ms"
    using room slot_position [of "nextOffset st" "oldestOffset st" "new_slots st ms"] by (simp add: room_for_def)
  have "unat (new_start st - oldestOffset st) + ?n = unat (nextOffset ?st - oldestOffset st)"
    using nx' room slot_position [of "nextOffset st" "oldestOffset st" 1]
    by (auto simp: new_start_def new_slots_def room_for_def simp del: created_fields(2))
  moreover have "read_members ?st (new_start st) ?n = ms"
  proof -
    have "map (\<lambda>i. read_member ?st (new_start st + word_of_nat i)) [0..<?n] = map (\<lambda>i. ms ! i) [0..<?n]"
      using ms(1) by (intro map_cong) (simp_all add: created_read_member [OF ms(1,2)] unsigned_of_nat take_bit_nat_eq_self)
    then show ?thesis using ms(3) by (simp add: read_members_eq map_nth)
  qed
  moreover have "new_start st \<noteq> 0" by (simp add: new_start_def)
  ultimately show ?thesis using r0 ms(1)
    by (simp add: mx_entry_def start sl created_olds [OF ms(1)] del: created_fields(2))
qed

lemma created_limits:
  assumes "mx_limits st" "room_for st ms" "length ms < 2 ^ 20"
    and "unat (r - oldestMultiXactId st) < unat (multiStopLimit st - oldestMultiXactId st)"
  shows "mx_limits (created st r ms)"
proof -
  have "unat (r + 1 - oldestMultiXactId st) = unat (r - oldestMultiXactId st) + 1"
    using slot_position [of r "oldestMultiXactId st" 1] assms(1,4) by (simp add: mx_limits_def)
  moreover have "unat (nextOffset (created st r ms) - oldestOffset st) = unat (nextOffset st - oldestOffset st) + new_slots st ms"
    using assms(2) slot_position [of "nextOffset st" "oldestOffset st" "new_slots st ms"] by (simp add: room_for_def)
  ultimately show ?thesis using assms(1,2,4)
    by (simp add: mx_limits_def created_olds [OF assms(3)] room_for_def del: created_fields(2))
qed

lemma created_rel:
  assumes "mx_rel st A" "room_for st ms" "length ms < 2 ^ 20" "\<forall>m \<in> set ms. mxm_status m < 256"
    "\<forall>m \<in> set ms. TransactionIdIsValid (mxm_xid m)" "r = (if nextMXact st = 0 then 1 else nextMXact st)"
    and "unat (r - oldestMultiXactId st) < unat (multiStopLimit st - oldestMultiXactId st)"
  shows "mx_rel (created st r ms) (A(r \<mapsto> ms)) \<and> A r = None"
proof -
  have lim: "mx_limits st" using assms(1) by (simp add: mx_rel_def)
  have "A r = None"
  proof (rule ccontr)
    assume "A r \<noteq> None"
    then obtain m where "A r = Some m" by blast
    then have "mx_entry st r m" using assms(1) by (simp add: mx_rel_def)
    then show False using next_window(1) [OF assms(6) lim] by (simp add: mx_entry_def)
  qed
  moreover have "mx_entry (created st r ms) m ms'" if "(A(r \<mapsto> ms)) m = Some ms'" for m ms'
  proof (cases "m = r")
    case True
    then show ?thesis using that created_new_entry [OF lim assms(2-6)] by simp
  next
    case False
    then have "mx_entry st m ms'" using that assms(1) by (simp add: mx_rel_def)
    then show ?thesis by (rule created_old_entry [OF lim assms(2-4,6)])
  qed
  ultimately show ?thesis using created_limits [OF lim assms(2,3,7)] by (simp add: mx_rel_def)
qed

lemma allocate_taken:
  assumes "oldestOffsetKnown st" "length ms < 2 ^ 20"
    and "allocate_members r (int (length ms)) st = (Inr (r', off), st1)"
  shows "r' = r \<and> off = new_start st
    \<and> \<not> MultiXactOffsetWouldWrap (offsetStopLimit st) (nextOffset st) (word_of_int (int (new_slots st ms)))
    \<and> st1 = ExtendMultiXactOffset r st\<lparr>member_pages :=
        (\<lambda>p. if p \<in> entered_pages (nextOffset st) (int (new_slots st ms)) then (\<lambda>_. 0) else member_pages st p),
      nextMXact := nextMXact st + 1, nextOffset := nextOffset st + word_of_nat (new_slots st ms)\<rparr>"
proof -
  have p: "(if nextOffset st = 0 then (1, int (length ms) + 1) else (nextOffset st, int (length ms)))
      = (new_start st, int (new_slots st ms))"
    by (simp add: new_start_def new_slots_def)
  let ?w = "MultiXactOffsetWouldWrap (offsetStopLimit st) (nextOffset st) (word_of_int (int (new_slots st ms)))"
  have "\<not> ?w" 
  proof
    assume ?w
    then show False using assms(1,3) unfolding allocate_members_def Let_def ExtendMultiXactOffset_fields p
      by simp
  qed
  note spec = ExtendMultiXactMember_spec [OF new_slots_bound [OF assms(2)], of "nextOffset st" st
      "ExtendMultiXactOffset r st", unfolded ExtendMultiXactOffset_fields(3)]
  then show ?thesis
    using assms(3) \<open>\<not> ?w\<close> unfolding allocate_members_def Let_def ExtendMultiXactOffset_fields p
    by (auto simp: spec)
qed

lemma GetNewMultiXactId_taken:
  assumes lim: "mx_limits st" and pm: "under_postmaster b" and n: "length ms < 2 ^ 20"
    and g: "GetNewMultiXactId (int (length ms)) st b = (Inr (r, off), st1)"
  shows "r = (if nextMXact st = 0 then 1 else nextMXact st)" "room_for st ms"
    "unat (r - oldestMultiXactId st) < unat (multiStopLimit st - oldestMultiXactId st)"
    "RecordNewMultiXact r off ms st1 = created st r ms"
proof -
  let ?st = "if nextMXact st < FirstMultiXactId then st\<lparr>nextMXact := FirstMultiXactId\<rparr> else st"
  let ?r = "if nextMXact st = 0 then 1 else nextMXact st"
  have lt1: "x < 1 \<longleftrightarrow> x = 0" for x :: uint32 by (simp add: word_less_nat_alt unat_eq_zero)
  have r': "nextMXact ?st = ?r" by (simp add: lt1)
  have a: "allocate_members ?r (int (length ms)) ?st = (Inr (r, off), st1)"
    "MultiXactIdPrecedes ?r (multiVacLimit st) \<or> MultiXactIdPrecedes ?r (multiStopLimit st)"
    using g pm by (auto simp: GetNewMultiXactId_def Let_def lt1 split: if_splits)
  have known: "oldestOffsetKnown ?st" using lim by (simp add: mx_limits_def)
  note t = allocate_taken [OF known n a(1)]
  from t show r: "r = ?r" by blast
  have same: "new_start ?st = new_start st" "new_slots ?st ms = new_slots st ms" "nextOffset ?st = nextOffset st"
    "offsetStopLimit ?st = offsetStopLimit st" "member_pages ?st = member_pages st"
    by (simp_all add: new_start_def new_slots_def)
  have w: "\<not> MultiXactOffsetWouldWrap (offsetStopLimit st) (nextOffset st) (word_of_int (int (new_slots st ms)))"
    using t unfolding same by blast
  show "room_for st ms" by (rule room_from_check [OF lim n w])
  have "unat (?r - oldestMultiXactId st) < 2 ^ 31" by (rule next_window(2) [OF refl lim])
  moreover have "unat (multiVacLimit st - oldestMultiXactId st) < 2 ^ 31" "unat (multiStopLimit st - oldestMultiXactId st) < 2 ^ 31"
    using lim by (simp_all add: mx_limits_def)
  ultimately have "unat (?r - oldestMultiXactId st) < unat (multiVacLimit st - oldestMultiXactId st)
      \<or> unat (?r - oldestMultiXactId st) < unat (multiStopLimit st - oldestMultiXactId st)"
    using a(2) window_sint unfolding MultiXactIdPrecedes_def by blast
  moreover have "unat (multiVacLimit st - oldestMultiXactId st) \<le> unat (multiStopLimit st - oldestMultiXactId st)"
    using lim by (simp add: mx_limits_def)
  ultimately show "unat (r - oldestMultiXactId st) < unat (multiStopLimit st - oldestMultiXactId st)"
    unfolding r by linarith
  show "RecordNewMultiXact r off ms st1 = created st r ms"
    unfolding created_eq [OF n] r using t [unfolded same r']
    by (auto simp: ExtendMultiXactOffset_def ZeroMultiXactOffsetPage_def)
qed


lemma extend_offset_rel:
  assumes "mx_rel st A" "nextMXact st \<noteq> 0"
  shows "mx_rel (ExtendMultiXactOffset (nextMXact st) st) A"
proof -
  let ?r = "nextMXact st" and ?o = "oldestMultiXactId st" and ?st = "ExtendMultiXactOffset (nextMXact st) st"
  have lim: "mx_limits st" using assms(1) by (simp add: mx_rel_def)
  then have w: "unat (?r - ?o) < 2 ^ 31" by (simp add: mx_limits_def)
  have rd: "read_offset ?st m = read_offset st m" if "m \<noteq> 0" "unat (m - ?o) < unat (?r - ?o)" for m
  proof -
    have "unat ((m - ?o) - (?r - ?o)) = unat (m - ?o) + 4294967296 - unat (?r - ?o)"
      using that(2) unat_sub32 [of "m - ?o" "?r - ?o"] by simp
    then have "2 ^ 31 \<le> unat (m - ?r)" using w by simp
    moreover have "m \<noteq> ?r" using that(2) by auto
    ultimately show ?thesis using extend_offset_frame that(1) by blast
  qed
  have mem: "read_members ?st off n = read_members st off n" for off n
    by (rule read_members_cong) (rule read_member_cong, simp)
  have "mx_entry ?st m ms" if a: "A m = Some ms" for m ms
  proof -
    have e: "mx_entry st m ms" using a assms(1) by (simp add: mx_rel_def)
    then have m: "read_offset ?st m = read_offset st m" by (intro rd) (simp_all add: mx_entry_def)
    have n: "read_offset ?st (next_multi m) = read_offset st (next_multi m)" if "nextMXact st \<noteq> m + 1"
    proof (rule rd)
      show "next_multi m \<noteq> 0" by (auto simp: next_multi_def)
      show "unat (next_multi m - ?o) < unat (?r - ?o)" using e that by (simp add: mx_entry_def)
    qed
    have s: "slots ?st m = slots st m" using n by (simp add: slots_def end_of_def m)
    have "mx_entry ?st m ms = mx_entry st m ms"
      unfolding mx_entry_def m s mem ExtendMultiXactOffset_fields by (simp only: n not_False_eq_True cong: if_cong)
    then show ?thesis using e by blast
  qed
  then show ?thesis using lim by (simp add: mx_rel_def mx_limits_def)
qed

lemma GetNewMultiXactId_refused:
  assumes "mx_rel st A" "nextMXact st \<noteq> 0" "GetNewMultiXactId n st b = (Inl e, st1)"
  shows "mx_rel st1 A"
proof -
  have "\<not> nextMXact st < 1" using assms(2) by (simp add: word_less_nat_alt unat_eq_zero)
  then have "st1 = st \<or> st1 = ExtendMultiXactOffset (nextMXact st) st"
    using assms(3) by (auto simp: GetNewMultiXactId_def allocate_members_def Let_def split: if_splits)
  then show ?thesis using assms(1) extend_offset_rel [OF assms(1,2)] by blast
qed

lemma cache_by_set_ok:
  assumes "mx_cache_ok b A" "mXactCacheGetBySet ms b = (multi, ms', b')" "A 0 = None"
  shows "ms' = sort_members ms \<and> mx_cache_ok b' A \<and> (multi \<noteq> 0 \<longrightarrow> A multi = Some ms')
    \<and> under_postmaster b' = under_postmaster b"
proof (cases "List.find (\<lambda>entry. length (ent_members entry) = length (sort_members ms) \<and> sort_members ms = ent_members entry) (MXactCache b)")
  case None
  then show ?thesis using assms by (auto simp: mXactCacheGetBySet_def Let_def)
next
  case (Some e)
  then have "e \<in> set (MXactCache b)" "ent_members e = sort_members ms" by (auto simp: find_Some_iff)
  moreover have "set (e # remove1 e (MXactCache b)) \<subseteq> set (MXactCache b)"
    using calculation(1) set_remove1_subset by fastforce
  ultimately show ?thesis using assms Some
    by (auto simp: mXactCacheGetBySet_def mx_cache_ok_def Let_def)
qed

lemma sort_members_set [simp]: "set (sort_members ms) = set ms" "length (sort_members ms) = length ms"
  by (simp_all add: sort_members_def)

lemma multixact_created:
  assumes rel: "mx_rel st A" and srt: "map_sorted A" and c: "mx_cache_ok b A" and pm: "under_postmaster b"
    and ms: "length ms < 2 ^ 20" "\<forall>m \<in> set ms. TransactionIdIsValid (mxm_xid m) \<and> mxm_status m < 256"
    and res: "MultiXactIdCreateFromMembers ms st b = (res, st', b')"
  shows "case res of
      Inr multi \<Rightarrow> \<exists>A'. A \<subseteq>\<^sub>m A' \<and> A' multi = Some (sort_members ms) \<and> mx_rel st' A' \<and> map_sorted A' \<and> mx_cache_ok b' A'
    | Inl e \<Rightarrow> nextMXact st \<noteq> 0 \<longrightarrow> mx_rel st' A \<and> mx_cache_ok b' A"
proof -
  have A0: "A 0 = None"
  proof (rule ccontr)
    assume "A 0 \<noteq> None"
    then show False using rel by (auto simp: mx_rel_def mx_entry_def)
  qed
  obtain multi ms' b1 where g: "mXactCacheGetBySet ms b = (multi, ms', b1)" by (metis prod_cases3)
  note c1 = cache_by_set_ok [OF c g A0]
  then have ms'_eq: "ms' = sort_members ms" by blast
  show ?thesis
  proof (cases "MultiXactIdIsValid multi \<or> second_update False ms'")
    case True
    then show ?thesis using res g c1 rel srt
      by (auto simp: MultiXactIdCreateFromMembers_def MultiXactIdIsValid_def split: if_splits intro!: exI [of _ A])
  next
    case False
    have n: "length ms' < 2 ^ 20" "\<forall>m \<in> set ms'. mxm_status m < 256" "\<forall>m \<in> set ms'. TransactionIdIsValid (mxm_xid m)"
      using ms by (simp_all add: ms'_eq)
    obtain g1 st1 where gn: "GetNewMultiXactId (int (length ms')) st b1 = (g1, st1)" by fastforce
    show ?thesis
    proof (cases g1)
      case (Inl e)
      then have "res = Inl e \<and> st' = st1 \<and> b' = b1"
        using res g gn False by (simp add: MultiXactIdCreateFromMembers_def)
      then show ?thesis using GetNewMultiXactId_refused [OF rel _ gn [unfolded Inl]] c1 by simp
    next
      case (Inr p)
      obtain r off where p: "g1 = Inr (r, off)" using Inr by (cases p) simp
      have lim: "mx_limits st" using rel by (simp add: mx_rel_def)
      have pm1: "under_postmaster b1" using c1 pm by simp
      note t = GetNewMultiXactId_taken [OF lim pm1 n(1) gn [unfolded p]]
      have R: "res = Inr r" "st' = created st r ms'" "b' = mXactCachePut r ms' b1"
        using res g gn p False t(4) by (simp_all add: MultiXactIdCreateFromMembers_def)
      let ?A = "A(r \<mapsto> ms')"
      have new: "mx_rel (created st r ms') ?A" "A r = None"
        using created_rel [OF rel t(2) n t(1,3)] by blast+
      have srt': "map_sorted ?A" using srt by (simp add: map_sorted_def ms'_eq sort_sorted)
      have sub: "A \<subseteq>\<^sub>m ?A" using new(2) by (auto simp: map_le_def)
      have "mx_cache_ok b1 ?A" using c1 new(2) by (auto simp: mx_cache_ok_def)
      then have "mx_cache_ok b' ?A" unfolding R by (rule cache_put_ok) (simp add: ms'_eq sort_sorted)
      then show ?thesis using new(1) srt' sub by (auto simp: R ms'_eq)
    qed
  qed
qed


section \<open>The contract of the store\<close>

text \<open>A store under a growing map: every operation only adds to the map, and a lookup returns what
  the map holds.\<close>

locale growing_store =
  fixes rel :: "'s \<Rightarrow> ('k \<rightharpoonup> 'v) \<Rightarrow> bool"
    and step :: "'op \<Rightarrow> 's \<Rightarrow> 's option"
    and op_ok :: "'op \<Rightarrow> bool"
    and lookup :: "'c \<Rightarrow> 'k \<Rightarrow> 's \<Rightarrow> ('v \<times> 's) option"
  assumes step_grows: "rel s A \<Longrightarrow> op_ok x \<Longrightarrow> step x s = Some s' \<Longrightarrow> \<exists>A'. A \<subseteq>\<^sub>m A' \<and> rel s' A'"
    and lookup_finds: "rel s A \<Longrightarrow> A k = Some v \<Longrightarrow> \<exists>s'. lookup c k s = Some (v, s') \<and> rel s' A"
begin

lemma steps_grow:
  assumes "rel s A" "\<forall>x \<in> set ops. op_ok x" "fold (\<lambda>x r. Option.bind r (step x)) ops (Some s) = Some s'"
  shows "\<exists>A'. A \<subseteq>\<^sub>m A' \<and> rel s' A'"
  using assms
proof (induction ops arbitrary: s A)
  case Nil
  then show ?case by (auto intro!: exI [of _ A])
next
  case (Cons x ops)
  have none: "fold (\<lambda>x r. Option.bind r (step x)) xs None = None" for xs
    by (induction xs) simp_all
  obtain s1 where s1: "step x s = Some s1" using Cons.prems(3) none by (cases "step x s") auto
  then obtain A1 where A1: "A \<subseteq>\<^sub>m A1" "rel s1 A1" using step_grows Cons.prems by (metis list.set_intros(1))
  then obtain A' where "A1 \<subseteq>\<^sub>m A'" "rel s' A'"
    using Cons.IH [OF A1(2)] Cons.prems s1 by auto
  then show ?case using A1(1) map_le_trans by blast
qed

lemma kept:
  assumes "rel s A" "A k = Some v" "\<forall>x \<in> set ops. op_ok x"
    "fold (\<lambda>x r. Option.bind r (step x)) ops (Some s) = Some s'"
  shows "\<exists>s''. lookup c k s' = Some (v, s'')"
proof -
  obtain A' where "A \<subseteq>\<^sub>m A'" "rel s' A'" using steps_grow assms by blast
  then have "A' k = Some v" using assms(2) by (metis domI map_le_def)
  then show ?thesis using lookup_finds \<open>rel s' A'\<close> by blast
qed

end

text \<open>The shared state with its backends; an operation is one backend's.\<close>

type_synonym mx_system = "MultiXactStateData \<times> (nat \<Rightarrow> mx_backend)"

datatype mx_op = Op_Create nat "MultiXactMember list" | Op_SetOldestMember nat | Op_EndXact nat

definition mx_create :: "nat \<Rightarrow> MultiXactMember list \<Rightarrow> mx_system \<Rightarrow> (MultiXactId \<times> mx_system) option" where
  "mx_create i ms s =
     (case MultiXactIdCreateFromMembers ms (fst s) ((snd s) i) of
        (Inr multi, st, b) \<Rightarrow> Some (multi, st, (snd s)(i := b))
      | (Inl _, _, _) \<Rightarrow> None)"

definition mx_lookup :: "nat \<Rightarrow> MultiXactId \<Rightarrow> mx_system \<Rightarrow> (MultiXactMember list \<times> mx_system) option" where
  "mx_lookup i multi s =
     (case GetMultiXactIdMembers multi False False (fst s) ((snd s) i) of
        Some (Inr (Some ms), st, b) \<Rightarrow> Some (ms, st, (snd s)(i := b))
      | _ \<Rightarrow> None)"

fun mx_step :: "mx_op \<Rightarrow> mx_system \<Rightarrow> mx_system option" where
  "mx_step (Op_Create i ms) s = map_option snd (mx_create i ms s)"
| "mx_step (Op_SetOldestMember i) s = Some (MultiXactIdSetOldestMember (fst s) ((snd s) i), snd s)"
| "mx_step (Op_EndXact i) s =
     (case AtEOXact_MultiXact (fst s) ((snd s) i) of (st, b) \<Rightarrow> Some (st, (snd s)(i := b)))"

definition members_ok :: "MultiXactMember list \<Rightarrow> bool" where
  "members_ok ms \<longleftrightarrow> length ms < 2 ^ 20
     \<and> (\<forall>m \<in> set ms. TransactionIdIsValid (mxm_xid m) \<and> mxm_status m \<le> MultiXactStatusUpdate)"

fun mx_op_ok :: "mx_op \<Rightarrow> bool" where
  "mx_op_ok (Op_Create i ms) = members_ok ms"
| "mx_op_ok _ = True"

definition mx_system_rel :: "mx_system \<Rightarrow> (MultiXactId \<rightharpoonup> MultiXactMember list) \<Rightarrow> bool" where
  "mx_system_rel s A \<longleftrightarrow> mx_rel (fst s) A \<and> map_sorted A
     \<and> (\<forall>i. mx_cache_ok (snd s i) A \<and> under_postmaster (snd s i))"

lemma cache_ok_mono: "mx_cache_ok b A \<Longrightarrow> A \<subseteq>\<^sub>m A' \<Longrightarrow> mx_cache_ok b A'"
  by (auto simp: mx_cache_ok_def map_le_def) (metis domI)

lemma mx_rel_cong:
  assumes "offset_pages st' = offset_pages st" "member_pages st' = member_pages st"
    "nextMXact st' = nextMXact st" "nextOffset st' = nextOffset st" "oldestMultiXactId st' = oldestMultiXactId st"
    "oldestOffset st' = oldestOffset st" "oldestOffsetKnown st' = oldestOffsetKnown st"
    "offsetStopLimit st' = offsetStopLimit st" "multiVacLimit st' = multiVacLimit st" "multiStopLimit st' = multiStopLimit st"
  shows "mx_rel st' A = mx_rel st A"
proof -
  have r: "read_offset st' m = read_offset st m" for m by (simp add: read_offset_def assms)
  have e: "slots st' m = slots st m" for m by (simp add: slots_def end_of_def r assms)
  have m: "read_members st' off n = read_members st off n" for off n
    by (rule read_members_cong) (rule read_member_cong, rule assms)
  show ?thesis unfolding mx_rel_def mx_limits_def mx_entry_def r e m assms ..
qed

lemma postmaster_kept:
  "MultiXactIdCreateFromMembers ms st b = (res, st', b') \<Longrightarrow> under_postmaster b' = under_postmaster b"
  "GetMultiXactIdMembers m f l st b = Some (r, st', b') \<Longrightarrow> under_postmaster b' = under_postmaster b"
  by (auto simp: MultiXactIdCreateFromMembers_def GetMultiXactIdMembers_def mXactCacheGetBySet_def
      mXactCacheGetById_def mXactCachePut_def Let_def split: option.splits if_splits sum.splits prod.splits)

lemma members_ok_status: "members_ok ms \<Longrightarrow> \<forall>m \<in> set ms. TransactionIdIsValid (mxm_xid m) \<and> mxm_status m < 256"
  by (auto simp: members_ok_def intro: order_le_less_trans [of _ 5])

lemma mx_create_rel:
  assumes "mx_system_rel s A" "members_ok ms" "mx_create i ms s = Some (multi, s')"
  shows "\<exists>A'. A \<subseteq>\<^sub>m A' \<and> A' multi = Some (sort_members ms) \<and> mx_system_rel s' A'"
proof -
  obtain st' b' where c: "MultiXactIdCreateFromMembers ms (fst s) (snd s i) = (Inr multi, st', b')"
    and s': "s' = (st', (snd s)(i := b'))"
    using assms(3) by (auto simp: mx_create_def split: prod.splits sum.splits)
  have "mx_rel (fst s) A" "map_sorted A" "mx_cache_ok (snd s i) A" "under_postmaster (snd s i)" "length ms < 2 ^ 20"
    using assms(1,2) by (simp_all add: mx_system_rel_def members_ok_def)
  from multixact_created [OF this members_ok_status [OF assms(2)] c]
  obtain A' where "A \<subseteq>\<^sub>m A'" "A' multi = Some (sort_members ms)" "mx_rel st' A'" "map_sorted A'" "mx_cache_ok b' A'"
    by auto
  moreover have "under_postmaster b'" using postmaster_kept(1) [OF c] assms(1) by (simp add: mx_system_rel_def)
  moreover have "mx_cache_ok (snd s j) A'" for j
    using calculation(1) assms(1) cache_ok_mono by (auto simp: mx_system_rel_def)
  moreover have "under_postmaster (snd s j)" for j using assms(1) by (simp add: mx_system_rel_def)
  ultimately show ?thesis by (intro exI [of _ A']) (simp add: mx_system_rel_def s')
qed

interpretation mx: growing_store mx_system_rel mx_step mx_op_ok mx_lookup
proof (unfold_locales, goal_cases)
  case (1 s A x s')
  then show ?case
  proof (cases x)
    case (Op_Create i ms)
    then obtain m where "mx_create i ms s = Some (m, s')" using 1(3) by auto
    then show ?thesis using mx_create_rel 1(1,2) Op_Create by fastforce
  next
    case (Op_SetOldestMember i)
    have "mx_rel (MultiXactIdSetOldestMember (fst s) (snd s i)) A = mx_rel (fst s) A"
      by (rule mx_rel_cong) (simp_all add: MultiXactIdSetOldestMember_def Let_def)
    then show ?thesis using 1 Op_SetOldestMember by (auto simp: mx_system_rel_def intro!: exI [of _ A])
  next
    case (Op_EndXact i)
    have "mx_rel (fst (AtEOXact_MultiXact (fst s) (snd s i))) A = mx_rel (fst s) A"
      by (rule mx_rel_cong) (simp_all add: AtEOXact_MultiXact_def)
    then show ?thesis using 1 Op_EndXact
      by (auto simp: mx_system_rel_def AtEOXact_MultiXact_def mx_cache_ok_def intro!: exI [of _ A] split: if_splits)
  qed
next
  case (2 s A k v c)
  have "mx_rel (fst s) A" "map_sorted A" "mx_cache_ok (snd s c) A" using 2(1) by (simp_all add: mx_system_rel_def)
  from multixact_read [OF this 2(2)] obtain st' b' where
    g: "GetMultiXactIdMembers k False False (fst s) (snd s c) = Some (Inr (Some v), st', b')"
    and r: "mx_rel st' A" "mx_cache_ok b' A" by blast
  have "under_postmaster b'" using postmaster_kept(2) [OF g] 2(1) by (simp add: mx_system_rel_def)
  then show ?case using g r 2(1) by (auto simp: mx_lookup_def mx_system_rel_def)
qed


section \<open>Properties\<close>


text \<open>C34. Member slots: every slot's xid field and flag word lie aligned inside the page, no two
  slots share an xid field or a flag byte, and no xid field is a flag word.\<close>

theorem member_slots_disjoint:
  "unat (MXOffsetToMemberOffset x) + 4 \<le> 8180 \<and> unat (MXOffsetToFlagsOffset x) + 4 \<le> 8180
   \<and> unat (MXOffsetToMemberOffset x) mod 4 = 0 \<and> unat (MXOffsetToFlagsOffset x) mod 4 = 0
   \<and> unat (MXOffsetToFlagsBitShift x) \<in> {0, 8, 16, 24}
   \<and> MXOffsetToMemberOffset x \<noteq> MXOffsetToFlagsOffset y
   \<and> (MXOffsetToMemberPage x, MXOffsetToMemberOffset x) = (MXOffsetToMemberPage y, MXOffsetToMemberOffset y) = (x = y)
   \<and> (MXOffsetToMemberPage x, MXOffsetToFlagsOffset x, MXOffsetToFlagsBitShift x)
       = (MXOffsetToMemberPage y, MXOffsetToFlagsOffset y, MXOffsetToFlagsBitShift y) = (x = y)"
  using address_bounds [of x] member_not_flag [of x y] member_address_inj [of x y] flag_address_inj [of x y] by auto

text \<open>C32. The wraparound check of the member ring: with fewer than \<open>2 ^ 32 - 1\<close> slots asked for,
  \<open>MultiXactOffsetWouldWrap\<close> says whether the slots, and one more when slot 0 has to be skipped,
  reach the boundary.\<close>

theorem offset_would_wrap:
  assumes "unat distance < 2 ^ 32 - 1"
  shows "MultiXactOffsetWouldWrap boundary start distance \<longleftrightarrow>
     (if start = boundary then 2 ^ 32 else unat (boundary - start))
       \<le> unat distance + (if 2 ^ 32 \<le> unat start + unat distance then 1 else 0)"
  using would_wrap [OF assms] by (simp add: ring_size_def crosses_zero_def)

theorem offset_would_wrap_witness:
  "MultiXactOffsetWouldWrap 5 4294967290 10 \<and> \<not> MultiXactOffsetWouldWrap 5 4294967290 9"
  using offset_would_wrap [of 10 5 4294967290] offset_would_wrap [of 9 5 4294967290] by simp

text \<open>C33. \<open>ExtendMultiXactMember\<close> ends and zeroes exactly the pages whose first slot is among the new
  ones, also across the short last page of the ring; nothing else changes.\<close>

theorem extend_members_pages:
  assumes "n \<le> 4294967296"
  shows "ExtendMultiXactMember off n st = st\<lparr>member_pages := (\<lambda>p.
     if \<exists>f. unat f mod 1636 = 0 \<and> MXOffsetToMemberPage f = p \<and> int (unat (f - off)) < n
     then (\<lambda>_. 0) else member_pages st p)\<rparr>"
  using ExtendMultiXactMember_spec [OF assms, of off st] by (simp add: entered_pages_def page_first_def)


theorem extend_members_pages_witness:
  "\<forall>st. member_pages (ExtendMultiXactMember 1634 4 st) 1 = (\<lambda>_. 0)"
proof
  fix st
  have "\<exists>f. unat f mod 1636 = 0 \<and> MXOffsetToMemberPage f = 1 \<and> int (unat (f - 1634)) < 4"
    by (rule exI [of _ 1636]) (simp add: MXOffsetToMemberPage_def)
  then show "member_pages (ExtendMultiXactMember 1634 4 st) 1 = (\<lambda>_. 0)"
    using extend_members_pages [of 4 1634 st] by simp
qed

text \<open>C30. Expanding a multixact always returns, and the new multixact has the members still running,
  the committed updater if there is one, and the new member; an existing member changes
  nothing.\<close>

theorem multixact_expanded:
  assumes "mx_rel st A" "map_sorted A" "mx_cache_ok b A" "under_postmaster b" "A multi = Some ms"
    and "members_ok (\<lparr>mxm_xid = xid, mxm_status = status\<rparr> # ms)"
  shows "\<exists>res st' b'. MultiXactIdExpand running committed multi xid status st b = Some (res, st', b')
    \<and> (\<forall>multi'. res = Inr multi' \<longrightarrow> (\<exists>A'. A \<subseteq>\<^sub>m A' \<and> mx_rel st' A'
         \<and> (if \<lparr>mxm_xid = xid, mxm_status = status\<rparr> \<in> set ms then multi' = multi
            else A' multi' = Some (sort_members (filter (\<lambda>m. running (mxm_xid m)
                   \<or> ISUPDATE_from_mxstatus (mxm_status m) \<and> committed (mxm_xid m)) ms
                 @ [\<lparr>mxm_xid = xid, mxm_status = status\<rparr>])))))"
proof -
  obtain st1 b1 where g: "GetMultiXactIdMembers multi False False st b = Some (Inr (Some ms), st1, b1)"
    and r: "mx_rel st1 A" "mx_cache_ok b1 A"
    using multixact_read [OF assms(1-3,5)] by blast
  have pm: "under_postmaster b1" using postmaster_kept(2) [OF g] assms(4) by simp
  have m: "(\<exists>m \<in> set ms. mxm_xid m = xid \<and> mxm_status m = status) \<longleftrightarrow> \<lparr>mxm_xid = xid, mxm_status = status\<rparr> \<in> set ms"
    by (metis MultiXactMember.select_convs MultiXactMember.surjective old.unit.exhaust)
  show ?thesis
  proof (cases "\<lparr>mxm_xid = xid, mxm_status = status\<rparr> \<in> set ms")
    case True
    then have "MultiXactIdExpand running committed multi xid status st b = Some (Inr multi, st1, b1)"
      using g m by (simp add: MultiXactIdExpand_def)
    moreover have "A \<subseteq>\<^sub>m A" by simp
    ultimately show ?thesis using r(1) True by (metis sum.inject(2))
  next
    case False
    let ?ms = "filter (\<lambda>m. running (mxm_xid m) \<or> ISUPDATE_from_mxstatus (mxm_status m) \<and> committed (mxm_xid m)) ms
                 @ [\<lparr>mxm_xid = xid, mxm_status = status\<rparr>]"
    obtain res st' b' where c: "MultiXactIdCreateFromMembers ?ms st1 b1 = (res, st', b')" by (rule prod_cases3)
    have sub: "set ?ms \<subseteq> set (\<lparr>mxm_xid = xid, mxm_status = status\<rparr> # ms)" by auto
    have "length ?ms \<le> length (\<lparr>mxm_xid = xid, mxm_status = status\<rparr> # ms)"
      by (simp only: length_append length_Cons list.size) (simp add: length_filter_le)
    then have ok: "length ?ms < 2 ^ 20" "\<forall>m \<in> set ?ms. TransactionIdIsValid (mxm_xid m) \<and> mxm_status m < 256"
      using assms(6) members_ok_status [OF assms(6)] sub unfolding members_ok_def by (linarith, blast)
    have "\<exists>A'. A \<subseteq>\<^sub>m A' \<and> mx_rel st' A' \<and> A' multi' = Some (sort_members ?ms)" if "res = Inr multi'" for multi'
      using multixact_created [OF r(1) assms(2) r(2) pm ok c] that by auto
    moreover have "MultiXactIdExpand running committed multi xid status st b = Some (res, st', b')"
      using False unfolding MultiXactIdExpand_def g option.case sum.case prod.case m by (simp add: c)
    ultimately show ?thesis using False by simp
  qed
qed

text \<open>C35. An allocation that is refused just after the ids wrapped around has already moved the next
  id from 0 to 1; until a multixact with id 1 is recorded, a reader of the last id before the
  wraparound, whose members it could determine before, waits for the start of multixact 1.\<close>

theorem refused_at_wraparound:
  assumes "nextMXact st = 0" "\<not> in_recovery b" "read_offset st 1 = 0" "GetNewMultiXactId n st b = (Inl e, st')"
  shows "members_length st MaxMultiXactId \<noteq> None \<and> members_length st' MaxMultiXactId = None"
proof -
  have lt1: "x < 1 \<longleftrightarrow> x = 0" for x :: uint32 by (simp add: word_less_nat_alt unat_eq_zero)
  have "st' = st\<lparr>nextMXact := 1\<rparr> \<or> st' = ExtendMultiXactOffset 1 (st\<lparr>nextMXact := 1\<rparr>)"
    using assms(1,2,4) by (auto simp: GetNewMultiXactId_def allocate_members_def Let_def split: if_splits)
  moreover have "read_offset (st\<lparr>nextMXact := 1\<rparr>) 1 = 0" using assms(3) by (simp add: read_offset_def)
  moreover have "read_offset (ExtendMultiXactOffset 1 (st\<lparr>nextMXact := 1\<rparr>)) 1 = 0"
    by (simp add: read_offset_def ExtendMultiXactOffset_def ZeroMultiXactOffsetPage_def)
  ultimately have "nextMXact st' = 1" "read_offset st' 1 = 0" by auto
  then show ?thesis using assms(1) by (simp add: members_length_def Let_def lt1)
qed

section \<open>An example\<close>

definition example_mx :: MultiXactStateData where
  "example_mx = \<lparr>nextMXact = 1, nextOffset = 0, finishedStartup = True, oldestMultiXactId = 1, oldestMultiXactDB = 1,
     oldestOffset = 0, oldestOffsetKnown = True, multiVacLimit = 1000, multiWarnLimit = 2000,
     multiStopLimit = 2000, multiWrapLimit = 3000, offsetStopLimit = 4294914944, OldestMemberMXactId = [0, 0],
     OldestVisibleMXactId = [0, 0], offset_pages = (\<lambda>_ _. 0), member_pages = (\<lambda>_ _. 0)\<rparr>"

definition example_system :: mx_system where
  "example_system = (example_mx, (\<lambda>i. \<lparr>MyBackend = i, under_postmaster = True, in_recovery = False,
     MXactCache = [], MXactCacheMembers = 0\<rparr>))"

abbreviation example_members :: "MultiXactMember list" where
  "example_members \<equiv> [\<lparr>mxm_xid = 101, mxm_status = 5\<rparr>, \<lparr>mxm_xid = 100, mxm_status = 0\<rparr>]"

lemma example_sorted: "sort_members example_members = [\<lparr>mxm_xid = 100, mxm_status = 0\<rparr>, \<lparr>mxm_xid = 101, mxm_status = 5\<rparr>]"
  by (simp add: sort_members_def)

lemma example_rel: "mx_system_rel example_system Map.empty"
  by (simp add: mx_system_rel_def example_system_def mx_rel_def mx_limits_def example_mx_def map_sorted_def mx_cache_ok_def)

lemma example_create: "\<exists>s1. mx_create 0 example_members example_system = Some (1, s1)"
  by (simp add: mx_create_def example_system_def MultiXactIdCreateFromMembers_def mXactCacheGetBySet_def example_sorted
      MultiXactIdIsValid_def ISUPDATE_from_mxstatus_def GetNewMultiXactId_def MultiXactIdPrecedes_def example_mx_def
      allocate_members_def MultiXactOffsetWouldWrap_def Let_def)


theorem refused_at_wraparound_witness:
  "\<exists>b e st'. GetNewMultiXactId 2 (example_mx\<lparr>nextMXact := 0, oldestMultiXactId := 4294960000, multiVacLimit := 1, multiStopLimit := 1\<rparr>) b
     = (Inl e, st') \<and> members_length st' MaxMultiXactId = None"
proof -
  let ?st = "example_mx\<lparr>nextMXact := 0, oldestMultiXactId := 4294960000, multiVacLimit := 1, multiStopLimit := 1\<rparr>"
  let ?b = "\<lparr>MyBackend = 0, under_postmaster = True, in_recovery = False, MXactCache = [], MXactCacheMembers = 0\<rparr>"
  have n: "nextMXact ?st = 0" "\<not> in_recovery ?b" "read_offset ?st 1 = 0"
    by (simp_all add: read_offset_def example_mx_def)
  have "\<exists>e st'. GetNewMultiXactId 2 ?st ?b = (Inl e, st')"
    by (simp add: GetNewMultiXactId_def MultiXactIdPrecedes_def Let_def)
  then obtain e st' where g: "GetNewMultiXactId 2 ?st ?b = (Inl e, st')" by blast
  from refused_at_wraparound [OF n g] g show ?thesis by blast
qed


theorem multixact_expanded_witness:
  "\<exists>s1 r. mx_create 0 example_members example_system = Some (1, s1)
     \<and> MultiXactIdExpand (\<lambda>_. True) (\<lambda>_. False) 1 102 0 (fst s1) (snd s1 1) = Some r"
proof -
  obtain s1 where c: "mx_create 0 example_members example_system = Some (1, s1)" using example_create by blast
  have ok: "members_ok example_members" by (simp add: members_ok_def TransactionIdIsValid_def)
  obtain A' where A': "A' 1 = Some (sort_members example_members)" "mx_system_rel s1 A'"
    using mx_create_rel [OF example_rel ok c] by blast
  have r: "mx_rel (fst s1) A'" "map_sorted A'" "mx_cache_ok (snd s1 1) A'" "under_postmaster (snd s1 1)"
    using A'(2) by (simp_all add: mx_system_rel_def)
  have "members_ok (\<lparr>mxm_xid = 102, mxm_status = 0\<rparr> # sort_members example_members)"
    by (simp add: example_sorted members_ok_def TransactionIdIsValid_def)
  from multixact_expanded [OF r A'(1) this, of "\<lambda>_. True" "\<lambda>_. False"] c show ?thesis by blast
qed

end
