(* ===== verification/HeapVisibility.thy ===== *)
theory HeapVisibility
  imports HeapTuple ProcArray Multixact
begin

text \<open>
  \<^verbatim>\<open>src/backend/access/heap/heapam_visibility.c\<close>: which row versions a snapshot sees, which an
  update may touch and which vacuum may remove, with the hint bits the tests leave in the
  tuple.  Each function is split at the point where the C code goes on from \<open>xmin\<close> to
  \<open>xmax\<close>: the first half either returns (\<open>Inl\<close>, the result and the tuple) or continues with
  the tuple it may have hinted (\<open>Inr\<close>).

  The functions of other modules that the tests call are the fields of a \<open>vis_env\<close>;
  \<open>RowVisibility\<close> builds the environment from the models of the process array, the transaction
  log, the backend's own transactions and the multixacts.  Within one test the answers of the environment do not
  change.  The buffer manager and the WAL position are asked only by \<open>SetHintBits\<close>;
  \<open>MarkBufferDirtyHint\<close> does not change the tuple.
\<close>

section \<open>What the tests call\<close>

type_synonym Buffer = int

text \<open>\<open>members multi onlyLock\<close> is what \<open>GetMultiXactIdMembers\<close> stores, \<open>[]\<close> when it returns
  a count that is not positive; \<open>decoding_cids\<close> is \<open>ResolveCminCmaxDuringDecoding\<close> on the
  tuple-cid table of the historic snapshot, \<open>None\<close> for not resolved.\<close>

record vis_env =
  is_current :: "TransactionId \<Rightarrow> bool"
  is_in_progress :: "TransactionId \<Rightarrow> bool"
  did_commit :: "TransactionId \<Rightarrow> bool"
  in_snapshot :: "TransactionId \<Rightarrow> SnapshotData \<Rightarrow> bool"
  commit_lsn :: "TransactionId \<Rightarrow> XLogRecPtr"
  combo :: combo_state
  members :: "MultiXactId \<Rightarrow> bool \<Rightarrow> MultiXactMember list"
  buffer_permanent :: "Buffer \<Rightarrow> bool"
  buffer_lsn :: "Buffer \<Rightarrow> XLogRecPtr"
  needs_flush :: "XLogRecPtr \<Rightarrow> bool"
  is_removable :: "GlobalVisState \<Rightarrow> TransactionId \<Rightarrow> bool"
  decoding_cids :: "HeapTupleHeader \<Rightarrow> (CommandId \<times> CommandId) option"

fun first_update :: "MultiXactMember list \<Rightarrow> TransactionId" where
  "first_update [] = InvalidTransactionId"
| "first_update (m # ms) = (if \<not> ISUPDATE_from_mxstatus (mxm_status m) then first_update ms else mxm_xid m)"

definition MultiXactIdGetUpdateXid :: "vis_env \<Rightarrow> MultiXactId \<Rightarrow> TransactionId" where
  "MultiXactIdGetUpdateXid e xmax = first_update (members e xmax False)"

definition HeapTupleGetUpdateXid :: "vis_env \<Rightarrow> HeapTupleHeader \<Rightarrow> TransactionId" where
  "HeapTupleGetUpdateXid e tuple = MultiXactIdGetUpdateXid e (HeapTupleHeaderGetRawXmax tuple)"

definition MultiXactIdIsRunning :: "vis_env \<Rightarrow> MultiXactId \<Rightarrow> bool \<Rightarrow> bool" where
  "MultiXactIdIsRunning e multi isLockOnly =
     (let ms = members e multi isLockOnly
      in if ms = [] then False
         else if \<exists>m \<in> set ms. is_current e (mxm_xid m) then True
         else if \<exists>m \<in> set ms. is_in_progress e (mxm_xid m) then True
         else False)"

definition HeapTupleHeaderGetUpdateXid :: "vis_env \<Rightarrow> HeapTupleHeader \<Rightarrow> TransactionId" where
  "HeapTupleHeaderGetUpdateXid e tup =
     (if \<not> t_infomask tup AND HEAP_XMAX_INVALID \<noteq> 0 \<and> t_infomask tup AND HEAP_XMAX_IS_MULTI \<noteq> 0
         \<and> \<not> t_infomask tup AND HEAP_XMAX_LOCK_ONLY \<noteq> 0
      then HeapTupleGetUpdateXid e tup else HeapTupleHeaderGetRawXmax tup)"

section \<open>Hint bits\<close>

definition SetHintBits ::
    "vis_env \<Rightarrow> Buffer \<Rightarrow> uint16 \<Rightarrow> TransactionId \<Rightarrow> HeapTupleHeader \<Rightarrow> HeapTupleHeader" where
  "SetHintBits e buffer infomask xid tuple =
     (if TransactionIdIsValid xid
         \<and> (let commitLSN = commit_lsn e xid
             in buffer_permanent e buffer \<and> needs_flush e commitLSN \<and> buffer_lsn e buffer < commitLSN)
      then tuple
      else tuple\<lparr>t_infomask := t_infomask tuple OR infomask\<rparr>)"

type_synonym 'r step = "('r \<times> HeapTupleHeader) + HeapTupleHeader"

text \<open>The handling of tuples moved by a pre-9.0 \<open>VACUUM FULL\<close>, the same in four of the tests up
  to the value returned and, in the MVCC test, the running test used.\<close>

definition moved_off ::
    "vis_env \<Rightarrow> (TransactionId \<Rightarrow> bool) \<Rightarrow> 'r \<Rightarrow> Buffer \<Rightarrow> HeapTupleHeader \<Rightarrow> 'r step" where
  "moved_off e running fail buffer tuple =
     (let xvac = HeapTupleHeaderGetXvac tuple
      in if is_current e xvac then Inl (fail, tuple)
         else if \<not> running xvac then
           (if did_commit e xvac
            then Inl (fail, SetHintBits e buffer HEAP_XMIN_INVALID InvalidTransactionId tuple)
            else Inr (SetHintBits e buffer HEAP_XMIN_COMMITTED InvalidTransactionId tuple))
         else Inr tuple)"

definition moved_in ::
    "vis_env \<Rightarrow> (TransactionId \<Rightarrow> bool) \<Rightarrow> 'r \<Rightarrow> Buffer \<Rightarrow> HeapTupleHeader \<Rightarrow> 'r step" where
  "moved_in e running fail buffer tuple =
     (let xvac = HeapTupleHeaderGetXvac tuple
      in if \<not> is_current e xvac then
           (if running xvac then Inl (fail, tuple)
            else if did_commit e xvac
            then Inr (SetHintBits e buffer HEAP_XMIN_COMMITTED InvalidTransactionId tuple)
            else Inl (fail, SetHintBits e buffer HEAP_XMIN_INVALID InvalidTransactionId tuple))
         else Inr tuple)"

section \<open>SnapshotSelf, SnapshotAny and TOAST\<close>

definition Self_xmin :: "vis_env \<Rightarrow> Buffer \<Rightarrow> HeapTupleHeader \<Rightarrow> bool step" where
  "Self_xmin e buffer tuple =
     (if \<not> HeapTupleHeaderXminCommitted tuple then
        (if HeapTupleHeaderXminInvalid tuple then Inl (False, tuple)
         else if t_infomask tuple AND HEAP_MOVED_OFF \<noteq> 0
         then moved_off e (is_in_progress e) False buffer tuple
         else if t_infomask tuple AND HEAP_MOVED_IN \<noteq> 0
         then moved_in e (is_in_progress e) False buffer tuple
         else if is_current e (HeapTupleHeaderGetRawXmin tuple) then
           (if t_infomask tuple AND HEAP_XMAX_INVALID \<noteq> 0 then Inl (True, tuple)
            else if HEAP_XMAX_IS_LOCKED_ONLY (t_infomask tuple) then Inl (True, tuple)
            else if t_infomask tuple AND HEAP_XMAX_IS_MULTI \<noteq> 0 then
              (let xmax = HeapTupleGetUpdateXid e tuple
               in if \<not> is_current e xmax then Inl (True, tuple) else Inl (False, tuple))
            else if \<not> is_current e (HeapTupleHeaderGetRawXmax tuple)
            then Inl (True, SetHintBits e buffer HEAP_XMAX_INVALID InvalidTransactionId tuple)
            else Inl (False, tuple))
         else if is_in_progress e (HeapTupleHeaderGetRawXmin tuple) then Inl (False, tuple)
         else if did_commit e (HeapTupleHeaderGetRawXmin tuple)
         then Inr (SetHintBits e buffer HEAP_XMIN_COMMITTED (HeapTupleHeaderGetRawXmin tuple) tuple)
         else Inl (False, SetHintBits e buffer HEAP_XMIN_INVALID InvalidTransactionId tuple))
      else Inr tuple)"

definition Self_xmax :: "vis_env \<Rightarrow> Buffer \<Rightarrow> HeapTupleHeader \<Rightarrow> bool \<times> HeapTupleHeader" where
  "Self_xmax e buffer tuple =
     (if t_infomask tuple AND HEAP_XMAX_INVALID \<noteq> 0 then (True, tuple)
      else if t_infomask tuple AND HEAP_XMAX_COMMITTED \<noteq> 0 then
        (if HEAP_XMAX_IS_LOCKED_ONLY (t_infomask tuple) then (True, tuple) else (False, tuple))
      else if t_infomask tuple AND HEAP_XMAX_IS_MULTI \<noteq> 0 then
        (if HEAP_XMAX_IS_LOCKED_ONLY (t_infomask tuple) then (True, tuple)
         else
           let xmax = HeapTupleGetUpdateXid e tuple
           in if is_current e xmax then (False, tuple)
              else if is_in_progress e xmax then (True, tuple)
              else if did_commit e xmax then (False, tuple)
              else (True, tuple))
      else if is_current e (HeapTupleHeaderGetRawXmax tuple) then
        (if HEAP_XMAX_IS_LOCKED_ONLY (t_infomask tuple) then (True, tuple) else (False, tuple))
      else if is_in_progress e (HeapTupleHeaderGetRawXmax tuple) then (True, tuple)
      else if \<not> did_commit e (HeapTupleHeaderGetRawXmax tuple)
      then (True, SetHintBits e buffer HEAP_XMAX_INVALID InvalidTransactionId tuple)
      else if HEAP_XMAX_IS_LOCKED_ONLY (t_infomask tuple)
      then (True, SetHintBits e buffer HEAP_XMAX_INVALID InvalidTransactionId tuple)
      else (False, SetHintBits e buffer HEAP_XMAX_COMMITTED (HeapTupleHeaderGetRawXmax tuple) tuple))"

definition HeapTupleSatisfiesSelf :: "vis_env \<Rightarrow> Buffer \<Rightarrow> HeapTupleHeader \<Rightarrow> bool \<times> HeapTupleHeader" where
  "HeapTupleSatisfiesSelf e buffer tuple =
     (case Self_xmin e buffer tuple of Inl r \<Rightarrow> r | Inr tuple \<Rightarrow> Self_xmax e buffer tuple)"

definition HeapTupleSatisfiesAny :: "vis_env \<Rightarrow> Buffer \<Rightarrow> HeapTupleHeader \<Rightarrow> bool \<times> HeapTupleHeader" where
  "HeapTupleSatisfiesAny e buffer tuple = (True, tuple)"

definition HeapTupleSatisfiesToast :: "vis_env \<Rightarrow> Buffer \<Rightarrow> HeapTupleHeader \<Rightarrow> bool \<times> HeapTupleHeader" where
  "HeapTupleSatisfiesToast e buffer tuple =
     (case (if \<not> HeapTupleHeaderXminCommitted tuple then
              (if HeapTupleHeaderXminInvalid tuple then Inl (False, tuple)
               else if t_infomask tuple AND HEAP_MOVED_OFF \<noteq> 0
               then moved_off e (is_in_progress e) False buffer tuple
               else if t_infomask tuple AND HEAP_MOVED_IN \<noteq> 0
               then moved_in e (is_in_progress e) False buffer tuple
               else if \<not> TransactionIdIsValid (HeapTupleHeaderGetXmin tuple) then Inl (False, tuple)
               else Inr tuple)
            else Inr tuple) of
        Inl r \<Rightarrow> r
      | Inr tuple \<Rightarrow> (True, tuple))"

section \<open>Updates\<close>

datatype TM_Result = TM_Ok | TM_Invisible | TM_SelfModified | TM_Updated | TM_Deleted
  | TM_BeingModified | TM_WouldBlock

text \<open>\<open>t_self\<close> is the tuple's own address.\<close>

definition updated_or_deleted :: "ItemPointerData \<Rightarrow> HeapTupleHeader \<Rightarrow> TM_Result" where
  "updated_or_deleted t_self tuple =
     (if \<not> ItemPointerEquals t_self (t_ctid tuple) then TM_Updated else TM_Deleted)"

definition Update_xmin :: "vis_env \<Rightarrow> CommandId \<Rightarrow> Buffer \<Rightarrow> HeapTupleHeader \<Rightarrow> TM_Result step" where
  "Update_xmin e cid buffer tuple =
     (if \<not> HeapTupleHeaderXminCommitted tuple then
        (if HeapTupleHeaderXminInvalid tuple then Inl (TM_Invisible, tuple)
         else if t_infomask tuple AND HEAP_MOVED_OFF \<noteq> 0
         then moved_off e (is_in_progress e) TM_Invisible buffer tuple
         else if t_infomask tuple AND HEAP_MOVED_IN \<noteq> 0
         then moved_in e (is_in_progress e) TM_Invisible buffer tuple
         else if is_current e (HeapTupleHeaderGetRawXmin tuple) then
           (if HeapTupleHeaderGetCmin (combo e) tuple \<ge> cid then Inl (TM_Invisible, tuple)
            else if t_infomask tuple AND HEAP_XMAX_INVALID \<noteq> 0 then Inl (TM_Ok, tuple)
            else if HEAP_XMAX_IS_LOCKED_ONLY (t_infomask tuple) then
              (let xmax = HeapTupleHeaderGetRawXmax tuple
               in if t_infomask tuple AND HEAP_XMAX_IS_MULTI \<noteq> 0 then
                    (if MultiXactIdIsRunning e xmax True then Inl (TM_BeingModified, tuple)
                     else Inl (TM_Ok, tuple))
                  else if \<not> is_in_progress e xmax then Inl (TM_Ok, tuple)
                  else Inl (TM_BeingModified, tuple))
            else if t_infomask tuple AND HEAP_XMAX_IS_MULTI \<noteq> 0 then
              (let xmax = HeapTupleGetUpdateXid e tuple
               in if \<not> is_current e xmax then
                    (if MultiXactIdIsRunning e (HeapTupleHeaderGetRawXmax tuple) False
                     then Inl (TM_BeingModified, tuple) else Inl (TM_Ok, tuple))
                  else if HeapTupleHeaderGetCmax (combo e) tuple \<ge> cid
                  then Inl (TM_SelfModified, tuple)
                  else Inl (TM_Invisible, tuple))
            else if \<not> is_current e (HeapTupleHeaderGetRawXmax tuple)
            then Inl (TM_Ok, SetHintBits e buffer HEAP_XMAX_INVALID InvalidTransactionId tuple)
            else if HeapTupleHeaderGetCmax (combo e) tuple \<ge> cid then Inl (TM_SelfModified, tuple)
            else Inl (TM_Invisible, tuple))
         else if is_in_progress e (HeapTupleHeaderGetRawXmin tuple) then Inl (TM_Invisible, tuple)
         else if did_commit e (HeapTupleHeaderGetRawXmin tuple)
         then Inr (SetHintBits e buffer HEAP_XMIN_COMMITTED (HeapTupleHeaderGetRawXmin tuple) tuple)
         else Inl (TM_Invisible, SetHintBits e buffer HEAP_XMIN_INVALID InvalidTransactionId tuple))
      else Inr tuple)"

definition Update_multi ::
    "vis_env \<Rightarrow> ItemPointerData \<Rightarrow> CommandId \<Rightarrow> Buffer \<Rightarrow> HeapTupleHeader \<Rightarrow> TM_Result \<times> HeapTupleHeader" where
  "Update_multi e t_self cid buffer tuple =
     (if HEAP_LOCKED_UPGRADED (t_infomask tuple) then (TM_Ok, tuple)
      else if HEAP_XMAX_IS_LOCKED_ONLY (t_infomask tuple) then
        (if MultiXactIdIsRunning e (HeapTupleHeaderGetRawXmax tuple) True then (TM_BeingModified, tuple)
         else (TM_Ok, SetHintBits e buffer HEAP_XMAX_INVALID InvalidTransactionId tuple))
      else
        let xmax = HeapTupleGetUpdateXid e tuple
        in if \<not> TransactionIdIsValid xmax
              \<and> MultiXactIdIsRunning e (HeapTupleHeaderGetRawXmax tuple) False
           then (TM_BeingModified, tuple)
           else if is_current e xmax then
             (if HeapTupleHeaderGetCmax (combo e) tuple \<ge> cid then (TM_SelfModified, tuple)
              else (TM_Invisible, tuple))
           else if MultiXactIdIsRunning e (HeapTupleHeaderGetRawXmax tuple) False
           then (TM_BeingModified, tuple)
           else if did_commit e xmax then (updated_or_deleted t_self tuple, tuple)
           else if \<not> MultiXactIdIsRunning e (HeapTupleHeaderGetRawXmax tuple) False
           then (TM_Ok, SetHintBits e buffer HEAP_XMAX_INVALID InvalidTransactionId tuple)
           else (TM_BeingModified, tuple))"

definition Update_xmax ::
    "vis_env \<Rightarrow> ItemPointerData \<Rightarrow> CommandId \<Rightarrow> Buffer \<Rightarrow> HeapTupleHeader \<Rightarrow> TM_Result \<times> HeapTupleHeader" where
  "Update_xmax e t_self cid buffer tuple =
     (if t_infomask tuple AND HEAP_XMAX_INVALID \<noteq> 0 then (TM_Ok, tuple)
      else if t_infomask tuple AND HEAP_XMAX_COMMITTED \<noteq> 0 then
        (if HEAP_XMAX_IS_LOCKED_ONLY (t_infomask tuple) then (TM_Ok, tuple)
         else (updated_or_deleted t_self tuple, tuple))
      else if t_infomask tuple AND HEAP_XMAX_IS_MULTI \<noteq> 0
      then Update_multi e t_self cid buffer tuple
      else if is_current e (HeapTupleHeaderGetRawXmax tuple) then
        (if HEAP_XMAX_IS_LOCKED_ONLY (t_infomask tuple) then (TM_BeingModified, tuple)
         else if HeapTupleHeaderGetCmax (combo e) tuple \<ge> cid then (TM_SelfModified, tuple)
         else (TM_Invisible, tuple))
      else if is_in_progress e (HeapTupleHeaderGetRawXmax tuple) then (TM_BeingModified, tuple)
      else if \<not> did_commit e (HeapTupleHeaderGetRawXmax tuple)
      then (TM_Ok, SetHintBits e buffer HEAP_XMAX_INVALID InvalidTransactionId tuple)
      else if HEAP_XMAX_IS_LOCKED_ONLY (t_infomask tuple)
      then (TM_Ok, SetHintBits e buffer HEAP_XMAX_INVALID InvalidTransactionId tuple)
      else
        let tuple = SetHintBits e buffer HEAP_XMAX_COMMITTED (HeapTupleHeaderGetRawXmax tuple) tuple
        in (updated_or_deleted t_self tuple, tuple))"

definition HeapTupleSatisfiesUpdate ::
    "vis_env \<Rightarrow> ItemPointerData \<Rightarrow> CommandId \<Rightarrow> Buffer \<Rightarrow> HeapTupleHeader \<Rightarrow> TM_Result \<times> HeapTupleHeader" where
  "HeapTupleSatisfiesUpdate e t_self cid buffer tuple =
     (case Update_xmin e cid buffer tuple of
        Inl r \<Rightarrow> r
      | Inr tuple \<Rightarrow> Update_xmax e t_self cid buffer tuple)"

section \<open>SnapshotDirty\<close>

text \<open>The result is the verdict and the snapshot, whose fields tell the caller whom to wait
  for.\<close>

definition Dirty_xmin ::
    "vis_env \<Rightarrow> SnapshotData \<Rightarrow> Buffer \<Rightarrow> HeapTupleHeader \<Rightarrow> (bool \<times> SnapshotData) step" where
  "Dirty_xmin e snapshot buffer tuple =
     (if \<not> HeapTupleHeaderXminCommitted tuple then
        (if HeapTupleHeaderXminInvalid tuple then Inl ((False, snapshot), tuple)
         else if t_infomask tuple AND HEAP_MOVED_OFF \<noteq> 0
         then moved_off e (is_in_progress e) (False, snapshot) buffer tuple
         else if t_infomask tuple AND HEAP_MOVED_IN \<noteq> 0
         then moved_in e (is_in_progress e) (False, snapshot) buffer tuple
         else if is_current e (HeapTupleHeaderGetRawXmin tuple) then
           (if t_infomask tuple AND HEAP_XMAX_INVALID \<noteq> 0 then Inl ((True, snapshot), tuple)
            else if HEAP_XMAX_IS_LOCKED_ONLY (t_infomask tuple) then Inl ((True, snapshot), tuple)
            else if t_infomask tuple AND HEAP_XMAX_IS_MULTI \<noteq> 0 then
              (let xmax = HeapTupleGetUpdateXid e tuple
               in if \<not> is_current e xmax then Inl ((True, snapshot), tuple)
                  else Inl ((False, snapshot), tuple))
            else if \<not> is_current e (HeapTupleHeaderGetRawXmax tuple)
            then Inl ((True, snapshot), SetHintBits e buffer HEAP_XMAX_INVALID InvalidTransactionId tuple)
            else Inl ((False, snapshot), tuple))
         else if is_in_progress e (HeapTupleHeaderGetRawXmin tuple) then
           (let snapshot = (if HeapTupleHeaderIsSpeculative tuple
                            then snapshot\<lparr>speculativeToken := HeapTupleHeaderGetSpeculativeToken tuple\<rparr>
                            else snapshot)
            in Inl ((True, snapshot\<lparr>snap_xmin := HeapTupleHeaderGetRawXmin tuple\<rparr>), tuple))
         else if did_commit e (HeapTupleHeaderGetRawXmin tuple)
         then Inr (SetHintBits e buffer HEAP_XMIN_COMMITTED (HeapTupleHeaderGetRawXmin tuple) tuple)
         else Inl ((False, snapshot), SetHintBits e buffer HEAP_XMIN_INVALID InvalidTransactionId tuple))
      else Inr tuple)"

definition Dirty_xmax ::
    "vis_env \<Rightarrow> SnapshotData \<Rightarrow> Buffer \<Rightarrow> HeapTupleHeader \<Rightarrow> (bool \<times> SnapshotData) \<times> HeapTupleHeader" where
  "Dirty_xmax e snapshot buffer tuple =
     (if t_infomask tuple AND HEAP_XMAX_INVALID \<noteq> 0 then ((True, snapshot), tuple)
      else if t_infomask tuple AND HEAP_XMAX_COMMITTED \<noteq> 0 then
        (if HEAP_XMAX_IS_LOCKED_ONLY (t_infomask tuple) then ((True, snapshot), tuple)
         else ((False, snapshot), tuple))
      else if t_infomask tuple AND HEAP_XMAX_IS_MULTI \<noteq> 0 then
        (if HEAP_XMAX_IS_LOCKED_ONLY (t_infomask tuple) then ((True, snapshot), tuple)
         else
           let xmax = HeapTupleGetUpdateXid e tuple
           in if is_current e xmax then ((False, snapshot), tuple)
              else if is_in_progress e xmax then ((True, snapshot\<lparr>snap_xmax := xmax\<rparr>), tuple)
              else if did_commit e xmax then ((False, snapshot), tuple)
              else ((True, snapshot), tuple))
      else if is_current e (HeapTupleHeaderGetRawXmax tuple) then
        (if HEAP_XMAX_IS_LOCKED_ONLY (t_infomask tuple) then ((True, snapshot), tuple)
         else ((False, snapshot), tuple))
      else if is_in_progress e (HeapTupleHeaderGetRawXmax tuple) then
        ((True, if \<not> HEAP_XMAX_IS_LOCKED_ONLY (t_infomask tuple)
                then snapshot\<lparr>snap_xmax := HeapTupleHeaderGetRawXmax tuple\<rparr> else snapshot), tuple)
      else if \<not> did_commit e (HeapTupleHeaderGetRawXmax tuple)
      then ((True, snapshot), SetHintBits e buffer HEAP_XMAX_INVALID InvalidTransactionId tuple)
      else if HEAP_XMAX_IS_LOCKED_ONLY (t_infomask tuple)
      then ((True, snapshot), SetHintBits e buffer HEAP_XMAX_INVALID InvalidTransactionId tuple)
      else ((False, snapshot),
            SetHintBits e buffer HEAP_XMAX_COMMITTED (HeapTupleHeaderGetRawXmax tuple) tuple))"

definition HeapTupleSatisfiesDirty ::
    "vis_env \<Rightarrow> SnapshotData \<Rightarrow> Buffer \<Rightarrow> HeapTupleHeader \<Rightarrow> (bool \<times> SnapshotData) \<times> HeapTupleHeader" where
  "HeapTupleSatisfiesDirty e snapshot buffer tuple =
     (let snapshot = snapshot\<lparr>snap_xmin := InvalidTransactionId, snap_xmax := InvalidTransactionId,
                       speculativeToken := 0\<rparr>
      in case Dirty_xmin e snapshot buffer tuple of
           Inl r \<Rightarrow> r
         | Inr tuple \<Rightarrow> Dirty_xmax e snapshot buffer tuple)"

section \<open>MVCC snapshots\<close>

definition MVCC_xmin :: "vis_env \<Rightarrow> SnapshotData \<Rightarrow> Buffer \<Rightarrow> HeapTupleHeader \<Rightarrow> bool step" where
  "MVCC_xmin e snapshot buffer tuple =
     (if \<not> HeapTupleHeaderXminCommitted tuple then
        (if HeapTupleHeaderXminInvalid tuple then Inl (False, tuple)
         else if t_infomask tuple AND HEAP_MOVED_OFF \<noteq> 0
         then moved_off e (\<lambda>x. in_snapshot e x snapshot) False buffer tuple
         else if t_infomask tuple AND HEAP_MOVED_IN \<noteq> 0
         then moved_in e (\<lambda>x. in_snapshot e x snapshot) False buffer tuple
         else if is_current e (HeapTupleHeaderGetRawXmin tuple) then
           (if HeapTupleHeaderGetCmin (combo e) tuple \<ge> curcid snapshot then Inl (False, tuple)
            else if t_infomask tuple AND HEAP_XMAX_INVALID \<noteq> 0 then Inl (True, tuple)
            else if HEAP_XMAX_IS_LOCKED_ONLY (t_infomask tuple) then Inl (True, tuple)
            else if t_infomask tuple AND HEAP_XMAX_IS_MULTI \<noteq> 0 then
              (let xmax = HeapTupleGetUpdateXid e tuple
               in if \<not> is_current e xmax then Inl (True, tuple)
                  else if HeapTupleHeaderGetCmax (combo e) tuple \<ge> curcid snapshot then Inl (True, tuple)
                  else Inl (False, tuple))
            else if \<not> is_current e (HeapTupleHeaderGetRawXmax tuple)
            then Inl (True, SetHintBits e buffer HEAP_XMAX_INVALID InvalidTransactionId tuple)
            else if HeapTupleHeaderGetCmax (combo e) tuple \<ge> curcid snapshot then Inl (True, tuple)
            else Inl (False, tuple))
         else if in_snapshot e (HeapTupleHeaderGetRawXmin tuple) snapshot then Inl (False, tuple)
         else if did_commit e (HeapTupleHeaderGetRawXmin tuple)
         then Inr (SetHintBits e buffer HEAP_XMIN_COMMITTED (HeapTupleHeaderGetRawXmin tuple) tuple)
         else Inl (False, SetHintBits e buffer HEAP_XMIN_INVALID InvalidTransactionId tuple))
      else if \<not> HeapTupleHeaderXminFrozen tuple
              \<and> in_snapshot e (HeapTupleHeaderGetRawXmin tuple) snapshot
      then Inl (False, tuple)
      else Inr tuple)"

definition MVCC_xmax :: "vis_env \<Rightarrow> SnapshotData \<Rightarrow> Buffer \<Rightarrow> HeapTupleHeader \<Rightarrow> bool \<times> HeapTupleHeader" where
  "MVCC_xmax e snapshot buffer tuple =
     (if t_infomask tuple AND HEAP_XMAX_INVALID \<noteq> 0 then (True, tuple)
      else if HEAP_XMAX_IS_LOCKED_ONLY (t_infomask tuple) then (True, tuple)
      else if t_infomask tuple AND HEAP_XMAX_IS_MULTI \<noteq> 0 then
        (let xmax = HeapTupleGetUpdateXid e tuple
         in if is_current e xmax then
              (if HeapTupleHeaderGetCmax (combo e) tuple \<ge> curcid snapshot then (True, tuple)
               else (False, tuple))
            else if in_snapshot e xmax snapshot then (True, tuple)
            else if did_commit e xmax then (False, tuple)
            else (True, tuple))
      else if \<not> t_infomask tuple AND HEAP_XMAX_COMMITTED \<noteq> 0 then
        (if is_current e (HeapTupleHeaderGetRawXmax tuple) then
           (if HeapTupleHeaderGetCmax (combo e) tuple \<ge> curcid snapshot then (True, tuple)
            else (False, tuple))
         else if in_snapshot e (HeapTupleHeaderGetRawXmax tuple) snapshot then (True, tuple)
         else if \<not> did_commit e (HeapTupleHeaderGetRawXmax tuple)
         then (True, SetHintBits e buffer HEAP_XMAX_INVALID InvalidTransactionId tuple)
         else (False, SetHintBits e buffer HEAP_XMAX_COMMITTED (HeapTupleHeaderGetRawXmax tuple) tuple))
      else if in_snapshot e (HeapTupleHeaderGetRawXmax tuple) snapshot then (True, tuple)
      else (False, tuple))"

definition HeapTupleSatisfiesMVCC ::
    "vis_env \<Rightarrow> SnapshotData \<Rightarrow> Buffer \<Rightarrow> HeapTupleHeader \<Rightarrow> bool \<times> HeapTupleHeader" where
  "HeapTupleSatisfiesMVCC e snapshot buffer tuple =
     (case MVCC_xmin e snapshot buffer tuple of
        Inl r \<Rightarrow> r
      | Inr tuple \<Rightarrow> MVCC_xmax e snapshot buffer tuple)"

section \<open>Vacuum\<close>

datatype HTSV_Result = HEAPTUPLE_DEAD | HEAPTUPLE_LIVE | HEAPTUPLE_RECENTLY_DEAD
  | HEAPTUPLE_INSERT_IN_PROGRESS | HEAPTUPLE_DELETE_IN_PROGRESS

definition HeapTupleHeaderIsOnlyLocked :: "vis_env \<Rightarrow> HeapTupleHeader \<Rightarrow> bool" where
  "HeapTupleHeaderIsOnlyLocked e tuple =
     (if t_infomask tuple AND HEAP_XMAX_INVALID \<noteq> 0 then True
      else if t_infomask tuple AND HEAP_XMAX_LOCK_ONLY \<noteq> 0 then True
      else if \<not> TransactionIdIsValid (HeapTupleHeaderGetRawXmax tuple) then True
      else if \<not> t_infomask tuple AND HEAP_XMAX_IS_MULTI \<noteq> 0 then False
      else
        let xmax = HeapTupleGetUpdateXid e tuple
        in if is_current e xmax then False
           else if is_in_progress e xmax then False
           else if did_commit e xmax then False
           else True)"

text \<open>The result with the value of \<open>*dead_after\<close>.\<close>

definition Vacuum_xmin ::
    "vis_env \<Rightarrow> Buffer \<Rightarrow> HeapTupleHeader \<Rightarrow> (HTSV_Result \<times> TransactionId) step" where
  "Vacuum_xmin e buffer tuple =
     (let ret = (\<lambda>r t. Inl ((r, InvalidTransactionId), t)) in
      if \<not> HeapTupleHeaderXminCommitted tuple then
        (if HeapTupleHeaderXminInvalid tuple then ret HEAPTUPLE_DEAD tuple
         else if t_infomask tuple AND HEAP_MOVED_OFF \<noteq> 0 then
           (let xvac = HeapTupleHeaderGetXvac tuple
            in if is_current e xvac then ret HEAPTUPLE_DELETE_IN_PROGRESS tuple
               else if is_in_progress e xvac then ret HEAPTUPLE_DELETE_IN_PROGRESS tuple
               else if did_commit e xvac
               then ret HEAPTUPLE_DEAD (SetHintBits e buffer HEAP_XMIN_INVALID InvalidTransactionId tuple)
               else Inr (SetHintBits e buffer HEAP_XMIN_COMMITTED InvalidTransactionId tuple))
         else if t_infomask tuple AND HEAP_MOVED_IN \<noteq> 0 then
           (let xvac = HeapTupleHeaderGetXvac tuple
            in if is_current e xvac then ret HEAPTUPLE_INSERT_IN_PROGRESS tuple
               else if is_in_progress e xvac then ret HEAPTUPLE_INSERT_IN_PROGRESS tuple
               else if did_commit e xvac
               then Inr (SetHintBits e buffer HEAP_XMIN_COMMITTED InvalidTransactionId tuple)
               else ret HEAPTUPLE_DEAD (SetHintBits e buffer HEAP_XMIN_INVALID InvalidTransactionId tuple))
         else if is_current e (HeapTupleHeaderGetRawXmin tuple) then
           (if t_infomask tuple AND HEAP_XMAX_INVALID \<noteq> 0 then ret HEAPTUPLE_INSERT_IN_PROGRESS tuple
            else if HEAP_XMAX_IS_LOCKED_ONLY (t_infomask tuple) \<or> HeapTupleHeaderIsOnlyLocked e tuple
            then ret HEAPTUPLE_INSERT_IN_PROGRESS tuple
            else if is_current e (HeapTupleHeaderGetUpdateXid e tuple)
            then ret HEAPTUPLE_DELETE_IN_PROGRESS tuple
            else ret HEAPTUPLE_INSERT_IN_PROGRESS tuple)
         else if is_in_progress e (HeapTupleHeaderGetRawXmin tuple)
         then ret HEAPTUPLE_INSERT_IN_PROGRESS tuple
         else if did_commit e (HeapTupleHeaderGetRawXmin tuple)
         then Inr (SetHintBits e buffer HEAP_XMIN_COMMITTED (HeapTupleHeaderGetRawXmin tuple) tuple)
         else ret HEAPTUPLE_DEAD (SetHintBits e buffer HEAP_XMIN_INVALID InvalidTransactionId tuple))
      else Inr tuple)"

definition Vacuum_xmax ::
    "vis_env \<Rightarrow> Buffer \<Rightarrow> HeapTupleHeader \<Rightarrow> (HTSV_Result \<times> TransactionId) \<times> HeapTupleHeader" where
  "Vacuum_xmax e buffer tuple =
     (let ret = (\<lambda>r t. ((r, InvalidTransactionId), t)) in
      if t_infomask tuple AND HEAP_XMAX_INVALID \<noteq> 0 then ret HEAPTUPLE_LIVE tuple
      else if HEAP_XMAX_IS_LOCKED_ONLY (t_infomask tuple) then
        (if \<not> t_infomask tuple AND HEAP_XMAX_COMMITTED \<noteq> 0 then
           (if t_infomask tuple AND HEAP_XMAX_IS_MULTI \<noteq> 0 then
              (if \<not> HEAP_LOCKED_UPGRADED (t_infomask tuple)
                  \<and> MultiXactIdIsRunning e (HeapTupleHeaderGetRawXmax tuple) True
               then ret HEAPTUPLE_LIVE tuple
               else ret HEAPTUPLE_LIVE (SetHintBits e buffer HEAP_XMAX_INVALID InvalidTransactionId tuple))
            else if is_in_progress e (HeapTupleHeaderGetRawXmax tuple) then ret HEAPTUPLE_LIVE tuple
            else ret HEAPTUPLE_LIVE (SetHintBits e buffer HEAP_XMAX_INVALID InvalidTransactionId tuple))
         else ret HEAPTUPLE_LIVE tuple)
      else if t_infomask tuple AND HEAP_XMAX_IS_MULTI \<noteq> 0 then
        (let xmax = HeapTupleGetUpdateXid e tuple
         in if is_in_progress e xmax then ret HEAPTUPLE_DELETE_IN_PROGRESS tuple
            else if did_commit e xmax then ((HEAPTUPLE_RECENTLY_DEAD, xmax), tuple)
            else if \<not> MultiXactIdIsRunning e (HeapTupleHeaderGetRawXmax tuple) False
            then ret HEAPTUPLE_LIVE (SetHintBits e buffer HEAP_XMAX_INVALID InvalidTransactionId tuple)
            else ret HEAPTUPLE_LIVE tuple)
      else if \<not> t_infomask tuple AND HEAP_XMAX_COMMITTED \<noteq> 0 then
        (if is_in_progress e (HeapTupleHeaderGetRawXmax tuple) then ret HEAPTUPLE_DELETE_IN_PROGRESS tuple
         else if did_commit e (HeapTupleHeaderGetRawXmax tuple)
         then ((HEAPTUPLE_RECENTLY_DEAD, HeapTupleHeaderGetRawXmax tuple),
               SetHintBits e buffer HEAP_XMAX_COMMITTED (HeapTupleHeaderGetRawXmax tuple) tuple)
         else ret HEAPTUPLE_LIVE (SetHintBits e buffer HEAP_XMAX_INVALID InvalidTransactionId tuple))
      else ((HEAPTUPLE_RECENTLY_DEAD, HeapTupleHeaderGetRawXmax tuple), tuple))"

definition HeapTupleSatisfiesVacuumHorizon ::
    "vis_env \<Rightarrow> Buffer \<Rightarrow> HeapTupleHeader \<Rightarrow> (HTSV_Result \<times> TransactionId) \<times> HeapTupleHeader" where
  "HeapTupleSatisfiesVacuumHorizon e buffer tuple =
     (case Vacuum_xmin e buffer tuple of Inl r \<Rightarrow> r | Inr tuple \<Rightarrow> Vacuum_xmax e buffer tuple)"

definition HeapTupleSatisfiesVacuum ::
    "vis_env \<Rightarrow> TransactionId \<Rightarrow> Buffer \<Rightarrow> HeapTupleHeader \<Rightarrow> HTSV_Result \<times> HeapTupleHeader" where
  "HeapTupleSatisfiesVacuum e OldestXmin buffer tuple =
     (let ((res, dead_after), tuple) = HeapTupleSatisfiesVacuumHorizon e buffer tuple
      in if res = HEAPTUPLE_RECENTLY_DEAD
         then (if TransactionIdPrecedes dead_after OldestXmin then (HEAPTUPLE_DEAD, tuple) else (res, tuple))
         else (res, tuple))"

definition HeapTupleSatisfiesNonVacuumable ::
    "vis_env \<Rightarrow> SnapshotData \<Rightarrow> Buffer \<Rightarrow> HeapTupleHeader \<Rightarrow> bool \<times> HeapTupleHeader" where
  "HeapTupleSatisfiesNonVacuumable e snapshot buffer tuple =
     (let ((res, dead_after), tuple) = HeapTupleSatisfiesVacuumHorizon e buffer tuple;
          res = (if res = HEAPTUPLE_RECENTLY_DEAD \<and> is_removable e (vistest snapshot) dead_after
                 then HEAPTUPLE_DEAD else res)
      in (res \<noteq> HEAPTUPLE_DEAD, tuple))"

definition HeapTupleIsSurelyDead :: "vis_env \<Rightarrow> GlobalVisState \<Rightarrow> HeapTupleHeader \<Rightarrow> bool" where
  "HeapTupleIsSurelyDead e vt tuple =
     (if \<not> HeapTupleHeaderXminCommitted tuple then (if HeapTupleHeaderXminInvalid tuple then True else False)
      else if t_infomask tuple AND HEAP_XMAX_INVALID \<noteq> 0 then False
      else if HEAP_XMAX_IS_LOCKED_ONLY (t_infomask tuple) then False
      else if t_infomask tuple AND HEAP_XMAX_IS_MULTI \<noteq> 0 then False
      else if \<not> t_infomask tuple AND HEAP_XMAX_COMMITTED \<noteq> 0 then False
      else is_removable e vt (HeapTupleHeaderGetRawXmax tuple))"

section \<open>Historic snapshots and the dispatcher\<close>

text \<open>\<open>bsearch\<close> with \<open>xidComparator\<close> (numeric order) finds an element of a sorted array exactly
  when it is a member.\<close>

definition TransactionIdInArray :: "TransactionId \<Rightarrow> TransactionId list \<Rightarrow> bool" where
  "TransactionIdInArray xid xs \<longleftrightarrow> xid_search (<) xs xid 0 (int (length xs) - 1)"

definition Historic_xmin :: "vis_env \<Rightarrow> SnapshotData \<Rightarrow> HeapTupleHeader \<Rightarrow> bool" where
  "Historic_xmin e snapshot tuple =
     (let xmin = HeapTupleHeaderGetXmin tuple
      in if HeapTupleHeaderXminInvalid tuple then False
         else if TransactionIdInArray xmin (subxip snapshot) then
           (case decoding_cids e tuple of
              None \<Rightarrow> False
            | Some (cmin, cmax) \<Rightarrow> if cmin \<ge> curcid snapshot then False else True)
         else if TransactionIdPrecedes xmin (snap_xmin snapshot) then
           (if \<not> HeapTupleHeaderXminCommitted tuple \<and> \<not> did_commit e xmin then False else True)
         else if TransactionIdFollowsOrEquals xmin (snap_xmax snapshot) then False
         else if TransactionIdInArray xmin (xip snapshot) then True
         else False)"

definition HeapTupleSatisfiesHistoricMVCC :: "vis_env \<Rightarrow> SnapshotData \<Rightarrow> HeapTupleHeader \<Rightarrow> bool" where
  "HeapTupleSatisfiesHistoricMVCC e snapshot tuple =
     (if \<not> Historic_xmin e snapshot tuple then False
      else if t_infomask tuple AND HEAP_XMAX_INVALID \<noteq> 0 then True
      else if HEAP_XMAX_IS_LOCKED_ONLY (t_infomask tuple) then True
      else
        let xmax = (if t_infomask tuple AND HEAP_XMAX_IS_MULTI \<noteq> 0 then HeapTupleGetUpdateXid e tuple
                    else HeapTupleHeaderGetRawXmax tuple)
        in if TransactionIdInArray xmax (subxip snapshot) then
             (case decoding_cids e tuple of
                None \<Rightarrow> True
              | Some (cmin, cmax) \<Rightarrow>
                  if cmax = InvalidCommandId then True
                  else if cmax \<ge> curcid snapshot then True else False)
           else if TransactionIdPrecedes xmax (snap_xmin snapshot) then
             (if t_infomask tuple AND HEAP_XMAX_COMMITTED \<noteq> 0 then False else \<not> did_commit e xmax)
           else if TransactionIdFollowsOrEquals xmax (snap_xmax snapshot) then True
           else if TransactionIdInArray xmax (xip snapshot) then False
           else True)"

text \<open>The verdict, the snapshot (which only SnapshotDirty changes) and the tuple.\<close>

definition HeapTupleSatisfiesVisibility ::
    "vis_env \<Rightarrow> SnapshotData \<Rightarrow> Buffer \<Rightarrow> HeapTupleHeader \<Rightarrow> (bool \<times> SnapshotData) \<times> HeapTupleHeader" where
  "HeapTupleSatisfiesVisibility e snapshot buffer tuple =
     (let with = (\<lambda>(b, t). ((b, snapshot), t))
      in case snapshot_type snapshot of
           SNAPSHOT_MVCC \<Rightarrow> with (HeapTupleSatisfiesMVCC e snapshot buffer tuple)
         | SNAPSHOT_SELF \<Rightarrow> with (HeapTupleSatisfiesSelf e buffer tuple)
         | SNAPSHOT_ANY \<Rightarrow> with (HeapTupleSatisfiesAny e buffer tuple)
         | SNAPSHOT_TOAST \<Rightarrow> with (HeapTupleSatisfiesToast e buffer tuple)
         | SNAPSHOT_DIRTY \<Rightarrow> HeapTupleSatisfiesDirty e snapshot buffer tuple
         | SNAPSHOT_HISTORIC_MVCC \<Rightarrow> ((HeapTupleSatisfiesHistoricMVCC e snapshot tuple, snapshot), tuple)
         | SNAPSHOT_NON_VACUUMABLE \<Rightarrow> with (HeapTupleSatisfiesNonVacuumable e snapshot buffer tuple))"

end
