(* ===== verification/RowVisibility.thy ===== *)
theory RowVisibility
  imports HeapVisibility
begin

text \<open>
  What the visibility tests of \<^verbatim>\<open>heapam_visibility.c\<close> decide: the specification of a snapshot's view of
  a tuple, the meaning of hint bits, the results of each test against the specification, the
  laws of the environment the tests rely on as a locale, and its interpretation on a backend
  made of the models of the process array, the commit log, the backend's own transactions and
  its multixacts.
\<close>

declare header_flags(1) [simp del]

section \<open>What the tests are meant to decide\<close>

abbreviation tbit :: "HeapTupleHeader \<Rightarrow> nat \<Rightarrow> bool" where
  "tbit t n \<equiv> bit (t_infomask t) n"

definition locked_only :: "HeapTupleHeader \<Rightarrow> bool" where
  "locked_only t \<longleftrightarrow> HEAP_XMAX_IS_LOCKED_ONLY (t_infomask t)"

text \<open>A transaction that is over: committed for good, or without effect for good.  The commit log
  is written before the transaction leaves the process array, so a recorded commit alone does not
  say that the transaction is over.\<close>

definition committed_xid :: "vis_env \<Rightarrow> TransactionId \<Rightarrow> bool" where
  "committed_xid e x \<longleftrightarrow> did_commit e x \<and> \<not> is_in_progress e x \<and> \<not> is_current e x"

definition dead_xid :: "vis_env \<Rightarrow> TransactionId \<Rightarrow> bool" where
  "dead_xid e x \<longleftrightarrow> \<not> did_commit e x \<and> \<not> is_in_progress e x \<and> \<not> is_current e x"

text \<open>The transaction that deleted or updated the tuple, if any.\<close>

definition deleter :: "vis_env \<Rightarrow> HeapTupleHeader \<Rightarrow> TransactionId option" where
  "deleter e t = (if tbit t 11 \<or> locked_only t then None
     else Some (if tbit t 12 then HeapTupleGetUpdateXid e t else t_xmax t))"

lemma deleter_None: "deleter e t = None \<longleftrightarrow> tbit t 11 \<or> HEAP_XMAX_IS_LOCKED_ONLY (t_infomask t)"
  by (simp add: deleter_def locked_only_def)

lemma deleter_Some:
  "deleter e t = Some x \<longleftrightarrow> \<not> tbit t 11 \<and> \<not> HEAP_XMAX_IS_LOCKED_ONLY (t_infomask t)
     \<and> x = (if tbit t 12 then HeapTupleGetUpdateXid e t else t_xmax t)"
  by (auto simp: deleter_def locked_only_def)

text \<open>What a snapshot should see: rows inserted by its own earlier commands or by transactions it
  does not contain and that committed, unless deleted in the same sense.\<close>

definition inserted_for :: "vis_env \<Rightarrow> SnapshotData \<Rightarrow> HeapTupleHeader \<Rightarrow> bool" where
  "inserted_for e s t \<longleftrightarrow> HeapTupleHeaderXminFrozen t
     \<or> (if is_current e (t_xmin t) then HeapTupleHeaderGetCmin (combo e) t < curcid s
         else \<not> in_snapshot e (t_xmin t) s \<and> did_commit e (t_xmin t))"

definition deleted_for :: "vis_env \<Rightarrow> SnapshotData \<Rightarrow> HeapTupleHeader \<Rightarrow> bool" where
  "deleted_for e s t \<longleftrightarrow> (case deleter e t of None \<Rightarrow> False
     | Some x \<Rightarrow> if is_current e x then HeapTupleHeaderGetCmax (combo e) t < curcid s
                  else \<not> in_snapshot e x s \<and> did_commit e x)"

definition visible_to :: "vis_env \<Rightarrow> SnapshotData \<Rightarrow> HeapTupleHeader \<Rightarrow> bool" where
  "visible_to e s t \<longleftrightarrow> inserted_for e s t \<and> \<not> deleted_for e s t"

text \<open>A well-formed tuple: not moved by an old \<open>VACUUM FULL\<close>, its hint bits state final outcomes,
  and a tuple the current transaction inserted was deleted, if at all, by itself or by a
  subtransaction that has aborted.\<close>

definition tuple_ok :: "vis_env \<Rightarrow> HeapTupleHeader \<Rightarrow> bool" where
  "tuple_ok e t \<longleftrightarrow> \<not> tbit t 14 \<and> \<not> tbit t 15
     \<and> (tbit t 8 \<and> \<not> tbit t 9 \<longrightarrow> committed_xid e (t_xmin t))
     \<and> (\<not> tbit t 8 \<and> tbit t 9 \<longrightarrow> dead_xid e (t_xmin t))
     \<and> (\<forall>x. deleter e t = Some x \<longrightarrow>
          (tbit t 10 \<longrightarrow> \<not> tbit t 12 \<and> committed_xid e x)
          \<and> (\<not> tbit t 8 \<and> is_current e (t_xmin t) \<and> \<not> is_current e x \<longrightarrow> dead_xid e x))"

lemma tuple_okD:
  assumes "tuple_ok e t"
  shows "\<not> tbit t 14" "\<not> tbit t 15"
    "tbit t 8 \<Longrightarrow> \<not> tbit t 9 \<Longrightarrow> committed_xid e (t_xmin t)"
    "\<not> tbit t 8 \<Longrightarrow> tbit t 9 \<Longrightarrow> dead_xid e (t_xmin t)"
    "deleter e t = Some x \<Longrightarrow> tbit t 10 \<Longrightarrow> \<not> tbit t 12 \<and> committed_xid e x"
    "deleter e t = Some x \<Longrightarrow> \<not> tbit t 8 \<Longrightarrow> is_current e (t_xmin t) \<Longrightarrow> \<not> is_current e x \<Longrightarrow> dead_xid e x"
  using assms by (simp_all add: tuple_ok_def)

text \<open>The hint bits a test may add, and what each must mean.\<close>

definition final_hints :: "vis_env \<Rightarrow> HeapTupleHeader \<Rightarrow> HeapTupleHeader \<Rightarrow> bool" where
  "final_hints e t t' \<longleftrightarrow> t' = t\<lparr>t_infomask := t_infomask t'\<rparr>
     \<and> (\<forall>n. tbit t n \<longrightarrow> tbit t' n)
     \<and> (\<forall>n. tbit t' n \<longrightarrow> tbit t n \<or> n = 8 \<or> n = 9 \<or> n = 10 \<or> n = 11)
     \<and> (tbit t' 8 \<and> \<not> tbit t 8 \<longrightarrow> committed_xid e (t_xmin t) \<and> \<not> tbit t' 9)
     \<and> (tbit t' 9 \<and> \<not> tbit t 9 \<longrightarrow> dead_xid e (t_xmin t) \<and> \<not> tbit t' 8)
     \<and> (tbit t' 10 \<and> \<not> tbit t 10 \<longrightarrow> \<not> tbit t 12 \<and> deleter e t = Some (t_xmax t) \<and> committed_xid e (t_xmax t))
     \<and> (tbit t' 11 \<and> \<not> tbit t 11 \<longrightarrow> (\<forall>x. deleter e t = Some x \<longrightarrow> dead_xid e x))"

lemma final_hintsD:
  assumes "final_hints e t t'"
  shows "t_xmin t' = t_xmin t" "t_xmax t' = t_xmax t" "t_field3 t' = t_field3 t" "t_ctid t' = t_ctid t"
    "n \<noteq> 8 \<Longrightarrow> n \<noteq> 9 \<Longrightarrow> n \<noteq> 10 \<Longrightarrow> n \<noteq> 11 \<Longrightarrow> tbit t' n = tbit t n"
    "tbit t n \<Longrightarrow> tbit t' n"
    "tbit t' 8 \<Longrightarrow> \<not> tbit t 8 \<Longrightarrow> committed_xid e (t_xmin t)" "tbit t' 8 \<Longrightarrow> \<not> tbit t 8 \<Longrightarrow> \<not> tbit t' 9"
    "tbit t' 9 \<Longrightarrow> \<not> tbit t 9 \<Longrightarrow> dead_xid e (t_xmin t)" "tbit t' 9 \<Longrightarrow> \<not> tbit t 9 \<Longrightarrow> \<not> tbit t' 8"
    "tbit t' 10 \<Longrightarrow> \<not> tbit t 10 \<Longrightarrow> \<not> tbit t 12" 
    "tbit t' 10 \<Longrightarrow> \<not> tbit t 10 \<Longrightarrow> deleter e t = Some (t_xmax t)" 
    "tbit t' 10 \<Longrightarrow> \<not> tbit t 10 \<Longrightarrow> committed_xid e (t_xmax t)"
    "tbit t' 11 \<Longrightarrow> \<not> tbit t 11 \<Longrightarrow> deleter e t = Some x \<Longrightarrow> dead_xid e x"
proof -
  have *: "t' = t\<lparr>t_infomask := t_infomask t'\<rparr>" using assms by (simp add: final_hints_def)
  show "t_xmin t' = t_xmin t" using arg_cong [OF *, of t_xmin] by simp
  show "t_xmax t' = t_xmax t" using arg_cong [OF *, of t_xmax] by simp
  show "t_field3 t' = t_field3 t" using arg_cong [OF *, of t_field3] by simp
  show "t_ctid t' = t_ctid t" using arg_cong [OF *, of t_ctid] by simp
  show "n \<noteq> 8 \<Longrightarrow> n \<noteq> 9 \<Longrightarrow> n \<noteq> 10 \<Longrightarrow> n \<noteq> 11 \<Longrightarrow> tbit t' n = tbit t n"
    using assms unfolding final_hints_def by blast
qed (use assms in \<open>unfold final_hints_def, blast+\<close>)

lemma SetHintBits_fields [simp]:
  "t_xmin (SetHintBits e b m x t) = t_xmin t" "t_xmax (SetHintBits e b m x t) = t_xmax t"
  "t_field3 (SetHintBits e b m x t) = t_field3 t" "t_ctid (SetHintBits e b m x t) = t_ctid t"
  by (simp_all add: SetHintBits_def)

lemma SetHintBits_tbit [simp]:
  "n \<noteq> 8 \<Longrightarrow> tbit (SetHintBits e b HEAP_XMIN_COMMITTED x t) n = tbit t n"
  "n \<noteq> 9 \<Longrightarrow> tbit (SetHintBits e b HEAP_XMIN_INVALID x t) n = tbit t n"
  "n \<noteq> 10 \<Longrightarrow> tbit (SetHintBits e b HEAP_XMAX_COMMITTED x t) n = tbit t n"
  "n \<noteq> 11 \<Longrightarrow> tbit (SetHintBits e b HEAP_XMAX_INVALID x t) n = tbit t n"
  by (simp_all add: SetHintBits_def)

lemma SetHintBits_self: "tbit t n \<Longrightarrow> tbit (SetHintBits e b m x t) n"
  by (simp add: SetHintBits_def bit_or_iff)

lemma locked_only_hint:
  assumes "\<And>n. n \<noteq> 8 \<Longrightarrow> n \<noteq> 9 \<Longrightarrow> n \<noteq> 10 \<Longrightarrow> n \<noteq> 11 \<Longrightarrow> bit w' n = bit w n"
  shows "HEAP_XMAX_IS_LOCKED_ONLY w' = HEAP_XMAX_IS_LOCKED_ONLY w"
  using assms [of 7] assms [of 6] assms [of 4] assms [of 12] by (simp add: header_flags(1))

lemma locked_only_SetHintBits [simp]:
  "HEAP_XMAX_IS_LOCKED_ONLY (t_infomask (SetHintBits e b HEAP_XMIN_COMMITTED x t)) = HEAP_XMAX_IS_LOCKED_ONLY (t_infomask t)"
  by (rule locked_only_hint) simp

lemma GetUpdateXid_hint [simp]:
  "HeapTupleGetUpdateXid e (SetHintBits e' b m x t) = HeapTupleGetUpdateXid e t"
  by (simp add: HeapTupleGetUpdateXid_def)

lemma deleter_hint [simp]: "deleter e (SetHintBits e' b HEAP_XMIN_COMMITTED x t) = deleter e t"
  by (simp add: deleter_def locked_only_def)

lemma Cid_hint [simp]:
  "HeapTupleHeaderGetCmin c (SetHintBits e b HEAP_XMIN_COMMITTED x t) = HeapTupleHeaderGetCmin c t"
  "HeapTupleHeaderGetCmax c (SetHintBits e b HEAP_XMIN_COMMITTED x t) = HeapTupleHeaderGetCmax c t"
  by (simp_all add: HeapTupleHeaderGetCmin_def HeapTupleHeaderGetCmax_def)

lemma deleted_for_hint [simp]: "deleted_for e s (SetHintBits e' b HEAP_XMIN_COMMITTED x t) = deleted_for e s t"
  by (simp add: deleted_for_def split: option.split)

lemma SetHintBits_eq: "t\<lparr>t_infomask := t_infomask (SetHintBits e b m x t)\<rparr> = SetHintBits e b m x t"
  by (simp add: SetHintBits_def)

lemma final_hints_refl [simp]: "final_hints e t t"
  by (simp add: final_hints_def)

lemma final_hints_SetHintBits:
  "committed_xid e (t_xmin t) \<Longrightarrow> \<not> tbit t 8 \<Longrightarrow> \<not> tbit t 9 \<Longrightarrow> final_hints e t (SetHintBits e' b HEAP_XMIN_COMMITTED x t)"
  "dead_xid e (t_xmin t) \<Longrightarrow> \<not> tbit t 8 \<Longrightarrow> \<not> tbit t 9 \<Longrightarrow> final_hints e t (SetHintBits e' b HEAP_XMIN_INVALID x t)"
  "deleter e t = Some (t_xmax t) \<Longrightarrow> committed_xid e (t_xmax t) \<Longrightarrow> \<not> tbit t 12 \<Longrightarrow> final_hints e t (SetHintBits e' b HEAP_XMAX_COMMITTED x t)"
  "(\<And>y. deleter e t = Some y \<Longrightarrow> dead_xid e y) \<Longrightarrow> final_hints e t (SetHintBits e' b HEAP_XMAX_INVALID x t)"
  by (simp_all add: final_hints_def SetHintBits_eq SetHintBits_self, auto simp: SetHintBits_def split: if_splits)

lemma deleter_final_hints:
  assumes "final_hints e t t'" "members e' = members e"
  shows "deleter e' t' = (if tbit t' 11 then None else deleter e t)"
  using final_hintsD(1-5) [OF assms(1)] final_hintsD(6) [OF assms(1), of 11]
  by (auto simp: deleter_def locked_only_def HeapTupleGetUpdateXid_def MultiXactIdGetUpdateXid_def assms(2)
     intro: locked_only_hint locked_only_hint [THEN iffD1] locked_only_hint [THEN iffD2])


text \<open>Another test, at the same time or later, perhaps in another backend: outcomes are final.\<close>

definition later :: "vis_env \<Rightarrow> vis_env \<Rightarrow> bool" where
  "later e e' \<longleftrightarrow> members e' = members e \<and> (\<forall>x. committed_xid e x \<longrightarrow> committed_xid e' x)
     \<and> (\<forall>x. dead_xid e x \<longrightarrow> dead_xid e' x)"

lemma committed_not_dead: "committed_xid e x \<Longrightarrow> \<not> dead_xid e x"
  by (simp add: committed_xid_def dead_xid_def)

lemma hints_frozen:
  assumes "final_hints e t t'"
  shows "HeapTupleHeaderXminFrozen t' = HeapTupleHeaderXminFrozen t"
  using final_hintsD(6) [OF assms, of 8] final_hintsD(6) [OF assms, of 9] final_hintsD(8,10) [OF assms] by auto

lemma hints_cids:
  assumes "final_hints e t t'"
  shows "HeapTupleHeaderGetCmin c t' = HeapTupleHeaderGetCmin c t" "HeapTupleHeaderGetCmax c t' = HeapTupleHeaderGetCmax c t"
  using final_hintsD(3,5) [OF assms] by (simp_all add: HeapTupleHeaderGetCmin_def HeapTupleHeaderGetCmax_def)

lemma deleter_members: "members e' = members e \<Longrightarrow> deleter e' t = deleter e t"
  by (simp add: deleter_def HeapTupleGetUpdateXid_def MultiXactIdGetUpdateXid_def)

theorem hints_transparent:
  assumes h: "final_hints e t t'" and l: "later e e'"
  shows "visible_to e' s t' = visible_to e' s t"
proof -
  have m: "members e' = members e" using l by (simp add: later_def)
  have i: "inserted_for e' s t' = inserted_for e' s t"
    by (simp only: inserted_for_def hints_frozen [OF h] hints_cids [OF h] final_hintsD(1) [OF h])
  have d0: "deleter e' t = deleter e t" by (rule deleter_members [OF m])
  have "deleted_for e' s t' = deleted_for e' s t"
  proof (cases "tbit t' 11 \<and> \<not> tbit t 11")
    case True
    then have "\<And>x. deleter e t = Some x \<Longrightarrow> dead_xid e x" using final_hintsD(14) [OF h] by blast
    then have "\<not> deleted_for e' s t"
      using l d0 by (auto simp: deleted_for_def later_def dead_xid_def split: option.split)
    moreover have "\<not> deleted_for e' s t'" using True deleter_final_hints [OF h m] by (simp add: deleted_for_def)
    ultimately show ?thesis by simp
  next
    case False
    then have "deleter e' t' = deleter e' t"
      using deleter_final_hints [OF h m] final_hintsD(6) [OF h, of 11] d0 deleter_None [of e t] by auto
    then show ?thesis by (simp add: deleted_for_def hints_cids [OF h] split: option.split)
  qed
  with i show ?thesis by (simp add: visible_to_def)
qed

theorem hints_ok:
  assumes h: "final_hints e t t'" and ok: "tuple_ok e t"
  shows "tuple_ok e t'"
proof -
  note D = final_hintsD [OF h] and O = tuple_okD [OF ok]
  have "\<not> tbit t' 14" "\<not> tbit t' 15" using D(5) [of 14] D(5) [of 15] O(1,2) by simp_all
  moreover have "tbit t' 8 \<and> \<not> tbit t' 9 \<longrightarrow> committed_xid e (t_xmin t')"
    using D(1,6,7) O(3) by metis
  moreover have "\<not> tbit t' 8 \<and> tbit t' 9 \<longrightarrow> dead_xid e (t_xmin t')"
    using D(1,6,9) O(4) by metis
  moreover have "(tbit t' 10 \<longrightarrow> \<not> tbit t' 12 \<and> committed_xid e x)
          \<and> (\<not> tbit t' 8 \<and> is_current e (t_xmin t') \<and> \<not> is_current e x \<longrightarrow> dead_xid e x)"
    if x: "deleter e t' = Some x" for x
  proof -
    have x': "deleter e t = Some x"
      using x deleter_final_hints [OF h refl] by (simp split: if_splits)
    have "tbit t' 10 \<longrightarrow> \<not> tbit t' 12 \<and> committed_xid e x"
      using O(5) [OF x'] D(5) [of 12] D(11,12,13) x' by (cases "tbit t 10") auto
    moreover have "\<not> tbit t' 8 \<and> is_current e (t_xmin t') \<and> \<not> is_current e x \<longrightarrow> dead_xid e x"
      using O(6) [OF x'] D(6) [of 8] D(1) by auto
    ultimately show ?thesis by simp
  qed
  ultimately show ?thesis unfolding tuple_ok_def by blast
qed

section \<open>MVCC snapshots\<close>

lemma MVCC_xmin_own:
  assumes "\<not> tbit t 8" "\<not> tbit t 9" "\<not> tbit t 14" "\<not> tbit t 15" "is_current e (t_xmin t)"
    and "\<And>x. deleter e t = Some x \<Longrightarrow> \<not> is_current e x \<Longrightarrow> dead_xid e x"
  shows "\<exists>t'. MVCC_xmin e s b t = Inl (visible_to e s t, t') \<and> final_hints e t t'"
proof (cases "deleter e t")
  case None
  then show ?thesis using assms(1-5) deleter_None [THEN iffD1, OF None]
    by (auto simp: MVCC_xmin_def visible_to_def inserted_for_def deleted_for_def not_less)
next
  case (Some x)
  then show ?thesis using assms(1-5) assms(6) [OF Some] deleter_Some [THEN iffD1, OF Some]
      by (auto simp: MVCC_xmin_def visible_to_def inserted_for_def deleted_for_def dead_xid_def not_less Let_def
        intro!: final_hints_SetHintBits)
qed

lemma MVCC_xmin_other:
  assumes "tuple_ok e t" "tbit t 8 \<or> tbit t 9 \<or> \<not> is_current e (t_xmin t)"
  shows "(\<exists>t'. MVCC_xmin e s b t = Inl (False, t') \<and> \<not> inserted_for e s t)
     \<or> inserted_for e s t \<and> (MVCC_xmin e s b t = Inr t
         \<or> \<not> tbit t 8 \<and> MVCC_xmin e s b t = Inr (SetHintBits e b HEAP_XMIN_COMMITTED (t_xmin t) t))"
  using tuple_okD(1-4) [OF assms(1)] assms(2)
  by (auto simp: MVCC_xmin_def inserted_for_def committed_xid_def dead_xid_def)

lemma MVCC_xmax_spec:
  assumes "tuple_ok e t"
  shows "fst (MVCC_xmax e s b t) = (\<not> deleted_for e s t)"
proof (cases "deleter e t")
  case None
  then show ?thesis using deleter_None [THEN iffD1, OF None] by (auto simp: MVCC_xmax_def deleted_for_def)
next
  case (Some x)
  then show ?thesis using tuple_okD(5) [OF assms Some] deleter_Some [THEN iffD1, OF Some]
    by (auto simp: MVCC_xmax_def deleted_for_def not_less Let_def committed_xid_def)
qed


text \<open>A snapshot not taken later than now: whichever of the tuple's transactions runs now, other
  than the backend's own, tests as in the snapshot.\<close>

definition snapshot_covers :: "vis_env \<Rightarrow> SnapshotData \<Rightarrow> HeapTupleHeader \<Rightarrow> bool" where
  "snapshot_covers e s t \<longleftrightarrow> (\<forall>x. x = t_xmin t \<or> deleter e t = Some x \<longrightarrow>
     is_in_progress e x \<longrightarrow> is_current e x \<or> in_snapshot e x s)"

lemma snapshot_covers_hints:
  "snapshot_covers e s t \<Longrightarrow> final_hints e t t' \<Longrightarrow> snapshot_covers e s t'"
  using final_hintsD(1) [of e t t'] deleter_final_hints [of e t t' e]
  by (auto simp: snapshot_covers_def split: if_splits)

lemma not_in_snapshot_over:
  assumes "snapshot_covers e s t" "x = t_xmin t \<or> deleter e t = Some x" "\<not> is_current e x" "\<not> in_snapshot e x s"
  shows "committed_xid e x = did_commit e x" "dead_xid e x = (\<not> did_commit e x)"
  using assms by (auto simp: snapshot_covers_def committed_xid_def dead_xid_def)

lemma MVCC_xmin_hints:
  assumes "tuple_ok e t" "snapshot_covers e s t" "tbit t 8 \<or> tbit t 9 \<or> \<not> is_current e (t_xmin t)"
  shows "final_hints e t (case MVCC_xmin e s b t of Inl r \<Rightarrow> snd r | Inr t' \<Rightarrow> t')"
proof -
  note m = tuple_okD(1,2) [OF assms(1)]
  consider "tbit t 8 \<or> tbit t 9" | "\<not> tbit t 8" "\<not> tbit t 9" "\<not> is_current e (t_xmin t)" "in_snapshot e (t_xmin t) s"
    | "\<not> tbit t 8" "\<not> tbit t 9" "\<not> is_current e (t_xmin t)" "\<not> in_snapshot e (t_xmin t) s"
    using assms(3) by blast
  then show ?thesis
  proof cases
    case 3
    then show ?thesis using m not_in_snapshot_over [OF assms(2) _ 3(3,4)]
      by (simp add: MVCC_xmin_def final_hints_SetHintBits)
  qed (use m in \<open>auto simp: MVCC_xmin_def\<close>)
qed

lemma MVCC_xmax_hints:
  assumes "tuple_ok e t" "snapshot_covers e s t"
  shows "final_hints e t (snd (MVCC_xmax e s b t))"
proof (cases "deleter e t")
  case None
  then show ?thesis using deleter_None [THEN iffD1, OF None] by (auto simp: MVCC_xmax_def)
next
  case (Some x)
  then show ?thesis using deleter_Some [THEN iffD1, OF Some] not_in_snapshot_over [OF assms(2), of x]
    by (auto simp: MVCC_xmax_def Let_def intro!: final_hints_SetHintBits)
qed

lemma final_hints_trans:
  assumes h: "final_hints e t t'" and h': "final_hints e t' t''"
  shows "final_hints e t t''"
proof -
  note D = final_hintsD [OF h] and E = final_hintsD [OF h']
  have "t'' = t'\<lparr>t_infomask := t_infomask t''\<rparr>" "t' = t\<lparr>t_infomask := t_infomask t'\<rparr>"
    using h h' by (simp_all only: final_hints_def)
  then have "t'' = t\<lparr>t_infomask := t_infomask t''\<rparr>"
    by (metis HeapTupleHeader.fold_congs(6) HeapTupleHeader.surjective HeapTupleHeader.update_convs(6))
  moreover have "tbit t n \<longrightarrow> tbit t'' n" for n using D(6) E(6) by blast
  moreover have "tbit t'' n \<longrightarrow> tbit t n \<or> n = 8 \<or> n = 9 \<or> n = 10 \<or> n = 11" for n using D(5) E(5) by blast
  moreover have "tbit t'' 8 \<and> \<not> tbit t 8 \<longrightarrow> committed_xid e (t_xmin t) \<and> \<not> tbit t'' 9"
    using D(1,7,8) E(6,7,8,9,10) committed_not_dead by metis
  moreover have "tbit t'' 9 \<and> \<not> tbit t 9 \<longrightarrow> dead_xid e (t_xmin t) \<and> \<not> tbit t'' 8"
    using D(1,9,10) E(6,7,8,9,10) committed_not_dead by metis
  moreover have dd: "deleter e t = Some x" if "deleter e t' = Some x" for x
    using deleter_final_hints [OF h refl] that by (simp split: if_splits)
  moreover have "tbit t'' 10 \<and> \<not> tbit t 10 \<longrightarrow> \<not> tbit t 12 \<and> deleter e t = Some (t_xmax t) \<and> committed_xid e (t_xmax t)"
    using D(2,5,11,12,13) E(11,12,13) dd by (cases "tbit t' 10") auto
  moreover have "tbit t'' 11 \<and> \<not> tbit t 11 \<longrightarrow> (\<forall>x. deleter e t = Some x \<longrightarrow> dead_xid e x)"
    using D(14) E(14) deleter_final_hints [OF h refl] by (cases "tbit t' 11") auto
  ultimately show ?thesis unfolding final_hints_def by blast
qed

lemma mvcc_result:
  assumes "tuple_ok e t"
  shows "fst (HeapTupleSatisfiesMVCC e s b t) = visible_to e s t"
proof (cases "tbit t 8 \<or> tbit t 9 \<or> \<not> is_current e (t_xmin t)")
  case True
  from MVCC_xmin_other [OF assms True, of s b] show ?thesis
  proof (elim disjE exE conjE)
    fix t' assume "MVCC_xmin e s b t = Inl (False, t')" "\<not> inserted_for e s t"
    then show ?thesis by (simp add: HeapTupleSatisfiesMVCC_def visible_to_def)
  next
    assume "inserted_for e s t" "MVCC_xmin e s b t = Inr t"
    then show ?thesis by (simp add: HeapTupleSatisfiesMVCC_def visible_to_def MVCC_xmax_spec [OF assms])
  next
    let ?t = "SetHintBits e b HEAP_XMIN_COMMITTED (t_xmin t) t"
    assume a: "inserted_for e s t" "MVCC_xmin e s b t = Inr ?t"
    have "fst (MVCC_xmax e s b ?t) = fst (MVCC_xmax e s b t)" by (auto simp: MVCC_xmax_def Let_def)
    then show ?thesis using a by (simp add: HeapTupleSatisfiesMVCC_def visible_to_def MVCC_xmax_spec [OF assms])
  qed
next
  case False
  then show ?thesis
    using MVCC_xmin_own [of t e s b] tuple_okD(1,2,6) [OF assms] by (auto simp: HeapTupleSatisfiesMVCC_def)
qed

lemma mvcc_hints:
  assumes "tuple_ok e t" "snapshot_covers e s t"
  shows "final_hints e t (snd (HeapTupleSatisfiesMVCC e s b t))"
proof (cases "tbit t 8 \<or> tbit t 9 \<or> \<not> is_current e (t_xmin t)")
  case True
  note h = MVCC_xmin_hints [OF assms True, of b]
  show ?thesis
  proof (cases "MVCC_xmin e s b t")
    case (Inl r)
    then show ?thesis using h by (simp add: HeapTupleSatisfiesMVCC_def)
  next
    case (Inr t')
    then have h': "final_hints e t t'" using h by simp
    then show ?thesis using final_hints_trans [OF h' MVCC_xmax_hints [OF hints_ok [OF h' assms(1)] snapshot_covers_hints [OF assms(2) h'], of b]] Inr
      by (simp add: HeapTupleSatisfiesMVCC_def)
  qed
next
  case False
  then show ?thesis
    using MVCC_xmin_own [of t e s b] tuple_okD(1,2,6) [OF assms(1)] by (auto simp: HeapTupleSatisfiesMVCC_def)
qed


section \<open>The other tests\<close>

definition step_tuple :: "'r step \<Rightarrow> HeapTupleHeader" where
  "step_tuple r = (case r of Inl (_, t) \<Rightarrow> t | Inr t \<Rightarrow> t)"

lemma step_tuple_simps [simp]: "step_tuple (Inl (r, t)) = t" "step_tuple (Inr t) = t"
  by (simp_all add: step_tuple_def)

lemma hints_step:
  assumes "tuple_ok e t" "final_hints e t (step_tuple f)"
    and "\<And>t'. tuple_ok e t' \<Longrightarrow> final_hints e t' (snd (g t'))"
  shows "final_hints e t (snd (case f of Inl r \<Rightarrow> r | Inr t' \<Rightarrow> g t'))"
proof (cases f)
  case (Inl r)
  then show ?thesis using assms(2) by (cases r) simp
next
  case (Inr t')
  then show ?thesis using assms final_hints_trans hints_ok by (metis step_tuple_simps(2) old.sum.simps(6))
qed

definition inserted_now :: "vis_env \<Rightarrow> HeapTupleHeader \<Rightarrow> bool" where
  "inserted_now e t \<longleftrightarrow> HeapTupleHeaderXminFrozen t \<or> is_current e (t_xmin t) \<or> committed_xid e (t_xmin t)"

definition deleted_now :: "vis_env \<Rightarrow> HeapTupleHeader \<Rightarrow> bool" where
  "deleted_now e t \<longleftrightarrow> (case deleter e t of None \<Rightarrow> False | Some x \<Rightarrow> is_current e x \<or> committed_xid e x)"

lemma deleted_now_hint [simp]: "deleted_now e (SetHintBits e' b HEAP_XMIN_COMMITTED x t) = deleted_now e t"
  by (simp add: deleted_now_def)

lemma self_xmin:
  assumes "tuple_ok e t"
  shows "final_hints e t (step_tuple (Self_xmin e b t)) \<and>
    (case Self_xmin e b t of Inl (r, _) \<Rightarrow> r = (inserted_now e t \<and> \<not> deleted_now e t)
     | Inr t' \<Rightarrow> inserted_now e t \<and> (t' = t \<or> t' = SetHintBits e b HEAP_XMIN_COMMITTED (t_xmin t) t))"
proof (cases "tbit t 8 \<or> tbit t 9 \<or> \<not> is_current e (t_xmin t)")
  case True
  then show ?thesis using tuple_okD(1-4) [OF assms]
    by (auto simp: Self_xmin_def inserted_now_def committed_xid_def dead_xid_def intro!: final_hints_SetHintBits)
next
  case False
  then have own: "\<not> tbit t 8" "\<not> tbit t 9" "is_current e (t_xmin t)" by simp_all
  show ?thesis
  proof (cases "deleter e t")
    case None
    then show ?thesis using own tuple_okD(1,2) [OF assms] deleter_None [THEN iffD1, OF None]
      by (auto simp: Self_xmin_def inserted_now_def deleted_now_def)
  next
    case (Some x)
    then show ?thesis using own tuple_okD(1,2) [OF assms] deleter_Some [THEN iffD1, OF Some] tuple_okD(6) [OF assms Some own(1,3)]
      by (auto simp: Self_xmin_def inserted_now_def deleted_now_def committed_xid_def dead_xid_def Let_def intro!: final_hints_SetHintBits)
  qed
qed

lemma self_xmax:
  assumes "tuple_ok e t" "\<And>x. is_current e x \<Longrightarrow> is_in_progress e x"
  shows "fst (Self_xmax e b t) = (\<not> deleted_now e t) \<and> final_hints e t (snd (Self_xmax e b t))"
proof (cases "deleter e t")
  case None
  then show ?thesis using deleter_None [THEN iffD1, OF None] assms(2)
    by (auto simp: Self_xmax_def deleted_now_def intro!: final_hints_SetHintBits)
next
  case (Some x)
  then show ?thesis using deleter_Some [THEN iffD1, OF Some] tuple_okD(5) [OF assms(1) Some]
    by (auto simp: Self_xmax_def deleted_now_def committed_xid_def dead_xid_def Let_def intro!: final_hints_SetHintBits)
qed


lemma self_result:
  assumes "tuple_ok e t" "\<And>x. is_current e x \<Longrightarrow> is_in_progress e x"
  shows "final_hints e t (snd (HeapTupleSatisfiesSelf e b t))
    \<and> fst (HeapTupleSatisfiesSelf e b t) = (inserted_now e t \<and> \<not> deleted_now e t)"
proof
  show "final_hints e t (snd (HeapTupleSatisfiesSelf e b t))"
    unfolding HeapTupleSatisfiesSelf_def
    by (rule hints_step [OF assms(1)]) (simp_all add: self_xmin [OF assms(1)] self_xmax [OF _ assms(2)])
  show "fst (HeapTupleSatisfiesSelf e b t) = (inserted_now e t \<and> \<not> deleted_now e t)"
    using self_xmin [OF assms(1), of b] hints_ok [OF _ assms(1)] self_xmax [OF _ assms(2), of _ b]
    by (auto simp: HeapTupleSatisfiesSelf_def split: sum.splits)
qed

subsection \<open>Dirty\<close>

definition other_running :: "vis_env \<Rightarrow> TransactionId \<Rightarrow> bool" where
  "other_running e x \<longleftrightarrow> is_in_progress e x \<and> \<not> is_current e x"

lemma dirty_xmin:
  assumes "tuple_ok e t"
  shows "final_hints e t (step_tuple (Dirty_xmin e s b t)) \<and>
    (case Dirty_xmin e s b t of
       Inl ((r, s'), _) \<Rightarrow> 
         (if inserted_now e t then r = (\<not> deleted_now e t) \<and> s' = s
              \<and> (\<forall>x. deleter e t = Some x \<longrightarrow> \<not> other_running e x)
          else r = other_running e (t_xmin t) \<and> (if r then snap_xmin s' = t_xmin t \<and> snap_xmax s' = snap_xmax s else s' = s))
     | Inr t' \<Rightarrow> inserted_now e t \<and> (t' = t \<or> t' = SetHintBits e b HEAP_XMIN_COMMITTED (t_xmin t) t))"
proof (cases "tbit t 8 \<or> tbit t 9 \<or> \<not> is_current e (t_xmin t)")
  case True
  then show ?thesis using tuple_okD(1-4) [OF assms]
    by (auto simp: Dirty_xmin_def inserted_now_def committed_xid_def dead_xid_def other_running_def intro!: final_hints_SetHintBits)
next
  case False
  then have own: "\<not> tbit t 8" "\<not> tbit t 9" "is_current e (t_xmin t)" by simp_all
  show ?thesis
  proof (cases "deleter e t")
    case None
    then show ?thesis using own tuple_okD(1,2) [OF assms] deleter_None [THEN iffD1, OF None]
      by (auto simp: Dirty_xmin_def inserted_now_def deleted_now_def)
  next
    case (Some x)
    then show ?thesis using own tuple_okD(1,2) [OF assms] deleter_Some [THEN iffD1, OF Some] tuple_okD(6) [OF assms Some own(1,3)]
      by (auto simp: Dirty_xmin_def inserted_now_def deleted_now_def committed_xid_def dead_xid_def other_running_def Let_def intro!: final_hints_SetHintBits)
  qed
qed

lemma dirty_xmax:
  assumes "tuple_ok e t" "\<And>x. is_current e x \<Longrightarrow> is_in_progress e x"
  shows "final_hints e t (snd (Dirty_xmax e s b t)) \<and> fst (Dirty_xmax e s b t) = (\<not> deleted_now e t,
     case deleter e t of None \<Rightarrow> s | Some x \<Rightarrow> if other_running e x then s\<lparr>snap_xmax := x\<rparr> else s)"
proof (cases "deleter e t")
  case None
  then show ?thesis using deleter_None [THEN iffD1, OF None] assms(2)
    by (auto simp: Dirty_xmax_def deleted_now_def intro!: final_hints_SetHintBits)
next
  case (Some x)
  then show ?thesis using deleter_Some [THEN iffD1, OF Some] tuple_okD(5) [OF assms(1) Some]
    by (auto simp: Dirty_xmax_def deleted_now_def committed_xid_def dead_xid_def other_running_def Let_def intro!: final_hints_SetHintBits)
qed


lemma dirty_result:
  assumes "tuple_ok e t" "\<And>x. is_current e x \<Longrightarrow> is_in_progress e x"
    and r: "HeapTupleSatisfiesDirty e s b t = ((r, s'), t')"
  shows "if inserted_now e t
     then r = (\<not> deleted_now e t) \<and> snap_xmin s' = InvalidTransactionId
        \<and> snap_xmax s' = (case deleter e t of None \<Rightarrow> InvalidTransactionId
             | Some x \<Rightarrow> if other_running e x then x else InvalidTransactionId)
     else r = other_running e (t_xmin t) \<and> snap_xmin s' = (if r then t_xmin t else InvalidTransactionId)
        \<and> snap_xmax s' = InvalidTransactionId"
proof -
  let ?s = "s\<lparr>snap_xmin := InvalidTransactionId, snap_xmax := InvalidTransactionId, speculativeToken := 0\<rparr>"
  note x = dirty_xmin [OF assms(1), of ?s b]
  show ?thesis
  proof (cases "Dirty_xmin e ?s b t")
    case (Inl q)
    then show ?thesis using x r
      by (cases q) (auto simp: HeapTupleSatisfiesDirty_def split: option.splits if_splits)
  next
    case (Inr u)
    then have u: "tuple_ok e u" "inserted_now e t" "deleted_now e u = deleted_now e t" "deleter e u = deleter e t"
      using x hints_ok [OF _ assms(1)] by auto
    show ?thesis using dirty_xmax [OF u(1) assms(2), of ?s b] r Inr u(2-4)
      by (auto simp: HeapTupleSatisfiesDirty_def split: option.splits)
  qed
qed

lemma dirty_hints:
  assumes "tuple_ok e t" "\<And>x. is_current e x \<Longrightarrow> is_in_progress e x"
  shows "final_hints e t (snd (HeapTupleSatisfiesDirty e s b t))"
  unfolding HeapTupleSatisfiesDirty_def Let_def
  by (rule hints_step [OF assms(1)]) (simp_all add: dirty_xmin [OF assms(1)] dirty_xmax [OF _ assms(2)])

subsection \<open>Vacuum\<close>

definition vacuum_verdict :: "vis_env \<Rightarrow> HeapTupleHeader \<Rightarrow> HTSV_Result \<times> TransactionId" where
  "vacuum_verdict e t =
     (if HeapTupleHeaderXminFrozen t \<or> committed_xid e (t_xmin t) then
        (case deleter e t of
           None \<Rightarrow> (HEAPTUPLE_LIVE, InvalidTransactionId)
         | Some x \<Rightarrow> if is_in_progress e x then (HEAPTUPLE_DELETE_IN_PROGRESS, InvalidTransactionId)
                     else if did_commit e x then (HEAPTUPLE_RECENTLY_DEAD, x)
                     else (HEAPTUPLE_LIVE, InvalidTransactionId))
      else if is_in_progress e (t_xmin t) then
        (if is_current e (t_xmin t) \<and> (\<exists>x. deleter e t = Some x \<and> is_current e x)
         then (HEAPTUPLE_DELETE_IN_PROGRESS, InvalidTransactionId)
         else (HEAPTUPLE_INSERT_IN_PROGRESS, InvalidTransactionId))
      else (HEAPTUPLE_DEAD, InvalidTransactionId))"

lemma vacuum_xmin:
  assumes "tuple_ok e t" "\<And>x. is_current e x \<Longrightarrow> is_in_progress e x" "dead_xid e InvalidTransactionId"
    "members e InvalidTransactionId False = []"
  shows "final_hints e t (step_tuple (Vacuum_xmin e b t)) \<and>
    (case Vacuum_xmin e b t of
       Inl (r, _) \<Rightarrow> r = vacuum_verdict e t
     | Inr t' \<Rightarrow> (HeapTupleHeaderXminFrozen t \<or> committed_xid e (t_xmin t)) \<and> (t' = t \<or> t' = SetHintBits e b HEAP_XMIN_COMMITTED (t_xmin t) t))"
proof (cases "tbit t 8 \<or> tbit t 9 \<or> \<not> is_current e (t_xmin t)")
  case True
  then show ?thesis using tuple_okD(1-4) [OF assms(1)]
    by (auto simp: Vacuum_xmin_def vacuum_verdict_def committed_xid_def dead_xid_def intro!: final_hints_SetHintBits)
next
  case False
  then have own: "\<not> tbit t 8" "\<not> tbit t 9" "is_current e (t_xmin t)" by simp_all
  show ?thesis
  proof (cases "deleter e t")
    case None
    then show ?thesis using own tuple_okD(1,2) [OF assms(1)] assms(2) [OF own(3)] deleter_None [THEN iffD1, OF None]
      by (auto simp: Vacuum_xmin_def vacuum_verdict_def committed_xid_def)
  next
    case (Some x)
    then have l: "\<not> tbit t 7" using deleter_Some [THEN iffD1, OF Some] by (simp add: header_flags(1))
    have z: "t_xmax t = InvalidTransactionId \<Longrightarrow> x = InvalidTransactionId"
      using deleter_Some [THEN iffD1, OF Some] assms(4) by (auto simp: HeapTupleGetUpdateXid_def MultiXactIdGetUpdateXid_def)
    show ?thesis using Some l z own tuple_okD(1,2) [OF assms(1)] assms(2) [OF own(3)] assms(3) deleter_Some [THEN iffD1, OF Some]
      by (auto simp: Vacuum_xmin_def vacuum_verdict_def committed_xid_def dead_xid_def HeapTupleHeaderIsOnlyLocked_def
        HeapTupleHeaderGetUpdateXid_def TransactionIdIsValid_def Let_def)
  qed
qed

lemma vacuum_xmax:
  assumes "tuple_ok e t" "\<And>x. is_current e x \<Longrightarrow> is_in_progress e x"
    "HeapTupleHeaderXminFrozen t \<or> committed_xid e (t_xmin t)"
  shows "final_hints e t (snd (Vacuum_xmax e b t)) \<and> fst (Vacuum_xmax e b t) = vacuum_verdict e t"
proof (cases "deleter e t")
  case None
  then show ?thesis using deleter_None [THEN iffD1, OF None] assms(3)
    by (auto simp: Vacuum_xmax_def vacuum_verdict_def intro!: final_hints_SetHintBits)
next
  case (Some x)
  then show ?thesis using deleter_Some [THEN iffD1, OF Some] tuple_okD(5) [OF assms(1) Some] assms(2) [of x] assms(3)
    by (auto simp: Vacuum_xmax_def vacuum_verdict_def committed_xid_def dead_xid_def Let_def intro!: final_hints_SetHintBits)
qed


lemma vacuum_hints:
  assumes "tuple_ok e t" "\<And>x. is_current e x \<Longrightarrow> is_in_progress e x" "dead_xid e InvalidTransactionId"
    "members e InvalidTransactionId False = []"
  shows "final_hints e t (snd (HeapTupleSatisfiesVacuumHorizon e b t))"
    "fst (HeapTupleSatisfiesVacuumHorizon e b t) = vacuum_verdict e t"
proof -
  note x = vacuum_xmin [OF assms, of b]
  have "final_hints e t (snd (HeapTupleSatisfiesVacuumHorizon e b t)) \<and> fst (HeapTupleSatisfiesVacuumHorizon e b t) = vacuum_verdict e t"
  proof (cases "Vacuum_xmin e b t")
    case (Inl q)
    then show ?thesis using x by (cases q) (simp add: HeapTupleSatisfiesVacuumHorizon_def)
  next
    case (Inr u)
    have h: "final_hints e t u" and u: "u = t \<or> u = SetHintBits e b HEAP_XMIN_COMMITTED (t_xmin t) t"
        and c': "HeapTupleHeaderXminFrozen t \<or> committed_xid e (t_xmin t)"
      using x Inr by simp_all
    have f: "HeapTupleHeaderXminFrozen u = HeapTupleHeaderXminFrozen t" by (rule hints_frozen [OF h])
    have f': "t_xmin u = t_xmin t" "deleter e u = deleter e t" using u by auto
    have d: "vacuum_verdict e u = vacuum_verdict e t" unfolding vacuum_verdict_def f f' ..
    have c: "HeapTupleHeaderXminFrozen u \<or> committed_xid e (t_xmin u)" using c' unfolding f f' .
    note y = vacuum_xmax [OF hints_ok [OF h assms(1)] assms(2) c, of b]
    show ?thesis using y Inr d final_hints_trans [OF h] by (simp add: HeapTupleSatisfiesVacuumHorizon_def)
  qed
  then show "final_hints e t (snd (HeapTupleSatisfiesVacuumHorizon e b t))"
    "fst (HeapTupleSatisfiesVacuumHorizon e b t) = vacuum_verdict e t" by blast+
qed

lemma dead_not_visible:
  assumes "tuple_ok e t" "dead_xid e (t_xmin t)" "\<not> HeapTupleHeaderXminFrozen t" "later e e'"
  shows "\<not> visible_to e' s t"
  using assms by (auto simp: visible_to_def inserted_for_def later_def dead_xid_def)

lemma vacuum_dead_invisible:
  assumes "tuple_ok e t" "\<And>x. is_current e x \<Longrightarrow> is_in_progress e x" "dead_xid e InvalidTransactionId"
    "members e InvalidTransactionId False = []"
    and dead: "fst (HeapTupleSatisfiesVacuum e OldestXmin b t) = HEAPTUPLE_DEAD"
    and l: "later e e'" and s: "\<And>x. TransactionIdPrecedes x OldestXmin \<Longrightarrow> deleter e t = Some x \<Longrightarrow> \<not> in_snapshot e' x s"
  shows "\<not> visible_to e' s t"
proof -
  let ?h = "HeapTupleSatisfiesVacuumHorizon e b t"
  have v: "fst ?h = vacuum_verdict e t" by (rule vacuum_hints(2) [OF assms(1-4)])
  then obtain v d u where h: "?h = ((v, d), u)" "vacuum_verdict e t = (v, d)" by (metis prod.collapse)
  from dead h have "v = HEAPTUPLE_DEAD \<or> v = HEAPTUPLE_RECENTLY_DEAD \<and> TransactionIdPrecedes d OldestXmin"
    by (auto simp: HeapTupleSatisfiesVacuum_def split: if_splits)
  then show ?thesis
  proof
    assume "v = HEAPTUPLE_DEAD"
    then have "dead_xid e (t_xmin t)" "\<not> HeapTupleHeaderXminFrozen t"
      using h(2) assms(2) [of "t_xmin t"]
      by (auto simp: vacuum_verdict_def committed_xid_def dead_xid_def split: option.splits if_splits)
    then show ?thesis using dead_not_visible [OF assms(1)] l by blast
  next
    assume a: "v = HEAPTUPLE_RECENTLY_DEAD \<and> TransactionIdPrecedes d OldestXmin"
    then have d: "deleter e t = Some d" "committed_xid e d"
      using h(2) assms(2) [of d] by (auto simp: vacuum_verdict_def committed_xid_def split: option.splits if_splits)
    have "deleter e' t = Some d" using d(1) l deleter_members [of e' e t] by (simp add: later_def)
    moreover have "committed_xid e' d" using d(2) l by (simp add: later_def)
    ultimately have "deleted_for e' s t" using a s d(1) by (simp add: deleted_for_def committed_xid_def)
    then show ?thesis by (simp add: visible_to_def)
  qed
qed

subsection \<open>Updates\<close>

definition inserted_before :: "vis_env \<Rightarrow> CommandId \<Rightarrow> HeapTupleHeader \<Rightarrow> bool" where
  "inserted_before e cid t \<longleftrightarrow> HeapTupleHeaderXminFrozen t
     \<or> (if is_current e (t_xmin t) then HeapTupleHeaderGetCmin (combo e) t < cid else committed_xid e (t_xmin t))"

definition xmax_running :: "vis_env \<Rightarrow> HeapTupleHeader \<Rightarrow> bool" where
  "xmax_running e t \<longleftrightarrow> (if tbit t 12 then \<exists>o'. \<exists>m \<in> set (members e (t_xmax t) o'). is_in_progress e (mxm_xid m)
     else is_in_progress e (t_xmax t))"

definition update_verdict :: "vis_env \<Rightarrow> ItemPointerData \<Rightarrow> CommandId \<Rightarrow> HeapTupleHeader \<Rightarrow> TM_Result \<Rightarrow> bool" where
  "update_verdict e t_self cid t r = (case r of
       TM_Ok \<Rightarrow> inserted_before e cid t \<and> (\<forall>x. deleter e t = Some x \<longrightarrow> dead_xid e x)
     | TM_Invisible \<Rightarrow> \<not> inserted_before e cid t
         \<or> (\<exists>x. deleter e t = Some x \<and> is_current e x \<and> HeapTupleHeaderGetCmax (combo e) t < cid)
     | TM_SelfModified \<Rightarrow> inserted_before e cid t
         \<and> (\<exists>x. deleter e t = Some x \<and> is_current e x \<and> cid \<le> HeapTupleHeaderGetCmax (combo e) t)
     | TM_Updated \<Rightarrow> inserted_before e cid t \<and> (\<exists>x. deleter e t = Some x \<and> committed_xid e x) \<and> t_ctid t \<noteq> t_self
     | TM_Deleted \<Rightarrow> inserted_before e cid t \<and> (\<exists>x. deleter e t = Some x \<and> committed_xid e x) \<and> t_ctid t = t_self
     | TM_BeingModified \<Rightarrow> inserted_before e cid t \<and> xmax_running e t
     | TM_WouldBlock \<Rightarrow> False)"

lemma running_multi:
  assumes "\<And>x. is_current e x \<Longrightarrow> is_in_progress e x"
  shows "MultiXactIdIsRunning e m b \<longleftrightarrow> (\<exists>x \<in> set (members e m b). is_in_progress e (mxm_xid x))"
  using assms by (auto simp: MultiXactIdIsRunning_def Let_def)

lemma first_update_member: "first_update ms \<noteq> InvalidTransactionId \<Longrightarrow> \<exists>m \<in> set ms. mxm_xid m = first_update ms"
  by (induction ms) auto

lemma update_xid_running:
  assumes "\<And>x. is_current e x \<Longrightarrow> is_in_progress e x" "dead_xid e InvalidTransactionId"
    "\<not> MultiXactIdIsRunning e (t_xmax t) False"
  shows "\<not> is_in_progress e (HeapTupleGetUpdateXid e t)"
proof (cases "HeapTupleGetUpdateXid e t = InvalidTransactionId")
  case True
  then show ?thesis using assms(2) by (simp add: dead_xid_def)
next
  case False
  then obtain m where "m \<in> set (members e (t_xmax t) False)" "mxm_xid m = HeapTupleGetUpdateXid e t"
    using first_update_member by (auto simp: HeapTupleGetUpdateXid_def MultiXactIdGetUpdateXid_def)
  then show ?thesis using assms(3) running_multi [OF assms(1)] by metis
qed

lemma ItemPointerEquals_iff: "ItemPointerEquals p q \<longleftrightarrow> p = q"
  by (cases p; cases q) (simp add: ItemPointerEquals_def)


lemma update_verdict_simps [simp]:
  "update_verdict e t_self cid t TM_Ok \<longleftrightarrow> inserted_before e cid t \<and> (\<forall>x. deleter e t = Some x \<longrightarrow> dead_xid e x)"
  "update_verdict e t_self cid t TM_Invisible \<longleftrightarrow> \<not> inserted_before e cid t
     \<or> (\<exists>x. deleter e t = Some x \<and> is_current e x \<and> HeapTupleHeaderGetCmax (combo e) t < cid)"
  "update_verdict e t_self cid t TM_SelfModified \<longleftrightarrow> inserted_before e cid t
     \<and> (\<exists>x. deleter e t = Some x \<and> is_current e x \<and> cid \<le> HeapTupleHeaderGetCmax (combo e) t)"
  "update_verdict e t_self cid t TM_BeingModified \<longleftrightarrow> inserted_before e cid t \<and> xmax_running e t"
  by (simp_all add: update_verdict_def)

lemma update_xmin:
  assumes "tuple_ok e t" "\<And>x. is_current e x \<Longrightarrow> is_in_progress e x"
  shows "final_hints e t (step_tuple (Update_xmin e cid b t)) \<and>
    (case Update_xmin e cid b t of
       Inl (r, _) \<Rightarrow> update_verdict e t_self cid t r
     | Inr t' \<Rightarrow> inserted_before e cid t \<and> (t' = t \<or> t' = SetHintBits e b HEAP_XMIN_COMMITTED (t_xmin t) t))"
proof (cases "tbit t 8 \<or> tbit t 9 \<or> \<not> is_current e (t_xmin t)")
  case True
  then consider "tbit t 8" | "\<not> tbit t 8" "tbit t 9" | "\<not> tbit t 8" "\<not> tbit t 9" "\<not> is_current e (t_xmin t)" by blast
  then show ?thesis
    using tuple_okD(1-4) [OF assms(1)]
    by cases (auto simp: Update_xmin_def inserted_before_def committed_xid_def dead_xid_def intro!: final_hints_SetHintBits)
next
  case False
  then have own: "\<not> tbit t 8" "\<not> tbit t 9" "is_current e (t_xmin t)" by simp_all
  have ib: "inserted_before e cid t \<longleftrightarrow> HeapTupleHeaderGetCmin (combo e) t < cid"
    using own by (simp add: inserted_before_def)
  show ?thesis
  proof (cases "deleter e t")
    case None
    note d = deleter_None [THEN iffD1, OF None]
    have m: "Update_xmin e cid b t = Inl (TM_BeingModified, t) \<Longrightarrow> xmax_running e t"
      using own tuple_okD(1,2) [OF assms(1)]
      by (auto simp: Update_xmin_def xmax_running_def running_multi [OF assms(2)] Let_def split: if_splits)
    show ?thesis 
    proof (cases "cid \<le> HeapTupleHeaderGetCmin (combo e) t")
      case True
      then show ?thesis using own ib tuple_okD(1,2) [OF assms(1)] by (simp add: Update_xmin_def not_less [symmetric])
    next
      case False
      have "Update_xmin e cid b t = Inl (TM_Ok, t) \<or> Update_xmin e cid b t = Inl (TM_BeingModified, t)"
        using False d own tuple_okD(1,2) [OF assms(1)]
        by (cases "tbit t 11") (simp_all add: Update_xmin_def Let_def)
      then show ?thesis using m False ib None by (elim disjE) simp_all
    qed
  next
    case (Some x)
    then have d: "\<not> tbit t 11" "\<not> HEAP_XMAX_IS_LOCKED_ONLY (t_infomask t)"
      "x = (if tbit t 12 then HeapTupleGetUpdateXid e t else t_xmax t)"
      using deleter_Some [of e t x] by simp_all
    note f = own ib tuple_okD(1,2) [OF assms(1)] d(1,2)
    show ?thesis
    proof (cases "is_current e x")
      case True
      then show ?thesis using f Some d(3)
        by (cases "tbit t 12"; cases "cid \<le> HeapTupleHeaderGetCmax (combo e) t"; cases "cid \<le> HeapTupleHeaderGetCmin (combo e) t")
          (simp_all add: Update_xmin_def Let_def not_less [symmetric])
    next
      case False
      have h: "final_hints e t (SetHintBits e b HEAP_XMAX_INVALID InvalidTransactionId t)"
        using tuple_okD(6) [OF assms(1) _ own(1,3)] False Some by (intro final_hints_SetHintBits) simp
      show ?thesis using False f Some d(3) h tuple_okD(6) [OF assms(1) Some own(1,3) False]
        by (cases "tbit t 12"; cases "cid \<le> HeapTupleHeaderGetCmin (combo e) t")
          (auto simp: Update_xmin_def Let_def not_less [symmetric] xmax_running_def running_multi [OF assms(2)])
    qed
  qed
qed

lemma updated_or_deleted_verdict:
  assumes "inserted_before e cid t" "deleter e t = Some x" "committed_xid e x" "t_ctid u = t_ctid t"
  shows "update_verdict e t_self cid t (updated_or_deleted t_self u)"
  using assms by (auto simp: update_verdict_def updated_or_deleted_def ItemPointerEquals_iff)

lemma update_multi:
  assumes "tuple_ok e t" "\<And>x. is_current e x \<Longrightarrow> is_in_progress e x" "dead_xid e InvalidTransactionId"
    "inserted_before e cid t" "tbit t 12" "\<not> tbit t 11" "\<not> tbit t 10"
  shows "final_hints e t (snd (Update_multi e t_self cid b t)) \<and> update_verdict e t_self cid t (fst (Update_multi e t_self cid b t))"
proof (cases "deleter e t")
  case None
  then show ?thesis using assms(4-7) deleter_None [THEN iffD1, OF None]
    by (auto simp: Update_multi_def update_verdict_def xmax_running_def running_multi [OF assms(2)] intro!: final_hints_SetHintBits)
next
  case (Some x)
  then have x: "x = HeapTupleGetUpdateXid e t" "\<not> HEAP_XMAX_IS_LOCKED_ONLY (t_infomask t)" "\<not> bit (t_infomask t) 7"
    using deleter_Some [THEN iffD1, OF Some] assms(5) by (simp_all add: header_flags(1))
  show ?thesis
  proof (cases "MultiXactIdIsRunning e (t_xmax t) False")
    case True
    then have r: "xmax_running e t" using assms(5) running_multi [OF assms(2)] by (auto simp: xmax_running_def)
    show ?thesis using True r x Some assms(4-7)
      by (auto simp: Update_multi_def update_verdict_def Let_def not_le)
  next
    case False
    then have "\<not> is_in_progress e x" "\<not> is_current e x" using update_xid_running [OF assms(2,3) False] assms(2) x(1) by auto
    moreover have "did_commit e x \<Longrightarrow> update_verdict e t_self cid t (updated_or_deleted t_self t)"
      using calculation by (intro updated_or_deleted_verdict [OF assms(4) Some]) (simp_all add: committed_xid_def)
    ultimately show ?thesis using False x Some assms(4-7)
      by (auto simp: Update_multi_def update_verdict_def Let_def dead_xid_def intro!: final_hints_SetHintBits)
  qed
qed

lemma update_xmax:
  assumes "tuple_ok e t" "\<And>x. is_current e x \<Longrightarrow> is_in_progress e x" "dead_xid e InvalidTransactionId"
    "inserted_before e cid t"
  shows "final_hints e t (snd (Update_xmax e t_self cid b t)) \<and> update_verdict e t_self cid t (fst (Update_xmax e t_self cid b t))"
proof (cases "\<not> tbit t 11 \<and> \<not> tbit t 10 \<and> tbit t 12")
  case True
  then show ?thesis using update_multi [OF assms, of t_self b] by (simp add: Update_xmax_def)
next
  case False
  show ?thesis
  proof (cases "deleter e t")
    case None
    then show ?thesis using assms(4) False deleter_None [THEN iffD1, OF None] assms(2) [of "t_xmax t"]
      by (auto simp: Update_xmax_def update_verdict_def xmax_running_def intro!: final_hints_SetHintBits)
  next
    case (Some x)
    note v = updated_or_deleted_verdict [OF assms(4) Some]
    show ?thesis using v Some assms(4) False deleter_Some [THEN iffD1, OF Some] tuple_okD(5) [OF assms(1) Some]
      by (auto simp: Update_xmax_def update_verdict_def xmax_running_def committed_xid_def dead_xid_def Let_def not_le intro!: final_hints_SetHintBits)
  qed
qed

lemma update_result:
  assumes "tuple_ok e t" "\<And>x. is_current e x \<Longrightarrow> is_in_progress e x" "dead_xid e InvalidTransactionId"
  shows "final_hints e t (snd (HeapTupleSatisfiesUpdate e t_self cid b t))
    \<and> update_verdict e t_self cid t (fst (HeapTupleSatisfiesUpdate e t_self cid b t))"
proof (cases "Update_xmin e cid b t")
  case (Inl q)
  then show ?thesis using update_xmin [OF assms(1,2), of cid b t_self]
    by (cases q) (simp add: HeapTupleSatisfiesUpdate_def)
next
  case (Inr u)
  then have h: "final_hints e t u" and i: "inserted_before e cid t" and u: "u = t \<or> u = SetHintBits e b HEAP_XMIN_COMMITTED (t_xmin t) t"
    using update_xmin [OF assms(1,2), of cid b t_self] by simp_all
  have f: "HeapTupleHeaderXminFrozen u = HeapTupleHeaderXminFrozen t" by (rule hints_frozen [OF h])
  have f': "t_xmin u = t_xmin t" "t_xmax u = t_xmax t" "deleter e u = deleter e t" "t_ctid u = t_ctid t" "tbit u 12 = tbit t 12"
    using u by auto
  have i': "inserted_before e cid u" using i unfolding inserted_before_def f f' hints_cids [OF h] .
  have v: "update_verdict e t_self cid u = update_verdict e t_self cid t"
    unfolding update_verdict_def inserted_before_def xmax_running_def f f' hints_cids [OF h] ..
  show ?thesis using update_xmax [OF hints_ok [OF h assms(1)] assms(2,3) i', of t_self b] Inr v final_hints_trans [OF h]
    by (simp add: HeapTupleSatisfiesUpdate_def)
qed


section \<open>What a test may rely on\<close>

text \<open>The two laws of the environment the tests depend on, beside final hint bits.\<close>

locale visibility_env =
  fixes E :: "'s \<Rightarrow> vis_env" and inv :: "'s \<Rightarrow> bool"
  assumes current_in_progress: "inv st \<Longrightarrow> is_current (E st) x \<Longrightarrow> is_in_progress (E st) x"
    and invalid_over: "inv st \<Longrightarrow> dead_xid (E st) InvalidTransactionId"
    and invalid_multi: "inv st \<Longrightarrow> members (E st) InvalidTransactionId b = []"
begin


lemma tests_final:
  assumes "inv st" "tuple_ok (E st) t"
  shows "final_hints (E st) t (snd (HeapTupleSatisfiesSelf (E st) b t))"
    "final_hints (E st) t (snd (HeapTupleSatisfiesDirty (E st) s b t))"
    "final_hints (E st) t (snd (HeapTupleSatisfiesUpdate (E st) t_self cid b t))"
    "final_hints (E st) t (snd (HeapTupleSatisfiesVacuumHorizon (E st) b t))"
  using self_result [OF assms(2) current_in_progress [OF assms(1)]] dirty_hints [OF assms(2) current_in_progress [OF assms(1)]]
    update_result [OF assms(2) current_in_progress [OF assms(1)] invalid_over [OF assms(1)]]
    vacuum_hints(1) [OF assms(2) current_in_progress [OF assms(1)] invalid_over [OF assms(1)] invalid_multi [OF assms(1)]]
  by blast+

lemma tests_transparent:
  assumes "inv st" "tuple_ok (E st) t" "snapshot_covers (E st) s t" "later (E st) e'"
    and "t' \<in> {snd (HeapTupleSatisfiesMVCC (E st) s b t), snd (HeapTupleSatisfiesSelf (E st) b t),
      snd (HeapTupleSatisfiesDirty (E st) s b t), snd (HeapTupleSatisfiesUpdate (E st) t_self cid b t),
      snd (HeapTupleSatisfiesVacuumHorizon (E st) b t)}"
  shows "tuple_ok (E st) t' \<and> (\<forall>s'. visible_to e' s' t' = visible_to e' s' t)"
proof -
  have "final_hints (E st) t t'" using assms(5) tests_final [OF assms(1,2)] mvcc_hints [OF assms(2,3)] by blast
  then show ?thesis using hints_ok assms(2) hints_transparent assms(4) by blast
qed

lemma self_live:
  assumes "inv st" "tuple_ok (E st) t"
  shows "fst (HeapTupleSatisfiesSelf (E st) b t) = (inserted_now (E st) t \<and> \<not> deleted_now (E st) t)"
  using self_result [OF assms(2) current_in_progress [OF assms(1)]] by blast

lemma dirty_waits:
  assumes "inv st" "tuple_ok (E st) t" "HeapTupleSatisfiesDirty (E st) s b t = ((r, s'), t')"
  shows "if inserted_now (E st) t
     then r = (\<not> deleted_now (E st) t) \<and> snap_xmin s' = InvalidTransactionId
        \<and> snap_xmax s' = (case deleter (E st) t of None \<Rightarrow> InvalidTransactionId
             | Some x \<Rightarrow> if other_running (E st) x then x else InvalidTransactionId)
     else r = other_running (E st) (t_xmin t) \<and> snap_xmin s' = (if r then t_xmin t else InvalidTransactionId)
        \<and> snap_xmax s' = InvalidTransactionId"
  by (rule dirty_result [OF assms(2) current_in_progress [OF assms(1)] assms(3)])

lemma update_classified:
  assumes "inv st" "tuple_ok (E st) t"
  shows "update_verdict (E st) t_self cid t (fst (HeapTupleSatisfiesUpdate (E st) t_self cid b t))"
  using update_result [OF assms(2) current_in_progress [OF assms(1)] invalid_over [OF assms(1)]] by blast

lemma vacuum_classified:
  assumes "inv st" "tuple_ok (E st) t"
  shows "fst (HeapTupleSatisfiesVacuumHorizon (E st) b t) = vacuum_verdict (E st) t"
  by (rule vacuum_hints(2) [OF assms(2) current_in_progress [OF assms(1)] invalid_over [OF assms(1)] invalid_multi [OF assms(1)]])

lemma vacuum_safe:
  assumes "inv st" "tuple_ok (E st) t"
    and "fst (HeapTupleSatisfiesVacuum (E st) OldestXmin b t) = HEAPTUPLE_DEAD" "later (E st) e'"
    and "\<And>x. TransactionIdPrecedes x OldestXmin \<Longrightarrow> deleter (E st) t = Some x \<Longrightarrow> \<not> in_snapshot e' x s"
  shows "\<not> visible_to e' s t"
  by (rule vacuum_dead_invisible [OF assms(2) current_in_progress [OF assms(1)] invalid_over [OF assms(1)]
        invalid_multi [OF assms(1)] assms(3-5)])

end

section \<open>One backend's environment\<close>

text \<open>The tests as a backend runs them: its own transactions, the process array and log it
  consults, the commit log, and its multixacts.  An error or a wait in one of the queries, which
  would abandon or delay the test, counts as a negative answer; \<open>backend_ok\<close> excludes what the
  laws below depend on.\<close>

record backend =
  bk_procs :: proc_array
  bk_vars :: snap_vars
  bk_own :: xact_ids
  bk_log :: xact_log
  bk_cache :: xid_cache
  bk_combo :: combo_state
  bk_multis :: MultiXactStateData
  bk_mx :: mx_backend
  bk_permanent :: "Buffer \<Rightarrow> bool"
  bk_lsn :: "Buffer \<Rightarrow> XLogRecPtr"
  bk_needs_flush :: "XLogRecPtr \<Rightarrow> bool"
  bk_removable :: "GlobalVisState \<Rightarrow> TransactionId \<Rightarrow> bool"
  bk_decoding :: "HeapTupleHeader \<Rightarrow> (CommandId \<times> CommandId) option"

definition env_of :: "backend \<Rightarrow> vis_env" where
  "env_of s = \<lparr>is_current = TransactionIdIsCurrentTransactionId (bk_own s),
     is_in_progress = (\<lambda>x. case TransactionIdIsInProgress (bk_procs s) (bk_vars s) (bk_own s) (bk_log s) (bk_cache s) x of
         Some (Inr r, _) \<Rightarrow> r | _ \<Rightarrow> False),
     did_commit = (\<lambda>x. case TransactionIdDidCommit (bk_log s) x (bk_cache s) of Some (r, _) \<Rightarrow> r | None \<Rightarrow> False),
     in_snapshot = (\<lambda>x sn. XidInMVCCSnapshot (bk_log s) x sn = Some (Inr True)),
     commit_lsn = (\<lambda>x. TransactionIdGetCommitLSN (xl_clog (bk_log s)) (bk_cache s) x),
     combo = bk_combo s,
     members = (\<lambda>m onlyLock. case GetMultiXactIdMembers m False onlyLock (bk_multis s) (bk_mx s) of
         Some (Inr (Some ms), _) \<Rightarrow> ms | _ \<Rightarrow> []),
     buffer_permanent = bk_permanent s, buffer_lsn = bk_lsn s, needs_flush = bk_needs_flush s,
     is_removable = bk_removable s, decoding_cids = bk_decoding s\<rparr>"

text \<open>The backend's own xids are neither older than \<open>RecentXmin\<close> nor recorded as finished.\<close>

definition backend_ok :: "backend \<Rightarrow> bool" where
  "backend_ok s \<longleftrightarrow> TransactionIdIsNormal (RecentXmin (bk_vars s))
     \<and> (\<forall>x. TransactionIdIsCurrentTransactionId (bk_own s) x \<longrightarrow>
          \<not> TransactionIdPrecedes x (RecentXmin (bk_vars s)) \<and> x \<noteq> cachedFetchXid (bk_cache s))
     \<and> (cachedFetchXid (bk_cache s) = InvalidTransactionId \<longrightarrow> cachedFetchXidStatus (bk_cache s) = TRANSACTION_STATUS_IN_PROGRESS)"

lemma env_of_simps [simp]:
  "is_current (env_of s) = TransactionIdIsCurrentTransactionId (bk_own s)"
  "combo (env_of s) = bk_combo s"
  by (simp_all add: env_of_def)

lemma invalid_not_committed:
  assumes "backend_ok s"
  shows "\<not> did_commit (env_of s) InvalidTransactionId"
proof -
  have "TransactionIdDidCommit (bk_log s) InvalidTransactionId (bk_cache s) = Some (False, bk_cache s)"
    using assms by (subst TransactionIdDidCommit.simps)
      (auto simp: TransactionLogFetch_def backend_ok_def TransactionIdIsNormal_def)
  then show ?thesis by (simp add: env_of_def)
qed

interpretation backend: visibility_env env_of backend_ok
proof (unfold_locales, goal_cases)
  case (1 s x)
  then have "\<not> TransactionIdPrecedes x (RecentXmin (bk_vars s))" "\<not> TransactionIdIsKnownCompleted (bk_cache s) x"
    by (simp_all add: backend_ok_def TransactionIdIsKnownCompleted_def)
  then show ?case using 1 by (simp add: env_of_def TransactionIdIsInProgress_def)
next
  case (2 s)
  then have "TransactionIdPrecedes InvalidTransactionId (RecentXmin (bk_vars s))"
    by (auto simp: backend_ok_def TransactionIdPrecedes_def TransactionIdIsNormal_def word_le_def word_less_def)
  then have "\<not> is_in_progress (env_of s) InvalidTransactionId"
    by (simp add: env_of_def TransactionIdIsInProgress_def)
  then show ?case using invalid_not_committed [OF 2]
    by (simp add: dead_xid_def TransactionIdIsCurrentTransactionId_def TransactionIdIsNormal_def)
next
  case (3 s b)
  then show ?case by (simp add: env_of_def GetMultiXactIdMembers_def MultiXactIdIsValid_def)
qed


lemma fresh_snapshot_covers:
  assumes "procs_ok b (bk_log s) (bk_procs s)" "\<not> pa_recovery (bk_procs s)"
    "mypgxactoff (bk_vars s) < length (pa_procs (bk_procs s))"
    and "snapXactCompletionCount s0 = 0 \<or> snapXactCompletionCount s0 \<noteq> xactCompletionCount (bk_procs s)"
    and "GetSnapshotData (bk_procs s) (bk_vars s) s0 = (sn, v')"
    and "\<forall>p \<in> set (pa_procs (bk_procs s)). px_xid p \<noteq> InvalidTransactionId \<longrightarrow>
           px_statusFlags p AND (PROC_IN_LOGICAL_DECODING OR PROC_IN_VACUUM) = 0"
    and "in_window b (t_xmin t)" "\<And>x. deleter (env_of s) t = Some x \<Longrightarrow> in_window b x"
  shows "snapshot_covers (env_of s) sn t"
proof -
  have *: "in_snapshot (env_of s) x sn"
    if x: "in_window b x" "is_in_progress (env_of s) x" "\<not> is_current (env_of s) x" for x
  proof -
    obtain c where "TransactionIdIsInProgress (bk_procs s) (bk_vars s) (bk_own s) (bk_log s) (bk_cache s) x = Some (Inr True, c)"
      using x(2) by (auto simp: env_of_def split: option.splits sum.splits)
    from running_in_snapshot [OF assms(1-5) x(1) assms(6) this] x(3) show ?thesis by (simp add: env_of_def)
  qed
  show ?thesis unfolding snapshot_covers_def using * assms(7,8) by blast
qed

section \<open>Properties\<close>

text \<open>C2. What an MVCC snapshot sees is what it should see: the result of the test is that the row
  was inserted by an earlier command of the snapshot's own transaction, or by a committed
  transaction the snapshot does not contain, and not deleted in the same sense.\<close>

theorem mvcc_visibility:
  assumes "tuple_ok (env_of s) t"
  shows "fst (HeapTupleSatisfiesMVCC (env_of s) sn b t) = visible_to (env_of s) sn t"
  by (rule mvcc_result [OF assms])






text \<open>C29. \<open>SnapshotDirty\<close> also sees rows of running transactions and tells the caller whom to wait
  for: \<open>xmin\<close> is the inserter and \<open>xmax\<close> the deleter exactly when it belongs to another
  transaction that is running.\<close>

theorem dirty_waits_for:
  assumes "backend_ok s" "tuple_ok (env_of s) t" "HeapTupleSatisfiesDirty (env_of s) sn b t = ((r, sn'), t')"
  shows "if inserted_now (env_of s) t
     then r = (\<not> deleted_now (env_of s) t) \<and> snap_xmin sn' = InvalidTransactionId
        \<and> snap_xmax sn' = (case deleter (env_of s) t of None \<Rightarrow> InvalidTransactionId
             | Some x \<Rightarrow> if other_running (env_of s) x then x else InvalidTransactionId)
     else r = other_running (env_of s) (t_xmin t) \<and> snap_xmin sn' = (if r then t_xmin t else InvalidTransactionId)
        \<and> snap_xmax sn' = InvalidTransactionId"
  by (rule backend.dirty_waits [OF assms])

text \<open>C31. \<open>SnapshotSelf\<close> sees the rows inserted by this or a committed transaction and not deleted
  by this or a committed transaction.\<close>

theorem self_sees:
  assumes "backend_ok s" "tuple_ok (env_of s) t"
  shows "fst (HeapTupleSatisfiesSelf (env_of s) b t) = (inserted_now (env_of s) t \<and> \<not> deleted_now (env_of s) t)"
  by (rule backend.self_live [OF assms])

section \<open>An example\<close>

text \<open>Every xid is recorded as committed; 40 inserted the row and 45 deleted it.\<close>

definition example_backend :: backend where
  "example_backend = \<lparr>bk_procs = example_procs, bk_vars = example_vars, bk_own = example_own,
     bk_log = example_log\<lparr>xl_clog := \<lparr>page_buffer = (\<lambda>_ _. 0x55), group_lsn = (\<lambda>_ _. 0)\<rparr>\<rparr>,
     bk_cache = example_cache, bk_combo = combo_init,
     bk_multis = \<lparr>nextMXact = 1, nextOffset = 0, finishedStartup = True, oldestMultiXactId = 1, oldestMultiXactDB = 1,
       oldestOffset = 0, oldestOffsetKnown = True, multiVacLimit = 1000, multiWarnLimit = 1000,
       multiStopLimit = 1000, multiWrapLimit = 1000, offsetStopLimit = 0, OldestMemberMXactId = [0],
       OldestVisibleMXactId = [0], offset_pages = (\<lambda>_ _. 0), member_pages = (\<lambda>_ _. 0)\<rparr>,
     bk_mx = \<lparr>MyBackend = 0, under_postmaster = True, in_recovery = False, MXactCache = [], MXactCacheMembers = 0\<rparr>,
     bk_permanent = (\<lambda>_. True), bk_lsn = (\<lambda>_. 0), bk_needs_flush = (\<lambda>_. True),
     bk_removable = (\<lambda>_ _. False), bk_decoding = (\<lambda>_. None)\<rparr>"

definition example_tuple :: HeapTupleHeader where
  "example_tuple = \<lparr>t_xmin = 40, t_xmax = 45, t_field3 = 0, t_ctid = \<lparr>ip_blkid = 0, ip_posid = 1\<rparr>,
     t_infomask2 = 2, t_infomask = 0\<rparr>"

lemma example_backend_ok: "backend_ok example_backend"
  by (simp add: backend_ok_def example_backend_def example_vars_def example_own_def example_cache_def
      TransactionIdIsNormal_def TransactionIdIsCurrentTransactionId_def GetTopTransactionIdIfAny_def
      XidFromFullTransactionId_def)

lemma example_committed:
  assumes "x = 40 \<or> x = 45"
  shows "did_commit (env_of example_backend) x" "\<not> is_in_progress (env_of example_backend) x"
    "\<not> is_current (env_of example_backend) x"
proof -
  have "\<exists>c. TransactionIdDidCommit (bk_log example_backend) x (bk_cache example_backend) = Some (True, c)"
    using assms by (subst TransactionIdDidCommit.simps)
      (auto simp: example_backend_def example_cache_def example_log_def TransactionLogFetch_def TransactionIdIsNormal_def
        TransactionIdGetStatus_def TransactionIdToBIndex_def Let_def)
  then show "did_commit (env_of example_backend) x" by (auto simp: env_of_def)
  show "\<not> is_in_progress (env_of example_backend) x" using assms
    by (auto simp: env_of_def TransactionIdIsInProgress_def example_backend_def example_vars_def
      TransactionIdPrecedes_def TransactionIdIsNormal_def)
  show "\<not> is_current (env_of example_backend) x" using assms
    by (auto simp: TransactionIdIsCurrentTransactionId_def example_backend_def example_own_def
      GetTopTransactionIdIfAny_def XidFromFullTransactionId_def TransactionIdIsNormal_def)
qed

lemma example_deleter: "deleter (env_of example_backend) example_tuple = Some 45"
  by (simp add: deleter_def locked_only_def example_tuple_def header_flags(1))

lemma example_tuple_ok: "tuple_ok (env_of example_backend) example_tuple"
  using example_committed by (auto simp: tuple_ok_def example_deleter) (simp_all add: example_tuple_def)


lemma example_facts:
  "inserted_now (env_of example_backend) example_tuple" "deleted_now (env_of example_backend) example_tuple"
  "committed_xid (env_of example_backend) (t_xmin example_tuple)"
  "snapshot_covers (env_of example_backend) sn example_tuple"
  "vacuum_verdict (env_of example_backend) example_tuple = (HEAPTUPLE_RECENTLY_DEAD, 45)"
  using example_committed
  by (simp_all add: inserted_now_def deleted_now_def committed_xid_def vacuum_verdict_def snapshot_covers_def example_deleter)
    (auto simp: example_tuple_def)

lemma later_refl [simp]: "later e e"
  by (simp add: later_def)

abbreviation later_snapshot :: SnapshotData where
  "later_snapshot \<equiv> example_snapshot\<lparr>snap_xmin := 50, snap_xmax := 60\<rparr>"

lemma example_not_visible: "\<not> visible_to (env_of example_backend) later_snapshot example_tuple"
proof -
  have "\<not> in_snapshot (env_of example_backend) 45 later_snapshot"
    by (simp add: env_of_def XidInMVCCSnapshot_def TransactionIdPrecedes_def TransactionIdIsNormal_def)
  then show ?thesis using example_committed [of 45]
    by (simp add: visible_to_def deleted_for_def example_deleter del: env_of_simps)
qed

theorem mvcc_visibility_witness:
  "\<not> fst (HeapTupleSatisfiesMVCC (env_of example_backend) later_snapshot 0 example_tuple)"
  using mvcc_visibility [OF example_tuple_ok] example_not_visible by simp





theorem dirty_waits_for_witness:
  "\<not> fst (fst (HeapTupleSatisfiesDirty (env_of example_backend) example_snapshot 0 example_tuple))"
proof -
  obtain r sn' t' where d: "HeapTupleSatisfiesDirty (env_of example_backend) example_snapshot 0 example_tuple = ((r, sn'), t')"
    by (metis prod.collapse)
  from dirty_waits_for [OF example_backend_ok example_tuple_ok d] have "r = (\<not> deleted_now (env_of example_backend) example_tuple)"
    by (simp only: example_facts(1) if_True)
  then show ?thesis using example_facts(2) d by simp
qed

theorem self_sees_witness:
  "\<not> fst (HeapTupleSatisfiesSelf (env_of example_backend) 0 example_tuple)"
  using self_sees [OF example_backend_ok example_tuple_ok] example_facts(2) by simp

end
