(* ===== verification/LockTable.thy ===== *)
theory LockTable
  imports Prelude
begin

text \<open>
  The shared table of heavyweight locks: \<^verbatim>\<open>src/include/storage/lock.h\<close>, the operations of
  \<^verbatim>\<open>src/backend/storage/lmgr/lock.c\<close> that run under a partition lock, and the wait queue of
  \<^verbatim>\<open>src/backend/storage/lmgr/proc.c\<close>.  A process is its index in \<open>allProcs\<close>.  A pointer to a LOCK is its
  tag, a pointer to a PROCLOCK the pair of a tag and a process: the PROCLOCKs of a lock are kept in the
  lock, in the order of its list.  Fixed arrays are functions.  A PANIC, and a pointer to a PROCLOCK that
  is gone, is \<open>None\<close>.
\<close>

section \<open>Modes and their conflicts\<close>

type_synonym LOCKMODE = nat
type_synonym LOCKMASK = "32 word"

abbreviation AccessShareLock :: LOCKMODE where "AccessShareLock \<equiv> 1"
abbreviation RowShareLock :: LOCKMODE where "RowShareLock \<equiv> 2"
abbreviation RowExclusiveLock :: LOCKMODE where "RowExclusiveLock \<equiv> 3"
abbreviation ShareUpdateExclusiveLock :: LOCKMODE where "ShareUpdateExclusiveLock \<equiv> 4"
abbreviation ShareLock :: LOCKMODE where "ShareLock \<equiv> 5"
abbreviation ShareRowExclusiveLock :: LOCKMODE where "ShareRowExclusiveLock \<equiv> 6"
abbreviation ExclusiveLock :: LOCKMODE where "ExclusiveLock \<equiv> 7"
abbreviation AccessExclusiveLock :: LOCKMODE where "AccessExclusiveLock \<equiv> 8"

definition LOCKBIT_ON :: "LOCKMODE \<Rightarrow> LOCKMASK" where
  "LOCKBIT_ON lockmode = push_bit lockmode 1"

definition LOCKBIT_OFF :: "LOCKMODE \<Rightarrow> LOCKMASK" where
  "LOCKBIT_OFF lockmode = NOT (push_bit lockmode 1)"

definition LockConflicts :: "LOCKMASK list" where
  "LockConflicts = [
     0,
     LOCKBIT_ON AccessExclusiveLock,
     LOCKBIT_ON ExclusiveLock OR LOCKBIT_ON AccessExclusiveLock,
     LOCKBIT_ON ShareLock OR LOCKBIT_ON ShareRowExclusiveLock OR
     LOCKBIT_ON ExclusiveLock OR LOCKBIT_ON AccessExclusiveLock,
     LOCKBIT_ON ShareUpdateExclusiveLock OR
     LOCKBIT_ON ShareLock OR LOCKBIT_ON ShareRowExclusiveLock OR
     LOCKBIT_ON ExclusiveLock OR LOCKBIT_ON AccessExclusiveLock,
     LOCKBIT_ON RowExclusiveLock OR LOCKBIT_ON ShareUpdateExclusiveLock OR
     LOCKBIT_ON ShareRowExclusiveLock OR
     LOCKBIT_ON ExclusiveLock OR LOCKBIT_ON AccessExclusiveLock,
     LOCKBIT_ON RowExclusiveLock OR LOCKBIT_ON ShareUpdateExclusiveLock OR
     LOCKBIT_ON ShareLock OR LOCKBIT_ON ShareRowExclusiveLock OR
     LOCKBIT_ON ExclusiveLock OR LOCKBIT_ON AccessExclusiveLock,
     LOCKBIT_ON RowShareLock OR
     LOCKBIT_ON RowExclusiveLock OR LOCKBIT_ON ShareUpdateExclusiveLock OR
     LOCKBIT_ON ShareLock OR LOCKBIT_ON ShareRowExclusiveLock OR
     LOCKBIT_ON ExclusiveLock OR LOCKBIT_ON AccessExclusiveLock,
     LOCKBIT_ON AccessShareLock OR LOCKBIT_ON RowShareLock OR
     LOCKBIT_ON RowExclusiveLock OR LOCKBIT_ON ShareUpdateExclusiveLock OR
     LOCKBIT_ON ShareLock OR LOCKBIT_ON ShareRowExclusiveLock OR
     LOCKBIT_ON ExclusiveLock OR LOCKBIT_ON AccessExclusiveLock]"

text \<open>Both lock methods have this table and this number of modes.\<close>

abbreviation numLockModes :: nat where "numLockModes \<equiv> AccessExclusiveLock"

definition conflictTab :: "LOCKMODE \<Rightarrow> LOCKMASK" where
  "conflictTab lockmode = LockConflicts ! lockmode"

definition DoLockModesConflict :: "LOCKMODE \<Rightarrow> LOCKMODE \<Rightarrow> bool" where
  "DoLockModesConflict mode1 mode2 = (conflictTab mode1 AND LOCKBIT_ON mode2 \<noteq> 0)"

section \<open>The table\<close>

datatype LockTagType = LOCKTAG_RELATION | LOCKTAG_RELATION_EXTEND | LOCKTAG_DATABASE_FROZEN_IDS
  | LOCKTAG_PAGE | LOCKTAG_TUPLE | LOCKTAG_TRANSACTION | LOCKTAG_VIRTUALTRANSACTION
  | LOCKTAG_SPECULATIVE_TOKEN | LOCKTAG_OBJECT | LOCKTAG_USERLOCK | LOCKTAG_ADVISORY

record LOCKTAG =
  locktag_field1 :: uint32
  locktag_field2 :: uint32
  locktag_field3 :: uint32
  locktag_field4 :: uint16
  locktag_type :: LockTagType
  locktag_lockmethodid :: uint8

record PROCLOCK =
  myProc :: nat
  groupLeader :: nat
  holdMask :: LOCKMASK
  releaseMask :: LOCKMASK

record LOCK =
  lock_tag :: LOCKTAG
  grantMask :: LOCKMASK
  waitMask :: LOCKMASK
  procLocks :: "PROCLOCK list"
  waitProcs :: "nat list"
  requested :: "LOCKMODE \<Rightarrow> int"
  nRequested :: int
  granted :: "LOCKMODE \<Rightarrow> int"
  nGranted :: int

datatype ProcWaitStatus = PROC_WAIT_STATUS_OK | PROC_WAIT_STATUS_WAITING | PROC_WAIT_STATUS_ERROR

text \<open>The fields of a PGPROC that partition locks protect.  A process is linked into a wait queue
  (\<open>links\<close>) as long as \<open>waitLock\<close> is set.\<close>

record PGPROC =
  lockGroupLeader :: "nat option"
  waitLock :: "LOCKTAG option"
  waitLockMode :: LOCKMODE
  waitStatus :: ProcWaitStatus
  heldLocks :: LOCKMASK

type_synonym procs = "nat \<Rightarrow> PGPROC"

fun find_proclock :: "nat \<Rightarrow> PROCLOCK list \<Rightarrow> PROCLOCK option" where
  "find_proclock proc [] = None"
| "find_proclock proc (pl # pls) = (if myProc pl = proc then Some pl else find_proclock proc pls)"

text \<open>Update of the PROCLOCK of a process in place.\<close>

definition set_proclock :: "nat \<Rightarrow> (PROCLOCK \<Rightarrow> PROCLOCK) \<Rightarrow> PROCLOCK list \<Rightarrow> PROCLOCK list" where
  "set_proclock proc f pls = map (\<lambda>pl. if myProc pl = proc then f pl else pl) pls"

section \<open>Conflicts with granted locks\<close>

text \<open>The loop over the modes: how many conflicting locks remain without the process's own.\<close>

definition conflicts_without_mine :: "LOCKMASK \<Rightarrow> LOCKMASK \<Rightarrow> (LOCKMODE \<Rightarrow> int) \<Rightarrow> LOCKMODE \<Rightarrow> int" where
  "conflicts_without_mine conflictMask myLocks counts i =
     (if conflictMask AND LOCKBIT_ON i = 0 then 0
      else if myLocks AND LOCKBIT_ON i \<noteq> 0 then counts i - 1
      else counts i)"

text \<open>The loop over the modes of another member of the group.\<close>

fun subtract_member :: "LOCKMASK \<Rightarrow> LOCKMODE list \<Rightarrow> (LOCKMODE \<Rightarrow> int) \<Rightarrow> int
    \<Rightarrow> ((LOCKMODE \<Rightarrow> int) \<times> int) option" where
  "subtract_member intersectMask [] conflictsRemaining remaining = Some (conflictsRemaining, remaining)"
| "subtract_member intersectMask (i # is) conflictsRemaining remaining =
     (if intersectMask AND LOCKBIT_ON i \<noteq> 0
      then if conflictsRemaining i \<le> 0 then None
           else subtract_member intersectMask is (conflictsRemaining(i := conflictsRemaining i - 1)) (remaining - 1)
      else subtract_member intersectMask is conflictsRemaining remaining)"

text \<open>The loop over the PROCLOCKs of the lock.\<close>

fun subtract_group :: "LOCKMASK \<Rightarrow> PROCLOCK \<Rightarrow> PROCLOCK list \<Rightarrow> (LOCKMODE \<Rightarrow> int) \<Rightarrow> int \<Rightarrow> bool option" where
  "subtract_group conflictMask proclock [] conflictsRemaining remaining = Some True"
| "subtract_group conflictMask proclock (otherproclock # pls) conflictsRemaining remaining =
     (if myProc proclock \<noteq> myProc otherproclock
         \<and> groupLeader proclock = groupLeader otherproclock
         \<and> holdMask otherproclock AND conflictMask \<noteq> 0
      then case subtract_member (holdMask otherproclock AND conflictMask) [1..<numLockModes + 1]
                  conflictsRemaining remaining of
             None \<Rightarrow> None
           | Some (conflictsRemaining, remaining) \<Rightarrow>
               if remaining = 0 then Some False
               else subtract_group conflictMask proclock pls conflictsRemaining remaining
      else subtract_group conflictMask proclock pls conflictsRemaining remaining)"

definition LockCheckConflicts :: "nat \<Rightarrow> procs \<Rightarrow> LOCKMODE \<Rightarrow> LOCK \<Rightarrow> PROCLOCK \<Rightarrow> bool option" where
  "LockCheckConflicts MyProc allProcs lockmode lock proclock =
     (let conflictMask = conflictTab lockmode;
          conflictsRemaining = conflicts_without_mine conflictMask (holdMask proclock) (granted lock);
          total = sum_list (map conflictsRemaining [1..<numLockModes + 1])
      in if conflictMask AND grantMask lock = 0 then Some False
         else if total = 0 then Some False
         else if groupLeader proclock = MyProc \<and> lockGroupLeader (allProcs MyProc) = None then Some True
         else if locktag_type (lock_tag lock) \<in> {LOCKTAG_RELATION_EXTEND, LOCKTAG_PAGE} then Some True
         else subtract_group conflictMask proclock (procLocks lock) conflictsRemaining total)"

section \<open>Granting and taking back\<close>

definition GrantLock :: "nat \<Rightarrow> LOCKMODE \<Rightarrow> LOCK \<Rightarrow> LOCK" where
  "GrantLock proc lockmode lock =
     (let granted' = (granted lock)(lockmode := granted lock lockmode + 1)
      in lock\<lparr>nGranted := nGranted lock + 1, granted := granted',
              grantMask := grantMask lock OR LOCKBIT_ON lockmode,
              waitMask := (if granted' lockmode = requested lock lockmode
                           then waitMask lock AND LOCKBIT_OFF lockmode else waitMask lock),
              procLocks := set_proclock proc (\<lambda>pl. pl\<lparr>holdMask := holdMask pl OR LOCKBIT_ON lockmode\<rparr>)
                             (procLocks lock)\<rparr>)"

definition UnGrantLock :: "nat \<Rightarrow> LOCKMODE \<Rightarrow> LOCK \<Rightarrow> bool \<times> LOCK" where
  "UnGrantLock proc lockmode lock =
     (let granted' = (granted lock)(lockmode := granted lock lockmode - 1)
      in (conflictTab lockmode AND waitMask lock \<noteq> 0,
          lock\<lparr>nRequested := nRequested lock - 1,
               requested := (requested lock)(lockmode := requested lock lockmode - 1),
               nGranted := nGranted lock - 1, granted := granted',
               grantMask := (if granted' lockmode = 0 then grantMask lock AND LOCKBIT_OFF lockmode
                             else grantMask lock),
               procLocks := set_proclock proc (\<lambda>pl. pl\<lparr>holdMask := holdMask pl AND LOCKBIT_OFF lockmode\<rparr>)
                              (procLocks lock)\<rparr>))"

section \<open>The wait queue\<close>

definition ProcWakeup :: "nat \<Rightarrow> ProcWaitStatus \<Rightarrow> LOCK \<times> procs \<Rightarrow> LOCK \<times> procs" where
  "ProcWakeup proc status = (\<lambda>(lock, allProcs).
     (lock\<lparr>waitProcs := remove1 proc (waitProcs lock)\<rparr>,
      allProcs(proc := (allProcs proc)\<lparr>waitLock := None, waitStatus := status\<rparr>)))"

text \<open>The loop of \<open>ProcLockWakeup\<close> over the queue as it was at the start.\<close>

fun wakeup_waiters :: "nat \<Rightarrow> nat list \<Rightarrow> LOCKMASK \<Rightarrow> LOCK \<times> procs \<Rightarrow> (LOCK \<times> procs) option" where
  "wakeup_waiters MyProc [] aheadRequests (lock, allProcs) = Some (lock, allProcs)"
| "wakeup_waiters MyProc (proc # queue) aheadRequests (lock, allProcs) =
     (let lockmode = waitLockMode (allProcs proc)
      in case find_proclock proc (procLocks lock) of
           None \<Rightarrow> None
         | Some waitProcLock \<Rightarrow>
             if conflictTab lockmode AND aheadRequests = 0
             then (case LockCheckConflicts MyProc allProcs lockmode lock waitProcLock of
                     None \<Rightarrow> None
                   | Some False \<Rightarrow> wakeup_waiters MyProc queue aheadRequests
                       (ProcWakeup proc PROC_WAIT_STATUS_OK (GrantLock proc lockmode lock, allProcs))
                   | Some True \<Rightarrow> wakeup_waiters MyProc queue (aheadRequests OR LOCKBIT_ON lockmode)
                       (lock, allProcs))
             else wakeup_waiters MyProc queue (aheadRequests OR LOCKBIT_ON lockmode) (lock, allProcs))"

definition ProcLockWakeup :: "nat \<Rightarrow> LOCK \<times> procs \<Rightarrow> (LOCK \<times> procs) option" where
  "ProcLockWakeup MyProc = (\<lambda>(lock, allProcs). wakeup_waiters MyProc (waitProcs lock) 0 (lock, allProcs))"

text \<open>The lock is \<open>None\<close> in the result when it was removed from the table.\<close>

definition CleanUpLock :: "nat \<Rightarrow> nat \<Rightarrow> bool \<Rightarrow> LOCK \<times> procs \<Rightarrow> (LOCK option \<times> procs) option" where
  "CleanUpLock MyProc proc wakeupNeeded = (\<lambda>(lock, allProcs).
     let lock = (case find_proclock proc (procLocks lock) of
                   Some pl \<Rightarrow> if holdMask pl = 0
                     then lock\<lparr>procLocks := filter (\<lambda>pl. myProc pl \<noteq> proc) (procLocks lock)\<rparr> else lock
                 | None \<Rightarrow> lock)
     in if nRequested lock = 0 then Some (None, allProcs)
        else if wakeupNeeded
        then (case ProcLockWakeup MyProc (lock, allProcs) of
                None \<Rightarrow> None | Some (lock, allProcs) \<Rightarrow> Some (Some lock, allProcs))
        else Some (Some lock, allProcs))"

definition RemoveFromWaitQueue :: "nat \<Rightarrow> nat \<Rightarrow> LOCK \<times> procs \<Rightarrow> (LOCK option \<times> procs) option" where
  "RemoveFromWaitQueue MyProc proc = (\<lambda>(lock, allProcs).
     let lockmode = waitLockMode (allProcs proc);
         requested' = (requested lock)(lockmode := requested lock lockmode - 1)
     in CleanUpLock MyProc proc True
          (lock\<lparr>waitProcs := remove1 proc (waitProcs lock), nRequested := nRequested lock - 1,
                requested := requested',
                waitMask := (if granted lock lockmode = requested' lockmode
                             then waitMask lock AND LOCKBIT_OFF lockmode else waitMask lock)\<rparr>,
           allProcs(proc := (allProcs proc)\<lparr>waitLock := None, waitStatus := PROC_WAIT_STATUS_ERROR\<rparr>)))"

section \<open>Joining the queue\<close>

text \<open>The search of \<open>ProcSleep\<close> for a place in the queue: behind the first waiters in the list, with the
  tests made in front of the waiter where it stops.\<close>

datatype queue_place = AtTail | Before nat | GrantNow | EarlyDeadlock nat

fun find_place :: "nat \<Rightarrow> procs \<Rightarrow> LOCKMODE \<Rightarrow> LOCKMASK \<Rightarrow> LOCK \<Rightarrow> PROCLOCK \<Rightarrow> nat list \<Rightarrow> LOCKMASK
    \<Rightarrow> queue_place option" where
  "find_place MyProc allProcs lockmode myHeldLocks lock proclock [] aheadRequests = Some AtTail"
| "find_place MyProc allProcs lockmode myHeldLocks lock proclock (proc # queue) aheadRequests =
     (if lockGroupLeader (allProcs MyProc) \<noteq> None
         \<and> lockGroupLeader (allProcs MyProc) = lockGroupLeader (allProcs proc)
      then find_place MyProc allProcs lockmode myHeldLocks lock proclock queue aheadRequests
      else if conflictTab (waitLockMode (allProcs proc)) AND myHeldLocks \<noteq> 0
      then if conflictTab lockmode AND heldLocks (allProcs proc) \<noteq> 0 then Some (EarlyDeadlock proc)
           else if conflictTab lockmode AND aheadRequests = 0
           then (case LockCheckConflicts MyProc allProcs lockmode lock proclock of
                   None \<Rightarrow> None
                 | Some False \<Rightarrow> Some GrantNow
                 | Some True \<Rightarrow> Some (Before proc))
           else Some (Before proc)
      else find_place MyProc allProcs lockmode myHeldLocks lock proclock queue
             (aheadRequests OR LOCKBIT_ON (waitLockMode (allProcs proc))))"

fun insert_before :: "nat \<Rightarrow> nat \<Rightarrow> nat list \<Rightarrow> nat list" where
  "insert_before new proc [] = [new]"
| "insert_before new proc (p # ps) = (if p = proc then new # p # ps else p # insert_before new proc ps)"

text \<open>The locks of the whole lock group.\<close>

definition group_held_locks :: "nat \<Rightarrow> procs \<Rightarrow> LOCK \<Rightarrow> LOCKMASK" where
  "group_held_locks MyProc allProcs lock =
     (case lockGroupLeader (allProcs MyProc) of
        None \<Rightarrow> heldLocks (allProcs MyProc)
      | Some leader \<Rightarrow> fold (\<lambda>pl held. if groupLeader pl = leader then held OR holdMask pl else held)
                        (procLocks lock) (heldLocks (allProcs MyProc)))"

definition enter_queue :: "nat \<Rightarrow> LOCKMODE \<Rightarrow> (nat list \<Rightarrow> nat list) \<Rightarrow> LOCK \<times> procs \<Rightarrow> LOCK \<times> procs" where
  "enter_queue MyProc lockmode place = (\<lambda>(lock, allProcs).
     (lock\<lparr>waitProcs := place (waitProcs lock), waitMask := waitMask lock OR LOCKBIT_ON lockmode\<rparr>,
      allProcs(MyProc := (allProcs MyProc)\<lparr>waitLock := Some (lock_tag lock), waitLockMode := lockmode,
                           waitStatus := PROC_WAIT_STATUS_WAITING\<rparr>)))"

text \<open>\<open>ProcSleep\<close> up to the release of the partition lock.  \<open>PROC_WAIT_STATUS_WAITING\<close> stands for going to
  sleep.\<close>

definition ProcSleep :: "nat \<Rightarrow> LOCKMODE \<Rightarrow> LOCK \<times> procs
    \<Rightarrow> (ProcWaitStatus \<times> LOCK option \<times> procs) option" where
  "ProcSleep MyProc lockmode = (\<lambda>(lock, allProcs).
     let myHeldLocks = group_held_locks MyProc allProcs lock
     in case find_proclock MyProc (procLocks lock) of
          None \<Rightarrow> None
        | Some proclock \<Rightarrow>
            (case (if myHeldLocks \<noteq> 0
                   then find_place MyProc allProcs lockmode myHeldLocks lock proclock (waitProcs lock) 0
                   else Some AtTail) of
               None \<Rightarrow> None
             | Some GrantNow \<Rightarrow>
                 Some (PROC_WAIT_STATUS_OK, Some (GrantLock MyProc lockmode lock), allProcs)
             | Some (EarlyDeadlock proc) \<Rightarrow>
                 (case RemoveFromWaitQueue MyProc MyProc
                         (enter_queue MyProc lockmode (insert_before MyProc proc) (lock, allProcs)) of
                    None \<Rightarrow> None
                  | Some (lock, allProcs) \<Rightarrow> Some (PROC_WAIT_STATUS_ERROR, lock, allProcs))
             | Some AtTail \<Rightarrow>
                 (case enter_queue MyProc lockmode (\<lambda>queue. queue @ [MyProc]) (lock, allProcs) of
                    (lock, allProcs) \<Rightarrow> Some (PROC_WAIT_STATUS_WAITING, Some lock, allProcs))
             | Some (Before proc) \<Rightarrow>
                 (case enter_queue MyProc lockmode (insert_before MyProc proc) (lock, allProcs) of
                    (lock, allProcs) \<Rightarrow> Some (PROC_WAIT_STATUS_WAITING, Some lock, allProcs))))"

section \<open>Requests\<close>

definition new_lock :: "LOCKTAG \<Rightarrow> LOCK" where
  "new_lock locktag = \<lparr>lock_tag = locktag, grantMask = 0, waitMask = 0, procLocks = [], waitProcs = [],
     requested = (\<lambda>_. 0), nRequested = 0, granted = (\<lambda>_. 0), nGranted = 0\<rparr>"

definition new_proclock :: "procs \<Rightarrow> nat \<Rightarrow> PROCLOCK" where
  "new_proclock allProcs proc = \<lparr>myProc = proc,
     groupLeader = (case lockGroupLeader (allProcs proc) of Some leader \<Rightarrow> leader | None \<Rightarrow> proc),
     holdMask = 0, releaseMask = 0\<rparr>"

text \<open>Whether there is room for a new LOCK and for a new PROCLOCK is given.  The result is an error, or
  whether the PROCLOCK was found or made, and always the new content of the table under the tag.\<close>

definition SetupLockInTable :: "bool \<Rightarrow> bool \<Rightarrow> procs \<Rightarrow> nat \<Rightarrow> LOCKTAG \<Rightarrow> LOCKMODE \<Rightarrow> LOCK option
    \<Rightarrow> bool result \<times> LOCK option" where
  "SetupLockInTable lock_room proclock_room allProcs proc locktag lockmode entry =
     (if entry = None \<and> \<not> lock_room then (Inr False, None)
      else
        let lock = (case entry of None \<Rightarrow> new_lock locktag | Some lock \<Rightarrow> lock);
            found = find_proclock proc (procLocks lock)
        in if found = None \<and> \<not> proclock_room
           then (Inr False, if nRequested lock = 0 then None else Some lock)
           else
             let proclock = (case found of None \<Rightarrow> new_proclock allProcs proc | Some pl \<Rightarrow> pl);
                 lock = lock\<lparr>procLocks := (if found = None then procLocks lock @ [proclock] else procLocks lock),
                             nRequested := nRequested lock + 1,
                             requested := (requested lock)(lockmode := requested lock lockmode + 1)\<rparr>
             in if holdMask proclock AND LOCKBIT_ON lockmode \<noteq> 0
                then (Inl (Elog ''lock is already held''), Some lock)
                else (Inr True, Some lock))"

text \<open>What \<open>LockAcquireExtended\<close> does under the partition lock.\<close>

datatype request_outcome = LockGranted | NotAvailable | Sleeping | LockDeadlock | NoRoom | RequestError pg_error

definition request_lock :: "bool \<Rightarrow> bool \<Rightarrow> nat \<Rightarrow> LOCKTAG \<Rightarrow> LOCKMODE \<Rightarrow> bool \<Rightarrow> LOCK option \<times> procs
    \<Rightarrow> (request_outcome \<times> LOCK option \<times> procs) option" where
  "request_lock lock_room proclock_room MyProc locktag lockmode dontWait = (\<lambda>(entry, allProcs).
     case SetupLockInTable lock_room proclock_room allProcs MyProc locktag lockmode entry of
       (Inl e, entry) \<Rightarrow> Some (RequestError e, entry, allProcs)
     | (Inr False, entry) \<Rightarrow> Some (NoRoom, entry, allProcs)
     | (Inr True, None) \<Rightarrow> None
     | (Inr True, Some lock) \<Rightarrow>
         (case find_proclock MyProc (procLocks lock) of
            None \<Rightarrow> None
          | Some proclock \<Rightarrow>
              (case (if conflictTab lockmode AND waitMask lock \<noteq> 0 then Some True
                     else LockCheckConflicts MyProc allProcs lockmode lock proclock) of
                 None \<Rightarrow> None
               | Some False \<Rightarrow> Some (LockGranted, Some (GrantLock MyProc lockmode lock), allProcs)
               | Some True \<Rightarrow>
                   if dontWait
                   then Some (NotAvailable,
                          Some (lock\<lparr>procLocks := (if holdMask proclock = 0
                                                   then filter (\<lambda>pl. myProc pl \<noteq> MyProc) (procLocks lock)
                                                   else procLocks lock),
                                     nRequested := nRequested lock - 1,
                                     requested := (requested lock)(lockmode := requested lock lockmode - 1)\<rparr>),
                          allProcs)
                   else (case ProcSleep MyProc lockmode
                                (lock, allProcs(MyProc := (allProcs MyProc)\<lparr>heldLocks := holdMask proclock\<rparr>)) of
                           None \<Rightarrow> None
                         | Some (PROC_WAIT_STATUS_OK, entry, allProcs) \<Rightarrow> Some (LockGranted, entry, allProcs)
                         | Some (PROC_WAIT_STATUS_WAITING, entry, allProcs) \<Rightarrow> Some (Sleeping, entry, allProcs)
                         | Some (PROC_WAIT_STATUS_ERROR, entry, allProcs) \<Rightarrow>
                             Some (LockDeadlock, entry, allProcs)))))"

text \<open>The release of one mode of a lock under the partition lock, once its PROCLOCK is found.\<close>

definition release_lock :: "nat \<Rightarrow> nat \<Rightarrow> LOCKMODE \<Rightarrow> LOCK \<times> procs \<Rightarrow> (LOCK option \<times> procs) option" where
  "release_lock MyProc proc lockmode = (\<lambda>(lock, allProcs).
     case UnGrantLock proc lockmode lock of
       (wakeupNeeded, lock) \<Rightarrow> CleanUpLock MyProc proc wakeupNeeded (lock, allProcs))"

text \<open>The release of all modes in the \<open>releaseMask\<close> of a PROCLOCK in \<open>LockReleaseAll\<close>.\<close>

definition ungrant_mode :: "nat \<Rightarrow> LOCKMASK \<Rightarrow> LOCKMODE \<Rightarrow> bool \<times> LOCK \<Rightarrow> bool \<times> LOCK" where
  "ungrant_mode proc modes i = (\<lambda>(wakeupNeeded, lock).
     if modes AND LOCKBIT_ON i \<noteq> 0
     then (case UnGrantLock proc i lock of (needed, lock) \<Rightarrow> (wakeupNeeded \<or> needed, lock))
     else (wakeupNeeded, lock))"

definition release_proclock :: "nat \<Rightarrow> nat \<Rightarrow> LOCKMASK \<Rightarrow> LOCK \<times> procs \<Rightarrow> (LOCK option \<times> procs) option" where
  "release_proclock MyProc proc modes = (\<lambda>(lock, allProcs).
     case fold (ungrant_mode proc modes) [1..<numLockModes + 1] (False, lock) of
       (wakeupNeeded, lock) \<Rightarrow> CleanUpLock MyProc proc wakeupNeeded (lock, allProcs))"

text \<open>What \<open>DeadLockCheck\<close> does with the order it found for the queue of a lock.\<close>

definition rearrange_queue :: "nat \<Rightarrow> nat list \<Rightarrow> LOCK \<times> procs \<Rightarrow> (LOCK \<times> procs) option" where
  "rearrange_queue MyProc order = (\<lambda>(lock, allProcs).
     ProcLockWakeup MyProc (lock\<lparr>waitProcs := order\<rparr>, allProcs))"

end
