(* ===== verification/LockInvariants.thy ===== *)
theory LockInvariants
  imports LockTable
begin

text \<open>
  What the lock table keeps true, and the operations of \<open>LockTable\<close> against it: counts and masks agree with
  the PROCLOCKs and the wait queue, the conflict test is exact, and nobody waits without a reason.
\<close>

section \<open>Masks\<close>

lemma bit_LOCKBIT_ON [simp]: "bit (LOCKBIT_ON m) n \<longleftrightarrow> n = m \<and> n < 32"
  by (auto simp: LOCKBIT_ON_def bit_simps)

lemma bit_without [simp]: "bit (w AND LOCKBIT_OFF m) n \<longleftrightarrow> bit w n \<and> n \<noteq> m"
  for w :: LOCKMASK
  by (auto simp: LOCKBIT_OFF_def bit_simps dest: bit_imp_le_length)

lemma bit_with [simp]: "bit (w OR LOCKBIT_ON m) n \<longleftrightarrow> bit w n \<or> n = m \<and> n < 32"
  by (auto simp: bit_or_iff)

lemma mask_disjoint: "w AND v = 0 \<longleftrightarrow> (\<forall>i. \<not> (bit w i \<and> bit v i))" for w v :: LOCKMASK
proof -
  have "w AND v = 0 \<longleftrightarrow> (\<forall>i. \<not> bit (w AND v) i)" by (metis bit_eqI bit_0_eq bot_apply bot_bool_def)
  then show ?thesis by (simp add: bit_and_iff)
qed

text \<open>The conflict relation on modes.\<close>

abbreviation conflict :: "LOCKMODE \<Rightarrow> LOCKMODE \<Rightarrow> bool" where
  "conflict m n \<equiv> bit (conflictTab m) n"

definition mode :: "LOCKMODE \<Rightarrow> bool" where
  "mode m \<longleftrightarrow> m \<in> set [1..<numLockModes + 1]"

lemma mode_cases: "mode m \<longleftrightarrow> m \<in> {1, 2, 3, 4, 5, 6, 7, 8}"
  by (auto simp: mode_def)

lemma mode_less: "mode m \<Longrightarrow> m < 32"
  by (auto simp: mode_def)

definition conflict_pairs :: "(LOCKMODE \<times> LOCKMODE) list" where
  "conflict_pairs =
    [(1,8), (2,7),(2,8), (3,5),(3,6),(3,7),(3,8), (4,4),(4,5),(4,6),(4,7),(4,8),
     (5,3),(5,4),(5,6),(5,7),(5,8), (6,3),(6,4),(6,5),(6,6),(6,7),(6,8),
     (7,2),(7,3),(7,4),(7,5),(7,6),(7,7),(7,8), (8,1),(8,2),(8,3),(8,4),(8,5),(8,6),(8,7),(8,8)]"

lemma conflict_table:
  assumes "mode m"
  shows "conflict m n \<longleftrightarrow> (m, n) \<in> set conflict_pairs"
proof -
  have "list_all (\<lambda>m. list_all (\<lambda>n. conflict m n \<longleftrightarrow> (m, n) \<in> set conflict_pairs) [0..<32]) [1..<numLockModes + 1]"
    by code_simp
  moreover have "(m, n) \<notin> set conflict_pairs" if "\<not> n < 32" using that by (auto simp: conflict_pairs_def)
  moreover have "\<not> conflict m n" if "\<not> n < 32" using that by (auto dest: bit_imp_le_length)
  ultimately show ?thesis using assms by (cases "n < 32") (auto simp: list_all_iff mode_def)
qed

lemma conflict_sym: "mode m \<Longrightarrow> mode n \<Longrightarrow> conflict m n \<longleftrightarrow> conflict n m"
  by (simp add: conflict_table conflict_pairs_def mode_cases) (elim disjE; simp)

lemma conflict_mode: "mode m \<Longrightarrow> conflict m n \<Longrightarrow> mode n"
proof -
  have "list_all (\<lambda>(m, n). mode n) conflict_pairs" unfolding mode_def by code_simp
  then show "mode m \<Longrightarrow> conflict m n \<Longrightarrow> mode n" by (auto simp: conflict_table list_all_iff)
qed

lemma mask_test [simp]: "w AND LOCKBIT_ON m = 0 \<longleftrightarrow> \<not> bit w m"
  by (auto simp: mask_disjoint dest: bit_imp_le_length)

section \<open>PROCLOCKs\<close>

lemma find_proclock_Some: "find_proclock p pls = Some pl \<Longrightarrow> pl \<in> set pls \<and> myProc pl = p"
  by (induction pls) (auto split: if_splits)

lemma find_proclock_None: "find_proclock p pls = None \<longleftrightarrow> p \<notin> myProc ` set pls"
  by (induction pls) auto

lemma find_proclock_in:
  "distinct (map myProc pls) \<Longrightarrow> pl \<in> set pls \<Longrightarrow> find_proclock (myProc pl) pls = Some pl"
  by (induction pls) (auto simp: image_iff)

lemma myProc_set_proclock [simp]:
  "(\<And>pl. myProc (f pl) = myProc pl) \<Longrightarrow> map myProc (set_proclock p f pls) = map myProc pls"
  by (simp add: set_proclock_def)

lemma find_set_proclock:
  "(\<And>pl. myProc (f pl) = myProc pl) \<Longrightarrow> find_proclock q (set_proclock p f pls) =
     (if q = p then map_option f (find_proclock q pls) else find_proclock q pls)"
  by (induction pls) (auto simp: set_proclock_def)

lemma find_append: "find_proclock p (pls @ [pl]) =
    (case find_proclock p pls of None \<Rightarrow> if myProc pl = p then Some pl else None | Some x \<Rightarrow> Some x)"
  by (induction pls) auto

lemma find_filter: "find_proclock p (filter (\<lambda>pl. myProc pl \<noteq> q) pls) =
    (if p = q then None else find_proclock p pls)"
  by (induction pls) auto

text \<open>How many processes hold a mode, and how many wait for it.\<close>

definition holders :: "LOCKMODE \<Rightarrow> PROCLOCK list \<Rightarrow> int" where
  "holders m pls = int (length (filter (\<lambda>pl. bit (holdMask pl) m) pls))"

definition waiting :: "procs \<Rightarrow> LOCKMODE \<Rightarrow> nat list \<Rightarrow> int" where
  "waiting procs m ps = int (length (filter (\<lambda>p. waitLockMode (procs p) = m) ps))"

lemma holders_set_proclock:
  assumes "distinct (map myProc pls)" "find_proclock p pls = Some pl"
  shows "holders m (set_proclock p f pls) =
    holders m pls - of_bool (bit (holdMask pl) m) + of_bool (bit (holdMask (f pl)) m)"
  using assms
proof (induction pls)
  case (Cons x pls)
  show ?case
  proof (cases "myProc x = p")
    case True
    then have "set_proclock p f pls = pls" using Cons(2)
      by (auto simp: set_proclock_def image_iff intro!: map_idI)
    then show ?thesis using True Cons(3) by (simp add: set_proclock_def holders_def)
  next
    case False
    then show ?thesis using Cons by (simp add: set_proclock_def holders_def)
  qed
qed simp

lemma holders_nonneg [simp]: "0 \<le> holders m pls" "0 \<le> waiting procs m ps"
  by (simp_all add: holders_def waiting_def)

lemma holders_pos: "0 < holders m pls \<longleftrightarrow> (\<exists>pl \<in> set pls. bit (holdMask pl) m)"
  by (simp add: holders_def) (auto simp: filter_empty_conv)

lemma waiting_pos: "0 < waiting procs m ps \<longleftrightarrow> (\<exists>p \<in> set ps. waitLockMode (procs p) = m)"
  by (simp add: waiting_def) (auto simp: filter_empty_conv)

lemma waiting_remove1:
  "p \<in> set ps \<Longrightarrow> waiting procs m (remove1 p ps) = waiting procs m ps - of_bool (waitLockMode (procs p) = m)"
  by (induction ps) (auto simp: waiting_def)

lemma waiting_insert:
  "waiting procs m (ps @ [p]) = waiting procs m ps + of_bool (waitLockMode (procs p) = m)"
  "waiting procs m (insert_before p q ps) = waiting procs m ps + of_bool (waitLockMode (procs p) = m)"
  by (induction ps) (auto simp: waiting_def)

lemma set_insert_before [simp]: "set (insert_before p q ps) = insert p (set ps)"
  by (induction ps) auto

lemma distinct_insert_before [simp]: "p \<notin> set ps \<Longrightarrow> distinct (insert_before p q ps) = distinct ps"
  by (induction ps) auto

section \<open>The invariant of one lock\<close>

definition modes_sum :: "(LOCKMODE \<Rightarrow> int) \<Rightarrow> int" where
  "modes_sum f = sum_list (map f [1..<numLockModes + 1])"

lemma modes_sum_update: "mode m \<Longrightarrow> modes_sum (f(m := v)) = modes_sum f + v - f m"
  by (auto simp: modes_sum_def mode_cases upt_rec)

lemma modes_sum_zero: "(\<And>m. 0 \<le> f m) \<Longrightarrow> modes_sum f = 0 \<longleftrightarrow> (\<forall>m. mode m \<longrightarrow> f m = 0)"
proof -
  assume "\<And>m. 0 \<le> f m"
  moreover have "modes_sum f = sum f {1..<numLockModes + 1}"
    by (simp add: modes_sum_def interv_sum_list_conv_sum_set_nat)
  ultimately show ?thesis by (auto simp: sum_nonneg_eq_0_iff mode_def)
qed

definition leader_of :: "procs \<Rightarrow> nat \<Rightarrow> nat" where
  "leader_of procs p = (case lockGroupLeader (procs p) of Some leader \<Rightarrow> leader | None \<Rightarrow> p)"

definition proclock_ok :: "procs \<Rightarrow> PROCLOCK \<Rightarrow> bool" where
  "proclock_ok procs pl \<longleftrightarrow> groupLeader pl = leader_of procs (myProc pl) \<and> (\<forall>m. bit (holdMask pl) m \<longrightarrow> mode m)"

definition waiter_ok :: "procs \<Rightarrow> PROCLOCK list \<Rightarrow> nat \<Rightarrow> bool" where
  "waiter_ok procs pls p \<longleftrightarrow> mode (waitLockMode (procs p))
     \<and> (\<exists>pl. find_proclock p pls = Some pl \<and> \<not> bit (holdMask pl) (waitLockMode (procs p)))"

text \<open>\<open>lock_ok x procs lk\<close>: the counts and masks are right.  While a request for mode \<open>m\<close> is counted but
  neither granted nor queued, \<open>x\<close> is \<open>Some m\<close>, and \<open>waitMask\<close> may still have the bit \<open>m\<close>.\<close>

definition lock_ok :: "LOCKMODE option \<Rightarrow> procs \<Rightarrow> LOCK \<Rightarrow> bool" where
  "lock_ok x procs lk \<longleftrightarrow>
     distinct (map myProc (procLocks lk)) \<and> distinct (waitProcs lk)
     \<and> granted lk = (\<lambda>m. holders m (procLocks lk))
     \<and> requested lk = (\<lambda>m. holders m (procLocks lk) + waiting procs m (waitProcs lk) + of_bool (x = Some m))
     \<and> nGranted lk = modes_sum (granted lk) \<and> nRequested lk = modes_sum (requested lk)
     \<and> (\<forall>m. bit (grantMask lk) m \<longleftrightarrow> 0 < holders m (procLocks lk))
     \<and> (\<forall>m. (0 < waiting procs m (waitProcs lk) \<longrightarrow> bit (waitMask lk) m)
          \<and> (bit (waitMask lk) m \<longrightarrow> 0 < waiting procs m (waitProcs lk) \<or> x = Some m))
     \<and> (\<forall>pl \<in> set (procLocks lk). proclock_ok procs pl)
     \<and> (\<forall>p \<in> set (waitProcs lk). waiter_ok procs (procLocks lk) p)"

lemmas lock_ok_unfold = lock_ok_def proclock_ok_def waiter_ok_def

text \<open>Of the processes only the awaited mode of waiters and the groups matter.\<close>

lemma lock_ok_procs:
  assumes "lock_ok x procs lk" "\<And>p. p \<in> set (waitProcs lk) \<Longrightarrow> waitLockMode (procs' p) = waitLockMode (procs p)"
    "\<And>p. lockGroupLeader (procs' p) = lockGroupLeader (procs p)"
  shows "lock_ok x procs' lk"
proof -
  have "waiting procs' m (waitProcs lk) = waiting procs m (waitProcs lk)" for m
    using assms(2) by (simp add: waiting_def cong: filter_cong)
  then show ?thesis using assms by (simp add: lock_ok_unfold leader_of_def)
qed

lemma lock_ok_new: "lock_ok None procs (new_lock tag)"
  by (auto simp: lock_ok_def new_lock_def holders_def waiting_def modes_sum_def)

lemma lock_ok_find:
  "lock_ok x procs lk \<Longrightarrow> find_proclock p (procLocks lk) = Some pl \<Longrightarrow> proclock_ok procs pl"
  by (auto simp: lock_ok_def dest: find_proclock_Some)

lemma holders_append [simp]: "holders m (pls @ [pl]) = holders m pls + of_bool (bit (holdMask pl) m)"
  by (simp add: holders_def)

lemma set_proclock_ok:
  assumes "\<forall>pl \<in> set pls. proclock_ok procs pl" "\<And>pl. proclock_ok procs pl \<Longrightarrow> myProc pl = p \<Longrightarrow> proclock_ok procs (f pl)"
  shows "\<forall>pl \<in> set (set_proclock p f pls). proclock_ok procs pl"
  using assms by (auto simp: set_proclock_def)

text \<open>The pending request is granted.\<close>

lemma lock_ok_Grant:
  assumes ok: "lock_ok (Some m) procs lk" and m: "mode m" and p: "p \<in> set (waitProcs lk) \<Longrightarrow> waitLockMode (procs p) \<noteq> m"
    and pl: "find_proclock p (procLocks lk) = Some pl" "\<not> bit (holdMask pl) m"
  shows "lock_ok None procs (GrantLock p m lk)"
proof -
  let ?f = "\<lambda>pl. pl\<lparr>holdMask := holdMask pl OR LOCKBIT_ON m\<rparr>"
  have d: "distinct (map myProc (procLocks lk))" using ok by (simp add: lock_ok_def)
  have h: "holders n (set_proclock p ?f (procLocks lk)) = holders n (procLocks lk) + of_bool (n = m)" for n
    using holders_set_proclock [OF d pl(1), of n ?f] pl(2) mode_less [OF m] by auto
  have pls: "\<forall>pl \<in> set (set_proclock p ?f (procLocks lk)). proclock_ok procs pl"
    by (rule set_proclock_ok) (use ok m in \<open>auto simp: lock_ok_def proclock_ok_def\<close>)
  have ws: "\<forall>q \<in> set (waitProcs lk). waiter_ok procs (set_proclock p ?f (procLocks lk)) q"
    using ok p by (fastforce simp: lock_ok_def waiter_ok_def find_set_proclock)
  have g: "granted (GrantLock p m lk) = (\<lambda>n. holders n (procLocks (GrantLock p m lk)))"
    using ok h by (auto simp: GrantLock_def Let_def lock_ok_def fun_eq_iff)
  have r: "requested (GrantLock p m lk) =
      (\<lambda>n. holders n (procLocks (GrantLock p m lk)) + waiting procs n (waitProcs lk) + of_bool (None = Some n))"
    using ok h by (auto simp: GrantLock_def Let_def lock_ok_def fun_eq_iff)
  have n: "nGranted (GrantLock p m lk) = modes_sum (granted (GrantLock p m lk))"
    using ok m by (simp add: GrantLock_def Let_def lock_ok_def modes_sum_update)
  have w: "granted lk m + 1 = requested lk m \<longleftrightarrow> waiting procs m (waitProcs lk) = 0"
    using ok by (simp add: lock_ok_def)
  show ?thesis unfolding lock_ok_def
  proof (intro conjI)
    show "\<forall>n. (0 < waiting procs n (waitProcs (GrantLock p m lk)) \<longrightarrow> bit (waitMask (GrantLock p m lk)) n)
          \<and> (bit (waitMask (GrantLock p m lk)) n \<longrightarrow> 0 < waiting procs n (waitProcs (GrantLock p m lk)) \<or> None = Some n)"
      using ok w holders_nonneg(2) [of procs m "waitProcs lk"]
      by (auto simp: GrantLock_def Let_def lock_ok_def simp del: holders_nonneg)
    show "\<forall>n. bit (grantMask (GrantLock p m lk)) n \<longleftrightarrow> 0 < holders n (procLocks (GrantLock p m lk))"
      using ok h mode_less [OF m] by (auto simp: GrantLock_def Let_def lock_ok_def add_nonneg_pos)
  qed (use g r n ok d pls ws in \<open>auto simp: GrantLock_def Let_def lock_ok_def\<close>)
qed

lemma lock_ok_UnGrant:
  assumes ok: "lock_ok None procs lk"
    and pl: "find_proclock p (procLocks lk) = Some pl" "bit (holdMask pl) m"
  shows "lock_ok None procs (snd (UnGrantLock p m lk))"
proof -
  let ?f = "\<lambda>pl. pl\<lparr>holdMask := holdMask pl AND LOCKBIT_OFF m\<rparr>"
  let ?lk = "snd (UnGrantLock p m lk)"
  have d: "distinct (map myProc (procLocks lk))" using ok by (simp add: lock_ok_def)
  have m: "mode m" using lock_ok_find [OF ok pl(1)] pl(2) by (simp add: proclock_ok_def)
  have h: "holders n (set_proclock p ?f (procLocks lk)) = holders n (procLocks lk) - of_bool (n = m)" for n
    using holders_set_proclock [OF d pl(1), of n ?f] pl(2) by auto
  have pls: "\<forall>pl \<in> set (set_proclock p ?f (procLocks lk)). proclock_ok procs pl"
    by (rule set_proclock_ok) (use ok m in \<open>auto simp: lock_ok_def proclock_ok_def\<close>)
  have ws: "\<forall>q \<in> set (waitProcs lk). waiter_ok procs (set_proclock p ?f (procLocks lk)) q"
    using ok by (fastforce simp: lock_ok_def waiter_ok_def find_set_proclock)
  have pos: "0 < holders m (procLocks lk)" using find_proclock_Some [OF pl(1)] pl(2) by (auto simp: holders_pos)
  have g: "granted ?lk = (\<lambda>n. holders n (procLocks ?lk))"
    using ok h by (auto simp: UnGrantLock_def Let_def lock_ok_def fun_eq_iff)
  have r: "requested ?lk = (\<lambda>n. holders n (procLocks ?lk) + waiting procs n (waitProcs lk) + of_bool (None = Some n))"
    using ok h by (auto simp: UnGrantLock_def Let_def lock_ok_def fun_eq_iff)
  have n: "nGranted ?lk = modes_sum (granted ?lk)" "nRequested ?lk = modes_sum (requested ?lk)"
    using ok m by (simp_all add: UnGrantLock_def Let_def lock_ok_def modes_sum_update)
  show ?thesis unfolding lock_ok_def
  proof (intro conjI)
    show "\<forall>n. bit (grantMask ?lk) n \<longleftrightarrow> 0 < holders n (procLocks ?lk)"
      using ok h pos by (auto simp: UnGrantLock_def Let_def lock_ok_def)
  qed (use g r n ok d pls ws in \<open>auto simp: UnGrantLock_def Let_def lock_ok_def\<close>)
qed

text \<open>A waiter leaves the queue, its request still counted.\<close>

lemma lock_ok_dequeue:
  assumes ok: "lock_ok None procs lk" and p: "p \<in> set (waitProcs lk)"
  shows "lock_ok (Some (waitLockMode (procs p))) procs (lk\<lparr>waitProcs := remove1 p (waitProcs lk)\<rparr>)"
proof -
  let ?ws = "remove1 p (waitProcs lk)"
  have w: "waiting procs m (waitProcs lk) = waiting procs m ?ws + of_bool (waitLockMode (procs p) = m)" for m
    using waiting_remove1 [OF p] by simp
  have "(0 < waiting procs m ?ws \<longrightarrow> bit (waitMask lk) m)
      \<and> (bit (waitMask lk) m \<longrightarrow> 0 < waiting procs m ?ws \<or> Some (waitLockMode (procs p)) = Some m)" for m
    using ok unfolding lock_ok_def w by (cases "waitLockMode (procs p) = m") auto
  moreover have "requested lk = (\<lambda>m. holders m (procLocks lk) + waiting procs m ?ws
      + of_bool (Some (waitLockMode (procs p)) = Some m))"
    using ok unfolding lock_ok_def w by (simp add: fun_eq_iff)
  ultimately show ?thesis using ok by (auto simp: lock_ok_def dest: in_set_remove1 notin_set_remove1)
qed

text \<open>A pending request is withdrawn.\<close>

lemma lock_ok_withdraw:
  assumes ok: "lock_ok (Some m) procs lk" and m: "mode m"
    and w: "w = waitMask lk AND LOCKBIT_OFF m \<and> waiting procs m (waitProcs lk) = 0
      \<or> w = waitMask lk \<and> (bit (waitMask lk) m \<longrightarrow> 0 < waiting procs m (waitProcs lk))"
  shows "lock_ok None procs (lk\<lparr>nRequested := nRequested lk - 1,
     requested := (requested lk)(m := requested lk m - 1), waitMask := w\<rparr>)"
proof -
  have r: "(requested lk)(m := requested lk m - 1) =
      (\<lambda>n. holders n (procLocks lk) + waiting procs n (waitProcs lk) + of_bool (None = Some n))"
    using ok by (auto simp: lock_ok_def fun_eq_iff)
  have "nRequested lk - 1 = modes_sum ((requested lk)(m := requested lk m - 1))"
    using ok m by (simp add: lock_ok_def modes_sum_update)
  then show ?thesis using ok w unfolding r
    by (auto simp: lock_ok_def)
qed

text \<open>A pending request joins the queue.\<close>

lemma lock_ok_enqueue:
  assumes ok: "lock_ok (Some m) procs lk" and m: "mode m" and p: "p \<notin> set (waitProcs lk)"
    and pl: "find_proclock p (procLocks lk) = Some pl" "\<not> bit (holdMask pl) m"
    and place: "place = (\<lambda>queue. queue @ [p]) \<or> place = insert_before p q"
    and step: "enter_queue p m place (lk, procs) = (lk', procs')"
  shows "lock_ok None procs' lk'"
proof -
  have lk': "lk' = lk\<lparr>waitProcs := place (waitProcs lk), waitMask := waitMask lk OR LOCKBIT_ON m\<rparr>"
    and procs': "procs' = procs(p := (procs p)\<lparr>waitLock := Some (lock_tag lk), waitLockMode := m,
                           waitStatus := PROC_WAIT_STATUS_WAITING\<rparr>)"
    using step by (auto simp: enter_queue_def)
  have ok': "lock_ok (Some m) procs' lk"
    by (rule lock_ok_procs [OF ok]) (use p procs' in auto)
  have set: "set (place (waitProcs lk)) = insert p (set (waitProcs lk))" "distinct (place (waitProcs lk))"
    using place p ok by (auto simp: lock_ok_def)
  have w: "waiting procs' n (place (waitProcs lk)) = waiting procs' n (waitProcs lk) + of_bool (n = m)" for n
    using place by (auto simp: waiting_insert procs')
  have "waiter_ok procs' (procLocks lk) p" using m pl by (simp add: waiter_ok_def procs')
  then show ?thesis using ok' set mode_less [OF m]
    by (auto simp: lock_ok_def lk' w fun_eq_iff add_nonneg_pos)
qed

text \<open>A new request is counted, with a new PROCLOCK if needed.\<close>

lemma lock_ok_request:
  assumes ok: "lock_ok None procs lk" and m: "mode m"
    and pls: "pls = procLocks lk \<or> pls = procLocks lk @ [new_proclock procs p] \<and> find_proclock p (procLocks lk) = None"
  shows "lock_ok (Some m) procs (lk\<lparr>procLocks := pls, nRequested := nRequested lk + 1,
     requested := (requested lk)(m := requested lk m + 1)\<rparr>)"
proof -
  have h: "holders n pls = holders n (procLocks lk)" for n using pls by (auto simp: new_proclock_def)
  have new: "myProc (new_proclock procs p) = p" "proclock_ok procs (new_proclock procs p)"
    by (auto simp: new_proclock_def proclock_ok_def leader_of_def)
  have "distinct (map myProc pls)" "\<forall>pl \<in> set pls. proclock_ok procs pl"
    using ok pls new by (auto simp: lock_ok_def find_proclock_None)
  moreover have "\<forall>q \<in> set (waitProcs lk). waiter_ok procs pls q"
    using ok pls by (auto simp: lock_ok_def waiter_ok_def find_append)
  moreover have r: "(requested lk)(m := requested lk m + 1) =
      (\<lambda>n. holders n pls + waiting procs n (waitProcs lk) + of_bool (Some m = Some n))"
    using ok by (auto simp: lock_ok_def h fun_eq_iff)
  moreover have "nRequested lk + 1 = modes_sum ((requested lk)(m := requested lk m + 1))"
    using ok m by (simp add: lock_ok_def modes_sum_update)
  ultimately show ?thesis using ok by (auto simp: lock_ok_def h)
qed

text \<open>An idle PROCLOCK goes.\<close>

lemma lock_ok_drop:
  assumes ok: "lock_ok x procs lk" and p: "p \<notin> set (waitProcs lk)"
    and pl: "find_proclock p (procLocks lk) = Some pl" "holdMask pl = 0"
  shows "lock_ok x procs (lk\<lparr>procLocks := filter (\<lambda>pl. myProc pl \<noteq> p) (procLocks lk)\<rparr>)"
proof -
  let ?pls = "filter (\<lambda>pl. myProc pl \<noteq> p) (procLocks lk)"
  have d: "distinct (map myProc (procLocks lk))" using ok by (simp add: lock_ok_def)
  have "myProc y = p \<Longrightarrow> y \<in> set (procLocks lk) \<Longrightarrow> holdMask y = 0" for y
    using find_proclock_in [OF d, of y] pl by auto
  then have "filter (\<lambda>pl. bit (holdMask pl) m) ?pls = filter (\<lambda>pl. bit (holdMask pl) m) (procLocks lk)" for m
    by (auto simp: filter_filter intro!: filter_cong)
  then have h: "holders m ?pls = holders m (procLocks lk)" for m by (simp add: holders_def)
  have "\<forall>q \<in> set (waitProcs lk). waiter_ok procs ?pls q"
    using ok p by (auto simp: lock_ok_def waiter_ok_def find_filter)
  then show ?thesis using ok by (auto simp: lock_ok_def h distinct_map_filter)
qed

section \<open>The conflict test\<close>

text \<open>The reference: another process holds a conflicting mode, and is not of the same lock group, unless
  the lock is one that conflicts within groups.\<close>

definition blocked_by :: "procs \<Rightarrow> LOCK \<Rightarrow> nat \<Rightarrow> LOCKMODE \<Rightarrow> bool" where
  "blocked_by procs lk p m \<longleftrightarrow> (\<exists>pl \<in> set (procLocks lk). myProc pl \<noteq> p
     \<and> (groupLeader pl \<noteq> leader_of procs p \<or> locktag_type (lock_tag lk) \<in> {LOCKTAG_RELATION_EXTEND, LOCKTAG_PAGE})
     \<and> (\<exists>i. conflict m i \<and> bit (holdMask pl) i))"

definition groups_ok :: "procs \<Rightarrow> bool" where
  "groups_ok procs \<longleftrightarrow> (\<forall>p l. lockGroupLeader (procs p) = Some l \<longrightarrow> lockGroupLeader (procs l) = Some l)"

lemma subtract_member_result:
  "distinct ms \<Longrightarrow> \<forall>i \<in> set ms. bit w i \<longrightarrow> 0 < rest i \<Longrightarrow>
   subtract_member w ms rest n =
     Some (\<lambda>i. rest i - of_bool (i \<in> set ms \<and> bit w i), n - sum_list (map (\<lambda>i. of_bool (bit w i)) ms))"
proof (induction ms arbitrary: rest n)
  case (Cons i ms)
  show ?case
  proof (cases "bit w i")
    case True
    then have "subtract_member w ms (rest(i := rest i - 1)) (n - 1) =
      Some (\<lambda>j. (rest(i := rest i - 1)) j - of_bool (j \<in> set ms \<and> bit w j), n - 1 - sum_list (map (\<lambda>i. of_bool (bit w i)) ms))"
      using Cons(2,3) by (intro Cons(1)) auto
    then show ?thesis using Cons(2,3) True by (auto simp: fun_eq_iff)
  next
    case False
    then show ?thesis using Cons by (auto simp: fun_eq_iff)
  qed
qed (simp add: fun_eq_iff)

definition fellow :: "PROCLOCK \<Rightarrow> PROCLOCK \<Rightarrow> bool" where
  "fellow pl other \<longleftrightarrow> myProc pl \<noteq> myProc other \<and> groupLeader pl = groupLeader other"

text \<open>Conflicting holders in a list of PROCLOCKs, by mode.\<close>

definition conflicting :: "LOCKMODE \<Rightarrow> PROCLOCK list \<Rightarrow> LOCKMODE \<Rightarrow> int" where
  "conflicting m pls i = of_bool (conflict m i) * holders i pls"

lemma conflicting_simps [simp]:
  "conflicting m [] = (\<lambda>_. 0)"
  "conflicting m (pl # pls) = (\<lambda>i. of_bool (conflict m i \<and> bit (holdMask pl) i) + conflicting m pls i)"
  "0 \<le> conflicting m pls i"
proof -
  show "conflicting m [] = (\<lambda>_. 0)" by (rule ext) (simp add: conflicting_def holders_def)
  have "holders i (pl # pls) = of_bool (bit (holdMask pl) i) + holders i pls" for i by (simp add: holders_def)
  then show "conflicting m (pl # pls) = (\<lambda>i. of_bool (conflict m i \<and> bit (holdMask pl) i) + conflicting m pls i)"
    by (intro ext) (simp add: conflicting_def)
  show "0 \<le> conflicting m pls i" by (simp add: conflicting_def)
qed

lemma modes_sum_diff: "modes_sum (\<lambda>i. f i - g i) = modes_sum f - modes_sum g"
  by (simp add: modes_sum_def sum_list_subtractf)

lemma modes_sum_cong: "(\<And>i. mode i \<Longrightarrow> f i = g i) \<Longrightarrow> modes_sum f = modes_sum g"
  unfolding modes_sum_def mode_def by (rule arg_cong [where f = sum_list], rule map_cong) auto

lemma conflicting_zero:
  "modes_sum (conflicting m pls) = 0 \<longleftrightarrow> (\<forall>i. mode i \<and> conflict m i \<longrightarrow> (\<forall>pl \<in> set pls. \<not> bit (holdMask pl) i))"
proof -
  have "conflicting m pls i = 0 \<longleftrightarrow> (conflict m i \<longrightarrow> \<not> (\<exists>pl \<in> set pls. bit (holdMask pl) i))" for i
    using holders_pos [of i pls] holders_nonneg(1) [of i pls] by (auto simp: conflicting_def simp del: holders_nonneg)
  then show ?thesis by (subst modes_sum_zero) auto
qed

lemma subtract_group_result:
  assumes "\<And>i. 0 \<le> base i" "\<And>i. mode i \<Longrightarrow> rest i = base i + conflicting m (filter (fellow pl) pls) i"
    "n = modes_sum rest" "n \<noteq> 0"
  shows "subtract_group (conflictTab m) pl pls rest n = Some (modes_sum base \<noteq> 0)"
  using assms(2-)
proof (induction pls arbitrary: rest n)
  case Nil
  then have "modes_sum rest = modes_sum base" by (intro modes_sum_cong) simp
  then show ?case using Nil by simp
next
  case (Cons other pls)
  let ?w = "holdMask other AND conflictTab m"
  show ?case
  proof (cases "fellow pl other \<and> ?w \<noteq> 0")
    case True
    let ?ms = "[1..<numLockModes + 1]"
    let ?rest = "\<lambda>i. rest i - of_bool (i \<in> set ?ms \<and> bit ?w i)"
    have "\<forall>i \<in> set ?ms. bit ?w i \<longrightarrow> 0 < rest i"
    proof (intro ballI impI)
      fix i assume i: "i \<in> set ?ms" "bit ?w i"
      then have "rest i = base i + (1 + conflicting m (filter (fellow pl) pls) i)"
        using Cons(2) [of i] True by (simp add: mode_def bit_and_iff)
      then show "0 < rest i" using assms(1) [of i] conflicting_simps(3) [of m "filter (fellow pl) pls" i] by linarith
    qed
    then have sub: "subtract_member ?w ?ms rest n = Some (?rest, n - modes_sum (\<lambda>i. of_bool (bit ?w i)))"
      unfolding modes_sum_def by (intro subtract_member_result) simp_all
    have n: "n - modes_sum (\<lambda>i. of_bool (bit ?w i)) = modes_sum ?rest"
    proof -
      have "modes_sum ?rest = modes_sum (\<lambda>i. rest i - of_bool (bit ?w i))"
        by (rule modes_sum_cong) (simp add: mode_def)
      then show ?thesis using Cons(3) by (simp only: modes_sum_diff)
    qed
    have rest: "?rest i = base i + conflicting m (filter (fellow pl) pls) i" if "mode i" for i
      using Cons(2) [OF that] True that by (auto simp: mode_def bit_and_iff)
    have zero: "modes_sum base = 0" if "modes_sum ?rest = 0"
    proof -
      have nn: "0 \<le> base i + conflicting m (filter (fellow pl) pls) i" for i
        using assms(1) [of i] by (simp add: add_nonneg_nonneg)
      have "modes_sum (\<lambda>i. base i + conflicting m (filter (fellow pl) pls) i) = modes_sum ?rest"
        by (rule modes_sum_cong) (rule rest [symmetric])
      then have "\<forall>i. mode i \<longrightarrow> base i + conflicting m (filter (fellow pl) pls) i = 0"
        using that nn by (subst modes_sum_zero [symmetric]) auto
      then have "base i = 0" if "mode i" for i
      proof -
        have "base i + conflicting m (filter (fellow pl) pls) i = 0"
          using \<open>\<forall>i. mode i \<longrightarrow> base i + conflicting m (filter (fellow pl) pls) i = 0\<close> that by blast
        then show ?thesis using assms(1) [of i] conflicting_simps(3) [of m "filter (fellow pl) pls" i] by linarith
      qed
      then show ?thesis using assms(1) by (simp add: modes_sum_zero)
    qed
    have "subtract_group (conflictTab m) pl pls ?rest (modes_sum ?rest) = Some (modes_sum base \<noteq> 0)"
      if "modes_sum ?rest \<noteq> 0" using that rest by (intro Cons(1)) simp_all
    then show ?thesis using True sub n zero by (auto simp: fellow_def)
  next
    case False
    have "rest i = base i + conflicting m (filter (fellow pl) pls) i" if "mode i" for i
      using Cons(2) [OF that] False by (auto simp: mask_disjoint)
    then have "subtract_group (conflictTab m) pl pls rest n = Some (modes_sum base \<noteq> 0)"
      using Cons(3,4) by (intro Cons(1)) simp_all
    then show ?thesis using False by (auto simp: fellow_def)
  qed
qed

lemma holders_without:
  assumes "distinct (map myProc pls)" "find_proclock p pls = Some pl"
  shows "holders i (filter (\<lambda>o'. myProc o' \<noteq> p) pls) = holders i pls - of_bool (bit (holdMask pl) i)"
  using assms
proof (induction pls)
  case (Cons y ys)
  show ?case
  proof (cases "myProc y = p")
    case True
    then have "filter (\<lambda>o'. myProc o' \<noteq> p) ys = ys" using Cons(2) by (auto simp: filter_id_conv image_iff)
    then show ?thesis using True Cons(3) by (simp add: holders_def)
  next
    case False
    then show ?thesis using Cons by (simp add: holders_def)
  qed
qed simp

lemma holders_fellows:
  "holders i (filter (\<lambda>o'. myProc o' \<noteq> myProc pl) pls) =
     holders i (filter (\<lambda>o'. groupLeader o' \<noteq> groupLeader pl) (filter (\<lambda>o'. myProc o' \<noteq> myProc pl) pls))
     + holders i (filter (fellow pl) pls)"
  by (induction pls) (auto simp: holders_def fellow_def)

lemma LockCheckConflicts_exact:
  assumes ok: "lock_ok x procs lk" and groups: "groups_ok procs" and m: "mode m"
    and pl: "find_proclock p (procLocks lk) = Some pl"
  shows "LockCheckConflicts MyProc procs m lk pl = Some (blocked_by procs lk p m)"
proof -
  let ?others = "filter (\<lambda>o'. myProc o' \<noteq> p) (procLocks lk)"
  let ?base = "conflicting m (filter (\<lambda>o'. groupLeader o' \<noteq> groupLeader pl) ?others)"
  let ?c = "conflicts_without_mine (conflictTab m) (holdMask pl) (granted lk)"
  have d: "distinct (map myProc (procLocks lk))" using ok by (simp add: lock_ok_def)
  have pl': "myProc pl = p" "pl \<in> set (procLocks lk)" using find_proclock_Some [OF pl] by auto
  have lead: "groupLeader pl = leader_of procs p" using lock_ok_find [OF ok pl] pl' by (simp add: proclock_ok_def)
  have valid: "bit (holdMask o') i \<Longrightarrow> o' \<in> set (procLocks lk) \<Longrightarrow> mode i" for o' i
    using ok by (auto simp: lock_ok_def proclock_ok_def)
  have split: "holders i (procLocks lk) = of_bool (bit (holdMask pl) i) + holders i ?others" for i
    using holders_without [OF d pl] by simp
  have c: "?c i = conflicting m ?others i" for i
    using ok split [of i] by (simp add: conflicts_without_mine_def conflicting_def lock_ok_def)
  have mates: "conflicting m ?others i = ?base i + conflicting m (filter (fellow pl) (procLocks lk)) i" for i
  proof -
    show ?thesis using holders_fellows [of i pl "procLocks lk"]
      unfolding pl'(1) conflicting_def by (simp only: distrib_left)
  qed
  have cf: "?c = conflicting m ?others" by (rule ext) (rule c)
  have run: "LockCheckConflicts MyProc procs m lk pl =
    (if conflictTab m AND grantMask lk = 0 then Some False
     else if modes_sum (conflicting m ?others) = 0 then Some False
     else if groupLeader pl = MyProc \<and> lockGroupLeader (procs MyProc) = None then Some True
     else if locktag_type (lock_tag lk) \<in> {LOCKTAG_RELATION_EXTEND, LOCKTAG_PAGE} then Some True
     else subtract_group (conflictTab m) pl (procLocks lk) (conflicting m ?others) (modes_sum (conflicting m ?others)))"
    unfolding LockCheckConflicts_def Let_def cf modes_sum_def ..
  have some: "modes_sum (conflicting m xs) \<noteq> 0 \<longleftrightarrow> (\<exists>o' \<in> set xs. \<exists>i. conflict m i \<and> bit (holdMask o') i)"
    if "set xs \<subseteq> set (procLocks lk)" for xs
    using that valid unfolding conflicting_zero by blast
  have global: "conflictTab m AND grantMask lk = 0 \<longleftrightarrow> (\<forall>o' \<in> set (procLocks lk). \<forall>i. \<not> (conflict m i \<and> bit (holdMask o') i))"
    using ok by (auto simp: mask_disjoint lock_ok_def holders_pos)
  have alone': "groupLeader o' \<noteq> leader_of procs p"
    if "groupLeader pl = MyProc" "lockGroupLeader (procs MyProc) = None" "o' \<in> set (procLocks lk)" "myProc o' \<noteq> p" for o'
  proof
    assume same: "groupLeader o' = leader_of procs p"
    have "groupLeader o' = leader_of procs (myProc o')" using ok that(3) by (auto simp: lock_ok_def proclock_ok_def)
    then have "leader_of procs (myProc o') = MyProc" "leader_of procs p = MyProc" using same lead that(1) by auto
    then show False using groups that(2,4) by (auto simp: leader_of_def groups_ok_def split: option.splits)
  qed
  have real: "blocked_by procs lk p m \<longleftrightarrow>
      (if locktag_type (lock_tag lk) \<in> {LOCKTAG_RELATION_EXTEND, LOCKTAG_PAGE}
       then modes_sum (conflicting m ?others) \<noteq> 0 else modes_sum ?base \<noteq> 0)"
    by (subst (1 2) some) (auto simp: blocked_by_def lead)
  have group: "subtract_group (conflictTab m) pl (procLocks lk) (conflicting m ?others)
      (modes_sum (conflicting m ?others)) = Some (modes_sum ?base \<noteq> 0)"
    if "modes_sum (conflicting m ?others) \<noteq> 0"
    using that mates by (intro subtract_group_result) (auto intro: modes_sum_cong)
  have base: "modes_sum (conflicting m ?others) \<noteq> 0" if "modes_sum ?base \<noteq> 0"
    using that by (subst (asm) some, force) (subst some, auto)
  consider (free) "conflictTab m AND grantMask lk = 0" | (mine) "modes_sum (conflicting m ?others) = 0"
    | (alone) "modes_sum (conflicting m ?others) \<noteq> 0" "groupLeader pl = MyProc \<and> lockGroupLeader (procs MyProc) = None"
    | (hard) "modes_sum (conflicting m ?others) \<noteq> 0" "locktag_type (lock_tag lk) \<in> {LOCKTAG_RELATION_EXTEND, LOCKTAG_PAGE}"
    | (rest) "modes_sum (conflicting m ?others) \<noteq> 0" "locktag_type (lock_tag lk) \<notin> {LOCKTAG_RELATION_EXTEND, LOCKTAG_PAGE}"
        "\<not> (groupLeader pl = MyProc \<and> lockGroupLeader (procs MyProc) = None)"
    by blast
  then show ?thesis
  proof cases
    case free
    then have "\<not> blocked_by procs lk p m" using global by (auto simp: blocked_by_def)
    then show ?thesis using free by (simp add: LockCheckConflicts_def)
  next
    case mine
    then show ?thesis using base unfolding run real by auto
  next
    case alone
    then have "\<exists>o' \<in> set ?others. \<exists>i. conflict m i \<and> bit (holdMask o') i" by (subst (asm) (1) some) auto
    moreover have "groupLeader o' \<noteq> leader_of procs p" if "o' \<in> set ?others" for o'
      using alone' alone that by auto
    ultimately have "blocked_by procs lk p m" "conflictTab m AND grantMask lk \<noteq> 0"
      unfolding blocked_by_def global by auto
    then show ?thesis unfolding run using alone by simp
  next
    case hard
    then have "conflictTab m AND grantMask lk \<noteq> 0" unfolding global by (subst (asm) (1) some) auto
    then show ?thesis unfolding run real using hard by simp
  next
    case rest
    then have "conflictTab m AND grantMask lk \<noteq> 0" unfolding global by (subst (asm) (1) some) auto
    then show ?thesis unfolding run real using rest group by auto
  qed
qed

section \<open>Who holds what\<close>

definition holdset :: "LOCK \<Rightarrow> (nat \<times> LOCKMODE) set" where
  "holdset lk = {(myProc pl, m) | pl m. pl \<in> set (procLocks lk) \<and> bit (holdMask pl) m}"

text \<open>May the two holds stand beside each other?\<close>

definition compatible :: "procs \<Rightarrow> LOCKTAG \<Rightarrow> nat \<times> LOCKMODE \<Rightarrow> nat \<times> LOCKMODE \<Rightarrow> bool" where
  "compatible procs tag x y \<longleftrightarrow> fst x = fst y
     \<or> leader_of procs (fst x) = leader_of procs (fst y) \<and> locktag_type tag \<notin> {LOCKTAG_RELATION_EXTEND, LOCKTAG_PAGE}
     \<or> \<not> conflict (snd x) (snd y)"

lemma holdset_find: "lock_ok x procs lk \<Longrightarrow> (p, m) \<in> holdset lk \<longleftrightarrow>
    (\<exists>pl. find_proclock p (procLocks lk) = Some pl \<and> bit (holdMask pl) m)"
  by (auto simp: holdset_def lock_ok_def dest: find_proclock_Some find_proclock_in)

lemma blocked_by_holdset:
  "lock_ok x procs lk \<Longrightarrow> blocked_by procs lk p m \<longleftrightarrow> (\<exists>y \<in> holdset lk. \<not> compatible procs (lock_tag lk) (p, m) y)"
  by (fastforce simp: blocked_by_def holdset_def compatible_def lock_ok_def proclock_ok_def)

lemma compatible_sym: "mode (snd x) \<Longrightarrow> mode (snd y) \<Longrightarrow> compatible procs tag x y = compatible procs tag y x"
  by (auto simp: compatible_def conflict_sym)

lemma holdset_mode: "lock_ok x procs lk \<Longrightarrow> (p, m) \<in> holdset lk \<Longrightarrow> mode m"
  by (auto simp: holdset_def lock_ok_def proclock_ok_def)

lemma Grant_fields [simp]:
  "lock_tag (GrantLock p m lk) = lock_tag lk" "waitProcs (GrantLock p m lk) = waitProcs lk"
  "requested (GrantLock p m lk) = requested lk" "nRequested (GrantLock p m lk) = nRequested lk"
  "map myProc (procLocks (GrantLock p m lk)) = map myProc (procLocks lk)"
  by (simp_all add: GrantLock_def Let_def)

lemma holdset_iff: "(q, n) \<in> holdset lk \<longleftrightarrow> (\<exists>pl \<in> set (procLocks lk). myProc pl = q \<and> bit (holdMask pl) n)"
  by (auto simp: holdset_def)

lemma ex_set_proclock: "(\<exists>pl \<in> set (set_proclock p f pls). P pl) \<longleftrightarrow> (\<exists>pl \<in> set pls. P (if myProc pl = p then f pl else pl))"
  by (induction pls) (auto simp: set_proclock_def)

lemma holdset_Grant:
  assumes "find_proclock p (procLocks lk) = Some pl" "mode m"
  shows "holdset (GrantLock p m lk) = insert (p, m) (holdset lk)"
proof -
  have "(q, n) \<in> holdset (GrantLock p m lk) \<longleftrightarrow> (q, n) \<in> insert (p, m) (holdset lk)" for q n
  proof -
    have "(q, n) \<in> holdset (GrantLock p m lk) \<longleftrightarrow>
        (\<exists>pl \<in> set (procLocks lk). myProc pl = q \<and> (bit (holdMask pl) n \<or> q = p \<and> n = m))"
      using mode_less [OF assms(2)]
      by (auto simp: holdset_iff GrantLock_def Let_def ex_set_proclock)
    then show ?thesis using find_proclock_Some [OF assms(1)] by (auto simp: holdset_iff)
  qed
  then show ?thesis by (intro set_eqI) (simp only: split_paired_all)
qed

lemma UnGrant_fields [simp]:
  "lock_tag (snd (UnGrantLock p m lk)) = lock_tag lk" "waitProcs (snd (UnGrantLock p m lk)) = waitProcs lk"
  "map myProc (procLocks (snd (UnGrantLock p m lk))) = map myProc (procLocks lk)"
  "waitMask (snd (UnGrantLock p m lk)) = waitMask lk"
  by (simp_all add: UnGrantLock_def Let_def)

lemma holdset_UnGrant: "holdset (snd (UnGrantLock p m lk)) = holdset lk - {(p, m)}"
proof -
  have "(q, n) \<in> holdset (snd (UnGrantLock p m lk)) \<longleftrightarrow> (q, n) \<in> holdset lk - {(p, m)}" for q n
    by (auto simp: holdset_iff UnGrantLock_def Let_def ex_set_proclock)
  then show ?thesis by (intro set_eqI) (simp only: split_paired_all)
qed

section \<open>Nobody waits without a reason\<close>

text \<open>Each process of a list has to wait: for a request in front of it (with a mode in \<open>A\<close> or of an
  earlier member of the list), or for a holder.\<close>

fun reasons :: "procs \<Rightarrow> LOCK \<Rightarrow> LOCKMODE set \<Rightarrow> nat list \<Rightarrow> bool" where
  "reasons procs lk A [] = True"
| "reasons procs lk A (p # ps) =
     (((\<exists>n \<in> A. conflict (waitLockMode (procs p)) n) \<or> blocked_by procs lk p (waitLockMode (procs p)))
      \<and> reasons procs lk (insert (waitLockMode (procs p)) A) ps)"

abbreviation awaited :: "procs \<Rightarrow> nat list \<Rightarrow> LOCKMODE set" where
  "awaited procs ps \<equiv> (\<lambda>p. waitLockMode (procs p)) ` set ps"

lemma reasons_append:
  "reasons procs lk A (ps @ qs) \<longleftrightarrow> reasons procs lk A ps \<and> reasons procs lk (A \<union> awaited procs ps) qs"
  by (induction ps arbitrary: A) auto

lemma reasons_mono:
  assumes "reasons procs lk A ps" "A \<subseteq> B" "\<And>p. p \<in> set ps \<Longrightarrow> waitLockMode (procs' p) = waitLockMode (procs p)"
    "\<And>p m. p \<in> set ps \<Longrightarrow> m = waitLockMode (procs p) \<Longrightarrow> blocked_by procs lk p m \<Longrightarrow> blocked_by procs' lk' p m"
  shows "reasons procs' lk' B ps"
  using assms
proof (induction ps arbitrary: A B)
  case (Cons p ps)
  have "reasons procs' lk' (insert (waitLockMode (procs p)) B) ps"
    by (rule Cons(1) [of "insert (waitLockMode (procs p)) A"]) (use Cons in auto)
  then show ?case using Cons by auto
qed simp

text \<open>What a wakeup changes: the processes \<open>W\<close> leave the queue with their locks.\<close>

definition awake :: "nat set \<Rightarrow> procs \<Rightarrow> procs" where
  "awake W procs p = (if p \<in> W then (procs p)\<lparr>waitLock := None, waitStatus := PROC_WAIT_STATUS_OK\<rparr> else procs p)"

definition woken :: "nat set \<Rightarrow> LOCK \<times> procs \<Rightarrow> LOCK \<times> procs \<Rightarrow> bool" where
  "woken W = (\<lambda>(lk, procs) (lk', procs').
     W \<subseteq> set (waitProcs lk) \<and> procs' = awake W procs
     \<and> lock_tag lk' = lock_tag lk \<and> requested lk' = requested lk \<and> nRequested lk' = nRequested lk
     \<and> map myProc (procLocks lk') = map myProc (procLocks lk)
     \<and> waitProcs lk' = filter (\<lambda>p. p \<notin> W) (waitProcs lk)
     \<and> holdset lk' = holdset lk \<union> {(p, waitLockMode (procs p)) | p. p \<in> W}
     \<and> (\<forall>p \<in> W. \<forall>y \<in> holdset lk'. compatible procs (lock_tag lk) (p, waitLockMode (procs p)) y))"

lemma awake_same [simp]:
  "waitLockMode (awake W procs p) = waitLockMode (procs p)" "lockGroupLeader (awake W procs p) = lockGroupLeader (procs p)"
  "leader_of (awake W procs) = leader_of procs" "compatible (awake W procs) = compatible procs"
  "groups_ok (awake W procs) = groups_ok procs" "awake {} procs = procs" "awake V (awake W procs) = awake (V \<union> W) procs"
  by (auto simp: awake_def leader_of_def compatible_def groups_ok_def fun_eq_iff)

lemma wakeup_waiters_result:
  assumes "lock_ok None procs lk" "groups_ok procs" "waitProcs lk = kept @ queue"
    "\<And>i. bit ahead i \<longleftrightarrow> i \<in> awaited procs kept" "reasons procs lk {} kept"
  shows "\<exists>W lk' procs'. wakeup_waiters MyProc queue ahead (lk, procs) = Some (lk', procs')
     \<and> woken W (lk, procs) (lk', procs') \<and> lock_ok None procs' lk' \<and> reasons procs' lk' {} (waitProcs lk')"
  using assms
proof (induction queue arbitrary: lk procs kept ahead)
  case Nil
  then have "woken {} (lk, procs) (lk, procs)" by (auto simp: woken_def)
  then show ?case using Nil by auto
next
  case (Cons p queue)
  let ?m = "waitLockMode (procs p)"
  have p: "p \<in> set (waitProcs lk)" "p \<notin> set kept" "p \<notin> set queue" using Cons(2,4) by (auto simp: lock_ok_def)
  obtain pl where pl: "find_proclock p (procLocks lk) = Some pl" "\<not> bit (holdMask pl) ?m" and m: "mode ?m"
    using Cons(2) p(1) by (auto simp: lock_ok_def waiter_ok_def)
  note check = LockCheckConflicts_exact [OF Cons(2,3) m pl(1), of MyProc]
  have ahead: "conflictTab ?m AND ahead = 0 \<longleftrightarrow> \<not> (\<exists>n \<in> awaited procs kept. conflict ?m n)"
    using Cons(5) by (auto simp: mask_disjoint)
  show ?case
  proof (cases "(\<exists>n \<in> awaited procs kept. conflict ?m n) \<or> blocked_by procs lk p ?m")
    case True
    have "bit (ahead OR LOCKBIT_ON ?m) i \<longleftrightarrow> i \<in> awaited procs (kept @ [p])" for i
      using Cons(5) [of i] mode_less [OF m] by auto
    moreover have "reasons procs lk {} (kept @ [p])" using Cons(6) True by (simp add: reasons_append)
    ultimately have "\<exists>W lk' procs'. wakeup_waiters MyProc queue (ahead OR LOCKBIT_ON ?m) (lk, procs) = Some (lk', procs')
        \<and> woken W (lk, procs) (lk', procs') \<and> lock_ok None procs' lk' \<and> reasons procs' lk' {} (waitProcs lk')"
      using Cons(2-4) by (intro Cons(1) [of procs lk "kept @ [p]"]) simp_all
    moreover have "wakeup_waiters MyProc (p # queue) ahead (lk, procs) = wakeup_waiters MyProc queue (ahead OR LOCKBIT_ON ?m) (lk, procs)"
      using True pl(1) check ahead by (auto simp: Let_def)
    ultimately show ?thesis by simp
  next
    case False
    let ?lk0 = "lk\<lparr>waitProcs := remove1 p (waitProcs lk)\<rparr>"
    let ?lk1 = "GrantLock p ?m ?lk0" and ?procs1 = "awake {p} procs"
    have wake: "ProcWakeup p PROC_WAIT_STATUS_OK (GrantLock p ?m lk, procs) = (?lk1, ?procs1)"
      by (auto simp: ProcWakeup_def GrantLock_def Let_def awake_def fun_eq_iff)
    have "lock_ok None procs ?lk1"
      by (rule lock_ok_Grant [OF lock_ok_dequeue [OF Cons(2) p(1)] m]) (use Cons(2) pl in \<open>auto simp: lock_ok_def\<close>)
    then have ok1: "lock_ok None ?procs1 ?lk1" by (rule lock_ok_procs) simp_all
    have queue1: "waitProcs ?lk1 = kept @ queue" using Cons(4) p(2) by (simp add: remove1_append)
    have hold1: "holdset ?lk1 = insert (p, ?m) (holdset lk)"
      using holdset_Grant [of p ?lk0 pl ?m] pl(1) m by (simp add: holdset_def)
    have grows: "blocked_by ?procs1 ?lk1 q n" if "blocked_by procs lk q n" for q n
      using that unfolding blocked_by_holdset [OF Cons(2)] blocked_by_holdset [OF ok1] hold1 by simp
    have "reasons ?procs1 ?lk1 {} kept" by (rule reasons_mono [OF Cons(6)]) (auto intro: grows)
    then have "\<exists>W lk' procs'. wakeup_waiters MyProc queue ahead (?lk1, ?procs1) = Some (lk', procs')
        \<and> woken W (?lk1, ?procs1) (lk', procs') \<and> lock_ok None procs' lk' \<and> reasons procs' lk' {} (waitProcs lk')"
      using Cons(3,5) ok1 queue1 by (intro Cons(1)) simp_all
    then obtain W lk' procs' where run: "wakeup_waiters MyProc queue ahead (?lk1, ?procs1) = Some (lk', procs')"
      and W: "woken W (?lk1, ?procs1) (lk', procs')" and rest: "lock_ok None procs' lk'" "reasons procs' lk' {} (waitProcs lk')"
      by blast
    have "woken (insert p W) (lk, procs) (lk', procs')"
    proof -
      have hold': "holdset lk' = insert (p, ?m) (holdset lk) \<union> {(p, waitLockMode (procs p)) | p. p \<in> W}"
        using W hold1 by (simp add: woken_def)
      have comp: "\<forall>q \<in> W. \<forall>y \<in> holdset lk'. compatible procs (lock_tag lk) (q, waitLockMode (procs q)) y"
        using W by (simp add: woken_def)
      have mW: "mode (waitLockMode (procs q))" if "q \<in> W" for q
        using that W Cons(2,4) queue1 by (auto simp: woken_def lock_ok_def waiter_ok_def)
      have "compatible procs (lock_tag lk) (p, ?m) y" if "y \<in> holdset lk'" for y
        using that False blocked_by_holdset [OF Cons(2), of p ?m] comp compatible_sym [of "(p, ?m)" y procs "lock_tag lk"] m mW
        unfolding hold' by (auto simp: compatible_def)
      moreover have "waitProcs lk' = filter (\<lambda>q. q \<notin> insert p W) (waitProcs lk)"
      proof -
        have "waitProcs lk' = filter (\<lambda>q. q \<notin> W) (kept @ queue)"
          using W unfolding woken_def prod.case queue1 by blast
        moreover have "filter (\<lambda>q. q \<noteq> p \<and> q \<notin> W) xs = filter (\<lambda>q. q \<notin> W) xs" if "p \<notin> set xs" for xs
          using that by (intro filter_cong) auto
        ultimately show ?thesis using p(2,3) by (simp add: Cons(4))
      qed
      ultimately have all: "\<forall>q \<in> insert p W. \<forall>y \<in> holdset lk'. compatible procs (lock_tag lk) (q, waitLockMode (procs q)) y"
        "waitProcs lk' = filter (\<lambda>q. q \<notin> insert p W) (waitProcs lk)" using comp by blast+
      have "W \<subseteq> set (kept @ queue)" using W unfolding woken_def prod.case queue1 by blast
      then have "insert p W \<subseteq> set (waitProcs lk)" unfolding Cons(4) by auto
      moreover have "procs' = awake (insert p W) procs" "lock_tag lk' = lock_tag lk" "requested lk' = requested lk"
        "nRequested lk' = nRequested lk" "map myProc (procLocks lk') = map myProc (procLocks lk)"
        using W by (auto simp: woken_def simp del: list.map)
      moreover have "holdset lk' = holdset lk \<union> {(q, waitLockMode (procs q)) | q. q \<in> insert p W}"
        unfolding hold' by blast
      ultimately show ?thesis using all unfolding woken_def prod.case by (intro conjI)
    qed
    moreover have "wakeup_waiters MyProc (p # queue) ahead (lk, procs) = Some (lk', procs')"
      using False pl(1) check ahead wake run by (auto simp: Let_def)
    ultimately show ?thesis using rest by blast
  qed
qed

lemma ProcLockWakeup_result:
  assumes "lock_ok None procs lk" "groups_ok procs"
  shows "\<exists>W lk' procs'. ProcLockWakeup MyProc (lk, procs) = Some (lk', procs')
     \<and> woken W (lk, procs) (lk', procs') \<and> lock_ok None procs' lk' \<and> reasons procs' lk' {} (waitProcs lk')"
  using wakeup_waiters_result [OF assms, of "[]" "waitProcs lk" 0] by (simp add: ProcLockWakeup_def)

end
