(* ===== verification/LockRequests.thy ===== *)
theory LockRequests
  imports LockInvariants "HOL-Library.Multiset"
begin

text \<open>
  What the operations of \<^verbatim>\<open>lock.c\<close> and \<^verbatim>\<open>proc.c\<close> under a partition lock come to: who holds the lock
  afterwards, who waits and who is woken.  Then the runs: any processes perform operations on one lock
  in any order.
\<close>

section \<open>Entries of the table\<close>

text \<open>Every PROCLOCK is there for a hold or for a wait.\<close>

definition tidy :: "nat set \<Rightarrow> LOCK \<Rightarrow> bool" where
  "tidy P lk \<longleftrightarrow> (\<forall>p \<in> set (map myProc (procLocks lk)). p \<in> fst ` holdset lk \<union> set (waitProcs lk) \<union> P)"

definition sound :: "procs \<Rightarrow> LOCK \<Rightarrow> bool" where
  "sound procs lk \<longleftrightarrow> lock_ok None procs lk \<and> tidy {} lk \<and> nRequested lk \<noteq> 0 \<and> reasons procs lk {} (waitProcs lk)"

definition entry_sound :: "procs \<Rightarrow> LOCKTAG \<Rightarrow> LOCK option \<Rightarrow> bool" where
  "entry_sound procs tag entry \<longleftrightarrow> (\<forall>lk. entry = Some lk \<longrightarrow> sound procs lk \<and> lock_tag lk = tag)"

definition entry_holds :: "LOCK option \<Rightarrow> (nat \<times> LOCKMODE) set" where
  "entry_holds entry = (case entry of None \<Rightarrow> {} | Some lk \<Rightarrow> holdset lk)"

definition entry_queue :: "LOCK option \<Rightarrow> nat list" where
  "entry_queue entry = (case entry of None \<Rightarrow> [] | Some lk \<Rightarrow> waitProcs lk)"

lemma entry_simps [simp]:
  "entry_sound procs tag None" "entry_sound procs tag (Some lk) \<longleftrightarrow> sound procs lk \<and> lock_tag lk = tag"
  "entry_holds None = {}" "entry_holds (Some lk) = holdset lk" "entry_queue None = []" "entry_queue (Some lk) = waitProcs lk"
  by (auto simp: entry_sound_def entry_holds_def entry_queue_def)

text \<open>From the queue \<open>Q\<close> and the holds \<open>H\<close>, the waiters \<open>W\<close> are woken.\<close>

definition effect :: "procs \<Rightarrow> LOCKTAG \<Rightarrow> nat list \<Rightarrow> (nat \<times> LOCKMODE) set \<Rightarrow> nat set \<Rightarrow> LOCK option \<Rightarrow> procs \<Rightarrow> bool" where
  "effect procs tag Q H W entry procs' \<longleftrightarrow> W \<subseteq> set Q \<and> procs' = awake W procs \<and> entry_sound procs' tag entry
     \<and> entry_queue entry = filter (\<lambda>p. p \<notin> W) Q
     \<and> entry_holds entry = H \<union> {(p, waitLockMode (procs p)) | p. p \<in> W}
     \<and> (\<forall>p \<in> W. \<forall>y \<in> entry_holds entry. compatible procs tag (p, waitLockMode (procs p)) y)"

lemma no_requests:
  assumes "lock_ok None procs lk" "nRequested lk = 0"
  shows "holdset lk = {}" "waitProcs lk = []"
proof -
  have "modes_sum (requested lk) = 0" and "requested lk = (\<lambda>m. holders m (procLocks lk) + waiting procs m (waitProcs lk))"
    using assms by (auto simp: lock_ok_def)
  then have "modes_sum (\<lambda>m. holders m (procLocks lk) + waiting procs m (waitProcs lk)) = 0" by simp
  then have zero: "holders m (procLocks lk) + waiting procs m (waitProcs lk) = 0" if "mode m" for m
    using that by (subst (asm) modes_sum_zero) (auto intro: add_nonneg_nonneg)
  have zero': "holders m (procLocks lk) = 0 \<and> waiting procs m (waitProcs lk) = 0" if "mode m" for m
    using zero [OF that] holders_nonneg(1) [of m "procLocks lk"] holders_nonneg(2) [of procs m "waitProcs lk"] by linarith
  have "(p, m) \<notin> holdset lk" for p m
  proof
    assume h: "(p, m) \<in> holdset lk"
    then have "0 < holders m (procLocks lk)" by (auto simp: holders_pos holdset_iff)
    then show False using zero' [OF holdset_mode [OF assms(1) h]] by simp
  qed
  then show "holdset lk = {}" by auto
  have "p \<notin> set (waitProcs lk)" for p
  proof
    assume p: "p \<in> set (waitProcs lk)"
    then have "mode (waitLockMode (procs p))" using assms(1) by (auto simp: lock_ok_def waiter_ok_def)
    then show False using zero' [of "waitLockMode (procs p)"] p waiting_pos [of procs "waitLockMode (procs p)" "waitProcs lk"] by auto
  qed
  then show "waitProcs lk = []" by (cases "waitProcs lk") auto
qed

lemma hold_zero: "holdMask pl = 0 \<longleftrightarrow> (\<forall>m. \<not> bit (holdMask pl) m)"
  by (metis bit_0_eq bit_eqI bot_apply bot_bool_def)

lemma blocked_by_cong:
  assumes "lock_ok x procs lk" "lock_ok y procs lk'" "holdset lk' = holdset lk" "lock_tag lk' = lock_tag lk"
  shows "blocked_by procs lk' p m = blocked_by procs lk p m"
  using assms by (simp add: blocked_by_holdset)

lemma reasons_cong:
  assumes "lock_ok x procs lk" "lock_ok y procs lk'" "holdset lk' = holdset lk" "lock_tag lk' = lock_tag lk"
  shows "reasons procs lk' A ps = reasons procs lk A ps"
  using blocked_by_cong [OF assms] by (induction ps arbitrary: A) auto

text \<open>The lock without the PROCLOCK of a process, when that is idle.\<close>

definition without_idle :: "nat \<Rightarrow> LOCK \<Rightarrow> LOCK" where
  "without_idle p lk = (case find_proclock p (procLocks lk) of
      Some pl \<Rightarrow> if holdMask pl = 0 then lk\<lparr>procLocks := filter (\<lambda>pl. myProc pl \<noteq> p) (procLocks lk)\<rparr> else lk
    | None \<Rightarrow> lk)"

lemma without_idle_fields [simp]:
  "lock_tag (without_idle p lk) = lock_tag lk" "waitProcs (without_idle p lk) = waitProcs lk"
  "nRequested (without_idle p lk) = nRequested lk"
  by (auto simp: without_idle_def split: option.splits)

lemma without_idle_result:
  assumes ok: "lock_ok None procs lk" and tidy: "tidy {p} lk" and p: "p \<notin> set (waitProcs lk)"
  shows "lock_ok None procs (without_idle p lk)" "holdset (without_idle p lk) = holdset lk" "tidy {} (without_idle p lk)"
proof -
  have d: "distinct (map myProc (procLocks lk))" using ok by (simp add: lock_ok_def)
  show "lock_ok None procs (without_idle p lk)"
    using ok lock_ok_drop [OF ok p] by (auto simp: without_idle_def split: option.splits)
  show hold: "holdset (without_idle p lk) = holdset lk"
  proof (cases "find_proclock p (procLocks lk)")
    case (Some pl)
    then have "\<not> bit (holdMask y) m" if "holdMask pl = 0" "y \<in> set (procLocks lk)" "myProc y = p" for y m
      using find_proclock_in [OF d that(2)] that by simp
    then show ?thesis using Some by (auto simp: without_idle_def holdset_def)
  qed (simp add: without_idle_def)
  have "q \<in> fst ` holdset lk \<union> set (waitProcs lk)" if q: "q \<in> set (map myProc (procLocks (without_idle p lk)))" for q
  proof (cases "q = p")
    case True
    then obtain pl where pl: "find_proclock p (procLocks (without_idle p lk)) = Some pl"
      using q find_proclock_None [of p "procLocks (without_idle p lk)"] by auto
    then have "find_proclock p (procLocks lk) = Some pl \<and> holdMask pl \<noteq> 0"
      by (auto simp: without_idle_def find_filter split: option.splits if_splits)
    then show ?thesis using True find_proclock_Some by (fastforce simp: hold_zero holdset_def image_iff)
  next
    case False
    have "q \<in> set (map myProc (procLocks lk))" using q by (auto simp: without_idle_def split: option.splits if_splits)
    then show ?thesis using tidy False by (auto simp: tidy_def)
  qed
  then show "tidy {} (without_idle p lk)" unfolding tidy_def hold without_idle_fields by auto
qed

lemma woken_tidy:
  assumes w: "woken W (lk, procs) (lk', procs')" and tidy: "tidy {} lk"
  shows "tidy {} lk'"
proof -
  have names: "map myProc (procLocks lk') = map myProc (procLocks lk)" using w by (simp only: woken_def prod.case)
  show ?thesis unfolding tidy_def names
  proof
    fix q assume "q \<in> set (map myProc (procLocks lk))"
    then have "q \<in> fst ` holdset lk \<union> set (waitProcs lk)" using tidy by (auto simp: tidy_def)
    moreover have "holdset lk' = holdset lk \<union> {(p, waitLockMode (procs p)) | p. p \<in> W}"
      "waitProcs lk' = filter (\<lambda>p. p \<notin> W) (waitProcs lk)" using w by (simp_all add: woken_def)
    ultimately show "q \<in> fst ` holdset lk' \<union> set (waitProcs lk') \<union> {}" by (cases "q \<in> W") force+
  qed
qed

lemma CleanUpLock_result:
  assumes ok: "lock_ok None procs lk" and groups: "groups_ok procs" and tidy: "tidy {p} lk" and p: "p \<notin> set (waitProcs lk)"
    and reasons: "wakeupNeeded \<or> reasons procs lk {} (waitProcs lk)"
  shows "\<exists>W entry procs'. CleanUpLock MyProc p wakeupNeeded (lk, procs) = Some (entry, procs')
     \<and> effect procs (lock_tag lk) (waitProcs lk) (holdset lk) W entry procs'"
proof -
  let ?lk = "without_idle p lk"
  note ok1 = without_idle_result(1) [OF ok tidy p] and hold = without_idle_result(2) [OF ok tidy p]
    and tidy1 = without_idle_result(3) [OF ok tidy p] and same = without_idle_fields [of p lk]
  have run: "CleanUpLock MyProc p wakeupNeeded (lk, procs) =
    (if nRequested ?lk = 0 then Some (None, procs)
     else if wakeupNeeded
     then (case ProcLockWakeup MyProc (?lk, procs) of
             None \<Rightarrow> None | Some (lock, allProcs) \<Rightarrow> Some (Some lock, allProcs))
     else Some (Some ?lk, procs))"
    unfolding CleanUpLock_def without_idle_def Let_def by (simp cong: option.case_cong)
  consider (gone) "nRequested ?lk = 0" | (wake) "nRequested ?lk \<noteq> 0" wakeupNeeded
    | (keep) "nRequested ?lk \<noteq> 0" "\<not> wakeupNeeded" by blast
  then show ?thesis
  proof cases
    case gone
    then have "effect procs (lock_tag lk) (waitProcs lk) (holdset lk) {} None procs"
      using no_requests [OF ok1] hold same by (auto simp: effect_def)
    then show ?thesis using run gone by auto
  next
    case wake
    obtain W lk' procs' where w: "ProcLockWakeup MyProc (?lk, procs) = Some (lk', procs')" "woken W (?lk, procs) (lk', procs')"
      "lock_ok None procs' lk'" "reasons procs' lk' {} (waitProcs lk')"
      using ProcLockWakeup_result [OF ok1 groups] by blast
    have "tidy {} lk'" by (rule woken_tidy [OF w(2) tidy1])
    then have "effect procs (lock_tag lk) (waitProcs lk) (holdset lk) W (Some lk') procs'"
      using w wake same hold by (auto simp: effect_def woken_def sound_def)
    then show ?thesis using run wake w(1) by auto
  next
    case keep
    then have "reasons procs ?lk {} (waitProcs ?lk)"
      using reasons reasons_cong [OF ok ok1 hold same(1)] same by simp
    then have "effect procs (lock_tag lk) (waitProcs lk) (holdset lk) {} (Some ?lk) procs"
      using ok1 tidy1 keep hold same by (auto simp: effect_def sound_def)
    then show ?thesis using run keep by auto
  qed
qed

text \<open>A process gives back modes one by one; \<open>w\<close> tells whether somebody may have to be woken.\<close>

definition releasing :: "nat \<Rightarrow> procs \<Rightarrow> bool \<Rightarrow> LOCK \<Rightarrow> bool" where
  "releasing p procs w lk \<longleftrightarrow> lock_ok None procs lk \<and> tidy {p} lk \<and> (w \<or> reasons procs lk {} (waitProcs lk))"

lemma UnGrant_releasing:
  assumes rel: "releasing p procs w lk" and hold: "(p, m) \<in> holdset lk"
  shows "releasing p procs (w \<or> fst (UnGrantLock p m lk)) (snd (UnGrantLock p m lk))"
proof -
  let ?lk = "snd (UnGrantLock p m lk)"
  have ok: "lock_ok None procs lk" using rel by (simp add: releasing_def)
  obtain pl where pl: "find_proclock p (procLocks lk) = Some pl" "bit (holdMask pl) m"
    using hold unfolding holdset_find [OF ok] by blast
  have ok': "lock_ok None procs ?lk" by (rule lock_ok_UnGrant [OF ok pl])
  have "tidy {p} ?lk"
    using rel unfolding releasing_def tidy_def UnGrant_fields holdset_UnGrant by force
  moreover have "reasons procs ?lk {} (waitProcs ?lk)" if quiet: "\<not> (w \<or> fst (UnGrantLock p m lk))"
  proof -
    have free: "\<not> bit (waitMask lk) n" if "conflict m n" for n
      using that quiet by (auto simp: UnGrantLock_def Let_def mask_disjoint)
    have "reasons procs ?lk {} (waitProcs lk)"
    proof (rule reasons_mono [where A = "{}" and lk = lk and procs = procs])
      show "reasons procs lk {} (waitProcs lk)" using rel quiet by (simp add: releasing_def)
      fix q n assume q: "q \<in> set (waitProcs lk)" "n = waitLockMode (procs q)" "blocked_by procs lk q n"
      have n: "mode n" "bit (waitMask lk) n"
        using ok q(1,2) by (auto simp: lock_ok_def waiter_ok_def waiting_pos)
      have "mode m" using holdset_mode [OF ok hold] .
      then have "\<not> conflict n m" using free n conflict_sym by blast
      obtain y where y: "y \<in> holdset lk" "\<not> compatible procs (lock_tag lk) (q, n) y"
        using q(3) unfolding blocked_by_holdset [OF ok] by blast
      moreover have "y \<noteq> (p, m)" using y(2) \<open>\<not> conflict n m\<close> by (auto simp: compatible_def)
      ultimately show "blocked_by procs ?lk q n" unfolding blocked_by_holdset [OF ok'] holdset_UnGrant by auto
    qed auto
    then show ?thesis by simp
  qed
  ultimately show ?thesis using ok' by (auto simp: releasing_def)
qed

lemma release_lock_result:
  assumes snd: "sound procs lk" and groups: "groups_ok procs" and hold: "(p, m) \<in> holdset lk" and p: "p \<notin> set (waitProcs lk)"
  shows "\<exists>W entry procs'. release_lock MyProc p m (lk, procs) = Some (entry, procs')
     \<and> effect procs (lock_tag lk) (waitProcs lk) (holdset lk - {(p, m)}) W entry procs'"
proof -
  have "releasing p procs False lk" using snd by (auto simp: sound_def releasing_def tidy_def)
  from UnGrant_releasing [OF this hold] show ?thesis
    using CleanUpLock_result [of procs "snd (UnGrantLock p m lk)" p "fst (UnGrantLock p m lk)" MyProc] groups p
    by (simp add: releasing_def holdset_UnGrant release_lock_def case_prod_beta)
qed

lemma ungrant_modes_result:
  assumes "releasing p procs w lk" "distinct ms" "\<And>m. m \<in> set ms \<Longrightarrow> bit M m \<Longrightarrow> (p, m) \<in> holdset lk"
  shows "\<exists>w' lk'. fold (ungrant_mode p M) ms (w, lk) = (w', lk') \<and> releasing p procs w' lk'
     \<and> holdset lk' = holdset lk - {(p, m) | m. m \<in> set ms \<and> bit M m}
     \<and> lock_tag lk' = lock_tag lk \<and> waitProcs lk' = waitProcs lk"
  using assms
proof (induction ms arbitrary: w lk)
  case (Cons m ms)
  show ?case
  proof (cases "bit M m")
    case True
    let ?u = "UnGrantLock p m lk"
    have "releasing p procs (w \<or> fst ?u) (snd ?u)"
      by (rule UnGrant_releasing [OF Cons(2)]) (use Cons(4) True in simp)
    moreover have "(p, n) \<in> holdset (snd ?u)" if "n \<in> set ms" "bit M n" for n
      using Cons(3,4) that by (auto simp: holdset_UnGrant)
    ultimately obtain w' lk' where "fold (ungrant_mode p M) ms (w \<or> fst ?u, snd ?u) = (w', lk')" "releasing p procs w' lk'"
      "holdset lk' = holdset (snd ?u) - {(p, m) | m. m \<in> set ms \<and> bit M m}"
      "lock_tag lk' = lock_tag lk" "waitProcs lk' = waitProcs lk"
      using Cons(1) [of "w \<or> fst ?u" "snd ?u"] Cons(3) by auto
    moreover have "ungrant_mode p M m (w, lk) = (w \<or> fst ?u, snd ?u)" using True by (simp add: ungrant_mode_def case_prod_beta)
    moreover have "holdset (snd ?u) - {(p, n) | n. n \<in> set ms \<and> bit M n} = holdset lk - {(p, n) | n. n \<in> set (m # ms) \<and> bit M n}"
      using True unfolding holdset_UnGrant by auto
    ultimately show ?thesis by simp
  next
    case False
    then have "ungrant_mode p M m (w, lk) = (w, lk)" by (simp add: ungrant_mode_def)
    moreover have "{(p, n) | n. n \<in> set (m # ms) \<and> bit M n} = {(p, n) | n. n \<in> set ms \<and> bit M n}" using False by auto
    ultimately show ?thesis using Cons(1) [of w lk] Cons(2-4) by simp
  qed
qed simp

lemma release_proclock_result:
  assumes snd: "sound procs lk" and groups: "groups_ok procs" and p: "p \<notin> set (waitProcs lk)"
    and hold: "\<And>m. mode m \<Longrightarrow> bit M m \<Longrightarrow> (p, m) \<in> holdset lk"
  shows "\<exists>W entry procs'. release_proclock MyProc p M (lk, procs) = Some (entry, procs')
     \<and> effect procs (lock_tag lk) (waitProcs lk) (holdset lk - {(p, m) | m. mode m \<and> bit M m}) W entry procs'"
proof -
  have "releasing p procs False lk" using snd by (auto simp: sound_def releasing_def tidy_def)
  then obtain w lk' where run: "fold (ungrant_mode p M) [1..<numLockModes + 1] (False, lk) = (w, lk')"
    and rel: "releasing p procs w lk'" and lk': "holdset lk' = holdset lk - {(p, m) | m. mode m \<and> bit M m}"
      "lock_tag lk' = lock_tag lk" "waitProcs lk' = waitProcs lk"
    using ungrant_modes_result [of p procs False lk "[1..<numLockModes + 1]" M] hold by (auto simp only: mode_def distinct_upt)
  show ?thesis
    using CleanUpLock_result [of procs lk' p w MyProc] rel groups p run by (simp add: releasing_def release_proclock_def lk')
qed

lemma RemoveFromWaitQueue_result:
  assumes snd: "lock_ok None procs lk" "tidy {} lk" and groups: "groups_ok procs" and p: "p \<in> set (waitProcs lk)"
  shows "\<exists>W entry procs'. RemoveFromWaitQueue MyProc p (lk, procs) = Some (entry, procs')
     \<and> effect (procs(p := (procs p)\<lparr>waitLock := None, waitStatus := PROC_WAIT_STATUS_ERROR\<rparr>))
         (lock_tag lk) (remove1 p (waitProcs lk)) (holdset lk) W entry procs'"
proof -
  let ?m = "waitLockMode (procs p)" and ?procs = "procs(p := (procs p)\<lparr>waitLock := None, waitStatus := PROC_WAIT_STATUS_ERROR\<rparr>)"
  let ?old = "lk\<lparr>waitProcs := remove1 p (waitProcs lk)\<rparr>"
  let ?w = "if granted lk ?m = requested lk ?m - 1 then waitMask lk AND LOCKBIT_OFF ?m else waitMask lk"
  let ?lk = "lk\<lparr>waitProcs := remove1 p (waitProcs lk), nRequested := nRequested lk - 1,
     requested := (requested lk)(?m := requested lk ?m - 1), waitMask := ?w\<rparr>"
  have m: "mode ?m" and d: "distinct (waitProcs lk)" using snd(1) p by (auto simp: lock_ok_def waiter_ok_def)
  have ok0: "lock_ok (Some ?m) procs ?old" by (rule lock_ok_dequeue [OF snd(1) p])
  have "granted lk ?m = requested lk ?m - 1 \<longleftrightarrow> waiting procs ?m (waitProcs ?old) = 0"
    using ok0 by (simp add: lock_ok_def)
  then have "?w = waitMask ?old AND LOCKBIT_OFF ?m \<and> waiting procs ?m (waitProcs ?old) = 0
      \<or> ?w = waitMask ?old \<and> (bit (waitMask ?old) ?m \<longrightarrow> 0 < waiting procs ?m (waitProcs ?old))"
    using holders_nonneg(2) [of procs ?m "waitProcs ?old"] by (simp del: holders_nonneg)
  then have "lock_ok None procs ?lk" using lock_ok_withdraw [OF ok0 m] by simp
  then have ok: "lock_ok None ?procs ?lk" by (rule lock_ok_procs) auto
  have hold: "holdset ?lk = holdset lk" by (simp add: holdset_def)
  have "tidy {p} ?lk" using snd(2) unfolding tidy_def hold by auto
  moreover have "groups_ok ?procs" using groups by (auto simp: groups_ok_def)
  ultimately show ?thesis
    using CleanUpLock_result [OF ok, of p True MyProc] d
    by (simp add: RemoveFromWaitQueue_def Let_def hold)
qed

section \<open>Requests\<close>

lemma find_place_result:
  assumes "LockCheckConflicts p procs m lk pl = Some b"
  shows "\<exists>place. find_place p procs m held lk pl queue ahead = Some place
    \<and> (place = GrantNow \<longrightarrow> \<not> b) \<and> (\<forall>q. place = EarlyDeadlock q \<longrightarrow> q \<in> set queue)
    \<and> (\<forall>q. place = Before q \<longrightarrow> (\<exists>xs ys. queue = xs @ q # ys
         \<and> (b \<or> (\<exists>n. conflict m n \<and> (bit ahead n \<or> n \<in> awaited procs xs)))))"
proof (induction queue arbitrary: ahead)
  case (Cons r queue)
  let ?n = "waitLockMode (procs r)"
  have step: "\<exists>xs ys. r # queue = xs @ q # ys \<and> (b \<or> (\<exists>n. conflict m n \<and> (bit ahead n \<or> n \<in> awaited procs xs)))"
    if old: "\<exists>xs ys. queue = xs @ q # ys \<and> (b \<or> (\<exists>n. conflict m n \<and> (bit a n \<or> n \<in> awaited procs xs)))"
      and more: "\<And>n. bit a n \<Longrightarrow> bit ahead n \<or> n = ?n" for q a
  proof -
    obtain xs ys where "queue = xs @ q # ys" "b \<or> (\<exists>n. conflict m n \<and> (bit a n \<or> n \<in> awaited procs xs))"
      using old by (elim exE conjE)
    then have "r # queue = (r # xs) @ q # ys" "b \<or> (\<exists>n. conflict m n \<and> (bit ahead n \<or> n \<in> awaited procs (r # xs)))"
      using more by auto
    then show ?thesis by blast
  qed
  have pass: "\<exists>place. find_place p procs m held lk pl queue a = Some place
    \<and> (place = GrantNow \<longrightarrow> \<not> b) \<and> (\<forall>q. place = EarlyDeadlock q \<longrightarrow> q \<in> set (r # queue))
    \<and> (\<forall>q. place = Before q \<longrightarrow> (\<exists>xs ys. r # queue = xs @ q # ys
         \<and> (b \<or> (\<exists>n. conflict m n \<and> (bit ahead n \<or> n \<in> awaited procs xs)))))"
    if more: "\<And>n. bit a n \<Longrightarrow> bit ahead n \<or> n = ?n" for a
  proof -
    obtain place where place: "find_place p procs m held lk pl queue a = Some place"
      "place = GrantNow \<longrightarrow> \<not> b" "\<And>q. place = EarlyDeadlock q \<longrightarrow> q \<in> set queue"
      "\<And>q. place = Before q \<Longrightarrow> \<exists>xs ys. queue = xs @ q # ys
         \<and> (b \<or> (\<exists>n. conflict m n \<and> (bit a n \<or> n \<in> awaited procs xs)))"
      using Cons [of a] by blast
    have "\<exists>xs ys. r # queue = xs @ q # ys \<and> (b \<or> (\<exists>n. conflict m n \<and> (bit ahead n \<or> n \<in> awaited procs xs)))"
      if q: "place = Before q" for q
      by (rule step [OF place(4) [OF q] more])
    then show ?thesis using place(1,2,3) by (intro exI [of _ place]) simp
  qed
  show ?case
  proof (cases "lockGroupLeader (procs p) \<noteq> None \<and> lockGroupLeader (procs p) = lockGroupLeader (procs r)")
    case True
    then have "find_place p procs m held lk pl (r # queue) ahead = find_place p procs m held lk pl queue ahead"
      unfolding find_place.simps(2) by (intro if_P)
    then show ?thesis using pass [of ahead] by simp
  next
    case False
    note here = find_place.simps(2) [of p procs m held lk pl r queue ahead, unfolded if_not_P [OF False]]
    show ?thesis
    proof (cases "conflictTab ?n AND held = 0")
      case True
      then have "find_place p procs m held lk pl (r # queue) ahead
          = find_place p procs m held lk pl queue (ahead OR LOCKBIT_ON ?n)"
        unfolding here by simp
      moreover have "bit (ahead OR LOCKBIT_ON ?n) n \<Longrightarrow> bit ahead n \<or> n = ?n" for n by auto
      ultimately show ?thesis using pass [of "ahead OR LOCKBIT_ON ?n"] by presburger
    next
      case conflicts: False
      show ?thesis
      proof (cases "conflictTab m AND heldLocks (procs r) = 0")
        case True
        have front: "\<exists>xs ys. r # queue = xs @ r # ys \<and> (b \<or> (\<exists>n. conflict m n \<and> (bit ahead n \<or> n \<in> awaited procs xs)))"
          if "b \<or> (\<exists>n. conflict m n \<and> bit ahead n)"
          using that by (intro exI [of _ "[]"] exI [of _ queue]) auto
        show ?thesis
        proof (cases "conflictTab m AND ahead = 0")
          case free: True
          show ?thesis
          proof (cases b)
            case b: True
            then have "find_place p procs m held lk pl (r # queue) ahead = Some (Before r)"
              unfolding here using conflicts True free assms by simp
            then show ?thesis using front b by auto
          next
            case b: False
            then have "find_place p procs m held lk pl (r # queue) ahead = Some GrantNow"
              unfolding here using conflicts True free assms by simp
            then show ?thesis using b by auto
          qed
        next
          case taken: False
          then have "find_place p procs m held lk pl (r # queue) ahead = Some (Before r)"
            unfolding here using conflicts True assms by simp
          moreover have "\<exists>n. conflict m n \<and> bit ahead n" using taken by (simp add: mask_disjoint)
          ultimately show ?thesis using front by auto
        qed
      next
        case dead: False
        then have "find_place p procs m held lk pl (r # queue) ahead = Some (EarlyDeadlock r)"
          unfolding here using conflicts by simp
        then show ?thesis by simp
      qed
    qed
  qed
qed simp

lemma same_groups:
  "(\<And>p. lockGroupLeader (procs' p) = lockGroupLeader (procs p)) \<Longrightarrow> compatible procs' = compatible procs"
  "(\<And>p. lockGroupLeader (procs' p) = lockGroupLeader (procs p)) \<Longrightarrow> groups_ok procs' = groups_ok procs"
  by (auto simp: compatible_def leader_of_def groups_ok_def fun_eq_iff)

lemma insert_before_split: "q \<notin> set xs \<Longrightarrow> insert_before p q (xs @ q # ys) = xs @ p # q # ys"
  by (induction xs) auto

lemma enqueue_sound:
  assumes ok: "lock_ok (Some m) procs lk" and m: "mode m" and p: "p \<notin> set (waitProcs lk)"
    and pl: "find_proclock p (procLocks lk) = Some pl" "\<not> bit (holdMask pl) m"
    and tidy: "tidy {p} lk" and reasons: "reasons procs lk {} (waitProcs lk)"
    and place: "place (waitProcs lk) = xs @ p # ys" "waitProcs lk = xs @ ys"
      "place = (\<lambda>queue. queue @ [p]) \<or> place = insert_before p q"
    and why: "blocked_by procs lk p m \<or> (\<exists>n \<in> awaited procs xs. conflict m n)"
    and step: "enter_queue p m place (lk, procs) = (lk', procs')"
  shows "sound procs' lk'"
proof -
  have lk': "lk' = lk\<lparr>waitProcs := xs @ p # ys, waitMask := waitMask lk OR LOCKBIT_ON m\<rparr>"
    and procs': "procs' = procs(p := (procs p)\<lparr>waitLock := Some (lock_tag lk), waitLockMode := m,
                           waitStatus := PROC_WAIT_STATUS_WAITING\<rparr>)"
    using step place(1) by (auto simp: enter_queue_def)
  have ok': "lock_ok None procs' lk'" by (rule lock_ok_enqueue [OF ok m p pl place(3) step])
  have hold: "holdset lk' = holdset lk" by (simp add: lk' holdset_def)
  have blocked: "blocked_by procs' lk' r n = blocked_by procs lk r n" for r n
    unfolding blocked_by_holdset [OF ok] blocked_by_holdset [OF ok'] hold
    by (simp add: lk' same_groups [of procs procs'] procs')
  have mono: "reasons procs' lk' B rs" if "reasons procs lk A rs" "A \<subseteq> B" "p \<notin> set rs" for A B rs
    by (rule reasons_mono [OF that(1,2)]) (use that(3) blocked in \<open>auto simp: procs'\<close>)
  have px: "p \<notin> set xs" "p \<notin> set ys" using p place(2) by auto
  have "reasons procs' lk' {} (xs @ p # ys)"
    unfolding reasons_append reasons.simps
  proof (intro conjI)
    show "reasons procs' lk' {} xs" by (rule mono [where A = "{}"]) (use reasons place(2) px in \<open>auto simp: reasons_append\<close>)
    have same: "awaited procs' xs = awaited procs xs" using px(1) by (auto simp: procs')
    then show "(\<exists>n \<in> {} \<union> awaited procs' xs. conflict (waitLockMode (procs' p)) n) \<or> blocked_by procs' lk' p (waitLockMode (procs' p))"
      using why blocked by (auto simp: procs')
    show "reasons procs' lk' (insert (waitLockMode (procs' p)) ({} \<union> awaited procs' xs)) ys"
      by (rule mono [where A = "awaited procs xs"]) (use reasons place(2) px same in \<open>auto simp: reasons_append\<close>)
  qed
  moreover have "tidy {} lk'" using tidy place(2) unfolding tidy_def hold by (auto simp: lk')
  moreover have "nRequested lk' \<noteq> 0" using no_requests(2) [OF ok'] lk' by auto
  ultimately show ?thesis using ok' by (simp add: sound_def lk')
qed

text \<open>The request of process \<open>p\<close> for mode \<open>m\<close> is counted, and nothing else.\<close>

definition awaiting_grant :: "nat \<Rightarrow> LOCKMODE \<Rightarrow> procs \<Rightarrow> LOCKTAG \<Rightarrow> LOCK option \<Rightarrow> LOCK \<Rightarrow> PROCLOCK \<Rightarrow> bool" where
  "awaiting_grant p m procs tag entry lk pl \<longleftrightarrow> lock_ok (Some m) procs lk
     \<and> find_proclock p (procLocks lk) = Some pl \<and> \<not> bit (holdMask pl) m
     \<and> tidy {p} lk \<and> holdset lk = entry_holds entry \<and> waitProcs lk = entry_queue entry \<and> lock_tag lk = tag
     \<and> reasons procs lk {} (waitProcs lk) \<and> (bit (waitMask lk) m \<longrightarrow> 0 < waiting procs m (waitProcs lk))"

lemma awaiting_grantD:
  assumes "awaiting_grant p m procs tag entry lk pl"
  shows "lock_ok (Some m) procs lk" "find_proclock p (procLocks lk) = Some pl" "\<not> bit (holdMask pl) m" "tidy {p} lk"
    "holdset lk = entry_holds entry" "waitProcs lk = entry_queue entry" "lock_tag lk = tag"
    "reasons procs lk {} (waitProcs lk)" "bit (waitMask lk) m \<longrightarrow> 0 < waiting procs m (waitProcs lk)"
  using assms unfolding awaiting_grant_def by blast+

lemma reasons_holdset:
  assumes "reasons procs lk A ps" "lock_ok x procs lk" "lock_ok y procs lk'" "holdset lk' = holdset lk" "lock_tag lk' = lock_tag lk"
  shows "reasons procs lk' A ps"
  using assms(1) reasons_cong [OF assms(2-5)] by simp

lemma SetupLockInTable_result:
  assumes snd: "entry_sound procs tag entry" and m: "mode m" and free: "(p, m) \<notin> entry_holds entry"
  shows "SetupLockInTable lock_room proclock_room procs p tag m entry = (Inr False, entry)
    \<or> (\<exists>lk pl. SetupLockInTable lock_room proclock_room procs p tag m entry = (Inr True, Some lk)
         \<and> awaiting_grant p m procs tag entry lk pl)"
proof (cases "entry = None \<and> \<not> lock_room")
  case False
  define lk where "lk = (case entry of None \<Rightarrow> new_lock tag | Some lk \<Rightarrow> lk)"
  let ?found = "find_proclock p (procLocks lk)"
  define pl where "pl = (case ?found of None \<Rightarrow> new_proclock procs p | Some pl \<Rightarrow> pl)"
  define pls where "pls = (if ?found = None then procLocks lk @ [pl] else procLocks lk)"
  let ?lk = "lk\<lparr>procLocks := pls, nRequested := nRequested lk + 1,
                requested := (requested lk)(m := requested lk m + 1)\<rparr>"
  have ok: "lock_ok None procs lk" and t: "tidy {} lk" and r: "reasons procs lk {} (waitProcs lk)"
    and old: "holdset lk = entry_holds entry" "waitProcs lk = entry_queue entry" "lock_tag lk = tag"
    using snd lock_ok_new [of procs tag]
    by (auto simp: lk_def sound_def tidy_def new_lock_def holdset_def split: option.splits)
  have gone: "(if nRequested lk = 0 then None else Some lk) = entry"
    using snd by (auto simp: lk_def sound_def new_lock_def split: option.splits)
  have run: "SetupLockInTable lock_room proclock_room procs p tag m entry =
      (if ?found = None \<and> \<not> proclock_room then (Inr False, if nRequested lk = 0 then None else Some lk)
       else if bit (holdMask pl) m then (Inl (Elog ''lock is already held''), Some ?lk) else (Inr True, Some ?lk))"
    using False unfolding SetupLockInTable_def lk_def [symmetric] Let_def pl_def [symmetric] pls_def [symmetric] mask_test
    by (simp only: if_False if_True mask_test not_not)
  have new: "myProc (new_proclock procs p) = p" "\<not> bit (holdMask (new_proclock procs p)) n" for n
    by (simp_all add: new_proclock_def)
  have ok': "lock_ok (Some m) procs ?lk"
    by (rule lock_ok_request [OF ok m]) (auto simp: pls_def pl_def)
  have find: "find_proclock p pls = Some pl"
    using new(1) by (auto simp: pls_def pl_def find_append split: option.splits)
  have free': "\<not> bit (holdMask pl) m"
    using free new(2) unfolding old(1) [symmetric] holdset_find [OF ok] by (auto simp: pl_def split: option.splits)
  have hold: "holdset ?lk = holdset lk"
  proof (cases ?found)
    case None
    then show ?thesis using new by (auto simp: holdset_def pls_def pl_def)
  qed (simp add: holdset_def pls_def)
  have "tidy {p} ?lk"
    using t new(1) unfolding tidy_def hold by (auto simp: pls_def pl_def split: option.splits)
  moreover have "reasons procs ?lk {} (waitProcs ?lk)"
    using reasons_holdset [OF r ok ok' hold] by simp
  moreover have "bit (waitMask lk) m \<longrightarrow> 0 < waiting procs m (waitProcs lk)" using ok by (simp add: lock_ok_def)
  ultimately have "awaiting_grant p m procs tag entry ?lk pl"
    using ok' find free' hold old unfolding awaiting_grant_def by simp
  then show ?thesis using run gone free' by auto
qed (simp add: SetupLockInTable_def)

text \<open>A request that is not queued is withdrawn.\<close>

lemma withdraw_result:
  assumes pend: "awaiting_grant p m procs tag entry lk pl" and m: "mode m" and p: "p \<notin> set (entry_queue entry)"
    and busy: "holdset lk \<noteq> {} \<or> waitProcs lk \<noteq> []"
  shows "sound procs (without_idle p (lk\<lparr>nRequested := nRequested lk - 1,
      requested := (requested lk)(m := requested lk m - 1)\<rparr>))" (is "sound procs (without_idle p ?lk)")
    and "holdset (without_idle p (lk\<lparr>nRequested := nRequested lk - 1,
      requested := (requested lk)(m := requested lk m - 1)\<rparr>)) = entry_holds entry"
proof -
  have ok: "lock_ok (Some m) procs lk" and q: "p \<notin> set (waitProcs ?lk)" using awaiting_grantD [OF pend] p by simp_all
  have ok': "lock_ok None procs ?lk"
    using lock_ok_withdraw [OF ok m, of "waitMask lk"] awaiting_grantD(9) [OF pend] by simp
  have hold: "holdset ?lk = holdset lk" by (simp add: holdset_def)
  have tidy: "tidy {p} ?lk" using awaiting_grantD(4) [OF pend] unfolding tidy_def hold by simp
  note result = without_idle_result [OF ok' tidy q]
  show "holdset (without_idle p ?lk) = entry_holds entry" using result(2) hold awaiting_grantD(5) [OF pend] by simp
  have "nRequested (without_idle p ?lk) \<noteq> 0"
    using no_requests [OF result(1)] busy unfolding result(2) hold by auto
  moreover have "reasons procs (without_idle p ?lk) {} (waitProcs lk)"
    by (rule reasons_holdset [OF _ ok result(1)]) (use awaiting_grantD(8) [OF pend] result(2) hold in simp_all)
  ultimately show "sound procs (without_idle p ?lk)" using result by (simp add: sound_def)
qed

lemma grant_result:
  assumes pend: "awaiting_grant p m procs tag entry lk pl" and m: "mode m" and p: "p \<in> set (entry_queue entry) \<Longrightarrow> waitLockMode (procs p) \<noteq> m"
  shows "sound procs (GrantLock p m lk)" "holdset (GrantLock p m lk) = insert (p, m) (entry_holds entry)"
proof -
  have ok: "lock_ok (Some m) procs lk" and pl: "find_proclock p (procLocks lk) = Some pl" "\<not> bit (holdMask pl) m"
    using awaiting_grantD [OF pend] by simp_all
  have hold: "holdset (GrantLock p m lk) = insert (p, m) (holdset lk)" by (rule holdset_Grant [OF pl(1) m])
  then show "holdset (GrantLock p m lk) = insert (p, m) (entry_holds entry)" using awaiting_grantD [OF pend] by simp
  have ok': "lock_ok None procs (GrantLock p m lk)"
    by (rule lock_ok_Grant [OF ok m _ pl]) (use p awaiting_grantD [OF pend] in simp)
  have "tidy {} (GrantLock p m lk)"
    using awaiting_grantD(4) [OF pend] unfolding tidy_def hold Grant_fields by auto
  moreover have "nRequested (GrantLock p m lk) \<noteq> 0" using no_requests [OF ok'] hold by auto
  moreover have "reasons procs (GrantLock p m lk) {} (waitProcs lk)"
  proof (rule reasons_mono [where A = "{}" and lk = lk and procs = procs])
    show "reasons procs lk {} (waitProcs lk)" by (rule awaiting_grantD(8) [OF pend])
    show "blocked_by procs (GrantLock p m lk) q n" if "blocked_by procs lk q n" for q n
      using that unfolding blocked_by_holdset [OF ok] blocked_by_holdset [OF ok'] hold by simp
  qed auto
  ultimately show "sound procs (GrantLock p m lk)" using ok' by (simp add: sound_def)
qed

text \<open>Two states of the processes that agree on the groups and on what the processes of a queue await.\<close>

definition same_waits :: "nat list \<Rightarrow> procs \<Rightarrow> procs \<Rightarrow> bool" where
  "same_waits Q procs procs' \<longleftrightarrow> (\<forall>p. lockGroupLeader (procs' p) = lockGroupLeader (procs p))
     \<and> (\<forall>p \<in> set Q. waitLockMode (procs' p) = waitLockMode (procs p))"

lemma same_waits_groups:
  assumes "same_waits Q procs procs'"
  shows "groups_ok procs' = groups_ok procs" "compatible procs' = compatible procs"
  using assms same_groups [of procs' procs] unfolding same_waits_def by blast+

lemma sound_procs:
  assumes snd: "sound procs lk" and same: "same_waits (waitProcs lk) procs procs'"
  shows "sound procs' lk"
proof -
  have ok: "lock_ok None procs lk" using snd by (simp add: sound_def)
  have ok': "lock_ok None procs' lk"
    by (rule lock_ok_procs [OF ok]) (use same in \<open>auto simp: same_waits_def\<close>)
  have same_block: "blocked_by procs' lk q n = blocked_by procs lk q n" for q n
    by (simp only: same_waits_groups [OF same] blocked_by_holdset [OF ok] blocked_by_holdset [OF ok'])
  have "reasons procs' lk {} (waitProcs lk)"
    by (rule reasons_mono [where A = "{}" and lk = lk and procs = procs])
      (use snd same same_block in \<open>simp_all add: same_waits_def sound_def\<close>)
  then show ?thesis using snd ok' by (simp add: sound_def)
qed

lemma awaiting_grant_procs:
  assumes pend: "awaiting_grant p m procs tag entry lk pl" and same: "same_waits (entry_queue entry) procs procs'"
  shows "awaiting_grant p m procs' tag entry lk pl"
proof -
  have ok: "lock_ok (Some m) procs lk" and q: "waitProcs lk = entry_queue entry" using awaiting_grantD [OF pend] by simp_all
  have ok': "lock_ok (Some m) procs' lk"
    by (rule lock_ok_procs [OF ok]) (use same q in \<open>auto simp: same_waits_def\<close>)
  have same_block: "blocked_by procs' lk q n = blocked_by procs lk q n" for q n
    by (simp only: same_waits_groups [OF same] blocked_by_holdset [OF ok] blocked_by_holdset [OF ok'])
  have "reasons procs' lk {} (waitProcs lk)"
    by (rule reasons_mono [OF awaiting_grantD(8) [OF pend]]) (use same q same_block in \<open>simp_all add: same_waits_def\<close>)
  moreover have "waiting procs' m (waitProcs lk) = waiting procs m (waitProcs lk)"
    using same q by (simp add: waiting_def same_waits_def cong: filter_cong)
  ultimately show ?thesis using awaiting_grantD [OF pend] ok' unfolding awaiting_grant_def by (intro conjI) simp_all
qed

lemma enter_queue_fields:
  assumes "enter_queue p m place (lk, procs) = (lk', procs')"
  shows "lock_tag lk' = lock_tag lk" "holdset lk' = holdset lk" "procLocks lk' = procLocks lk"
    "waitProcs lk' = place (waitProcs lk)" "waitLockMode (procs' p) = m"
    "p \<notin> set Q \<Longrightarrow> same_waits Q procs procs'"
  using assms by (auto simp: enter_queue_def holdset_def same_waits_def)

lemma ProcSleep_result:
  assumes pend: "awaiting_grant p m procs tag entry lk pl" and m: "mode m" and p: "p \<notin> set (entry_queue entry)"
    and groups: "groups_ok procs"
    and why: "blocked_by procs lk p m \<or> (\<exists>n \<in> awaited procs (waitProcs lk). conflict m n)"
  shows "(\<not> blocked_by procs lk p m \<and> ProcSleep p m (lk, procs) = Some (PROC_WAIT_STATUS_OK, Some (GrantLock p m lk), procs))
    \<or> (\<exists>xs ys lk' procs'. ProcSleep p m (lk, procs) = Some (PROC_WAIT_STATUS_WAITING, Some lk', procs')
         \<and> sound procs' lk' \<and> lock_tag lk' = tag \<and> holdset lk' = entry_holds entry
         \<and> entry_queue entry = xs @ ys \<and> waitProcs lk' = xs @ p # ys
         \<and> waitLockMode (procs' p) = m \<and> same_waits (entry_queue entry) procs procs')
    \<or> (\<exists>W entry' procs1 procs'. ProcSleep p m (lk, procs) = Some (PROC_WAIT_STATUS_ERROR, entry', procs')
         \<and> same_waits (entry_queue entry) procs procs1
         \<and> effect procs1 tag (entry_queue entry) (entry_holds entry) W entry' procs')"
proof -
  let ?held = "group_held_locks p procs lk"
  have ok: "lock_ok (Some m) procs lk" and pl: "find_proclock p (procLocks lk) = Some pl" "\<not> bit (holdMask pl) m"
    and old: "holdset lk = entry_holds entry" "waitProcs lk = entry_queue entry" "lock_tag lk = tag"
    and tidy: "tidy {p} lk" and reasons: "reasons procs lk {} (waitProcs lk)"
    using awaiting_grantD [OF pend] by simp_all
  have p': "p \<notin> set (waitProcs lk)" using p old by simp
  note check = LockCheckConflicts_exact [OF ok groups m pl(1), of p]
  define place where "place = (if ?held \<noteq> 0 then find_place p procs m ?held lk pl (waitProcs lk) 0 else Some AtTail)"
  have run: "ProcSleep p m (lk, procs) = (case place of
               None \<Rightarrow> None
             | Some GrantNow \<Rightarrow> Some (PROC_WAIT_STATUS_OK, Some (GrantLock p m lk), procs)
             | Some (EarlyDeadlock q) \<Rightarrow>
                 (case RemoveFromWaitQueue p p (enter_queue p m (insert_before p q) (lk, procs)) of
                    None \<Rightarrow> None
                  | Some (lock, allProcs) \<Rightarrow> Some (PROC_WAIT_STATUS_ERROR, lock, allProcs))
             | Some AtTail \<Rightarrow>
                 (case enter_queue p m (\<lambda>queue. queue @ [p]) (lk, procs) of
                    (lock, allProcs) \<Rightarrow> Some (PROC_WAIT_STATUS_WAITING, Some lock, allProcs))
             | Some (Before q) \<Rightarrow>
                 (case enter_queue p m (insert_before p q) (lk, procs) of
                    (lock, allProcs) \<Rightarrow> Some (PROC_WAIT_STATUS_WAITING, Some lock, allProcs)))"
    unfolding ProcSleep_def place_def Let_def prod.case pl(1) option.case by (rule refl)
  have sleeps: ?thesis
    if split: "waitProcs lk = xs @ ys" "pos (waitProcs lk) = xs @ p # ys" "pos = (\<lambda>queue. queue @ [p]) \<or> pos = insert_before p q"
      and wait: "blocked_by procs lk p m \<or> (\<exists>n \<in> awaited procs xs. conflict m n)"
      and here: "ProcSleep p m (lk, procs) = (case enter_queue p m pos (lk, procs) of
                    (lock, allProcs) \<Rightarrow> Some (PROC_WAIT_STATUS_WAITING, Some lock, allProcs))" for xs ys pos q
  proof -
    obtain lk' procs' where enter: "enter_queue p m pos (lk, procs) = (lk', procs')" by (cases "enter_queue p m pos (lk, procs)")
    have "sound procs' lk'"
      by (rule enqueue_sound [OF ok m p' pl tidy reasons split(2,1,3) wait enter])
    moreover have "lock_tag lk' = tag" "holdset lk' = entry_holds entry" "waitProcs lk' = xs @ p # ys" "waitLockMode (procs' p) = m"
      "same_waits (entry_queue entry) procs procs'"
      using enter_queue_fields [OF enter] old p split(2) by simp_all
    ultimately show ?thesis using here enter split old by auto
  qed
  obtain at where at: "place = Some at" "at = GrantNow \<Longrightarrow> \<not> blocked_by procs lk p m"
    "\<And>q. at = EarlyDeadlock q \<Longrightarrow> q \<in> set (waitProcs lk)"
    "\<And>q. at = Before q \<Longrightarrow> \<exists>xs ys. waitProcs lk = xs @ q # ys
         \<and> (blocked_by procs lk p m \<or> (\<exists>n. conflict m n \<and> n \<in> awaited procs xs))"
  proof (cases "?held = 0")
    case True
    then show thesis using that [of AtTail] by (simp add: place_def)
  next
    case False
    then show thesis
      using find_place_result [OF check, of ?held "waitProcs lk" 0] that by (fastforce simp: place_def)
  qed
  show ?thesis
  proof (cases at)
    case AtTail
    then show ?thesis using sleeps [of "waitProcs lk" "[]" "\<lambda>queue. queue @ [p]"] why run at(1) by simp
  next
    case (Before q)
    then obtain xs ys where q: "waitProcs lk = xs @ q # ys"
      "blocked_by procs lk p m \<or> (\<exists>n \<in> awaited procs xs. conflict m n)" using at(4) by blast
    then have "q \<notin> set xs" using ok by (simp add: lock_ok_def)
    then show ?thesis using sleeps [of xs "q # ys" "insert_before p q" q] q Before run at(1) by (simp add: insert_before_split)
  next
    case GrantNow
    then show ?thesis using run at(1,2) by simp
  next
    case (EarlyDeadlock q)
    obtain lk1 procs1 where enter: "enter_queue p m (insert_before p q) (lk, procs) = (lk1, procs1)"
      by (cases "enter_queue p m (insert_before p q) (lk, procs)")
    obtain xs ys where q: "waitProcs lk = xs @ q # ys" using at(3) [OF EarlyDeadlock] by (auto dest: split_list)
    then have "q \<notin> set xs" "p \<notin> set xs" using ok p' by (auto simp: lock_ok_def)
    then have queue: "waitProcs lk1 = xs @ p # q # ys" "remove1 p (waitProcs lk1) = waitProcs lk"
      using enter_queue_fields(4) [OF enter] q by (simp_all add: insert_before_split remove1_append)
    have fields: "lock_tag lk1 = tag" "holdset lk1 = entry_holds entry" "map myProc (procLocks lk1) = map myProc (procLocks lk)"
      "same_waits (entry_queue entry) procs procs1"
      using enter_queue_fields [OF enter] old p by simp_all
    have groups1: "groups_ok procs1" using same_waits_groups [OF fields(4)] groups by simp
    have ok1: "lock_ok None procs1 lk1" using lock_ok_enqueue [OF ok m p' pl _ enter] by blast
    have "tidy {} lk1" using tidy q(1) unfolding tidy_def fields(2,3) queue(1) old(1) by auto
    then obtain W entry' procs' where gone: "RemoveFromWaitQueue p p (lk1, procs1) = Some (entry', procs')"
      "effect (procs1(p := (procs1 p)\<lparr>waitLock := None, waitStatus := PROC_WAIT_STATUS_ERROR\<rparr>))
         (lock_tag lk1) (remove1 p (waitProcs lk1)) (holdset lk1) W entry' procs'"
      using RemoveFromWaitQueue_result [OF ok1 _ groups1, of p p] queue(1) by auto
    moreover have "same_waits (entry_queue entry) procs (procs1(p := (procs1 p)\<lparr>waitLock := None, waitStatus := PROC_WAIT_STATUS_ERROR\<rparr>))"
      using fields(4) by (auto simp: same_waits_def)
    moreover have "ProcSleep p m (lk, procs) = Some (PROC_WAIT_STATUS_ERROR, entry', procs')"
      using run at(1) EarlyDeadlock enter gone(1) by simp
    ultimately show ?thesis using fields(1,2) queue(2) old(2) by metis
  qed
qed

text \<open>What a request comes to.\<close>

definition request_effect :: "procs \<Rightarrow> LOCKTAG \<Rightarrow> LOCK option \<Rightarrow> nat \<Rightarrow> LOCKMODE \<Rightarrow> bool \<Rightarrow> request_outcome
    \<Rightarrow> LOCK option \<Rightarrow> procs \<Rightarrow> bool" where
  "request_effect procs tag entry p m dontWait outcome entry' procs' \<longleftrightarrow>
     same_waits (entry_queue entry) procs procs' \<and> entry_sound procs' tag entry'
     \<and> (case outcome of
          LockGranted \<Rightarrow> entry_queue entry' = entry_queue entry \<and> entry_holds entry' = insert (p, m) (entry_holds entry)
            \<and> (\<forall>y \<in> entry_holds entry. compatible procs tag (p, m) y)
        | NotAvailable \<Rightarrow> dontWait \<and> entry_queue entry' = entry_queue entry \<and> entry_holds entry' = entry_holds entry
            \<and> ((\<exists>y \<in> entry_holds entry. \<not> compatible procs tag (p, m) y)
               \<or> (\<exists>n \<in> awaited procs (entry_queue entry). conflict m n))
        | Sleeping \<Rightarrow> \<not> dontWait \<and> waitLockMode (procs' p) = m \<and> entry_holds entry' = entry_holds entry
            \<and> (\<exists>xs ys. entry_queue entry = xs @ ys \<and> entry_queue entry' = xs @ p # ys)
        | LockDeadlock \<Rightarrow> \<not> dontWait \<and> (\<exists>W procs1. same_waits (entry_queue entry) procs procs1
            \<and> effect procs1 tag (entry_queue entry) (entry_holds entry) W entry' procs')
        | NoRoom \<Rightarrow> entry' = entry
        | RequestError e \<Rightarrow> False)"

lemma same_waits_trans: "same_waits Q procs procs1 \<Longrightarrow> same_waits Q procs1 procs2 \<Longrightarrow> same_waits Q procs procs2"
  by (simp add: same_waits_def)

lemma same_waits_refl [simp]: "same_waits Q procs procs" "same_waits Q procs (awake W procs)"
  by (simp_all add: same_waits_def)

lemma effect_same: "effect procs tag Q H W entry procs' \<Longrightarrow> same_waits Q procs procs' \<and> entry_sound procs' tag entry"
  by (auto simp: effect_def)

lemma request_lock_result:
  assumes snd: "entry_sound procs tag entry" and groups: "groups_ok procs" and m: "mode m"
    and free: "(p, m) \<notin> entry_holds entry" and p: "p \<notin> set (entry_queue entry)"
  shows "\<exists>outcome entry' procs'.
     request_lock lock_room proclock_room p tag m dontWait (entry, procs) = Some (outcome, entry', procs')
     \<and> request_effect procs tag entry p m dontWait outcome entry' procs'"
proof -
  note found = SetupLockInTable_result [OF snd m free, of lock_room proclock_room]
  show ?thesis
  proof (cases "SetupLockInTable lock_room proclock_room procs p tag m entry = (Inr False, entry)")
    case True
    then have "request_lock lock_room proclock_room p tag m dontWait (entry, procs) = Some (NoRoom, entry, procs)"
      by (simp add: request_lock_def)
    then show ?thesis using snd by (auto simp: request_effect_def)
  next
    case False
    then obtain lk pl where table: "SetupLockInTable lock_room proclock_room procs p tag m entry = (Inr True, Some lk)"
      and pend: "awaiting_grant p m procs tag entry lk pl" using found by blast
    note old = awaiting_grantD [OF pend]
    let ?blocked = "blocked_by procs lk p m" and ?Q = "entry_queue entry"
    let ?queued = "conflictTab m AND waitMask lk \<noteq> 0"
    let ?procs = "procs(p := (procs p)\<lparr>heldLocks := holdMask pl\<rparr>)"
    note check = LockCheckConflicts_exact [OF old(1) groups m old(2), of p]
    have run: "request_lock lock_room proclock_room p tag m dontWait (entry, procs) =
        (if ?queued \<or> ?blocked then
           if dontWait
           then Some (NotAvailable, Some (without_idle p (lk\<lparr>nRequested := nRequested lk - 1,
                        requested := (requested lk)(m := requested lk m - 1)\<rparr>)), procs)
           else (case ProcSleep p m (lk, ?procs) of
                   None \<Rightarrow> None
                 | Some (PROC_WAIT_STATUS_OK, entry, allProcs) \<Rightarrow> Some (LockGranted, entry, allProcs)
                 | Some (PROC_WAIT_STATUS_WAITING, entry, allProcs) \<Rightarrow> Some (Sleeping, entry, allProcs)
                 | Some (PROC_WAIT_STATUS_ERROR, entry, allProcs) \<Rightarrow> Some (LockDeadlock, entry, allProcs))
         else Some (LockGranted, Some (GrantLock p m lk), procs))"
      by (simp add: request_lock_def table old(2) check without_idle_def)
    have blocked: "?blocked \<longleftrightarrow> (\<exists>y \<in> entry_holds entry. \<not> compatible procs tag (p, m) y)"
      using blocked_by_holdset [OF old(1)] old(5,7) by simp
    have queued: "\<exists>n \<in> awaited procs ?Q. conflict m n" if "?queued \<or> ?blocked" "\<not> ?blocked"
    proof -
      obtain n where n: "conflict m n" "bit (waitMask lk) n" using \<open>?queued \<or> ?blocked\<close> \<open>\<not> ?blocked\<close> by (auto simp: mask_disjoint)
      have "0 < waiting procs n (waitProcs lk)"
        using n(2) old(9) old(1) [unfolded lock_ok_def] by (cases "n = m") (simp, metis option.inject)
      then show ?thesis using n(1) old(6) by (auto simp: waiting_pos)
    qed
    have same: "same_waits ?Q procs ?procs" by (simp add: same_waits_def)
    have granted: "request_effect procs tag entry p m dontWait LockGranted (Some (GrantLock p m lk)) procs'"
      if "same_waits ?Q procs procs'" "\<not> ?blocked" "awaiting_grant p m procs' tag entry lk pl" for procs'
      using that grant_result [OF that(3) m] p blocked old(6,7) by (simp add: request_effect_def)
    consider (now) "\<not> (?queued \<or> ?blocked)" | (no) "?queued \<or> ?blocked" dontWait | (sleep) "?queued \<or> ?blocked" "\<not> dontWait"
      by blast
    then show ?thesis
    proof cases
      case now
      then show ?thesis using run granted [OF same_waits_refl(1) _ pend] by auto
    next
      case no
      have "holdset lk \<noteq> {} \<or> waitProcs lk \<noteq> []"
        using queued [OF no(1)] blocked old(5,6) by (cases "?blocked") auto
      note result = withdraw_result [OF pend m p this]
      then show ?thesis using run no queued [OF no(1)] blocked old(6,7) by (auto simp: request_effect_def)
    next
      case sleep
      have pend': "awaiting_grant p m ?procs tag entry lk pl" by (rule awaiting_grant_procs [OF pend same])
      have groups': "groups_ok ?procs" using same_waits_groups [OF same] groups by simp
      have blocked': "blocked_by ?procs lk p m = ?blocked"
        by (simp only: blocked_by_holdset [OF old(1)] blocked_by_holdset [OF awaiting_grantD(1) [OF pend']] same_waits_groups [OF same])
      have "awaited ?procs (waitProcs lk) = awaited procs ?Q" using p old(6) by auto
      then have "blocked_by ?procs lk p m \<or> (\<exists>n \<in> awaited ?procs (waitProcs lk). conflict m n)"
        using queued [OF sleep(1)] blocked' by blast
      from ProcSleep_result [OF pend' m p groups' this] show ?thesis
      proof (elim disjE exE conjE)
        assume "\<not> blocked_by ?procs lk p m" "ProcSleep p m (lk, ?procs) = Some (PROC_WAIT_STATUS_OK, Some (GrantLock p m lk), ?procs)"
        then show ?thesis using run sleep blocked' granted [OF same _ pend'] by auto
      next
        fix xs ys lk' procs'
        assume "ProcSleep p m (lk, ?procs) = Some (PROC_WAIT_STATUS_WAITING, Some lk', procs')"
          "sound procs' lk'" "lock_tag lk' = tag" "holdset lk' = entry_holds entry"
          "?Q = xs @ ys" "waitProcs lk' = xs @ p # ys" "waitLockMode (procs' p) = m" "same_waits ?Q ?procs procs'"
        then show ?thesis using run sleep same_waits_trans [OF same, of procs']
          by (intro exI [of _ Sleeping] exI [of _ "Some lk'"] exI [of _ procs']) (auto simp: request_effect_def)
      next
        fix W entry' procs1 procs'
        assume sl: "ProcSleep p m (lk, ?procs) = Some (PROC_WAIT_STATUS_ERROR, entry', procs')"
          "same_waits ?Q ?procs procs1" "effect procs1 tag ?Q (entry_holds entry) W entry' procs'"
        then have "same_waits ?Q procs procs1" "same_waits ?Q procs procs'" "entry_sound procs' tag entry'"
          using same_waits_trans [OF same] same_waits_trans effect_same [OF sl(3)] by blast+
        then show ?thesis using run sleep sl(1,3)
          by (intro exI [of _ LockDeadlock] exI [of _ entry'] exI [of _ procs']) (auto simp: request_effect_def)
      qed
    qed
  qed
qed

section \<open>Another order of the queue\<close>

text \<open>The rest of \<open>DeadLockCheck\<close>: the queue gets another order, and those who can go are woken.\<close>

lemma rearrange_queue_result:
  assumes snd: "sound procs lk" and groups: "groups_ok procs" and order: "mset order = mset (waitProcs lk)"
  shows "\<exists>W lk' procs'. rearrange_queue MyProc order (lk, procs) = Some (lk', procs')
     \<and> effect procs (lock_tag lk) order (holdset lk) W (Some lk') procs'"
proof -
  let ?lk = "lk\<lparr>waitProcs := order\<rparr>"
  have hold: "holdset ?lk = holdset lk" by (simp add: holdset_def)
  have set: "set order = set (waitProcs lk)" by (rule mset_eq_setD [OF order])
  have "waiting procs m order = waiting procs m (waitProcs lk)" for m
    using order by (metis mset_filter size_mset waiting_def)
  moreover have "distinct order \<longleftrightarrow> distinct (waitProcs lk)" by (rule mset_eq_imp_distinct_iff [OF order])
  ultimately have ok: "lock_ok None procs ?lk" using snd set by (simp add: sound_def lock_ok_def)
  then obtain W lk' procs' where w: "ProcLockWakeup MyProc (?lk, procs) = Some (lk', procs')"
    "woken W (?lk, procs) (lk', procs')" "lock_ok None procs' lk'" "reasons procs' lk' {} (waitProcs lk')"
    using ProcLockWakeup_result [OF ok groups] by blast
  have "tidy {} ?lk" using snd set unfolding sound_def tidy_def hold by simp
  then have "tidy {} lk'" using woken_tidy [OF w(2)] by blast
  then show ?thesis using w snd by (auto simp: rearrange_queue_def effect_def woken_def sound_def hold)
qed

end
