(* ===== verification/FastPath.thy ===== *)
theory FastPath
  imports LockTable
begin

text \<open>
  The fast path of \<^verbatim>\<open>src/backend/storage/lmgr/lock.c\<close> for weak locks on relations, and the local lock
  table.  A backend keeps up to 16 relations with three mode bits each in its own PGPROC, under its
  \<open>fpInfoLock\<close>.  Who wants a strong lock first raises the count of strong locks of the relation's
  partition, which closes the fast path, and then moves the weak locks of all backends to the shared
  table.  The hash code of a lock tag is a parameter.  Of the local lock table, the entries for one lock
  tag are represented, by mode, without the owners.
\<close>

section \<open>Slots\<close>

abbreviation FP_LOCK_SLOTS_PER_BACKEND :: nat where "FP_LOCK_SLOTS_PER_BACKEND \<equiv> 16"
abbreviation FAST_PATH_BITS_PER_SLOT :: nat where "FAST_PATH_BITS_PER_SLOT \<equiv> 3"
abbreviation FAST_PATH_LOCKNUMBER_OFFSET :: nat where "FAST_PATH_LOCKNUMBER_OFFSET \<equiv> 1"

text \<open>The fields of a PGPROC under its \<open>fpInfoLock\<close>, and \<open>FastPathLocalUseCount\<close> of that backend.\<close>

record fast_path =
  databaseId :: uint32
  fpLockBits :: uint64
  fpRelId :: "nat \<Rightarrow> uint32"
  LocalUseCount :: int

definition FAST_PATH_MASK :: uint64 where
  "FAST_PATH_MASK = push_bit FAST_PATH_BITS_PER_SLOT 1 - 1"

definition FAST_PATH_GET_BITS :: "fast_path \<Rightarrow> nat \<Rightarrow> uint64" where
  "FAST_PATH_GET_BITS proc n = drop_bit (FAST_PATH_BITS_PER_SLOT * n) (fpLockBits proc) AND FAST_PATH_MASK"

definition FAST_PATH_BIT_POSITION :: "nat \<Rightarrow> LOCKMODE \<Rightarrow> nat" where
  "FAST_PATH_BIT_POSITION n l = l - FAST_PATH_LOCKNUMBER_OFFSET + FAST_PATH_BITS_PER_SLOT * n"

definition FAST_PATH_SET_LOCKMODE :: "fast_path \<Rightarrow> nat \<Rightarrow> LOCKMODE \<Rightarrow> fast_path" where
  "FAST_PATH_SET_LOCKMODE proc n l =
     proc\<lparr>fpLockBits := fpLockBits proc OR push_bit (FAST_PATH_BIT_POSITION n l) 1\<rparr>"

definition FAST_PATH_CLEAR_LOCKMODE :: "fast_path \<Rightarrow> nat \<Rightarrow> LOCKMODE \<Rightarrow> fast_path" where
  "FAST_PATH_CLEAR_LOCKMODE proc n l =
     proc\<lparr>fpLockBits := fpLockBits proc AND NOT (push_bit (FAST_PATH_BIT_POSITION n l) 1)\<rparr>"

definition FAST_PATH_CHECK_LOCKMODE :: "fast_path \<Rightarrow> nat \<Rightarrow> LOCKMODE \<Rightarrow> bool" where
  "FAST_PATH_CHECK_LOCKMODE proc n l = (fpLockBits proc AND push_bit (FAST_PATH_BIT_POSITION n l) 1 \<noteq> 0)"

abbreviation DEFAULT_LOCKMETHOD :: uint8 where "DEFAULT_LOCKMETHOD \<equiv> 1"

definition EligibleForRelationFastPath :: "uint32 \<Rightarrow> LOCKTAG \<Rightarrow> LOCKMODE \<Rightarrow> bool" where
  "EligibleForRelationFastPath MyDatabaseId locktag mode =
     (locktag_lockmethodid locktag = DEFAULT_LOCKMETHOD
      \<and> locktag_type locktag = LOCKTAG_RELATION
      \<and> locktag_field1 locktag = MyDatabaseId
      \<and> MyDatabaseId \<noteq> 0
      \<and> mode < ShareUpdateExclusiveLock)"

definition ConflictsWithRelationFastPath :: "LOCKTAG \<Rightarrow> LOCKMODE \<Rightarrow> bool" where
  "ConflictsWithRelationFastPath locktag mode =
     (locktag_lockmethodid locktag = DEFAULT_LOCKMETHOD
      \<and> locktag_type locktag = LOCKTAG_RELATION
      \<and> locktag_field1 locktag \<noteq> 0
      \<and> mode > ShareUpdateExclusiveLock)"

definition FastPathStrongLockHashPartition :: "uint32 \<Rightarrow> nat" where
  "FastPathStrongLockHashPartition hashcode = unat (hashcode mod 1024)"

section \<open>Granting and taking back in the slots\<close>

text \<open>The loop over the slots from \<open>f\<close> on, with the last unused slot before it.\<close>

fun grant_in_slots :: "uint32 \<Rightarrow> LOCKMODE \<Rightarrow> fast_path \<Rightarrow> nat list \<Rightarrow> nat \<Rightarrow> bool \<times> fast_path" where
  "grant_in_slots relid lockmode proc [] unused_slot =
     (if unused_slot < FP_LOCK_SLOTS_PER_BACKEND
      then (True, FAST_PATH_SET_LOCKMODE (proc\<lparr>fpRelId := (fpRelId proc)(unused_slot := relid),
                     LocalUseCount := LocalUseCount proc + 1\<rparr>) unused_slot lockmode)
      else (False, proc))"
| "grant_in_slots relid lockmode proc (f # fs) unused_slot =
     (if FAST_PATH_GET_BITS proc f = 0 then grant_in_slots relid lockmode proc fs f
      else if fpRelId proc f = relid then (True, FAST_PATH_SET_LOCKMODE proc f lockmode)
      else grant_in_slots relid lockmode proc fs unused_slot)"

definition FastPathGrantRelationLock :: "uint32 \<Rightarrow> LOCKMODE \<Rightarrow> fast_path \<Rightarrow> bool \<times> fast_path" where
  "FastPathGrantRelationLock relid lockmode proc =
     grant_in_slots relid lockmode proc [0..<FP_LOCK_SLOTS_PER_BACKEND] FP_LOCK_SLOTS_PER_BACKEND"

text \<open>The loop of the release, which also counts the used slots anew.\<close>

definition ungrant_in_slot :: "uint32 \<Rightarrow> LOCKMODE \<Rightarrow> nat \<Rightarrow> bool \<times> fast_path \<Rightarrow> bool \<times> fast_path" where
  "ungrant_in_slot relid lockmode f = (\<lambda>(result, proc).
     let (result, proc) = (if fpRelId proc f = relid \<and> FAST_PATH_CHECK_LOCKMODE proc f lockmode
                           then (True, FAST_PATH_CLEAR_LOCKMODE proc f lockmode) else (result, proc))
     in (result, if FAST_PATH_GET_BITS proc f \<noteq> 0
                 then proc\<lparr>LocalUseCount := LocalUseCount proc + 1\<rparr> else proc))"

definition FastPathUnGrantRelationLock :: "uint32 \<Rightarrow> LOCKMODE \<Rightarrow> fast_path \<Rightarrow> bool \<times> fast_path" where
  "FastPathUnGrantRelationLock relid lockmode proc =
     fold (ungrant_in_slot relid lockmode) [0..<FP_LOCK_SLOTS_PER_BACKEND] (False, proc\<lparr>LocalUseCount := 0\<rparr>)"

section \<open>Moving weak locks to the shared table\<close>

text \<open>The modes of one slot; whether there is room for the lock of each mode is given.\<close>

fun transfer_modes :: "(LOCKMODE \<Rightarrow> bool \<times> bool) \<Rightarrow> procs \<Rightarrow> nat \<Rightarrow> LOCKTAG \<Rightarrow> nat \<Rightarrow> LOCKMODE list
    \<Rightarrow> LOCK option \<times> fast_path \<Rightarrow> bool result \<times> LOCK option \<times> fast_path" where
  "transfer_modes room allProcs proc locktag f [] (entry, fp) = (Inr True, entry, fp)"
| "transfer_modes room allProcs proc locktag f (lockmode # modes) (entry, fp) =
     (if \<not> FAST_PATH_CHECK_LOCKMODE fp f lockmode
      then transfer_modes room allProcs proc locktag f modes (entry, fp)
      else case SetupLockInTable (fst (room lockmode)) (snd (room lockmode)) allProcs proc locktag lockmode entry of
             (Inl e, entry) \<Rightarrow> (Inl e, entry, fp)
           | (Inr False, entry) \<Rightarrow> (Inr False, entry, fp)
           | (Inr True, entry) \<Rightarrow>
               transfer_modes room allProcs proc locktag f modes
                 (map_option (GrantLock proc lockmode) entry, FAST_PATH_CLEAR_LOCKMODE fp f lockmode))"

text \<open>The search of the slots of a backend, which ends at the first one used for the relation.\<close>

fun find_slot :: "uint32 \<Rightarrow> fast_path \<Rightarrow> nat list \<Rightarrow> nat option" where
  "find_slot relid fp [] = None"
| "find_slot relid fp (f # fs) =
     (if relid \<noteq> fpRelId fp f \<or> FAST_PATH_GET_BITS fp f = 0 then find_slot relid fp fs else Some f)"

text \<open>One backend in the loop of \<open>FastPathTransferRelationLocks\<close>.\<close>

definition transfer_backend :: "(LOCKMODE \<Rightarrow> bool \<times> bool) \<Rightarrow> procs \<Rightarrow> LOCKTAG \<Rightarrow> nat \<Rightarrow> LOCK option \<times> fast_path
    \<Rightarrow> bool result \<times> LOCK option \<times> fast_path" where
  "transfer_backend room allProcs locktag proc = (\<lambda>(entry, fp).
     if databaseId fp \<noteq> locktag_field1 locktag then (Inr True, entry, fp)
     else case find_slot (locktag_field2 locktag) fp [0..<FP_LOCK_SLOTS_PER_BACKEND] of
            None \<Rightarrow> (Inr True, entry, fp)
          | Some f \<Rightarrow>
              transfer_modes room allProcs proc locktag f
                [FAST_PATH_LOCKNUMBER_OFFSET..<FAST_PATH_LOCKNUMBER_OFFSET + FAST_PATH_BITS_PER_SLOT] (entry, fp))"

text \<open>\<open>FastPathGetRelationLockEntry\<close>: a backend moves a lock of its own.\<close>

definition move_own :: "bool \<Rightarrow> bool \<Rightarrow> procs \<Rightarrow> nat \<Rightarrow> LOCKTAG \<Rightarrow> LOCKMODE \<Rightarrow> LOCK option \<times> fast_path
    \<Rightarrow> bool result \<times> LOCK option \<times> fast_path" where
  "move_own lock_room proclock_room allProcs proc locktag lockmode = (\<lambda>(entry, fp).
     case find_slot (locktag_field2 locktag) fp [0..<FP_LOCK_SLOTS_PER_BACKEND] of
       None \<Rightarrow> (Inr True, entry, fp)
     | Some f \<Rightarrow> transfer_modes (\<lambda>_. (lock_room, proclock_room)) allProcs proc locktag f [lockmode] (entry, fp))"

section \<open>The local lock table and the count of strong locks\<close>

record LOCALLOCK =
  nLocks :: int
  holdsStrongLockCount :: bool

record backend_locks =
  locallocks :: "LOCKMODE \<Rightarrow> LOCALLOCK option"
  StrongLockInProgress :: "LOCKMODE option"

type_synonym strong_counts = "nat \<Rightarrow> uint32"

definition set_locallock :: "LOCKMODE \<Rightarrow> (LOCALLOCK \<Rightarrow> LOCALLOCK) \<Rightarrow> backend_locks \<Rightarrow> backend_locks" where
  "set_locallock lockmode f b = b\<lparr>locallocks := (locallocks b)(lockmode := map_option f (locallocks b lockmode))\<rparr>"

definition BeginStrongLockAcquire :: "nat \<Rightarrow> LOCKMODE \<Rightarrow> strong_counts \<times> backend_locks \<Rightarrow> strong_counts \<times> backend_locks" where
  "BeginStrongLockAcquire fasthashcode lockmode = (\<lambda>(counts, b).
     (counts(fasthashcode := counts fasthashcode + 1),
      (set_locallock lockmode (\<lambda>l. l\<lparr>holdsStrongLockCount := True\<rparr>) b)\<lparr>StrongLockInProgress := Some lockmode\<rparr>))"

definition FinishStrongLockAcquire :: "backend_locks \<Rightarrow> backend_locks" where
  "FinishStrongLockAcquire b = b\<lparr>StrongLockInProgress := None\<rparr>"

definition AbortStrongLockAcquire :: "nat \<Rightarrow> strong_counts \<times> backend_locks \<Rightarrow> strong_counts \<times> backend_locks" where
  "AbortStrongLockAcquire fasthashcode = (\<lambda>(counts, b).
     case StrongLockInProgress b of
       None \<Rightarrow> (counts, b)
     | Some lockmode \<Rightarrow>
         (counts(fasthashcode := counts fasthashcode - 1),
          (set_locallock lockmode (\<lambda>l. l\<lparr>holdsStrongLockCount := False\<rparr>) b)\<lparr>StrongLockInProgress := None\<rparr>))"

definition GrantLockLocal :: "LOCKMODE \<Rightarrow> backend_locks \<Rightarrow> backend_locks" where
  "GrantLockLocal lockmode = set_locallock lockmode (\<lambda>l. l\<lparr>nLocks := nLocks l + 1\<rparr>)"

definition RemoveLocalLock :: "nat \<Rightarrow> LOCKMODE \<Rightarrow> strong_counts \<times> backend_locks \<Rightarrow> strong_counts \<times> backend_locks" where
  "RemoveLocalLock fasthashcode lockmode = (\<lambda>(counts, b).
     case locallocks b lockmode of
       None \<Rightarrow> (counts, b)
     | Some l \<Rightarrow>
         (if holdsStrongLockCount l then counts(fasthashcode := counts fasthashcode - 1) else counts,
          b\<lparr>locallocks := (locallocks b)(lockmode := None)\<rparr>))"

text \<open>The start of \<open>LockAcquireExtended\<close>: the local entry is found or made, and if the lock is held already
  that is all.\<close>

definition acquire_local :: "LOCKMODE \<Rightarrow> backend_locks \<Rightarrow> bool \<times> backend_locks" where
  "acquire_local lockmode b =
     (case locallocks b lockmode of
        None \<Rightarrow> (False, b\<lparr>locallocks := (locallocks b)(lockmode := Some \<lparr>nLocks = 0, holdsStrongLockCount = False\<rparr>)\<rparr>)
      | Some l \<Rightarrow> if 0 < nLocks l then (True, GrantLockLocal lockmode b) else (False, b))"

text \<open>Whether it goes on to take the lock in the fast path, which is tested under the \<open>fpInfoLock\<close> of the backend.\<close>

definition fast_path_open :: "strong_counts \<Rightarrow> nat \<Rightarrow> LOCKTAG \<Rightarrow> LOCKMODE \<Rightarrow> fast_path \<Rightarrow> bool" where
  "fast_path_open counts fasthashcode locktag lockmode fp =
     (EligibleForRelationFastPath (databaseId fp) locktag lockmode
      \<and> LocalUseCount fp < int FP_LOCK_SLOTS_PER_BACKEND
      \<and> counts fasthashcode = 0)"

text \<open>The start of \<open>LockRelease\<close>: the local count, and whether the lock itself has to be released.\<close>

definition release_local :: "LOCKMODE \<Rightarrow> backend_locks \<Rightarrow> bool \<times> backend_locks" where
  "release_local lockmode b =
     (case locallocks b lockmode of
        None \<Rightarrow> (False, b)
      | Some l \<Rightarrow> if nLocks l \<le> 0 then (False, b)
                  else (nLocks l - 1 \<le> 0, set_locallock lockmode (\<lambda>l. l\<lparr>nLocks := nLocks l - 1\<rparr>) b))"

text \<open>Its attempt at the fast path.\<close>

definition release_fast :: "LOCKTAG \<Rightarrow> LOCKMODE \<Rightarrow> fast_path \<Rightarrow> bool \<times> fast_path" where
  "release_fast locktag lockmode fp =
     (if EligibleForRelationFastPath (databaseId fp) locktag lockmode \<and> 0 < LocalUseCount fp
      then FastPathUnGrantRelationLock (locktag_field2 locktag) lockmode fp
      else (False, fp))"

section \<open>What the slots hold\<close>

definition fast_bit :: "fast_path \<Rightarrow> nat \<Rightarrow> LOCKMODE \<Rightarrow> bool" where
  "fast_bit fp f m \<longleftrightarrow> m \<in> {1, 2, 3} \<and> bit (fpLockBits fp) (FAST_PATH_BIT_POSITION f m)"

definition slot_used :: "fast_path \<Rightarrow> nat \<Rightarrow> bool" where
  "slot_used fp f \<longleftrightarrow> (\<exists>m. fast_bit fp f m)"

definition used_slots :: "fast_path \<Rightarrow> nat set" where
  "used_slots fp = {f. f < FP_LOCK_SLOTS_PER_BACKEND \<and> slot_used fp f}"

text \<open>The modes a backend holds of a relation.\<close>

definition fast_modes :: "fast_path \<Rightarrow> uint32 \<Rightarrow> LOCKMODE set" where
  "fast_modes fp relid = {m. \<exists>f < FP_LOCK_SLOTS_PER_BACKEND. fpRelId fp f = relid \<and> fast_bit fp f m}"

definition fast_ok :: "fast_path \<Rightarrow> bool" where
  "fast_ok fp \<longleftrightarrow> inj_on (fpRelId fp) (used_slots fp) \<and> int (card (used_slots fp)) \<le> LocalUseCount fp"

lemma position_less: "f < 16 \<Longrightarrow> m \<in> {1, 2, 3} \<Longrightarrow> FAST_PATH_BIT_POSITION f m < 64"
  by (auto simp: FAST_PATH_BIT_POSITION_def)

lemma position_inj: "m \<in> {1, 2, 3} \<Longrightarrow> n \<in> {1, 2, 3} \<Longrightarrow>
    FAST_PATH_BIT_POSITION f m = FAST_PATH_BIT_POSITION g n \<longleftrightarrow> f = g \<and> m = n"
  by (auto simp: FAST_PATH_BIT_POSITION_def) presburger+

lemma and_zero: "w AND v = 0 \<longleftrightarrow> (\<forall>i. \<not> (bit w i \<and> bit v i))" for w v :: uint64
proof -
  have "w AND v = 0 \<longleftrightarrow> (\<forall>i. \<not> bit (w AND v) i)" by (metis bit_eqI bit_0_eq bot_apply bot_bool_def)
  then show ?thesis by (simp add: bit_and_iff)
qed

lemma fast_bit_set: "f < 16 \<Longrightarrow> m \<in> {1, 2, 3} \<Longrightarrow>
    fast_bit (FAST_PATH_SET_LOCKMODE fp f m) g n \<longleftrightarrow> fast_bit fp g n \<or> g = f \<and> n = m"
  using position_less [of f m] position_inj [of m n f g]
  by (auto simp: fast_bit_def FAST_PATH_SET_LOCKMODE_def bit_simps)

lemma fast_bit_clear: "f < 16 \<Longrightarrow> m \<in> {1, 2, 3} \<Longrightarrow>
    fast_bit (FAST_PATH_CLEAR_LOCKMODE fp f m) g n \<longleftrightarrow> fast_bit fp g n \<and> \<not> (g = f \<and> n = m)"
  using position_less [of f m] position_inj [of m n f g]
  by (auto simp: fast_bit_def FAST_PATH_CLEAR_LOCKMODE_def bit_simps dest: bit_imp_le_length)

lemma check_bit [simp]: "f < 16 \<Longrightarrow> m \<in> {1, 2, 3} \<Longrightarrow> FAST_PATH_CHECK_LOCKMODE fp f m \<longleftrightarrow> fast_bit fp f m"
proof -
  assume f: "f < 16" "m \<in> {1, 2, 3}"
  let ?p = "FAST_PATH_BIT_POSITION f m"
  have "fpLockBits fp AND push_bit ?p 1 = 0 \<longleftrightarrow> \<not> bit (fpLockBits fp) ?p"
    using position_less [OF f] by (auto simp: and_zero bit_simps)
  then show ?thesis using f(2) by (simp add: FAST_PATH_CHECK_LOCKMODE_def fast_bit_def)
qed

lemma get_bits [simp]: "FAST_PATH_GET_BITS fp f = 0 \<longleftrightarrow> \<not> slot_used fp f"
proof -
  have "bit FAST_PATH_MASK i \<longleftrightarrow> i < 3" for i
    by (simp only: FAST_PATH_MASK_def push_bit_of_1 flip: mask_eq_exp_minus_1) (auto simp: bit_mask_iff)
  then have "FAST_PATH_GET_BITS fp f = 0 \<longleftrightarrow> (\<forall>i < 3. \<not> bit (fpLockBits fp) (3 * f + i))"
    by (auto simp: FAST_PATH_GET_BITS_def and_zero bit_simps)
  also have "\<dots> \<longleftrightarrow> (\<forall>m \<in> {1, 2, 3}. \<not> bit (fpLockBits fp) (3 * f + (m - 1)))"
    by (auto simp: less_Suc_eq numeral_3_eq_3)
  also have "\<dots> \<longleftrightarrow> \<not> slot_used fp f"
    unfolding slot_used_def fast_bit_def FAST_PATH_BIT_POSITION_def by (simp only: add.commute) blast
  finally show ?thesis .
qed

lemma set_fields [simp]:
  "fpRelId (FAST_PATH_SET_LOCKMODE fp f m) = fpRelId fp" "fpRelId (FAST_PATH_CLEAR_LOCKMODE fp f m) = fpRelId fp"
  "LocalUseCount (FAST_PATH_SET_LOCKMODE fp f m) = LocalUseCount fp"
  "LocalUseCount (FAST_PATH_CLEAR_LOCKMODE fp f m) = LocalUseCount fp"
  "databaseId (FAST_PATH_SET_LOCKMODE fp f m) = databaseId fp" "databaseId (FAST_PATH_CLEAR_LOCKMODE fp f m) = databaseId fp"
  by (simp_all add: FAST_PATH_SET_LOCKMODE_def FAST_PATH_CLEAR_LOCKMODE_def)

lemma find_slot_Some:
  "find_slot relid fp fs = Some f \<Longrightarrow> f \<in> set fs \<and> fpRelId fp f = relid \<and> slot_used fp f"
  by (induction fs) (auto split: if_splits)

lemma find_slot_None:
  "find_slot relid fp fs = None \<longleftrightarrow> (\<forall>f \<in> set fs. fpRelId fp f = relid \<longrightarrow> \<not> slot_used fp f)"
  by (induction fs) auto

lemma grant_in_slots_found:
  "find_slot relid fp fs = Some f \<Longrightarrow> grant_in_slots relid m fp fs u = (True, FAST_PATH_SET_LOCKMODE fp f m)"
  by (induction fs arbitrary: u) (auto split: if_splits)

lemma grant_in_slots_new:
  "find_slot relid fp fs = None \<Longrightarrow> \<exists>v. (v = u \<or> v \<in> set fs \<and> \<not> slot_used fp v)
     \<and> grant_in_slots relid m fp fs u = grant_in_slots relid m fp [] v"
proof (induction fs arbitrary: u)
  case (Cons f fs)
  show ?case
  proof (cases "slot_used fp f")
    case True
    have none: "fpRelId fp f \<noteq> relid" "find_slot relid fp fs = None" using Cons(2) True unfolding find_slot_None by auto
    then have "grant_in_slots relid m fp (f # fs) u = grant_in_slots relid m fp fs u" using True by simp
    then show ?thesis using Cons(1) [OF none(2), of u] by (metis list.set_intros(2))
  next
    case False
    then have "grant_in_slots relid m fp (f # fs) u = grant_in_slots relid m fp fs f" by simp
    moreover have "find_slot relid fp fs = None" using Cons(2) unfolding find_slot_None by simp
    ultimately show ?thesis using Cons(1) [of f] False by (metis list.set_intros)
  qed
qed auto

lemma used_slots_finite [simp]: "finite (used_slots fp)"
  by (simp add: used_slots_def)

lemma FastPathGrantRelationLock_result:
  assumes ok: "fast_ok fp" and m: "m \<in> {1, 2, 3}" and run: "FastPathGrantRelationLock relid m fp = (got, fp')"
  shows "fast_ok fp'" "databaseId fp' = databaseId fp"
    "fast_modes fp' r = (if got \<and> r = relid then insert m (fast_modes fp r) else fast_modes fp r)"
proof -
  have all: "fast_ok fp' \<and> databaseId fp' = databaseId fp
      \<and> fast_modes fp' r = (if got \<and> r = relid then insert m (fast_modes fp r) else fast_modes fp r)"
  proof (cases "find_slot relid fp [0..<16]")
    case (Some f)
    then have f: "f < 16" "fpRelId fp f = relid" "slot_used fp f" using find_slot_Some by fastforce+
    have res: "got" "fp' = FAST_PATH_SET_LOCKMODE fp f m"
      using grant_in_slots_found [OF Some] run by (auto simp: FastPathGrantRelationLock_def)
    have rel: "fpRelId fp' = fpRelId fp" using res by simp
    have bits: "fast_bit fp' g n \<longleftrightarrow> fast_bit fp g n \<or> g = f \<and> n = m" for g n
      using fast_bit_set [OF f(1) m] res by simp
    have "used_slots fp' = used_slots fp" using f by (auto simp: used_slots_def slot_used_def bits)
    moreover have "fast_modes fp' r = (if r = relid then insert m (fast_modes fp r) else fast_modes fp r)"
      using f rel unfolding fast_modes_def bits by auto
    ultimately show ?thesis using ok res by (simp add: fast_ok_def)
  next
    case None
    then have none: "f < 16 \<Longrightarrow> fpRelId fp f = relid \<Longrightarrow> \<not> slot_used fp f" for f by (simp add: find_slot_None)
    obtain v where v: "v = 16 \<or> v < 16 \<and> \<not> slot_used fp v"
      "FastPathGrantRelationLock relid m fp = grant_in_slots relid m fp [] v"
      using grant_in_slots_new [OF None, of 16 m] by (auto simp: FastPathGrantRelationLock_def)
    show ?thesis
    proof (cases "v < 16")
      case True
      let ?fp = "fp\<lparr>fpRelId := (fpRelId fp)(v := relid), LocalUseCount := LocalUseCount fp + 1\<rparr>"
      have free: "\<not> fast_bit fp v n" for n using v(1) True by (auto simp: slot_used_def)
      have res: "got" "fp' = FAST_PATH_SET_LOCKMODE ?fp v m" using run v True by auto
      have rel: "fpRelId fp' = (fpRelId fp)(v := relid)" using res by simp
      have bits: "fast_bit fp' g n \<longleftrightarrow> fast_bit fp g n \<or> g = v \<and> n = m" for g n
        using fast_bit_set [OF True m, of ?fp] res by (simp add: fast_bit_def)
      have used: "used_slots fp' = insert v (used_slots fp)" using True by (auto simp: used_slots_def slot_used_def bits)
      have notin: "v \<notin> used_slots fp" using free by (auto simp: used_slots_def slot_used_def)
      have "inj_on (fpRelId fp') (insert v (used_slots fp))"
        using ok notin none res by (auto simp: fast_ok_def inj_on_def used_slots_def)
      moreover have "fast_modes fp' r = (if r = relid then insert m (fast_modes fp r) else fast_modes fp r)"
      proof (cases "r = relid")
        case new: True
        have "fast_modes fp' r = {m}" "fast_modes fp r = {}"
          using new none free True unfolding fast_modes_def bits rel by (auto simp: slot_used_def)
        then show ?thesis using new by simp
      next
        case old: False
        have "f < 16 \<and> fpRelId fp' f = r \<and> fast_bit fp' f n \<longleftrightarrow> f < 16 \<and> fpRelId fp f = r \<and> fast_bit fp f n" for f n
          using old free unfolding bits rel by auto
        then show ?thesis using old by (simp add: fast_modes_def)
      qed
      ultimately show ?thesis using ok used notin res by (simp add: fast_ok_def)
    next
      case False
      then show ?thesis using run v ok by auto
    qed
  qed
  then show "fast_ok fp'" "databaseId fp' = databaseId fp"
    "fast_modes fp' r = (if got \<and> r = relid then insert m (fast_modes fp r) else fast_modes fp r)" by auto
qed

text \<open>The loop of the release.\<close>

definition hit :: "uint32 \<Rightarrow> LOCKMODE \<Rightarrow> fast_path \<Rightarrow> nat \<Rightarrow> bool" where
  "hit relid m fp f \<longleftrightarrow> fpRelId fp f = relid \<and> fast_bit fp f m"

lemma ungrant_slots_result:
  assumes "distinct fs" "set fs \<subseteq> {..<16}" "m \<in> {1, 2, 3}" "fold (ungrant_in_slot relid m) fs (r, fp) = (r', fp')"
  shows "r' = (r \<or> (\<exists>f \<in> set fs. hit relid m fp f))" "fpRelId fp' = fpRelId fp" "databaseId fp' = databaseId fp"
    "fast_bit fp' g n \<longleftrightarrow> fast_bit fp g n \<and> \<not> (g \<in> set fs \<and> hit relid m fp g \<and> n = m)"
    "LocalUseCount fp' = LocalUseCount fp + int (card {f \<in> set fs. slot_used fp' f})"
proof -
  have "r' = (r \<or> (\<exists>f \<in> set fs. hit relid m fp f)) \<and> fpRelId fp' = fpRelId fp \<and> databaseId fp' = databaseId fp
    \<and> (\<forall>g n. fast_bit fp' g n \<longleftrightarrow> fast_bit fp g n \<and> \<not> (g \<in> set fs \<and> hit relid m fp g \<and> n = m))
    \<and> LocalUseCount fp' = LocalUseCount fp + int (card {f \<in> set fs. slot_used fp' f})"
    using assms
  proof (induction fs arbitrary: r fp)
    case (Cons f fs)
    let ?fp = "if hit relid m fp f then FAST_PATH_CLEAR_LOCKMODE fp f m else fp"
    let ?fp1 = "if slot_used ?fp f then ?fp\<lparr>LocalUseCount := LocalUseCount ?fp + 1\<rparr> else ?fp"
    have f: "f < 16" "f \<notin> set fs" using Cons(2,3) by auto
    have one: "ungrant_in_slot relid m f (r, fp) = (r \<or> hit relid m fp f, ?fp1)"
      using f Cons(4) by (auto simp: ungrant_in_slot_def hit_def Let_def)
    have bits: "fast_bit ?fp1 g n \<longleftrightarrow> fast_bit fp g n \<and> \<not> (g = f \<and> hit relid m fp f \<and> n = m)" for g n
      using fast_bit_clear [OF f(1) Cons(4), of fp g n] by (auto simp: fast_bit_def)
    have rest: "fpRelId ?fp1 = fpRelId fp" "databaseId ?fp1 = databaseId fp" by simp_all
    have hits: "hit relid m ?fp1 g \<longleftrightarrow> hit relid m fp g" if "g \<in> set fs" for g
      unfolding hit_def [of relid m ?fp1] bits rest using that f(2) by (auto simp: hit_def)
    have "fold (ungrant_in_slot relid m) fs (r \<or> hit relid m fp f, ?fp1) = (r', fp')" using Cons(5) one by simp
    from Cons(1) [OF _ _ Cons(4) this] Cons(2,3)
    have ih: "r' = ((r \<or> hit relid m fp f) \<or> (\<exists>f \<in> set fs. hit relid m ?fp1 f))" "fpRelId fp' = fpRelId ?fp1"
      "databaseId fp' = databaseId ?fp1"
      "\<And>g n. fast_bit fp' g n \<longleftrightarrow> fast_bit ?fp1 g n \<and> \<not> (g \<in> set fs \<and> hit relid m ?fp1 g \<and> n = m)"
      "LocalUseCount fp' = LocalUseCount ?fp1 + int (card {f \<in> set fs. slot_used fp' f})"
      by auto
    have same: "slot_used fp' f \<longleftrightarrow> slot_used ?fp f" using f(2) ih(4) by (auto simp: slot_used_def fast_bit_def)
    have "{g \<in> set (f # fs). slot_used fp' g} =
        (if slot_used fp' f then insert f {g \<in> set fs. slot_used fp' g} else {g \<in> set fs. slot_used fp' g})" by auto
    then have count: "int (card {g \<in> set (f # fs). slot_used fp' g}) =
        int (card {g \<in> set fs. slot_used fp' g}) + of_bool (slot_used fp' f)" using f(2) by simp
    have "LocalUseCount ?fp1 = LocalUseCount fp + of_bool (slot_used fp' f)" unfolding same by simp
    then have "LocalUseCount fp' = LocalUseCount fp + int (card {g \<in> set (f # fs). slot_used fp' g})"
      using ih(5) count by simp
    moreover have "fast_bit fp' g n \<longleftrightarrow> fast_bit fp g n \<and> \<not> (g \<in> set (f # fs) \<and> hit relid m fp g \<and> n = m)" for g n
      unfolding ih(4) bits using hits by auto
    moreover have "r' = (r \<or> (\<exists>g \<in> set (f # fs). hit relid m fp g))" using ih(1) hits by auto
    ultimately show ?case using ih(2,3) rest by auto
  qed auto
  then show "r' = (r \<or> (\<exists>f \<in> set fs. hit relid m fp f))" "fpRelId fp' = fpRelId fp" "databaseId fp' = databaseId fp"
    "fast_bit fp' g n \<longleftrightarrow> fast_bit fp g n \<and> \<not> (g \<in> set fs \<and> hit relid m fp g \<and> n = m)"
    "LocalUseCount fp' = LocalUseCount fp + int (card {f \<in> set fs. slot_used fp' f})" by blast+
qed

lemma FastPathUnGrantRelationLock_result:
  assumes ok: "fast_ok fp" and m: "m \<in> {1, 2, 3}" and run: "FastPathUnGrantRelationLock relid m fp = (released, fp')"
  shows "released \<longleftrightarrow> m \<in> fast_modes fp relid" "fast_ok fp'" "databaseId fp' = databaseId fp"
    "fast_modes fp' r = (if r = relid then fast_modes fp r - {m} else fast_modes fp r)"
proof -
  have all: "set [0..<16] \<subseteq> {..<16 :: nat}" by auto
  note slots = ungrant_slots_result [OF distinct_upt all m run [unfolded FastPathUnGrantRelationLock_def]]
  have bits: "fast_bit fp' g n \<longleftrightarrow> fast_bit fp g n \<and> \<not> (g < 16 \<and> fpRelId fp g = relid \<and> n = m)" for g n
    unfolding slots(4) by (auto simp: hit_def fast_bit_def)
  show "released \<longleftrightarrow> m \<in> fast_modes fp relid"
    unfolding slots(1) by (auto simp: fast_modes_def hit_def fast_bit_def)
  show "databaseId fp' = databaseId fp" using slots(3) by simp
  show "fast_modes fp' r = (if r = relid then fast_modes fp r - {m} else fast_modes fp r)"
    using slots(2) unfolding fast_modes_def bits by auto
  have "used_slots fp' \<subseteq> used_slots fp" unfolding used_slots_def slot_used_def bits by auto
  moreover have "used_slots fp' = {f \<in> set [0..<16]. slot_used fp' f}" by (auto simp: used_slots_def)
  ultimately show "fast_ok fp'" using ok slots(2,5) by (auto simp: fast_ok_def intro: inj_on_subset)
qed

lemma fast_ok_clear:
  assumes ok: "fast_ok fp" and f: "f < 16" "m \<in> {1, 2, 3}" "fast_bit fp f m"
  shows "fast_ok (FAST_PATH_CLEAR_LOCKMODE fp f m)"
    "fast_modes (FAST_PATH_CLEAR_LOCKMODE fp f m) r = (if r = fpRelId fp f then fast_modes fp r - {m} else fast_modes fp r)"
proof -
  let ?fp = "FAST_PATH_CLEAR_LOCKMODE fp f m"
  have sub: "used_slots ?fp \<subseteq> used_slots fp" using fast_bit_clear [OF f(1,2)] by (auto simp: used_slots_def slot_used_def)
  then have "card (used_slots ?fp) \<le> card (used_slots fp)" by (simp add: card_mono)
  then show "fast_ok ?fp" using ok inj_on_subset [OF _ sub] by (auto simp: fast_ok_def)
  have only: "g = f" if "g < 16" "fpRelId fp g = fpRelId fp f" "fast_bit fp g m" for g
    using that ok f by (auto simp: fast_ok_def used_slots_def slot_used_def inj_on_def)
  show "fast_modes ?fp r = (if r = fpRelId fp f then fast_modes fp r - {m} else fast_modes fp r)"
    unfolding fast_modes_def fast_bit_clear [OF f(1,2)] using only by auto
qed

end
