(* ===== verification/FastTransfer.thy ===== *)
theory FastTransfer
  imports LockRequests FastPath
begin

text \<open>
  What moving weak locks from the fast path of a backend to the shared table does to both.
\<close>

section \<open>Moving locks of the fast path\<close>

definition transfer_effect :: "procs \<Rightarrow> LOCKTAG \<Rightarrow> nat \<Rightarrow> uint32 \<Rightarrow> LOCK option \<times> fast_path \<Rightarrow> LOCKMODE set
    \<Rightarrow> LOCK option \<times> fast_path \<Rightarrow> bool" where
  "transfer_effect procs tag i relid = (\<lambda>(entry, fp) D (entry', fp').
     D \<subseteq> fast_modes fp relid \<and> entry_sound procs tag entry'
     \<and> entry_holds entry' = entry_holds entry \<union> {i} \<times> D \<and> entry_queue entry' = entry_queue entry
     \<and> fast_ok fp' \<and> databaseId fp' = databaseId fp \<and> fast_modes fp' relid = fast_modes fp relid - D)"

lemma transfer_modes_result:
  assumes "entry_sound procs tag entry" "fast_ok fp" "f < 16" "fpRelId fp f = relid" "set ms \<subseteq> {1, 2, 3}" "distinct ms"
    "\<And>n. n \<in> fast_modes fp relid \<Longrightarrow> (i, n) \<notin> entry_holds entry"
    "\<And>n. n \<in> fast_modes fp relid \<Longrightarrow> i \<in> set (entry_queue entry) \<Longrightarrow> waitLockMode (procs i) \<noteq> n"
  shows "\<exists>res entry' fp' D. transfer_modes room procs i tag f ms (entry, fp) = (Inr res, entry', fp')
    \<and> transfer_effect procs tag i relid (entry, fp) D (entry', fp') \<and> (res \<longrightarrow> {n \<in> set ms. fast_bit fp f n} \<subseteq> D)"
  using assms
proof (induction ms arbitrary: entry fp)
  case Nil
  then show ?case by (auto simp: transfer_effect_def)
next
  case (Cons m ms)
  have m: "m \<in> {1, 2, 3}" "mode m" using Cons(6) by (auto simp: mode_def)
  show ?case
  proof (cases "fast_bit fp f m")
    case False
    have "\<exists>res entry' fp' D. transfer_modes room procs i tag f ms (entry, fp) = (Inr res, entry', fp')
      \<and> transfer_effect procs tag i relid (entry, fp) D (entry', fp') \<and> (res \<longrightarrow> {n \<in> set ms. fast_bit fp f n} \<subseteq> D)"
      using Cons by (intro Cons(1)) auto
    moreover have "{n \<in> set (m # ms). fast_bit fp f n} = {n \<in> set ms. fast_bit fp f n}" using False by auto
    moreover have "transfer_modes room procs i tag f (m # ms) (entry, fp) = transfer_modes room procs i tag f ms (entry, fp)"
      using False m(1) Cons(4) by simp
    ultimately show ?thesis by simp
  next
    case True
    let ?fp = "FAST_PATH_CLEAR_LOCKMODE fp f m"
    have mf: "m \<in> fast_modes fp relid" using True Cons(4,5) by (auto simp: fast_modes_def)
    note clear = fast_ok_clear [OF Cons(3,4) m(1) True]
    from SetupLockInTable_result [OF Cons(2) m(2) Cons(8) [OF mf], of "fst (room m)" "snd (room m)"]
    show ?thesis
    proof (elim disjE exE conjE)
      assume "SetupLockInTable (fst (room m)) (snd (room m)) procs i tag m entry = (Inr False, entry)"
      then have "transfer_modes room procs i tag f (m # ms) (entry, fp) = (Inr False, entry, fp)"
        using True m(1) Cons(4) by simp
      moreover have "transfer_effect procs tag i relid (entry, fp) {} (entry, fp)"
        using Cons(2,3) by (simp add: transfer_effect_def)
      ultimately show ?thesis by blast
    next
      fix lk pl
      assume table: "SetupLockInTable (fst (room m)) (snd (room m)) procs i tag m entry = (Inr True, Some lk)"
        and pend: "awaiting_grant i m procs tag entry lk pl"
      let ?entry = "Some (GrantLock i m lk)"
      have grant: "sound procs (GrantLock i m lk)" "holdset (GrantLock i m lk) = insert (i, m) (entry_holds entry)"
        using grant_result [OF pend m(2)] Cons(9) [OF mf] by auto
      have sound: "entry_sound procs tag ?entry" "entry_queue ?entry = entry_queue entry"
        using grant(1) awaiting_grantD(6,7) [OF pend] by simp_all
      have run: "transfer_modes room procs i tag f (m # ms) (entry, fp) = transfer_modes room procs i tag f ms (?entry, ?fp)"
        using True m(1) Cons(4) table by simp
      have modes: "fast_modes ?fp relid = fast_modes fp relid - {m}" using clear(2) Cons(5) by simp
      have "\<exists>res entry' fp' D. transfer_modes room procs i tag f ms (?entry, ?fp) = (Inr res, entry', fp')
        \<and> transfer_effect procs tag i relid (?entry, ?fp) D (entry', fp') \<and> (res \<longrightarrow> {n \<in> set ms. fast_bit ?fp f n} \<subseteq> D)"
      proof (rule Cons(1) [OF sound(1) clear(1) Cons(4)])
        show "(i, n) \<notin> entry_holds ?entry" if "n \<in> fast_modes ?fp relid" for n
          using that Cons(8) grant(2) by (auto simp: modes)
        show "waitLockMode (procs i) \<noteq> n" if "n \<in> fast_modes ?fp relid" "i \<in> set (entry_queue ?entry)" for n
          using that Cons(9) sound(2) by (auto simp: modes)
      qed (use Cons(5-7) in auto)
      then obtain res entry' fp' D where ih: "transfer_modes room procs i tag f ms (?entry, ?fp) = (Inr res, entry', fp')"
        "transfer_effect procs tag i relid (?entry, ?fp) D (entry', fp')" "res \<longrightarrow> {n \<in> set ms. fast_bit ?fp f n} \<subseteq> D"
        by blast
      have "transfer_effect procs tag i relid (entry, fp) (insert m D) (entry', fp')"
        using ih(2) grant(2) sound(2) mf by (auto simp: transfer_effect_def modes)
      moreover have "res \<longrightarrow> {n \<in> set (m # ms). fast_bit fp f n} \<subseteq> insert m D"
        using ih(3) fast_bit_clear [OF Cons(4) m(1), of fp f] by auto
      ultimately show ?thesis
        using run ih(1) by (intro exI [of _ res] exI [of _ entry'] exI [of _ fp'] exI [of _ "insert m D"]) simp
    qed
  qed
qed

lemma fast_modes_slot:
  assumes "fast_ok fp"
  shows "find_slot relid fp [0..<16] = None \<Longrightarrow> fast_modes fp relid = {}"
    "find_slot relid fp [0..<16] = Some f \<Longrightarrow> f < 16 \<and> fpRelId fp f = relid \<and> fast_modes fp relid = {n. fast_bit fp f n}"
proof -
  show "find_slot relid fp [0..<16] = None \<Longrightarrow> fast_modes fp relid = {}"
    by (auto simp: find_slot_None fast_modes_def slot_used_def)
  assume "find_slot relid fp [0..<16] = Some f"
  then have f: "f < 16" "fpRelId fp f = relid" "slot_used fp f" using find_slot_Some by fastforce+
  have "g = f" if "g < 16" "fpRelId fp g = relid" "fast_bit fp g n" for g n
  proof -
    have "inj_on (fpRelId fp) (used_slots fp)" using assms by (simp add: fast_ok_def)
    moreover have "g \<in> used_slots fp" "f \<in> used_slots fp" using that f by (auto simp: used_slots_def slot_used_def)
    ultimately show ?thesis using that(2) f(2) inj_onD [of "fpRelId fp" "used_slots fp" g f] by simp
  qed
  then show "f < 16 \<and> fpRelId fp f = relid \<and> fast_modes fp relid = {n. fast_bit fp f n}"
    unfolding fast_modes_def using f(1,2) by blast
qed

lemma transfer_backend_result:
  assumes "entry_sound procs tag entry" "fast_ok fp"
    "\<And>n. databaseId fp = locktag_field1 tag \<Longrightarrow> n \<in> fast_modes fp (locktag_field2 tag) \<Longrightarrow> (i, n) \<notin> entry_holds entry"
    "\<And>n. databaseId fp = locktag_field1 tag \<Longrightarrow> n \<in> fast_modes fp (locktag_field2 tag) \<Longrightarrow>
       i \<in> set (entry_queue entry) \<Longrightarrow> waitLockMode (procs i) \<noteq> n"
  shows "\<exists>res entry' fp' D. transfer_backend room procs tag i (entry, fp) = (Inr res, entry', fp')
    \<and> transfer_effect procs tag i (locktag_field2 tag) (entry, fp) D (entry', fp')
    \<and> (D \<noteq> {} \<longrightarrow> databaseId fp = locktag_field1 tag)
    \<and> (res \<longrightarrow> databaseId fp = locktag_field1 tag \<longrightarrow> fast_modes fp' (locktag_field2 tag) = {})"
proof (cases "databaseId fp = locktag_field1 tag")
  case True
  let ?relid = "locktag_field2 tag"
  show ?thesis
  proof (cases "find_slot ?relid fp [0..<16]")
    case None
    then have "transfer_backend room procs tag i (entry, fp) = (Inr True, entry, fp)" by (simp add: transfer_backend_def)
    moreover have "transfer_effect procs tag i ?relid (entry, fp) {} (entry, fp)" using assms(1,2) by (simp add: transfer_effect_def)
    ultimately show ?thesis using fast_modes_slot(1) [OF assms(2) None] by blast
  next
    case (Some f)
    then have f: "f < 16" "fpRelId fp f = ?relid" "fast_modes fp ?relid = {n. fast_bit fp f n}"
      using fast_modes_slot(2) [OF assms(2)] by blast+
    have run: "transfer_backend room procs tag i (entry, fp) = transfer_modes room procs i tag f [1..<4] (entry, fp)"
      using True Some by (simp add: transfer_backend_def)
    have sub: "set [1..<4] \<subseteq> {1, 2, 3 :: nat}" by auto
    obtain res entry' fp' D where t: "transfer_modes room procs i tag f [1..<4] (entry, fp) = (Inr res, entry', fp')"
      "transfer_effect procs tag i ?relid (entry, fp) D (entry', fp')" "res \<longrightarrow> {n \<in> set [1..<4]. fast_bit fp f n} \<subseteq> D"
      using transfer_modes_result [OF assms(1,2) f(1,2) sub distinct_upt assms(3) [OF True] assms(4) [OF True], of room] by blast
    have "{n \<in> set [1..<4]. fast_bit fp f n} = fast_modes fp ?relid" unfolding f(3) by (auto simp: fast_bit_def)
    then have "res \<longrightarrow> fast_modes fp' ?relid = {}" using t(2,3) by (auto simp: transfer_effect_def)
    then show ?thesis
      using run t(1,2) True by (intro exI [of _ res] exI [of _ entry'] exI [of _ fp'] exI [of _ D]) simp
  qed
next
  case False
  then have "transfer_backend room procs tag i (entry, fp) = (Inr True, entry, fp)" by (simp add: transfer_backend_def)
  moreover have "transfer_effect procs tag i (locktag_field2 tag) (entry, fp) {} (entry, fp)"
    using assms(1,2) by (simp add: transfer_effect_def)
  ultimately show ?thesis using False by blast
qed

lemma move_own_result:
  assumes "entry_sound procs tag entry" "fast_ok fp" "m \<in> {1, 2, 3}"
    "\<And>n. n \<in> fast_modes fp (locktag_field2 tag) \<Longrightarrow> (i, n) \<notin> entry_holds entry"
    "\<And>n. n \<in> fast_modes fp (locktag_field2 tag) \<Longrightarrow> i \<in> set (entry_queue entry) \<Longrightarrow> waitLockMode (procs i) \<noteq> n"
  shows "\<exists>res entry' fp' D. move_own lock_room proclock_room procs i tag m (entry, fp) = (Inr res, entry', fp')
    \<and> transfer_effect procs tag i (locktag_field2 tag) (entry, fp) D (entry', fp')"
proof (cases "find_slot (locktag_field2 tag) fp [0..<16]")
  case None
  then show ?thesis using assms(1,2) by (auto simp: move_own_def transfer_effect_def)
next
  case (Some f)
  then have f: "f < 16" "fpRelId fp f = locktag_field2 tag" using fast_modes_slot(2) [OF assms(2)] by blast+
  have "move_own lock_room proclock_room procs i tag m (entry, fp)
      = transfer_modes (\<lambda>_. (lock_room, proclock_room)) procs i tag f [m] (entry, fp)"
    using Some by (simp add: move_own_def)
  then show ?thesis
    using transfer_modes_result [OF assms(1,2) f, of "[m]" i "\<lambda>_. (lock_room, proclock_room)"] assms(3-5) by fastforce
qed

end
