(* ===== verification/LockProtocol.thy ===== *)
theory LockProtocol
  imports Prelude
begin

text \<open>
  The protocol of locking as its designers think of it: sets of holds in the shared table and in the fast
  paths of the backends, a set of queued requests, and for every process how far it is in acquiring a
  lock.  It says who may do what; \<open>strong\<close> modes are those that have to close the fast path first.
\<close>

datatype phase = Idle | Checked nat | Transferring nat nat | Requesting nat | Waiting nat | Cancelling nat | Failed nat

type_synonym hold = "nat \<times> nat"

record proto =
  tab :: "hold set"
  fast :: "hold set"
  queue :: "hold set"
  held :: "hold set"
  counted :: "hold set"
  stale :: "hold set"
  at :: "nat \<Rightarrow> phase"

text \<open>\<open>held\<close> is what the client has, \<open>stale\<close> what it has given up and is still to be taken out of the table,
  the fast path or the count of strong locks.\<close>

definition may_start :: "nat \<Rightarrow> nat \<Rightarrow> nat \<Rightarrow> proto \<Rightarrow> bool" where
  "may_start N p m a \<longleftrightarrow> p < N \<and> at a p = Idle \<and> (\<forall>n. (p, n) \<notin> stale a) \<and> (p, m) \<notin> held a"

inductive proto_step :: "nat \<Rightarrow> (hold \<Rightarrow> hold \<Rightarrow> bool) \<Rightarrow> (nat \<Rightarrow> bool) \<Rightarrow> (nat \<Rightarrow> bool) \<Rightarrow> proto \<Rightarrow> proto \<Rightarrow> bool"
  for N ok strong weak where
  check: "may_start N p m a \<Longrightarrow> weak m \<Longrightarrow> counted a = {} \<Longrightarrow>
    proto_step N ok strong weak a (a\<lparr>at := (at a)(p := Checked m)\<rparr>)"
| fast: "at a p = Checked m \<Longrightarrow>
    proto_step N ok strong weak a
      (a\<lparr>fast := insert (p, m) (fast a), held := insert (p, m) (held a), at := (at a)(p := Idle)\<rparr>)"
| full: "at a p = Checked m \<Longrightarrow> proto_step N ok strong weak a (a\<lparr>at := (at a)(p := Requesting m)\<rparr>)"
| skip: "may_start N p m a \<Longrightarrow> \<not> strong m \<Longrightarrow> proto_step N ok strong weak a (a\<lparr>at := (at a)(p := Requesting m)\<rparr>)"
| begin_strong: "may_start N p m a \<Longrightarrow> strong m \<Longrightarrow>
    proto_step N ok strong weak a (a\<lparr>counted := insert (p, m) (counted a), at := (at a)(p := Transferring m 0)\<rparr>)"
| move: "y \<in> fast a \<Longrightarrow> proto_step N ok strong weak a (a\<lparr>fast := fast a - {y}, tab := insert y (tab a)\<rparr>)"
| advance: "at a p = Transferring m i \<Longrightarrow> \<forall>n. (i, n) \<notin> fast a \<and> at a i \<noteq> Checked n \<Longrightarrow>
    proto_step N ok strong weak a (a\<lparr>at := (at a)(p := Transferring m (Suc i))\<rparr>)"
| transferred: "at a p = Transferring m i \<Longrightarrow> N \<le> i \<Longrightarrow>
    proto_step N ok strong weak a (a\<lparr>at := (at a)(p := Requesting m)\<rparr>)"
| fail: "at a p = Requesting m \<or> at a p = Transferring m i \<Longrightarrow>
    proto_step N ok strong weak a (a\<lparr>at := (at a)(p := Failed m)\<rparr>)"
| grant: "at a p = Requesting m \<Longrightarrow> \<forall>y \<in> tab a. ok (p, m) y \<Longrightarrow>
    proto_step N ok strong weak a
      (a\<lparr>tab := insert (p, m) (tab a), held := insert (p, m) (held a), at := (at a)(p := Idle)\<rparr>)"
| sleep: "at a p = Requesting m \<Longrightarrow>
    proto_step N ok strong weak a (a\<lparr>queue := insert (p, m) (queue a), at := (at a)(p := Waiting m)\<rparr>)"
| wake: "y \<in> queue a \<Longrightarrow> \<forall>z \<in> tab a. ok y z \<Longrightarrow>
    proto_step N ok strong weak a (a\<lparr>queue := queue a - {y}, tab := insert y (tab a)\<rparr>)"
| awake: "at a p = Waiting m \<Longrightarrow> (p, m) \<notin> queue a \<Longrightarrow>
    proto_step N ok strong weak a (a\<lparr>held := insert (p, m) (held a), at := (at a)(p := Idle)\<rparr>)"
| cancel: "at a p = Waiting m \<Longrightarrow>
    proto_step N ok strong weak a (a\<lparr>counted := counted a - {(p, m)}, at := (at a)(p := Cancelling m)\<rparr>)"
| leave: "at a p = Waiting m \<or> at a p = Cancelling m \<Longrightarrow> (p, m) \<in> queue a \<Longrightarrow>
    proto_step N ok strong weak a (a\<lparr>queue := queue a - {(p, m)}, at := (at a)(p := Failed m)\<rparr>)"
| late: "at a p = Cancelling m \<Longrightarrow> (p, m) \<notin> queue a \<Longrightarrow>
    proto_step N ok strong weak a (a\<lparr>stale := insert (p, m) (stale a), at := (at a)(p := Idle)\<rparr>)"
| abort: "at a p = Failed m \<Longrightarrow>
    proto_step N ok strong weak a (a\<lparr>counted := counted a - {(p, m)}, at := (at a)(p := Idle)\<rparr>)"
| let_go: "at a p = Idle \<Longrightarrow> (p, m) \<in> held a \<Longrightarrow>
    proto_step N ok strong weak a (a\<lparr>held := held a - {(p, m)}, stale := insert (p, m) (stale a)\<rparr>)"
| fast_out: "y \<in> stale a \<Longrightarrow> y \<in> fast a \<Longrightarrow>
    proto_step N ok strong weak a (a\<lparr>fast := fast a - {y}, stale := stale a - {y}\<rparr>)"
| table_out: "y \<in> stale a \<Longrightarrow> y \<in> tab a \<Longrightarrow>
    proto_step N ok strong weak a (a\<lparr>tab := tab a - {y}, stale := stale a - ({y} - counted a)\<rparr>)"
| uncount: "y \<in> stale a \<Longrightarrow> y \<in> counted a \<Longrightarrow>
    proto_step N ok strong weak a (a\<lparr>counted := counted a - {y}, stale := stale a - ({y} - tab a)\<rparr>)"

fun aims_at :: "phase \<Rightarrow> nat option" where
  "aims_at Idle = None"
| "aims_at (Checked m) = Some m"
| "aims_at (Transferring m i) = Some m"
| "aims_at (Requesting m) = Some m"
| "aims_at (Waiting m) = Some m"
| "aims_at (Cancelling m) = Some m"
| "aims_at (Failed m) = Some m"

text \<open>Which holds and requests there are, and why.\<close>

definition accounted :: "nat \<Rightarrow> (nat \<Rightarrow> bool) \<Rightarrow> proto \<Rightarrow> bool" where
  "accounted N weak a \<longleftrightarrow>
     (\<forall>p m. (p, m) \<in> tab a \<longrightarrow> (p, m) \<in> held a \<union> stale a \<or> at a p = Waiting m \<or> at a p = Cancelling m)
     \<and> (\<forall>p m. (p, m) \<in> fast a \<longrightarrow> weak m \<and> p < N \<and> (p, m) \<notin> tab a \<and> (p, m) \<in> held a \<union> stale a)
     \<and> (\<forall>p m. (p, m) \<in> held a \<longrightarrow> (p, m) \<in> tab a \<union> fast a \<and> (p, m) \<notin> stale a)
     \<and> (\<forall>p m. (p, m) \<in> stale a \<longrightarrow> at a p = Idle \<and> (p, m) \<in> tab a \<union> fast a \<union> counted a)
     \<and> (\<forall>p m. at a p = Waiting m \<or> at a p = Cancelling m \<longrightarrow> ((p, m) \<in> queue a) \<noteq> ((p, m) \<in> tab a))
     \<and> (\<forall>p m. (p, m) \<in> queue a \<longrightarrow> at a p = Waiting m \<or> at a p = Cancelling m)
     \<and> (\<forall>p m. aims_at (at a p) = Some m \<longrightarrow> (p, m) \<notin> held a)
     \<and> (\<forall>p m. at a p = Checked m \<longrightarrow> weak m \<and> p < N)"

text \<open>The strong locks are counted, and once the transfer has passed a backend its fast path stays empty.\<close>

definition strong_counted :: "(nat \<Rightarrow> bool) \<Rightarrow> proto \<Rightarrow> bool" where
  "strong_counted strong a \<longleftrightarrow>
     (\<forall>p m. strong m \<longrightarrow> (p, m) \<in> held a \<or> at a p = Requesting m \<or> at a p = Waiting m \<or> (\<exists>i. at a p = Transferring m i)
        \<longrightarrow> (p, m) \<in> counted a)
     \<and> (\<forall>p m. (p, m) \<in> counted a \<longrightarrow> strong m \<and> ((p, m) \<in> held a \<union> stale a \<or> aims_at (at a p) = Some m))"

definition closed :: "proto \<Rightarrow> bool" where
  "closed a \<longleftrightarrow> (\<forall>p m q n. (p, m) \<in> counted a \<longrightarrow> (q, n) \<in> fast a \<or> at a q = Checked n \<longrightarrow>
     (p, m) \<notin> held a \<and> at a p \<noteq> Requesting m \<and> at a p \<noteq> Waiting m \<and> (\<forall>i. at a p = Transferring m i \<longrightarrow> i \<le> q))"

definition alive :: "proto \<Rightarrow> hold \<Rightarrow> bool" where
  "alive a y \<longleftrightarrow> y \<in> held a \<or> at a (fst y) = Waiting (snd y)"

definition exclusive :: "(hold \<Rightarrow> hold \<Rightarrow> bool) \<Rightarrow> proto \<Rightarrow> bool" where
  "exclusive ok a \<longleftrightarrow> (\<forall>y z. y \<in> tab a \<longrightarrow> z \<in> tab a \<longrightarrow> alive a y \<longrightarrow> alive a z \<longrightarrow> ok y z)"

lemma accounted_raw:
  assumes "accounted N weak a"
  shows "(p, m) \<in> tab a \<Longrightarrow> (p, m) \<in> held a \<or> (p, m) \<in> stale a \<or> at a p = Waiting m \<or> at a p = Cancelling m"
    "(p, m) \<in> fast a \<Longrightarrow> weak m \<and> p < N \<and> (p, m) \<notin> tab a \<and> ((p, m) \<in> held a \<or> (p, m) \<in> stale a)"
    "(p, m) \<in> held a \<Longrightarrow> ((p, m) \<in> tab a \<or> (p, m) \<in> fast a) \<and> (p, m) \<notin> stale a \<and> aims_at (at a p) \<noteq> Some m"
    "(p, m) \<in> stale a \<Longrightarrow> at a p = Idle \<and> ((p, m) \<in> tab a \<or> (p, m) \<in> fast a \<or> (p, m) \<in> counted a)"
    "at a p = Waiting m \<Longrightarrow> ((p, m) \<in> queue a) = ((p, m) \<notin> tab a)"
    "at a p = Cancelling m \<Longrightarrow> ((p, m) \<in> queue a) = ((p, m) \<notin> tab a)"
    "(p, m) \<in> queue a \<Longrightarrow> at a p = Waiting m \<or> at a p = Cancelling m"
    "at a p = Checked m \<Longrightarrow> weak m \<and> p < N"
  using assms unfolding accounted_def by blast+

lemma accounted_aims:
  assumes "accounted N weak a"
  shows "(p, m) \<in> queue a \<Longrightarrow> aims_at (at a p) = Some m"
    "(p, m) \<in> held a \<or> (p, m) \<in> stale a \<Longrightarrow> aims_at (at a p) \<noteq> Some m"
  using accounted_raw(3,4,7) [OF assms, of p m] by auto

lemma accounted_more:
  assumes "accounted N weak a"
  shows "(p, m) \<in> fast a \<Longrightarrow> aims_at (at a p) \<noteq> Some m"
    "(p, m) \<in> tab a \<Longrightarrow> aims_at (at a p) = Some m \<Longrightarrow> at a p = Waiting m \<or> at a p = Cancelling m"
    "(p, m) \<in> queue a \<Longrightarrow> (p, m) \<notin> fast a \<and> (p, m) \<notin> held a \<and> (p, m) \<notin> stale a"
    "(p, n) \<in> queue a \<Longrightarrow> at a p = Waiting m \<Longrightarrow> n = m" "(p, n) \<in> queue a \<Longrightarrow> at a p = Cancelling m \<Longrightarrow> n = m"
    "(p, n) \<in> queue a \<Longrightarrow> at a p \<noteq> Idle"
  using accounted_raw(1,2) [OF assms, of p m] accounted_aims [OF assms, of p m] accounted_aims [OF assms, of p n] by auto

lemmas accountedD = accounted_raw accounted_more

lemma accountedI:
  assumes "\<And>p m. (p, m) \<in> tab a \<Longrightarrow> (p, m) \<in> held a \<or> (p, m) \<in> stale a \<or> at a p = Waiting m \<or> at a p = Cancelling m"
    "\<And>p m. (p, m) \<in> fast a \<Longrightarrow> weak m \<and> p < N \<and> (p, m) \<notin> tab a \<and> ((p, m) \<in> held a \<or> (p, m) \<in> stale a)"
    "\<And>p m. (p, m) \<in> held a \<Longrightarrow> ((p, m) \<in> tab a \<or> (p, m) \<in> fast a) \<and> (p, m) \<notin> stale a \<and> aims_at (at a p) \<noteq> Some m"
    "\<And>p m. (p, m) \<in> stale a \<Longrightarrow> at a p = Idle \<and> ((p, m) \<in> tab a \<or> (p, m) \<in> fast a \<or> (p, m) \<in> counted a)"
    "\<And>p m. at a p = Waiting m \<Longrightarrow> ((p, m) \<in> queue a) = ((p, m) \<notin> tab a)"
    "\<And>p m. at a p = Cancelling m \<Longrightarrow> ((p, m) \<in> queue a) = ((p, m) \<notin> tab a)"
    "\<And>p m. (p, m) \<in> queue a \<Longrightarrow> at a p = Waiting m \<or> at a p = Cancelling m"
    "\<And>p m. at a p = Checked m \<Longrightarrow> weak m \<and> p < N"
  shows "accounted N weak a"
  using assms unfolding accounted_def by blast

lemma strong_countedD:
  assumes "strong_counted strong a"
  shows "strong m \<Longrightarrow> (p, m) \<in> held a \<Longrightarrow> (p, m) \<in> counted a"
    "strong m \<Longrightarrow> at a p = Requesting m \<Longrightarrow> (p, m) \<in> counted a"
    "strong m \<Longrightarrow> at a p = Waiting m \<Longrightarrow> (p, m) \<in> counted a"
    "strong m \<Longrightarrow> at a p = Transferring m i \<Longrightarrow> (p, m) \<in> counted a"
    "(p, m) \<in> counted a \<Longrightarrow> strong m \<and> ((p, m) \<in> held a \<or> (p, m) \<in> stale a \<or> aims_at (at a p) = Some m)"
  using assms unfolding strong_counted_def by blast+

lemma accounted_step:
  assumes "proto_step N ok strong weak a b" "accounted N weak a" "strong_counted strong a" "\<And>m. weak m \<Longrightarrow> \<not> strong m"
  shows "accounted N weak b"
  using assms(1)
proof cases
  case (check p m)
  then show ?thesis by (intro accountedI; auto simp: may_start_def split: if_splits dest: accountedD [OF assms(2)])
next
  case (full p m)
  then show ?thesis by (intro accountedI; auto simp: may_start_def split: if_splits dest: accountedD [OF assms(2)])
next
  case (fast p m)
  then show ?thesis by (intro accountedI; auto simp: may_start_def split: if_splits dest: accountedD [OF assms(2)])
next
  case (skip p m)
  then show ?thesis by (intro accountedI; auto simp: may_start_def split: if_splits dest: accountedD [OF assms(2)])
next
  case (begin_strong p m)
  then show ?thesis by (intro accountedI; auto simp: may_start_def split: if_splits dest: accountedD [OF assms(2)])
next
  case (move y)
  then show ?thesis by (intro accountedI; cases y; auto dest: accountedD [OF assms(2)])
next
  case (advance p m i)
  then show ?thesis by (intro accountedI; auto simp: may_start_def split: if_splits dest: accountedD [OF assms(2)])
next
  case (transferred p m i)
  then show ?thesis by (intro accountedI; auto simp: may_start_def split: if_splits dest: accountedD [OF assms(2)])
next
  case (fail p m i)
  then show ?thesis by (intro accountedI; auto simp: may_start_def split: if_splits dest: accountedD [OF assms(2)])
next
  case (grant p m)
  then show ?thesis by (intro accountedI; auto simp: may_start_def split: if_splits dest: accountedD [OF assms(2)])
next
  case (sleep p m)
  then show ?thesis by (intro accountedI; auto simp: may_start_def split: if_splits dest: accountedD [OF assms(2)])
next
  case (wake y)
  then show ?thesis by (intro accountedI; cases y; auto dest: accountedD [OF assms(2)])
next
  case (awake p m)
  then show ?thesis by (intro accountedI; auto simp: may_start_def split: if_splits dest: accountedD [OF assms(2)])
next
  case (cancel p m)
  then show ?thesis by (intro accountedI; auto simp: may_start_def split: if_splits dest: accountedD [OF assms(2)])
next
  case (leave p m)
  then show ?thesis by (intro accountedI; auto simp: may_start_def split: if_splits dest: accountedD [OF assms(2)])
next
  case (late p m)
  then show ?thesis by (intro accountedI; auto simp: may_start_def split: if_splits dest: accountedD [OF assms(2)])
next
  case (abort p m)
  then show ?thesis by (intro accountedI; auto simp: may_start_def split: if_splits dest: accountedD [OF assms(2)])
next
  case (let_go p m)
  then show ?thesis by (intro accountedI; auto simp: may_start_def split: if_splits dest: accountedD [OF assms(2)])
next
  case (fast_out y)
  then show ?thesis by (intro accountedI; cases y; auto dest: accountedD [OF assms(2)])
next
  case (table_out y)
  then show ?thesis by (intro accountedI; cases y; auto dest: accountedD [OF assms(2)])
next
  case (uncount y)
  moreover have "y \<notin> fast a"
    using uncount(3) assms(4) by (cases y) (auto dest: accountedD(2) [OF assms(2)] strong_countedD(5) [OF assms(3)])
  ultimately show ?thesis by (intro accountedI; cases y; auto dest: accountedD [OF assms(2)])
qed

lemma strong_countedI:
  assumes "\<And>p m. strong m \<Longrightarrow> (p, m) \<in> held a \<Longrightarrow> (p, m) \<in> counted a"
    "\<And>p m. strong m \<Longrightarrow> at a p = Requesting m \<Longrightarrow> (p, m) \<in> counted a"
    "\<And>p m. strong m \<Longrightarrow> at a p = Waiting m \<Longrightarrow> (p, m) \<in> counted a"
    "\<And>p m i. strong m \<Longrightarrow> at a p = Transferring m i \<Longrightarrow> (p, m) \<in> counted a"
    "\<And>p m. (p, m) \<in> counted a \<Longrightarrow> strong m \<and> ((p, m) \<in> held a \<or> (p, m) \<in> stale a \<or> aims_at (at a p) = Some m)"
  shows "strong_counted strong a"
  using assms unfolding strong_counted_def by blast

lemma strong_counted_step:
  assumes "proto_step N ok strong weak a b" "accounted N weak a" "strong_counted strong a" "\<And>m. weak m \<Longrightarrow> \<not> strong m"
  shows "strong_counted strong b"
  using assms(1)
proof cases
  case (fast_out y)
  then have "y \<notin> counted a"
    using assms(4) by (cases y) (auto dest: accountedD(2) [OF assms(2)] strong_countedD [OF assms(3)])
  with fast_out show ?thesis by (intro strong_countedI; cases y; auto dest: accountedD [OF assms(2)] strong_countedD [OF assms(3)])
next
  case (abort p m)
  then have "(p, m) \<notin> held a" by (auto dest: accountedD [OF assms(2)])
  with abort show ?thesis by (intro strong_countedI; auto split: if_splits dest: accountedD [OF assms(2)] strong_countedD [OF assms(3)])
next
  case fast
  then show ?thesis using assms(4)
    by (intro strong_countedI; auto simp: may_start_def split: if_splits dest: accountedD [OF assms(2)] strong_countedD [OF assms(3)])
next
  case check
  then show ?thesis using assms(4)
    by (intro strong_countedI; auto simp: may_start_def split: if_splits dest: accountedD [OF assms(2)] strong_countedD [OF assms(3)])
next
  case full
  then show ?thesis using assms(4)
    by (intro strong_countedI; auto simp: may_start_def split: if_splits dest: accountedD [OF assms(2)] strong_countedD [OF assms(3)])
next
  case skip
  then show ?thesis using assms(4)
    by (intro strong_countedI; auto simp: may_start_def split: if_splits dest: accountedD [OF assms(2)] strong_countedD [OF assms(3)])
next
  case begin_strong
  then show ?thesis using assms(4)
    by (intro strong_countedI; auto simp: may_start_def split: if_splits dest: accountedD [OF assms(2)] strong_countedD [OF assms(3)])
next
  case transferred
  then show ?thesis using assms(4)
    by (intro strong_countedI; auto simp: may_start_def split: if_splits dest: accountedD [OF assms(2)] strong_countedD [OF assms(3)])
next
  case fail
  then show ?thesis using assms(4)
    by (intro strong_countedI; auto simp: may_start_def split: if_splits dest: accountedD [OF assms(2)] strong_countedD [OF assms(3)])
next
  case grant
  then show ?thesis using assms(4)
    by (intro strong_countedI; auto simp: may_start_def split: if_splits dest: accountedD [OF assms(2)] strong_countedD [OF assms(3)])
next
  case sleep
  then show ?thesis using assms(4)
    by (intro strong_countedI; auto simp: may_start_def split: if_splits dest: accountedD [OF assms(2)] strong_countedD [OF assms(3)])
next
  case awake
  then show ?thesis using assms(4)
    by (intro strong_countedI; auto simp: may_start_def split: if_splits dest: accountedD [OF assms(2)] strong_countedD [OF assms(3)])
next
  case cancel
  then show ?thesis using assms(4)
    by (intro strong_countedI; auto simp: may_start_def split: if_splits dest: accountedD [OF assms(2)] strong_countedD [OF assms(3)])
next
  case leave
  then show ?thesis using assms(4)
    by (intro strong_countedI; auto simp: may_start_def split: if_splits dest: accountedD [OF assms(2)] strong_countedD [OF assms(3)])
next
  case late
  then show ?thesis using assms(4)
    by (intro strong_countedI; auto simp: may_start_def split: if_splits dest: accountedD [OF assms(2)] strong_countedD [OF assms(3)])
next
  case let_go
  then show ?thesis using assms(4)
    by (intro strong_countedI; auto simp: may_start_def split: if_splits dest: accountedD [OF assms(2)] strong_countedD [OF assms(3)])
next
  case move
  then show ?thesis by (intro strong_countedI; auto split: if_splits dest: accountedD [OF assms(2)] strong_countedD [OF assms(3)])
next
  case advance
  then show ?thesis by (intro strong_countedI; auto split: if_splits dest: accountedD [OF assms(2)] strong_countedD [OF assms(3)])
next
  case wake
  then show ?thesis by (intro strong_countedI; auto split: if_splits dest: accountedD [OF assms(2)] strong_countedD [OF assms(3)])
next
  case table_out
  then show ?thesis by (intro strong_countedI; auto split: if_splits dest: accountedD [OF assms(2)] strong_countedD [OF assms(3)])
next
  case uncount
  then show ?thesis by (intro strong_countedI; auto split: if_splits dest: accountedD [OF assms(2)] strong_countedD [OF assms(3)])
qed


lemma closedD:
  assumes "closed a" "(p, m) \<in> counted a" "(q, n) \<in> fast a"
  shows "(p, m) \<notin> held a" "at a p \<noteq> Requesting m" "at a p \<noteq> Waiting m" "at a p = Transferring m i \<Longrightarrow> i \<le> q"
  using assms unfolding closed_def by blast+

lemma closedC:
  assumes "closed a" "(p, m) \<in> counted a" "at a q = Checked n"
  shows "(p, m) \<notin> held a" "at a p \<noteq> Requesting m" "at a p \<noteq> Waiting m" "at a p = Transferring m i \<Longrightarrow> i \<le> q"
  using assms unfolding closed_def by blast+

lemma closedI:
  assumes "\<And>p m q n. (p, m) \<in> counted a \<Longrightarrow> (q, n) \<in> fast a \<Longrightarrow>
     (p, m) \<notin> held a \<and> at a p \<noteq> Requesting m \<and> at a p \<noteq> Waiting m \<and> (\<forall>i. at a p = Transferring m i \<longrightarrow> i \<le> q)"
    "\<And>p m q n. (p, m) \<in> counted a \<Longrightarrow> at a q = Checked n \<Longrightarrow>
     (p, m) \<notin> held a \<and> at a p \<noteq> Requesting m \<and> at a p \<noteq> Waiting m \<and> (\<forall>i. at a p = Transferring m i \<longrightarrow> i \<le> q)"
  shows "closed a"
  using assms unfolding closed_def by blast

lemma closed_step:
  assumes "proto_step N ok strong weak a b" "accounted N weak a" "strong_counted strong a" "closed a" "\<And>m. weak m \<Longrightarrow> \<not> strong m"
  shows "closed b"
  using assms(1)
proof cases
  case (advance p m i)
  show ?thesis
  proof (rule closedI)
    fix p' m' q n assume "(p', m') \<in> counted b" "(q, n) \<in> fast b"
    then have y: "(p', m') \<in> counted a" "(q, n) \<in> fast a" using advance by simp_all
    moreover have "q \<noteq> i" using advance y(2) by auto
    ultimately show "(p', m') \<notin> held b \<and> at b p' \<noteq> Requesting m' \<and> at b p' \<noteq> Waiting m' \<and> (\<forall>i. at b p' = Transferring m' i \<longrightarrow> i \<le> q)"
      using closedD [OF assms(4) y] advance by (cases "p' = p") fastforce+
  next
    fix p' m' q n assume "(p', m') \<in> counted b" "at b q = Checked n"
    then have y: "(p', m') \<in> counted a" "at a q = Checked n" using advance by (auto split: if_splits)
    moreover have "q \<noteq> i" using advance y(2) by auto
    ultimately show "(p', m') \<notin> held b \<and> at b p' \<noteq> Requesting m' \<and> at b p' \<noteq> Waiting m' \<and> (\<forall>i. at b p' = Transferring m' i \<longrightarrow> i \<le> q)"
      using closedC [OF assms(4) y] advance by (cases "p' = p") fastforce+
  qed
next
  case (transferred p m i)
  show ?thesis
  proof (rule closedI)
    fix p' m' q n assume "(p', m') \<in> counted b" "(q, n) \<in> fast b"
    then have y: "(p', m') \<in> counted a" "(q, n) \<in> fast a" using transferred by simp_all
    moreover have "q < N" using accountedD(2) [OF assms(2) y(2)] by simp
    ultimately show "(p', m') \<notin> held b \<and> at b p' \<noteq> Requesting m' \<and> at b p' \<noteq> Waiting m' \<and> (\<forall>i. at b p' = Transferring m' i \<longrightarrow> i \<le> q)"
      using closedD [OF assms(4) y] transferred by (cases "p' = p") fastforce+
  next
    fix p' m' q n assume "(p', m') \<in> counted b" "at b q = Checked n"
    then have y: "(p', m') \<in> counted a" "at a q = Checked n" using transferred by (auto split: if_splits)
    moreover have "q < N" using accounted_raw(8) [OF assms(2) y(2)] by simp
    ultimately show "(p', m') \<notin> held b \<and> at b p' \<noteq> Requesting m' \<and> at b p' \<noteq> Waiting m' \<and> (\<forall>i. at b p' = Transferring m' i \<longrightarrow> i \<le> q)"
      using closedC [OF assms(4) y] transferred by (cases "p' = p") fastforce+
  qed
next
  case check
  then show ?thesis
    by (intro closedI; auto simp: may_start_def split: if_splits
        dest: closedD [OF assms(4)] closedC [OF assms(4)] accountedD [OF assms(2)] strong_countedD [OF assms(3)])
next
  case (fast p m)
  moreover have "(p, m) \<notin> counted a"
    using fast(2) accounted_raw(8) [OF assms(2)] strong_countedD(5) [OF assms(3)] assms(5) by blast
  ultimately show ?thesis
    by (intro closedI; auto simp: may_start_def split: if_splits
        dest: closedD [OF assms(4)] closedC [OF assms(4)] accountedD [OF assms(2)] strong_countedD [OF assms(3)])
next
  case (full p m)
  moreover have "(p, m) \<notin> counted a"
    using full(2) accounted_raw(8) [OF assms(2)] strong_countedD(5) [OF assms(3)] assms(5) by blast
  ultimately show ?thesis
    by (intro closedI; auto simp: may_start_def split: if_splits
        dest: closedD [OF assms(4)] closedC [OF assms(4)] accountedD [OF assms(2)] strong_countedD [OF assms(3)])
next
  case skip
  then show ?thesis
    by (intro closedI; auto simp: may_start_def split: if_splits
        dest: closedD [OF assms(4)] closedC [OF assms(4)] accountedD [OF assms(2)] strong_countedD [OF assms(3)])
next
  case begin_strong
  then show ?thesis
    by (intro closedI; auto simp: may_start_def split: if_splits
        dest: closedD [OF assms(4)] closedC [OF assms(4)] accountedD [OF assms(2)] strong_countedD [OF assms(3)])
next
  case move
  then show ?thesis
    by (intro closedI; auto simp: may_start_def split: if_splits
        dest: closedD [OF assms(4)] closedC [OF assms(4)] accountedD [OF assms(2)] strong_countedD [OF assms(3)])
next
  case fail
  then show ?thesis
    by (intro closedI; auto simp: may_start_def split: if_splits
        dest: closedD [OF assms(4)] closedC [OF assms(4)] accountedD [OF assms(2)] strong_countedD [OF assms(3)])
next
  case grant
  then show ?thesis
    by (intro closedI; auto simp: may_start_def split: if_splits
        dest: closedD [OF assms(4)] closedC [OF assms(4)] accountedD [OF assms(2)] strong_countedD [OF assms(3)])
next
  case sleep
  then show ?thesis
    by (intro closedI; auto simp: may_start_def split: if_splits
        dest: closedD [OF assms(4)] closedC [OF assms(4)] accountedD [OF assms(2)] strong_countedD [OF assms(3)])
next
  case wake
  then show ?thesis
    by (intro closedI; auto simp: may_start_def split: if_splits
        dest: closedD [OF assms(4)] closedC [OF assms(4)] accountedD [OF assms(2)] strong_countedD [OF assms(3)])
next
  case awake
  then show ?thesis
    by (intro closedI; auto simp: may_start_def split: if_splits
        dest: closedD [OF assms(4)] closedC [OF assms(4)] accountedD [OF assms(2)] strong_countedD [OF assms(3)])
next
  case cancel
  then show ?thesis
    by (intro closedI; auto simp: may_start_def split: if_splits
        dest: closedD [OF assms(4)] closedC [OF assms(4)] accountedD [OF assms(2)] strong_countedD [OF assms(3)])
next
  case leave
  then show ?thesis
    by (intro closedI; auto simp: may_start_def split: if_splits
        dest: closedD [OF assms(4)] closedC [OF assms(4)] accountedD [OF assms(2)] strong_countedD [OF assms(3)])
next
  case late
  then show ?thesis
    by (intro closedI; auto simp: may_start_def split: if_splits
        dest: closedD [OF assms(4)] closedC [OF assms(4)] accountedD [OF assms(2)] strong_countedD [OF assms(3)])
next
  case abort
  then show ?thesis
    by (intro closedI; auto simp: may_start_def split: if_splits
        dest: closedD [OF assms(4)] closedC [OF assms(4)] accountedD [OF assms(2)] strong_countedD [OF assms(3)])
next
  case let_go
  then show ?thesis
    by (intro closedI; auto simp: may_start_def split: if_splits
        dest: closedD [OF assms(4)] closedC [OF assms(4)] accountedD [OF assms(2)] strong_countedD [OF assms(3)])
next
  case fast_out
  then show ?thesis
    by (intro closedI; auto simp: may_start_def split: if_splits
        dest: closedD [OF assms(4)] closedC [OF assms(4)] accountedD [OF assms(2)] strong_countedD [OF assms(3)])
next
  case table_out
  then show ?thesis
    by (intro closedI; auto simp: may_start_def split: if_splits
        dest: closedD [OF assms(4)] closedC [OF assms(4)] accountedD [OF assms(2)] strong_countedD [OF assms(3)])
next
  case uncount
  then show ?thesis
    by (intro closedI; auto simp: may_start_def split: if_splits
        dest: closedD [OF assms(4)] closedC [OF assms(4)] accountedD [OF assms(2)] strong_countedD [OF assms(3)])
qed

lemma exclusive_less:
  assumes "exclusive ok a" "tab b \<subseteq> tab a" "\<And>z. z \<in> tab b \<Longrightarrow> alive b z \<Longrightarrow> alive a z"
  shows "exclusive ok b"
  using assms unfolding exclusive_def by blast

text \<open>What the protocol needs of the modes: compatibility is mutual, and a weak mode goes with every mode that
  is not strong.\<close>

locale lock_protocol =
  fixes N :: nat and ok :: "hold \<Rightarrow> hold \<Rightarrow> bool" and strong weak :: "nat \<Rightarrow> bool"
  assumes ok_sym: "ok y z \<Longrightarrow> ok z y" and ok_refl: "ok y y"
    and weak_ok: "weak m \<Longrightarrow> \<not> strong n \<Longrightarrow> ok (p, m) (q, n)"
    and weak_not_strong: "weak m \<Longrightarrow> \<not> strong m"
begin

definition safe :: "proto \<Rightarrow> bool" where
  "safe a \<longleftrightarrow> accounted N weak a \<and> strong_counted strong a \<and> closed a \<and> exclusive ok a"

lemma exclusive_new:
  assumes "exclusive ok a" "tab b = insert y (tab a)" "\<And>z. z \<in> tab a \<Longrightarrow> alive b z \<Longrightarrow> alive a z"
    "\<And>z. z \<in> tab a \<Longrightarrow> alive a z \<Longrightarrow> ok y z"
  shows "exclusive ok b"
  using assms(1,3,4) ok_refl ok_sym unfolding exclusive_def assms(2) by blast

lemma exclusive_step:
  assumes step: "proto_step N ok strong weak a b" and safe: "safe a"
  shows "exclusive ok b"
proof -
  have ex: "exclusive ok a" and cl: "closed a" and sc: "strong_counted strong a" and ac: "accounted N weak a"
    using safe by (simp_all add: safe_def)
  from step show ?thesis
  proof cases
    case (move y)
    obtain q n where y: "y = (q, n)" by (cases y)
    have "ok y z" if z: "z \<in> tab a" "alive a z" for z
    proof (cases "strong (snd z)")
      case True
      then have "z \<in> counted a" using z(2) strong_countedD(1,3) [OF sc] by (cases z) (auto simp: alive_def)
      then have "\<not> alive a z" using closedD [OF cl, of "fst z" "snd z" q n] move y by (auto simp: alive_def)
      then show ?thesis using z(2) by simp
    next
      case False
      then show ?thesis using weak_ok [of n "snd z" q "fst z"] accountedD(2) [OF ac, of q n] move y by simp
    qed
    with move show ?thesis
      by (intro exclusive_new [OF ex, where y = y]) (use move in \<open>auto simp: alive_def\<close>)
  next
    case (wake y)
    then show ?thesis
      by (intro exclusive_new [OF ex, where y = y]) (use wake in \<open>auto simp: alive_def\<close>)
  next
    case (grant p m)
    have "(p, m) \<notin> tab a" using grant(2) accounted_more(2) [OF ac, of p m] by auto
    then show ?thesis
      by (intro exclusive_new [OF ex, where y = "(p, m)"])
        (use grant in \<open>auto simp: alive_def split: if_splits\<close>)
  next
    case (fast p m)
    then have "(p, m) \<notin> tab a" using accounted_more(2) [OF ac, of p m] by auto
    then show ?thesis by (intro exclusive_less [OF ex]) (use fast in \<open>auto simp: alive_def split: if_splits\<close>)
  next
    case (sleep p m)
    then have "(p, m) \<notin> tab a" using accounted_more(2) [OF ac, of p m] by auto
    then show ?thesis by (intro exclusive_less [OF ex]) (use sleep in \<open>auto simp: alive_def split: if_splits\<close>)
  next
    case check
    then show ?thesis by (intro exclusive_less [OF ex]) (auto simp: alive_def split: if_splits)
  next
    case full
    then show ?thesis by (intro exclusive_less [OF ex]) (auto simp: alive_def split: if_splits)
  next
    case skip
    then show ?thesis by (intro exclusive_less [OF ex]) (auto simp: alive_def split: if_splits)
  next
    case begin_strong
    then show ?thesis by (intro exclusive_less [OF ex]) (auto simp: alive_def split: if_splits)
  next
    case advance
    then show ?thesis by (intro exclusive_less [OF ex]) (auto simp: alive_def split: if_splits)
  next
    case transferred
    then show ?thesis by (intro exclusive_less [OF ex]) (auto simp: alive_def split: if_splits)
  next
    case fail
    then show ?thesis by (intro exclusive_less [OF ex]) (auto simp: alive_def split: if_splits)
  next
    case awake
    then show ?thesis by (intro exclusive_less [OF ex]) (auto simp: alive_def split: if_splits)
  next
    case cancel
    then show ?thesis by (intro exclusive_less [OF ex]) (auto simp: alive_def split: if_splits)
  next
    case leave
    then show ?thesis by (intro exclusive_less [OF ex]) (auto simp: alive_def split: if_splits)
  next
    case late
    then show ?thesis by (intro exclusive_less [OF ex]) (auto simp: alive_def split: if_splits)
  next
    case abort
    then show ?thesis by (intro exclusive_less [OF ex]) (auto simp: alive_def split: if_splits)
  next
    case let_go
    then show ?thesis by (intro exclusive_less [OF ex]) (auto simp: alive_def split: if_splits)
  next
    case fast_out
    then show ?thesis by (intro exclusive_less [OF ex]) (auto simp: alive_def split: if_splits)
  next
    case table_out
    then show ?thesis by (intro exclusive_less [OF ex]) (auto simp: alive_def split: if_splits)
  next
    case uncount
    then show ?thesis by (intro exclusive_less [OF ex]) (auto simp: alive_def split: if_splits)
  qed
qed

lemma safe_step: "proto_step N ok strong weak a b \<Longrightarrow> safe a \<Longrightarrow> safe b"
  using accounted_step strong_counted_step closed_step exclusive_step weak_not_strong unfolding safe_def by blast

lemma safe_run: "(proto_step N ok strong weak)\<^sup>*\<^sup>* a b \<Longrightarrow> safe a \<Longrightarrow> safe b"
  by (induction rule: rtranclp_induct) (auto intro: safe_step)

text \<open>What clients hold goes together.\<close>

lemma held_compatible:
  assumes "safe a" "y \<in> held a" "z \<in> held a"
  shows "ok y z"
proof -
  have ex: "exclusive ok a" and cl: "closed a" and sc: "strong_counted strong a" and ac: "accounted N weak a"
    using assms(1) by (simp_all add: safe_def)
  have fast: "ok y z" if y: "y \<in> fast a" and z: "z \<in> held a" for y z
  proof (cases "strong (snd z)")
    case True
    then have "z \<in> counted a" using z strong_countedD(1) [OF sc] by (cases z) auto
    then show ?thesis using closedD(1) [OF cl, of "fst z" "snd z" "fst y" "snd y"] y z by simp
  next
    case False
    then show ?thesis using weak_ok [of "snd y" "snd z" "fst y" "fst z"] accountedD(2) [OF ac, of "fst y" "snd y"] y by simp
  qed
  have "y \<in> tab a \<union> fast a" "z \<in> tab a \<union> fast a"
    using accountedD(3) [OF ac, of "fst y" "snd y"] accountedD(3) [OF ac, of "fst z" "snd z"] assms(2,3) by auto
  then show ?thesis using fast ok_sym assms(2,3) ex unfolding exclusive_def alive_def by blast
qed

end

end
