(* ===== verification/LockSystem.thy ===== *)
theory LockSystem
  imports FastTransfer LockProtocol
begin

text \<open>
  All backends at work on one lock: \<open>LockAcquireExtended\<close> and \<open>LockRelease\<close> of \<^verbatim>\<open>lock.c\<close> with the wait of
  \<^verbatim>\<open>proc.c\<close>, cut where they release or take a lock on shared memory, in any interleaving.
\<close>

section \<open>The system\<close>

text \<open>\<open>phases\<close> tells where each process is between two atomic parts.  \<open>given_up\<close> are the locks whose local
  count has gone to zero and that are not yet out of the shared state, \<open>others\<close> the number of strong locks
  with other tags in the same partition.\<close>

record lock_system =
  lock_entry :: "LOCK option"
  lock_procs :: procs
  fast_paths :: "nat \<Rightarrow> fast_path"
  counts :: strong_counts
  backends :: "nat \<Rightarrow> backend_locks"
  phases :: "nat \<Rightarrow> phase"
  given_up :: "hold set"
  others :: nat

text \<open>The first parts of \<open>LockAcquireExtended\<close> up to where it needs another lock on shared memory.\<close>

definition start_acquire :: "nat \<Rightarrow> LOCKTAG \<Rightarrow> LOCKMODE \<Rightarrow> fast_path \<Rightarrow> strong_counts \<times> backend_locks
    \<Rightarrow> phase \<times> strong_counts \<times> backend_locks" where
  "start_acquire part tag m fp = (\<lambda>(counts, b).
     if fast_path_open counts part tag m fp then (Checked m, counts, b)
     else if ConflictsWithRelationFastPath tag m then (Transferring m 0, BeginStrongLockAcquire part m (counts, b))
     else (Requesting m, counts, b))"

definition after_request :: "LOCKMODE \<Rightarrow> request_outcome \<Rightarrow> phase" where
  "after_request m outcome = (case outcome of LockGranted \<Rightarrow> Idle | Sleeping \<Rightarrow> Waiting m | _ \<Rightarrow> Failed m)"

definition got_lock :: "LOCKMODE \<Rightarrow> backend_locks \<Rightarrow> backend_locks" where
  "got_lock m b = FinishStrongLockAcquire (GrantLockLocal m b)"

definition holds_of :: "backend_locks \<Rightarrow> LOCKMODE set" where
  "holds_of b = {m. \<exists>l. locallocks b m = Some l \<and> 0 < nLocks l}"

definition counts_of :: "backend_locks \<Rightarrow> LOCKMODE set" where
  "counts_of b = {m. \<exists>l. locallocks b m = Some l \<and> holdsStrongLockCount l}"

definition local_holds :: "(nat \<Rightarrow> backend_locks) \<Rightarrow> hold set" where
  "local_holds bs = {(p, m). m \<in> holds_of (bs p)}"

definition local_counts :: "(nat \<Rightarrow> backend_locks) \<Rightarrow> hold set" where
  "local_counts bs = {(p, m). m \<in> counts_of (bs p)}"

definition fast_tag :: "LOCKTAG \<Rightarrow> bool" where
  "fast_tag tag \<longleftrightarrow> locktag_lockmethodid tag = DEFAULT_LOCKMETHOD \<and> locktag_type tag = LOCKTAG_RELATION
     \<and> locktag_field1 tag \<noteq> 0"

definition tag_modes :: "LOCKTAG \<Rightarrow> fast_path \<Rightarrow> LOCKMODE set" where
  "tag_modes tag fp = (if fast_tag tag \<and> databaseId fp = locktag_field1 tag then fast_modes fp (locktag_field2 tag) else {})"

definition fast_holds :: "nat \<Rightarrow> LOCKTAG \<Rightarrow> (nat \<Rightarrow> fast_path) \<Rightarrow> hold set" where
  "fast_holds N tag fps = {(q, n). q < N \<and> n \<in> tag_modes tag (fps q)}"

definition queue_pairs :: "procs \<Rightarrow> nat list \<Rightarrow> hold set" where
  "queue_pairs procs ps = (\<lambda>p. (p, waitLockMode (procs p))) ` set ps"

inductive lock_system_step :: "nat \<Rightarrow> LOCKTAG \<Rightarrow> nat \<Rightarrow> lock_system \<Rightarrow> lock_system \<Rightarrow> bool" for N tag part where
  again: "phases s p = Idle \<Longrightarrow> acquire_local m (backends s p) = (True, b) \<Longrightarrow>
    lock_system_step N tag part s (s\<lparr>backends := (backends s)(p := b)\<rparr>)"
| start: "p < N \<Longrightarrow> phases s p = Idle \<Longrightarrow> \<forall>n. (p, n) \<notin> given_up s \<Longrightarrow> mode m \<Longrightarrow>
    acquire_local m (backends s p) = (False, b) \<Longrightarrow> unat (counts s part) + 1 < 2 ^ 32 \<Longrightarrow>
    start_acquire part tag m (fast_paths s p) (counts s, b) = (ph, cs, b') \<Longrightarrow>
    lock_system_step N tag part s (s\<lparr>counts := cs, backends := (backends s)(p := b'), phases := (phases s)(p := ph)\<rparr>)"
| fast_grant: "phases s p = Checked m \<Longrightarrow>
    FastPathGrantRelationLock (locktag_field2 tag) m (fast_paths s p) = (got, fp) \<Longrightarrow>
    lock_system_step N tag part s (s\<lparr>fast_paths := (fast_paths s)(p := fp),
      backends := (if got then (backends s)(p := GrantLockLocal m (backends s p)) else backends s),
      phases := (phases s)(p := if got then Idle else Requesting m)\<rparr>)"
| transfer: "phases s p = Transferring m i \<Longrightarrow> i < N \<Longrightarrow> \<forall>n. phases s i \<noteq> Checked n \<Longrightarrow>
    transfer_backend room (lock_procs s) tag i (lock_entry s, fast_paths s i) = (res, entry, fp) \<Longrightarrow>
    lock_system_step N tag part s (s\<lparr>lock_entry := entry, fast_paths := (fast_paths s)(i := fp),
      phases := (phases s)(p := if res = Inr True then Transferring m (Suc i) else Failed m)\<rparr>)"
| transferred: "phases s p = Transferring m i \<Longrightarrow> N \<le> i \<Longrightarrow>
    lock_system_step N tag part s (s\<lparr>phases := (phases s)(p := Requesting m)\<rparr>)"
| request: "phases s p = Requesting m \<Longrightarrow>
    request_lock lock_room proclock_room p tag m dontWait (lock_entry s, lock_procs s) = Some (outcome, entry, procs) \<Longrightarrow>
    lock_system_step N tag part s (s\<lparr>lock_entry := entry, lock_procs := procs,
      backends := (if outcome = LockGranted then (backends s)(p := got_lock m (backends s p)) else backends s),
      phases := (phases s)(p := after_request m outcome)\<rparr>)"
| awake: "phases s p = Waiting m \<Longrightarrow> p \<notin> set (entry_queue (lock_entry s)) \<Longrightarrow>
    lock_system_step N tag part s (s\<lparr>backends := (backends s)(p := got_lock m (backends s p)), phases := (phases s)(p := Idle)\<rparr>)"
| cancel: "phases s p = Waiting m \<Longrightarrow> AbortStrongLockAcquire part (counts s, backends s p) = (cs, b) \<Longrightarrow>
    lock_system_step N tag part s (s\<lparr>counts := cs, backends := (backends s)(p := b), phases := (phases s)(p := Cancelling m)\<rparr>)"
| leave: "phases s p = Waiting m \<or> phases s p = Cancelling m \<Longrightarrow> lock_entry s = Some lk \<Longrightarrow> p \<in> set (waitProcs lk) \<Longrightarrow>
    RemoveFromWaitQueue p p (lk, lock_procs s) = Some (entry, procs) \<Longrightarrow>
    lock_system_step N tag part s (s\<lparr>lock_entry := entry, lock_procs := procs, phases := (phases s)(p := Failed m)\<rparr>)"
| late: "phases s p = Cancelling m \<Longrightarrow> p \<notin> set (entry_queue (lock_entry s)) \<Longrightarrow>
    lock_system_step N tag part s (s\<lparr>given_up := insert (p, m) (given_up s), phases := (phases s)(p := Idle)\<rparr>)"
| abort: "phases s p = Failed m \<Longrightarrow> AbortStrongLockAcquire part (counts s, backends s p) = (cs, b) \<Longrightarrow>
    lock_system_step N tag part s (s\<lparr>counts := cs, backends := (backends s)(p := b), phases := (phases s)(p := Idle)\<rparr>)"
| release: "phases s p = Idle \<Longrightarrow> release_local m (backends s p) = (final, b) \<Longrightarrow>
    lock_system_step N tag part s (s\<lparr>backends := (backends s)(p := b),
      given_up := (if final then insert (p, m) (given_up s) else given_up s)\<rparr>)"
| give_up: "phases s p = Idle \<Longrightarrow> (p, m) \<in> local_holds (backends s) \<Longrightarrow>
    lock_system_step N tag part s (s\<lparr>backends := (backends s)(p := set_locallock m (\<lambda>l. l\<lparr>nLocks := 0\<rparr>) (backends s p)),
      given_up := insert (p, m) (given_up s)\<rparr>)"
| fast_release: "p < N \<Longrightarrow> (p, m) \<in> given_up s \<Longrightarrow> mode m \<Longrightarrow> release_fast tag m (fast_paths s p) = (released, fp) \<Longrightarrow>
    lock_system_step N tag part s (s\<lparr>fast_paths := (fast_paths s)(p := fp),
      given_up := (if released then given_up s - {(p, m)} else given_up s)\<rparr>)"
| table_release: "(p, m) \<in> given_up s \<Longrightarrow> lock_entry s = Some lk \<Longrightarrow> (p, m) \<in> holdset lk \<Longrightarrow>
    release_lock p p m (lk, lock_procs s) = Some (entry, procs) \<Longrightarrow>
    lock_system_step N tag part s (s\<lparr>lock_entry := entry, lock_procs := procs,
      given_up := given_up s - ({(p, m)} - local_counts (backends s))\<rparr>)"
| table_release_all: "phases s p = Idle \<Longrightarrow> lock_entry s = Some lk \<Longrightarrow>
    \<forall>m. mode m \<and> bit M m \<longrightarrow> (p, m) \<in> given_up s \<and> (p, m) \<in> holdset lk \<Longrightarrow>
    release_proclock p p M (lk, lock_procs s) = Some (entry, procs) \<Longrightarrow>
    lock_system_step N tag part s (s\<lparr>lock_entry := entry, lock_procs := procs,
      given_up := given_up s - ({(p, m) | m. mode m \<and> bit M m} - local_counts (backends s))\<rparr>)"
| forget: "phases s p = Idle \<Longrightarrow> locallocks (backends s p) m = Some l \<Longrightarrow> nLocks l \<le> 0 \<Longrightarrow>
    RemoveLocalLock part m (counts s, backends s p) = (cs, b) \<Longrightarrow>
    lock_system_step N tag part s (s\<lparr>counts := cs, backends := (backends s)(p := b),
      given_up := (if holdsStrongLockCount l then given_up s - ({(p, m)} - entry_holds (lock_entry s)) else given_up s)\<rparr>)"
| move_own: "p < N \<Longrightarrow> phases s p = Idle \<Longrightarrow> fast_tag tag \<Longrightarrow> databaseId (fast_paths s p) = locktag_field1 tag \<Longrightarrow>
    m \<in> {1, 2, 3} \<Longrightarrow>
    move_own lock_room proclock_room (lock_procs s) p tag m (lock_entry s, fast_paths s p) = (res, entry, fp) \<Longrightarrow>
    lock_system_step N tag part s (s\<lparr>lock_entry := entry, fast_paths := (fast_paths s)(p := fp)\<rparr>)"
| rearrange: "lock_entry s = Some lk \<Longrightarrow> mset order = mset (waitProcs lk) \<Longrightarrow>
    rearrange_queue me order (lk, lock_procs s) = Some (lk', procs) \<Longrightarrow>
    lock_system_step N tag part s (s\<lparr>lock_entry := Some lk', lock_procs := procs\<rparr>)"
| elsewhere: "same_waits (entry_queue (lock_entry s)) (lock_procs s) procs \<Longrightarrow>
    \<forall>q. fast_ok (fps q) \<and> tag_modes tag (fps q) = tag_modes tag (fast_paths s q) \<and>
        ((\<exists>n. phases s q = Checked n) \<longrightarrow> fps q = fast_paths s q) \<Longrightarrow>
    unat (cs part) + others s = unat (counts s part) + k \<Longrightarrow>
    lock_system_step N tag part s (s\<lparr>lock_procs := procs, fast_paths := fps, counts := cs, others := k\<rparr>)"


section \<open>The system follows the protocol\<close>

definition abs_system :: "nat \<Rightarrow> LOCKTAG \<Rightarrow> lock_system \<Rightarrow> proto" where
  "abs_system N tag s = \<lparr>tab = entry_holds (lock_entry s), fast = fast_holds N tag (fast_paths s),
     queue = queue_pairs (lock_procs s) (entry_queue (lock_entry s)), held = local_holds (backends s),
     counted = local_counts (backends s), stale = given_up s, at = phases s\<rparr>"

definition strong_mode :: "LOCKTAG \<Rightarrow> LOCKMODE \<Rightarrow> bool" where
  "strong_mode tag m \<longleftrightarrow> ConflictsWithRelationFastPath tag m"

definition weak_mode :: "LOCKTAG \<Rightarrow> LOCKMODE \<Rightarrow> bool" where
  "weak_mode tag m \<longleftrightarrow> fast_tag tag \<and> m \<in> {1, 2, 3}"

text \<open>\<open>C\<close> is compatibility of holds, which depends on the lock groups only.\<close>

definition may_coexist :: "(hold \<Rightarrow> hold \<Rightarrow> bool) \<Rightarrow> hold \<Rightarrow> hold \<Rightarrow> bool" where
  "may_coexist C y z \<longleftrightarrow> (mode (snd y) \<and> mode (snd z) \<longrightarrow> C y z)"

abbreviation system_proto :: "nat \<Rightarrow> LOCKTAG \<Rightarrow> (hold \<Rightarrow> hold \<Rightarrow> bool) \<Rightarrow> proto \<Rightarrow> proto \<Rightarrow> bool" where
  "system_proto N tag C \<equiv> proto_step N (may_coexist C) (strong_mode tag) (weak_mode tag)"

text \<open>The local lock tables: counts are not negative, a process that acquires a lock has an entry for it
  with count zero, and \<open>StrongLockInProgress\<close> is the entry it has counted for that.\<close>

definition local_ok :: "phase \<Rightarrow> backend_locks \<Rightarrow> bool" where
  "local_ok ph b \<longleftrightarrow> (\<forall>m l. locallocks b m = Some l \<longrightarrow> 0 \<le> nLocks l)
     \<and> (\<forall>m. aims_at ph = Some m \<longrightarrow> (\<exists>l. locallocks b m = Some l \<and> nLocks l = 0))
     \<and> (\<forall>m. StrongLockInProgress b = Some m \<longleftrightarrow> aims_at ph = Some m \<and> m \<in> counts_of b)"

definition count_ok :: "uint32 \<Rightarrow> hold set \<Rightarrow> nat \<Rightarrow> bool" where
  "count_ok c A k \<longleftrightarrow> finite A \<and> unat c = card A + k"

definition process_ok :: "LOCKTAG \<Rightarrow> phase \<Rightarrow> fast_path \<Rightarrow> backend_locks \<Rightarrow> bool" where
  "process_ok tag ph fp b \<longleftrightarrow> fast_ok fp \<and> local_ok ph b
     \<and> (\<forall>m. aims_at ph = Some m \<longrightarrow> mode m)
     \<and> (\<forall>m. ph = Checked m \<longrightarrow> databaseId fp = locktag_field1 tag)
     \<and> (\<forall>m i. ph = Transferring m i \<longrightarrow> fast_tag tag)
     \<and> (\<forall>m. ph = Cancelling m \<longrightarrow> m \<notin> counts_of b)"

definition system_ok :: "nat \<Rightarrow> LOCKTAG \<Rightarrow> nat \<Rightarrow> (hold \<Rightarrow> hold \<Rightarrow> bool) \<Rightarrow> lock_system \<Rightarrow> bool" where
  "system_ok N tag part C s \<longleftrightarrow>
     groups_ok (lock_procs s) \<and> compatible (lock_procs s) tag = C \<and> entry_sound (lock_procs s) tag (lock_entry s)
     \<and> (\<forall>q. process_ok tag (phases s q) (fast_paths s q) (backends s q))
     \<and> count_ok (counts s part) (local_counts (backends s)) (others s)"

text \<open>What the steps need of the state, and what they come to.\<close>

definition system_inv :: "nat \<Rightarrow> LOCKTAG \<Rightarrow> nat \<Rightarrow> (hold \<Rightarrow> hold \<Rightarrow> bool) \<Rightarrow> lock_system \<Rightarrow> bool" where
  "system_inv N tag part C s \<longleftrightarrow> system_ok N tag part C s \<and> accounted N (weak_mode tag) (abs_system N tag s)
     \<and> strong_counted (strong_mode tag) (abs_system N tag s)"

definition follows :: "nat \<Rightarrow> LOCKTAG \<Rightarrow> nat \<Rightarrow> (hold \<Rightarrow> hold \<Rightarrow> bool) \<Rightarrow> lock_system \<Rightarrow> lock_system \<Rightarrow> bool" where
  "follows N tag part C s t \<longleftrightarrow> system_ok N tag part C t
     \<and> (system_proto N tag C)\<^sup>*\<^sup>* (abs_system N tag s) (abs_system N tag t)"

text \<open>Waking a set of waiters is a sequence of steps of the protocol.\<close>

lemma wakes:
  assumes "finite W" "W \<subseteq> queue a" "\<forall>y \<in> W. \<forall>z \<in> tab a \<union> W. ok y z"
  shows "(proto_step N ok strong weak)\<^sup>*\<^sup>* a (a\<lparr>tab := tab a \<union> W, queue := queue a - W\<rparr>)"
  using assms
proof (induction W rule: finite_induct)
  case (insert y W)
  let ?a = "a\<lparr>tab := tab a \<union> W, queue := queue a - W\<rparr>"
  have before: "(proto_step N ok strong weak)\<^sup>*\<^sup>* a ?a" using insert by auto
  have "proto_step N ok strong weak ?a (?a\<lparr>queue := queue ?a - {y}, tab := insert y (tab ?a)\<rparr>)"
    by (rule proto_step.wake) (use insert in auto)
  moreover have "queue a - W - {y} = queue a - insert y W" by auto
  then have "?a\<lparr>queue := queue ?a - {y}, tab := insert y (tab ?a)\<rparr>
      = a\<lparr>tab := tab a \<union> insert y W, queue := queue a - insert y W\<rparr>" by simp
  ultimately have "proto_step N ok strong weak ?a (a\<lparr>tab := tab a \<union> insert y W, queue := queue a - insert y W\<rparr>)"
    by (simp only:)
  with before show ?case by (rule rtranclp.rtrancl_into_rtrancl)
qed simp

lemma queue_pairs_filter:
  "queue_pairs procs (filter (\<lambda>p. p \<notin> W) ps) = queue_pairs procs ps - (\<lambda>p. (p, waitLockMode (procs p))) ` W"
  by (auto simp: queue_pairs_def)

lemma queue_pairs_same:
  "same_waits ps procs procs' \<Longrightarrow> queue_pairs procs' ps = queue_pairs procs ps"
  by (auto simp: queue_pairs_def same_waits_def)

text \<open>The effect of an operation of the table, from the holds \<open>H\<close> and the queue \<open>Q\<close> on.\<close>

lemma effect_wakes:
  assumes eff: "effect procs1 tag Q H W entry' procs'" and C: "compatible procs1 tag = C"
  shows "(system_proto N tag C)\<^sup>*\<^sup>* (a\<lparr>tab := H, queue := queue_pairs procs1 Q\<rparr>)
      (a\<lparr>tab := entry_holds entry', queue := queue_pairs procs' (entry_queue entry')\<rparr>)"
    and "entry_sound procs' tag entry'" "groups_ok procs' = groups_ok procs1" "compatible procs' tag = C"
proof -
  let ?W = "(\<lambda>p. (p, waitLockMode (procs1 p))) ` W"
  have e: "W \<subseteq> set Q" "procs' = awake W procs1" "entry_queue entry' = filter (\<lambda>p. p \<notin> W) Q"
    "entry_holds entry' = H \<union> ?W" "\<forall>p \<in> W. \<forall>y \<in> entry_holds entry'. C (p, waitLockMode (procs1 p)) y"
    using eff C by (auto simp: effect_def)
  have "finite ?W" using e(1) finite_subset by blast
  moreover have "?W \<subseteq> queue_pairs procs1 Q" using e(1) by (auto simp: queue_pairs_def)
  moreover have "\<forall>y \<in> ?W. \<forall>z \<in> H \<union> ?W. may_coexist C y z" using e(4,5) by (auto simp: may_coexist_def)
  moreover have "queue_pairs procs' (entry_queue entry') = queue_pairs procs1 Q - ?W"
    unfolding e(3) queue_pairs_filter by (simp add: e(2) queue_pairs_def)
  ultimately show "(system_proto N tag C)\<^sup>*\<^sup>* (a\<lparr>tab := H, queue := queue_pairs procs1 Q\<rparr>)
      (a\<lparr>tab := entry_holds entry', queue := queue_pairs procs' (entry_queue entry')\<rparr>)"
    using wakes [of ?W "a\<lparr>tab := H, queue := queue_pairs procs1 Q\<rparr>" "may_coexist C" N "strong_mode tag" "weak_mode tag"] e(4) by simp
  show "entry_sound procs' tag entry'" "groups_ok procs' = groups_ok procs1" "compatible procs' tag = C"
    using eff C e(2) by (simp_all add: effect_def)
qed

interpretation lock_manager: lock_protocol N "may_coexist (compatible procs tag)" "strong_mode tag" "weak_mode tag"
  for N procs tag
proof
  show "may_coexist (compatible procs tag) z y" if "may_coexist (compatible procs tag) y z" for y z
    using that compatible_sym [of y z procs tag] by (auto simp: may_coexist_def)
  show "may_coexist (compatible procs tag) y y" for y by (simp add: may_coexist_def compatible_def)
  show "\<not> strong_mode tag m" if "weak_mode tag m" for m
    using that by (auto simp: strong_mode_def weak_mode_def ConflictsWithRelationFastPath_def)
  show "may_coexist (compatible procs tag) (p, m) (q, n)" if "weak_mode tag m" "\<not> strong_mode tag n" for m n p q
  proof -
    have "n \<le> 4" "m \<in> {1, 2, 3}"
      using that by (auto simp: strong_mode_def weak_mode_def ConflictsWithRelationFastPath_def fast_tag_def)
    then have "mode m \<Longrightarrow> mode n \<Longrightarrow> \<not> conflict m n"
      by (auto simp: conflict_table conflict_pairs_def)
    then show ?thesis by (auto simp: may_coexist_def compatible_def)
  qed
qed

section \<open>Local steps\<close>

lemma count_insert: "count_ok c A k \<Longrightarrow> y \<notin> A \<Longrightarrow> unat c + 1 < 2 ^ 32 \<Longrightarrow> count_ok (c + 1) (insert y A) k"
  by (simp add: count_ok_def unat_word_ariths)

lemma count_delete: "count_ok c A k \<Longrightarrow> y \<in> A \<Longrightarrow> count_ok (c - 1) (A - {y}) k"
proof -
  assume c: "count_ok c A k" "y \<in> A"
  then have "0 < card A" by (auto simp: count_ok_def card_gt_0_iff)
  moreover have "unat (c - 1) = unat c - 1"
    using c calculation by (intro unat_minus_one) (auto simp: count_ok_def)
  ultimately show ?thesis using c by (simp add: count_ok_def)
qed

lemma collect_update:
  fixes F :: "'b \<Rightarrow> nat set"
  shows "{(q, n). n \<in> F ((bs(p := b)) q)} = {(q, n). q \<noteq> p \<and> n \<in> F (bs q)} \<union> {p} \<times> F b"
  by (auto split: if_splits)

lemma collect_self:
  fixes F :: "'b \<Rightarrow> nat set"
  shows "{(q, n). n \<in> F (bs q)} = {(q, n). q \<noteq> p \<and> n \<in> F (bs q)} \<union> {p} \<times> F (bs p)"
  by auto

lemma holds_update:
  "holds_of b = holds_of (bs p) \<Longrightarrow> local_holds (bs(p := b)) = local_holds bs"
  "holds_of b = insert m (holds_of (bs p)) \<Longrightarrow> local_holds (bs(p := b)) = insert (p, m) (local_holds bs)"
  "holds_of b = holds_of (bs p) - {m} \<Longrightarrow> local_holds (bs(p := b)) = local_holds bs - {(p, m)}"
  unfolding local_holds_def collect_update collect_self [where p = p] by auto

lemma counts_update:
  "counts_of b = counts_of (bs p) \<Longrightarrow> local_counts (bs(p := b)) = local_counts bs"
  "counts_of b = insert m (counts_of (bs p)) \<Longrightarrow> local_counts (bs(p := b)) = insert (p, m) (local_counts bs)"
  "counts_of b = counts_of (bs p) - {m} \<Longrightarrow> local_counts (bs(p := b)) = local_counts bs - {(p, m)}"
  unfolding local_counts_def collect_update collect_self [where p = p] by auto

lemma locallocks_set [simp]:
  "locallocks (set_locallock m f b) n = (if n = m then map_option f (locallocks b m) else locallocks b n)"
  "StrongLockInProgress (set_locallock m f b) = StrongLockInProgress b"
  by (simp_all add: set_locallock_def)

lemma local_okD:
  assumes "local_ok ph b"
  shows "locallocks b m = Some l \<Longrightarrow> 0 \<le> nLocks l"
    "aims_at ph = Some m \<Longrightarrow> \<exists>l. locallocks b m = Some l \<and> nLocks l = 0"
    "StrongLockInProgress b = Some m \<longleftrightarrow> aims_at ph = Some m \<and> m \<in> counts_of b"
  using assms unfolding local_ok_def by blast+

lemma none_in_progress:
  assumes "local_ok ph b" "\<And>m. aims_at ph = Some m \<Longrightarrow> m \<notin> counts_of b"
  shows "StrongLockInProgress b = None"
proof (cases "StrongLockInProgress b")
  case (Some m)
  then show ?thesis using local_okD(3) [OF assms(1), of m] assms(2) [of m] by blast
qed

lemma acquire_local_again:
  "acquire_local m b = (True, b') \<Longrightarrow> holds_of b' = holds_of b \<and> counts_of b' = counts_of b
     \<and> (local_ok Idle b \<longrightarrow> local_ok Idle b')"
  by (auto simp: acquire_local_def GrantLockLocal_def set_locallock_def holds_of_def counts_of_def local_ok_def
      split: option.splits if_splits)

lemma acquire_local_new:
  assumes "acquire_local m b = (False, b')" "m \<notin> counts_of b" "local_ok Idle b"
  shows "holds_of b' = holds_of b" "counts_of b' = counts_of b" "m \<notin> holds_of b"
    "aims_at ph = Some m \<Longrightarrow> local_ok ph b'"
proof -
  have none: "StrongLockInProgress b = None" by (rule none_in_progress [OF assms(3)]) simp
  have "holds_of b' = holds_of b \<and> counts_of b' = counts_of b \<and> m \<notin> holds_of b \<and> (aims_at ph = Some m \<longrightarrow> local_ok ph b')"
  proof (cases "locallocks b m")
    case None
    then have b': "b' = b\<lparr>locallocks := (locallocks b)(m \<mapsto> \<lparr>nLocks = 0, holdsStrongLockCount = False\<rparr>)\<rparr>"
      using assms(1) by (simp add: acquire_local_def)
    have sets: "holds_of b' = holds_of b" "counts_of b' = counts_of b" "m \<notin> holds_of b"
      using None by (auto simp: b' holds_of_def counts_of_def split: if_splits)
    have "local_ok ph b'" if "aims_at ph = Some m"
      unfolding local_ok_def sets using that assms(2) none local_okD(1) [OF assms(3)] by (auto simp: b')
    then show ?thesis using sets by blast
  next
    case (Some l)
    then have "b' = b" "nLocks l = 0"
      using assms(1) local_okD(1) [OF assms(3) Some] by (auto simp: acquire_local_def split: if_splits)
    moreover have "local_ok ph b" if "aims_at ph = Some m"
      using that Some calculation(2) assms(2) none local_okD(1) [OF assms(3)] unfolding local_ok_def by auto
    ultimately show ?thesis using Some by (simp add: holds_of_def)
  qed
  then show "holds_of b' = holds_of b" "counts_of b' = counts_of b" "m \<notin> holds_of b"
    "aims_at ph = Some m \<Longrightarrow> local_ok ph b'" by blast+
qed

text \<open>Changes of one entry.\<close>

lemma set_locallock_sets:
  assumes "locallocks b m = Some l"
  shows "holds_of (set_locallock m f b) = (if 0 < nLocks (f l) then insert m (holds_of b) else holds_of b - {m})"
    "counts_of (set_locallock m f b) = (if holdsStrongLockCount (f l) then insert m (counts_of b) else counts_of b - {m})"
  using assms by (auto simp: holds_of_def counts_of_def split: if_splits)

lemma set_locallock_same:
  assumes "locallocks b m = Some l"
  shows "0 < nLocks (f l) \<longleftrightarrow> 0 < nLocks l \<Longrightarrow> holds_of (set_locallock m f b) = holds_of b"
    "holdsStrongLockCount (f l) \<longleftrightarrow> holdsStrongLockCount l \<Longrightarrow> counts_of (set_locallock m f b) = counts_of b"
  using assms by (auto simp: holds_of_def counts_of_def split: if_splits)

lemma sets_of_field [simp]:
  "holds_of (b\<lparr>StrongLockInProgress := x\<rparr>) = holds_of b" "counts_of (b\<lparr>StrongLockInProgress := x\<rparr>) = counts_of b"
  by (simp_all add: holds_of_def counts_of_def)

lemma set_locallock_ok:
  assumes "local_ok ph b" "locallocks b m = Some l" "0 \<le> nLocks (f l)"
    "aims_at ph' = None \<and> x = None
     \<or> aims_at ph' = Some m \<and> nLocks (f l) = 0 \<and> x = (if holdsStrongLockCount (f l) then Some m else None)"
  shows "local_ok ph' ((set_locallock m f b)\<lparr>StrongLockInProgress := x\<rparr>)"
  using assms local_okD(1) [OF assms(1)]
  by (auto simp: local_ok_def set_locallock_sets [OF assms(2)] split: if_splits)

lemma BeginStrongLockAcquire_result:
  assumes "local_ok (Requesting m) b" "aims_at ph = Some m"
    "BeginStrongLockAcquire part m (cs, b) = (cs', b')"
  shows "holds_of b' = holds_of b" "counts_of b' = insert m (counts_of b)" "local_ok ph b'" "cs' = cs(part := cs part + 1)"
proof -
  obtain l where l: "locallocks b m = Some l" "nLocks l = 0" using local_okD(2) [OF assms(1)] by auto
  have b': "b' = (set_locallock m (\<lambda>l. l\<lparr>holdsStrongLockCount := True\<rparr>) b)\<lparr>StrongLockInProgress := Some m\<rparr>"
    and "cs' = cs(part := cs part + 1)"
    using assms(3) by (auto simp: BeginStrongLockAcquire_def)
  then show "cs' = cs(part := cs part + 1)" by simp
  show "holds_of b' = holds_of b" "counts_of b' = insert m (counts_of b)"
    using l by (simp_all add: b' set_locallock_sets(2) [OF l(1)] set_locallock_same(1) [OF l(1)])
  show "local_ok ph b'" unfolding b' by (rule set_locallock_ok [OF assms(1) l(1)]) (use l assms(2) in simp_all)
qed

lemma got_lock_result:
  assumes "local_ok ph b" "aims_at ph = Some m"
  shows "holds_of (got_lock m b) = insert m (holds_of b)" "counts_of (got_lock m b) = counts_of b"
    "local_ok Idle (got_lock m b)"
proof -
  obtain l where l: "locallocks b m = Some l" "nLocks l = 0" using local_okD(2) [OF assms(1,2)] by auto
  have b': "got_lock m b = (set_locallock m (\<lambda>l. l\<lparr>nLocks := nLocks l + 1\<rparr>) b)\<lparr>StrongLockInProgress := None\<rparr>"
    by (simp add: got_lock_def FinishStrongLockAcquire_def GrantLockLocal_def)
  show "holds_of (got_lock m b) = insert m (holds_of b)" "counts_of (got_lock m b) = counts_of b"
    using l by (simp_all add: b' set_locallock_sets(1) [OF l(1)] set_locallock_same(2) [OF l(1)])
  show "local_ok Idle (got_lock m b)" unfolding b' by (rule set_locallock_ok [OF assms(1) l(1)]) (use l in simp_all)
qed

lemma GrantLockLocal_result:
  assumes "local_ok ph b" "aims_at ph = Some m" "m \<notin> counts_of b"
  shows "holds_of (GrantLockLocal m b) = insert m (holds_of b)" "counts_of (GrantLockLocal m b) = counts_of b"
    "local_ok Idle (GrantLockLocal m b)"
proof -
  have "StrongLockInProgress b = None"
    by (rule none_in_progress [OF assms(1)]) (use assms(2,3) in simp)
  then have "got_lock m b = GrantLockLocal m b"
    by (simp add: got_lock_def FinishStrongLockAcquire_def GrantLockLocal_def set_locallock_def)
  then show "holds_of (GrantLockLocal m b) = insert m (holds_of b)" "counts_of (GrantLockLocal m b) = counts_of b"
    "local_ok Idle (GrantLockLocal m b)" using got_lock_result [OF assms(1,2)] by simp_all
qed

lemma AbortStrongLockAcquire_result:
  assumes "local_ok ph b" "aims_at ph = Some m" "AbortStrongLockAcquire part (cs, b) = (cs', b')"
  shows "holds_of b' = holds_of b" "counts_of b' = counts_of b - {m}"
    "cs' = (if m \<in> counts_of b then cs(part := cs part - 1) else cs)"
    "local_ok (Cancelling m) b'" "local_ok Idle b'"
proof -
  obtain l where l: "locallocks b m = Some l" "nLocks l = 0" using local_okD(2) [OF assms(1,2)] by auto
  have "holds_of b' = holds_of b \<and> counts_of b' = counts_of b - {m}
    \<and> cs' = (if m \<in> counts_of b then cs(part := cs part - 1) else cs)
    \<and> local_ok (Cancelling m) b' \<and> local_ok Idle b'"
  proof (cases "m \<in> counts_of b")
    case True
    then have "StrongLockInProgress b = Some m" using local_okD(3) [OF assms(1)] assms(2) by simp
    then have b': "b' = (set_locallock m (\<lambda>l. l\<lparr>holdsStrongLockCount := False\<rparr>) b)\<lparr>StrongLockInProgress := None\<rparr>"
      and cs': "cs' = cs(part := cs part - 1)"
      using assms(3) by (auto simp: AbortStrongLockAcquire_def)
    have "local_ok ph' b'" if "ph' = Cancelling m \<or> ph' = Idle" for ph'
      unfolding b' by (rule set_locallock_ok [OF assms(1) l(1)]) (use l that in auto)
    moreover have "holds_of b' = holds_of b" "counts_of b' = counts_of b - {m}"
      using l by (simp_all add: b' set_locallock_sets(2) [OF l(1)] set_locallock_same(1) [OF l(1)])
    ultimately show ?thesis using True cs' by simp
  next
    case False
    then have none: "StrongLockInProgress b = None"
      by (intro none_in_progress [OF assms(1)]) (use assms(2) in simp)
    then have "b' = b" "cs' = cs" using assms(3) by (auto simp: AbortStrongLockAcquire_def)
    moreover have "local_ok (Cancelling m) b" "local_ok Idle b"
      using assms(1) none False l unfolding local_ok_def by auto
    ultimately show ?thesis using False by simp
  qed
  then show "holds_of b' = holds_of b" "counts_of b' = counts_of b - {m}"
    "cs' = (if m \<in> counts_of b then cs(part := cs part - 1) else cs)"
    "local_ok (Cancelling m) b'" "local_ok Idle b'" by blast+
qed

lemma idle_entry:
  assumes "local_ok Idle b" "locallocks b m = Some l" "0 \<le> nLocks (f l)"
  shows "local_ok Idle (set_locallock m f b)"
proof -
  have "StrongLockInProgress b = None" by (rule none_in_progress [OF assms(1)]) simp
  then have "set_locallock m f b = (set_locallock m f b)\<lparr>StrongLockInProgress := None\<rparr>" by (simp add: set_locallock_def)
  then show ?thesis using set_locallock_ok [where f = f and ph' = Idle and x = None, OF assms] by simp
qed

lemma release_local_result:
  assumes "local_ok Idle b" "release_local m b = (final, b')"
  shows "holds_of b' = (if final then holds_of b - {m} else holds_of b)" "counts_of b' = counts_of b" "local_ok Idle b'"
    "final \<Longrightarrow> m \<in> holds_of b"
proof -
  have "holds_of b' = (if final then holds_of b - {m} else holds_of b) \<and> counts_of b' = counts_of b \<and> local_ok Idle b'
    \<and> (final \<longrightarrow> m \<in> holds_of b)"
  proof (cases "locallocks b m")
    case None
    then show ?thesis using assms by (simp add: release_local_def)
  next
    case (Some l)
    show ?thesis
    proof (cases "0 < nLocks l")
      case True
      then have run: "final = (nLocks l \<le> 1)" "b' = set_locallock m (\<lambda>l. l\<lparr>nLocks := nLocks l - 1\<rparr>) b"
        using assms(2) Some by (auto simp: release_local_def)
      have "local_ok Idle b'" unfolding run(2) by (rule idle_entry [OF assms(1) Some]) (use True in simp)
      moreover have "counts_of b' = counts_of b" unfolding run(2) by (rule set_locallock_same(2) [OF Some]) simp
      moreover have "holds_of b' = (if final then holds_of b - {m} else holds_of b)"
      proof (cases final)
        case last: True
        then show ?thesis using run by (simp add: set_locallock_sets(1) [OF Some])
      next
        case more: False
        then have "holds_of b' = holds_of b"
          unfolding run(2) by (intro set_locallock_same(1) [OF Some]) (use run(1) in simp)
        then show ?thesis using more by simp
      qed
      moreover have "m \<in> holds_of b" using True Some by (simp add: holds_of_def)
      ultimately show ?thesis by blast
    qed (use assms Some in \<open>simp add: release_local_def\<close>)
  qed
  then show "holds_of b' = (if final then holds_of b - {m} else holds_of b)" "counts_of b' = counts_of b" "local_ok Idle b'"
    "final \<Longrightarrow> m \<in> holds_of b" by blast+
qed

lemma give_up_result:
  assumes "local_ok Idle b" "m \<in> holds_of b"
  shows "holds_of (set_locallock m (\<lambda>l. l\<lparr>nLocks := 0\<rparr>) b) = holds_of b - {m}"
    "counts_of (set_locallock m (\<lambda>l. l\<lparr>nLocks := 0\<rparr>) b) = counts_of b"
    "local_ok Idle (set_locallock m (\<lambda>l. l\<lparr>nLocks := 0\<rparr>) b)"
proof -
  obtain l where l: "locallocks b m = Some l" using assms(2) by (auto simp: holds_of_def)
  show "local_ok Idle (set_locallock m (\<lambda>l. l\<lparr>nLocks := 0\<rparr>) b)" by (rule idle_entry [OF assms(1) l]) simp
  show "holds_of (set_locallock m (\<lambda>l. l\<lparr>nLocks := 0\<rparr>) b) = holds_of b - {m}"
    "counts_of (set_locallock m (\<lambda>l. l\<lparr>nLocks := 0\<rparr>) b) = counts_of b"
    by (simp_all add: set_locallock_sets(1) [OF l] set_locallock_same(2) [OF l])
qed

lemma RemoveLocalLock_result:
  assumes "local_ok Idle b" "locallocks b m = Some l" "nLocks l \<le> 0" "RemoveLocalLock part m (cs, b) = (cs', b')"
  shows "holds_of b' = holds_of b" "counts_of b' = counts_of b - {m}" "local_ok Idle b'"
    "cs' = (if m \<in> counts_of b then cs(part := cs part - 1) else cs)" "m \<in> counts_of b \<longleftrightarrow> holdsStrongLockCount l"
  using assms by (auto simp: RemoveLocalLock_def holds_of_def counts_of_def local_ok_def split: if_splits)

end
