(* ===== verification/LockRefinement.thy ===== *)
theory LockRefinement
  imports LockSystem
begin

text \<open>
  Every step of \<open>LockSystem\<close> is a sequence of steps of \<open>LockProtocol\<close>, as long as the state is sound and
  accounted for; so what holds of the protocol in every run holds of the system.
\<close>

section \<open>Every step follows the protocol\<close>

lemma abs_fields [simp]:
  "tab (abs_system N tag s) = entry_holds (lock_entry s)" "fast (abs_system N tag s) = fast_holds N tag (fast_paths s)"
  "queue (abs_system N tag s) = queue_pairs (lock_procs s) (entry_queue (lock_entry s))"
  "held (abs_system N tag s) = local_holds (backends s)" "counted (abs_system N tag s) = local_counts (backends s)"
  "stale (abs_system N tag s) = given_up s" "at (abs_system N tag s) = phases s"
  by (simp_all add: abs_system_def)

lemma system_invD:
  assumes "system_inv N tag part C s"
  shows "groups_ok (lock_procs s)" "compatible (lock_procs s) tag = C" "entry_sound (lock_procs s) tag (lock_entry s)"
    "process_ok tag (phases s q) (fast_paths s q) (backends s q)"
    "count_ok (counts s part) (local_counts (backends s)) (others s)"
    "accounted N (weak_mode tag) (abs_system N tag s)" "strong_counted (strong_mode tag) (abs_system N tag s)"
  using assms by (auto simp: system_inv_def system_ok_def)

lemma process_okD:
  assumes "process_ok tag ph fp b"
  shows "fast_ok fp" "local_ok ph b" "aims_at ph = Some m \<Longrightarrow> mode m"
    "ph = Checked m \<Longrightarrow> databaseId fp = locktag_field1 tag" "ph = Transferring m i \<Longrightarrow> fast_tag tag"
    "ph = Cancelling m \<Longrightarrow> m \<notin> counts_of b"
  using assms unfolding process_ok_def by blast+

lemma process_okI:
  assumes "fast_ok fp" "local_ok ph b" "\<And>m. aims_at ph = Some m \<Longrightarrow> mode m"
    "\<And>m. ph = Checked m \<Longrightarrow> databaseId fp = locktag_field1 tag" "\<And>m i. ph = Transferring m i \<Longrightarrow> fast_tag tag"
    "\<And>m. ph = Cancelling m \<Longrightarrow> m \<notin> counts_of b"
  shows "process_ok tag ph fp b"
  using assms unfolding process_ok_def by blast

lemma follows_step:
  assumes "system_proto N tag C (abs_system N tag s) a" "a = abs_system N tag t" "system_ok N tag part C t"
  shows "follows N tag part C s t"
  using assms by (auto simp: follows_def)

lemma fast_member: "(q, n) \<in> fast_holds N tag (fps(p := fp)) \<longleftrightarrow>
    (if q = p then p < N \<and> n \<in> tag_modes tag fp else (q, n) \<in> fast_holds N tag fps)"
  by (simp add: fast_holds_def)

lemma fast_self: "(p, n) \<in> fast_holds N tag fps \<longleftrightarrow> p < N \<and> n \<in> tag_modes tag (fps p)"
  by (simp add: fast_holds_def)

lemma fast_update:
  "tag_modes tag fp = tag_modes tag (fps p) \<Longrightarrow> fast_holds N tag (fps(p := fp)) = fast_holds N tag fps"
  "p < N \<Longrightarrow> tag_modes tag fp = insert m (tag_modes tag (fps p)) \<Longrightarrow>
     fast_holds N tag (fps(p := fp)) = insert (p, m) (fast_holds N tag fps)"
  "tag_modes tag fp = tag_modes tag (fps p) - D \<Longrightarrow> fast_holds N tag (fps(p := fp)) = fast_holds N tag fps - {p} \<times> D"
  by (simp_all add: set_eq_iff split_paired_All fast_member fast_self)

lemma again_follows:
  assumes inv: "system_inv N tag part C s" and p: "phases s p = Idle" "acquire_local m (backends s p) = (True, b)"
  shows "follows N tag part C s (s\<lparr>backends := (backends s)(p := b)\<rparr>)" (is "follows _ _ _ _ _ ?t")
proof -
  note b = acquire_local_again [OF p(2)]
  have proc: "process_ok tag Idle (fast_paths s p) b"
    using system_invD(4) [OF inv, of p] b p(1) by (auto simp: process_ok_def)
  have "local_holds (backends ?t) = local_holds (backends s)" "local_counts (backends ?t) = local_counts (backends s)"
    using b by (simp_all add: holds_update(1) counts_update(1))
  then have "abs_system N tag ?t = abs_system N tag s" "system_ok N tag part C ?t"
    using system_invD [OF inv] p(1) proc by (simp_all add: abs_system_def system_ok_def)
  then show ?thesis by (simp add: follows_def)
qed

lemma start_follows:
  assumes inv: "system_inv N tag part C s" and p: "p < N" "phases s p = Idle" "\<forall>n. (p, n) \<notin> given_up s" "mode m"
    and loc: "acquire_local m (backends s p) = (False, b)" and room: "unat (counts s part) + 1 < 2 ^ 32"
    and run: "start_acquire part tag m (fast_paths s p) (counts s, b) = (ph, cs, b')"
  shows "follows N tag part C s (s\<lparr>counts := cs, backends := (backends s)(p := b'), phases := (phases s)(p := ph)\<rparr>)"
    (is "follows _ _ _ _ _ ?t")
proof -
  note procs = system_invD(4) [OF inv] and cnt = system_invD(5) [OF inv]
  have idle: "local_ok Idle (backends s p)" using process_okD(2) [OF procs, of p] p(2) by simp
  have nothold: "m \<notin> holds_of (backends s p)"
    using loc by (auto simp: acquire_local_def holds_of_def split: option.splits if_splits)
  then have notcount: "m \<notin> counts_of (backends s p)"
    using strong_countedD(5) [OF system_invD(7) [OF inv], of p m] p(2,3) by (auto simp: local_holds_def local_counts_def)
  note b = acquire_local_new [OF loc notcount idle]
  have start: "may_start N p m (abs_system N tag s)"
    using p nothold by (simp add: may_start_def local_holds_def)
  have proc: "process_ok tag ph' (fast_paths s p) b''"
    if "local_ok ph' b''" "aims_at ph' = Some m" "\<And>n. ph' = Checked n \<Longrightarrow> databaseId (fast_paths s p) = locktag_field1 tag"
      "\<And>n i. ph' = Transferring n i \<Longrightarrow> fast_tag tag" "\<And>n. ph' \<noteq> Cancelling n" for ph' b''
    by (rule process_okI) (use process_okD(1) [OF procs, of p] that p(4) in auto)
  consider (check) "fast_path_open (counts s) part tag m (fast_paths s p)"
    | (strong) "\<not> fast_path_open (counts s) part tag m (fast_paths s p)" "strong_mode tag m"
    | (skip) "\<not> fast_path_open (counts s) part tag m (fast_paths s p)" "\<not> strong_mode tag m" by blast
  then show ?thesis
  proof cases
    case check
    then have res: "ph = Checked m" "cs = counts s" "b' = b" using run by (auto simp: start_acquire_def)
    have el: "databaseId (fast_paths s p) = locktag_field1 tag" "weak_mode tag m" "counts s part = 0"
      using check p(4) by (auto simp: fast_path_open_def EligibleForRelationFastPath_def weak_mode_def fast_tag_def mode_cases)
    then have "local_counts (backends s) = {}" using cnt by (auto simp: count_ok_def)
    then have "counted (abs_system N tag s) = {}" by simp
    note step = proto_step.check [where weak = "weak_mode tag" and m = m, OF start el(2) this]
    show ?thesis
    proof (rule follows_step [OF step])
      show "(abs_system N tag s)\<lparr>at := (at (abs_system N tag s))(p := Checked m)\<rparr> = abs_system N tag ?t"
        using b res by (simp add: abs_system_def holds_update(1) counts_update(1))
      show "system_ok N tag part C ?t"
        using system_invD [OF inv] b res el(1) proc [of "Checked m" b] by (simp add: system_ok_def counts_update(1))
    qed
  next
    case strong
    then have ph: "ph = Transferring m 0" and begin_: "BeginStrongLockAcquire part m (counts s, b) = (cs, b')"
      using run by (auto simp: start_acquire_def strong_mode_def)
    have "local_ok (Requesting m) b" by (rule b(4)) simp
    note begun = BeginStrongLockAcquire_result [OF this _ begin_, of "Transferring m 0", simplified]
    have "fast_tag tag" using strong(2) by (simp add: strong_mode_def ConflictsWithRelationFastPath_def fast_tag_def)
    then have ok': "process_ok tag (Transferring m 0) (fast_paths s p) b'" by (intro proc) (use begun(3) in simp_all)
    have lh: "local_holds ((backends s)(p := b')) = local_holds (backends s)"
      and lc: "local_counts ((backends s)(p := b')) = insert (p, m) (local_counts (backends s))"
      using begun(1,2) b(1,2) by (simp_all add: holds_update(1) counts_update(2))
    show ?thesis
    proof (rule follows_step [OF proto_step.begin_strong [where strong = "strong_mode tag" and m = m, OF start strong(2)]])
      show "(abs_system N tag s)\<lparr>counted := insert (p, m) (counted (abs_system N tag s)),
          at := (at (abs_system N tag s))(p := Transferring m 0)\<rparr> = abs_system N tag ?t"
        using lh lc ph by (simp add: abs_system_def)
      have "count_ok (cs part) (insert (p, m) (local_counts (backends s))) (others s)"
        using count_insert [OF cnt _ room] notcount begun(4) by (simp add: local_counts_def)
      then show "system_ok N tag part C ?t"
        using system_invD [OF inv] ok' lc ph by (simp add: system_ok_def)
    qed
  next
    case skip
    then have res: "ph = Requesting m" "cs = counts s" "b' = b"
      using run by (auto simp: start_acquire_def strong_mode_def)
    show ?thesis
    proof (rule follows_step [OF proto_step.skip [where strong = "strong_mode tag" and m = m, OF start skip(2)]])
      show "(abs_system N tag s)\<lparr>at := (at (abs_system N tag s))(p := Requesting m)\<rparr> = abs_system N tag ?t"
        using b res by (simp add: abs_system_def holds_update(1) counts_update(1))
      show "system_ok N tag part C ?t"
        using system_invD [OF inv] b res proc [of "Requesting m" b] by (simp add: system_ok_def counts_update(1))
    qed
  qed
qed

lemma process_ok_change:
  assumes "process_ok tag ph fp b" "aims_at ph' = aims_at ph" "fast_ok fp'"
    "\<And>m. ph' = Checked m \<Longrightarrow> databaseId fp' = locktag_field1 tag" "\<And>m i. ph' = Transferring m i \<Longrightarrow> fast_tag tag"
    "\<And>m. ph' = Cancelling m \<Longrightarrow> m \<notin> counts_of b"
  shows "process_ok tag ph' fp' b"
  using assms unfolding process_ok_def local_ok_def by auto

lemma fast_grant_follows:
  assumes inv: "system_inv N tag part C s" and p: "phases s p = Checked m"
    and run: "FastPathGrantRelationLock (locktag_field2 tag) m (fast_paths s p) = (got, fp)"
  shows "follows N tag part C s (s\<lparr>fast_paths := (fast_paths s)(p := fp),
      backends := (if got then (backends s)(p := GrantLockLocal m (backends s p)) else backends s),
      phases := (phases s)(p := if got then Idle else Requesting m)\<rparr>)" (is "follows _ _ _ _ _ ?t")
proof -
  have weak: "weak_mode tag m" "p < N" using accounted_raw(8) [OF system_invD(6) [OF inv]] p by simp_all
  then have m: "m \<in> {1, 2, 3}" "fast_tag tag" by (auto simp: weak_mode_def)
  note proc = process_okD [OF system_invD(4) [OF inv, of p]]
  note fast = FastPathGrantRelationLock_result [OF proc(1) m(1) run]
  have db: "databaseId (fast_paths s p) = locktag_field1 tag" using proc(4) p by simp
  have modes: "tag_modes tag fp = (if got then insert m (tag_modes tag (fast_paths s p)) else tag_modes tag (fast_paths s p))"
    using fast db m(2) by (simp add: tag_modes_def)
  have aims: "aims_at (phases s p) = Some m" using p by simp
  show ?thesis
  proof (cases got)
    case True
    have "\<not> strong_mode tag m" using weak(1) by (auto simp: weak_mode_def strong_mode_def ConflictsWithRelationFastPath_def)
    then have "m \<notin> counts_of (backends s p)"
      using strong_countedD(5) [OF system_invD(7) [OF inv], of p m] by (auto simp: local_counts_def)
    note b = GrantLockLocal_result [OF proc(2) aims this]
    show ?thesis
    proof (rule follows_step [OF proto_step.fast [where p = p and m = m]])
      show "(abs_system N tag s)\<lparr>fast := insert (p, m) (fast (abs_system N tag s)), held := insert (p, m) (held (abs_system N tag s)),
          at := (at (abs_system N tag s))(p := Idle)\<rparr> = abs_system N tag ?t"
        using True b modes weak(2) by (simp add: abs_system_def fast_update(2) holds_update(2) counts_update(1))
      have "process_ok tag Idle fp (GrantLockLocal m (backends s p))"
        by (rule process_okI) (use fast(1) b(3) in simp_all)
      then show "system_ok N tag part C ?t"
        using True system_invD [OF inv] b by (simp add: system_ok_def counts_update(1))
    qed (use p in simp)
  next
    case False
    show ?thesis
    proof (rule follows_step [OF proto_step.full [where p = p and m = m]])
      show "(abs_system N tag s)\<lparr>at := (at (abs_system N tag s))(p := Requesting m)\<rparr> = abs_system N tag ?t"
        using False modes by (simp add: abs_system_def fast_update(1))
      have "process_ok tag (Requesting m) fp (backends s p)"
        by (rule process_okI) (use fast(1) proc(2,3) p in \<open>auto simp: local_ok_def\<close>)
      then show "system_ok N tag part C ?t" using False system_invD [OF inv] by (simp add: system_ok_def)
    qed (use p in simp)
  qed
qed

text \<open>Moving holds from the fast path to the table is a sequence of steps of the protocol.\<close>

lemma moves:
  assumes "finite D" "D \<subseteq> fast a"
  shows "(proto_step N ok strong weak)\<^sup>*\<^sup>* a (a\<lparr>tab := tab a \<union> D, fast := fast a - D\<rparr>)"
  using assms
proof (induction D rule: finite_induct)
  case (insert y D)
  let ?a = "a\<lparr>tab := tab a \<union> D, fast := fast a - D\<rparr>"
  have before: "(proto_step N ok strong weak)\<^sup>*\<^sup>* a ?a" using insert by auto
  have "proto_step N ok strong weak ?a (?a\<lparr>fast := fast ?a - {y}, tab := insert y (tab ?a)\<rparr>)"
    by (rule proto_step.move) (use insert in auto)
  moreover have "fast a - D - {y} = fast a - insert y D" by auto
  then have "?a\<lparr>fast := fast ?a - {y}, tab := insert y (tab ?a)\<rparr> = a\<lparr>tab := tab a \<union> insert y D, fast := fast a - insert y D\<rparr>"
    by simp
  ultimately have "proto_step N ok strong weak ?a (a\<lparr>tab := tab a \<union> insert y D, fast := fast a - insert y D\<rparr>)"
    by (simp only:)
  with before show ?case by (rule rtranclp.rtrancl_into_rtrancl)
qed simp

lemma tag_modes_finite: "finite (tag_modes tag fp)"
  by (rule finite_subset [of _ "{1, 2, 3}"]) (auto simp: tag_modes_def fast_modes_def fast_bit_def)

text \<open>What is needed to move the locks of backend \<open>i\<close>, and what it comes to.\<close>

lemma movable:
  assumes inv: "system_inv N tag part C s" and i: "i < N" "fast_tag tag" "databaseId (fast_paths s i) = locktag_field1 tag"
    and n: "n \<in> fast_modes (fast_paths s i) (locktag_field2 tag)"
  shows "(i, n) \<notin> entry_holds (lock_entry s)"
    "i \<in> set (entry_queue (lock_entry s)) \<Longrightarrow> waitLockMode (lock_procs s i) \<noteq> n"
proof -
  have fast: "(i, n) \<in> fast_holds N tag (fast_paths s)" using i n by (simp add: fast_holds_def tag_modes_def)
  note acc = system_invD(6) [OF inv]
  show "(i, n) \<notin> entry_holds (lock_entry s)" using accounted_raw(2) [OF acc, of i n] fast by simp
  show "waitLockMode (lock_procs s i) \<noteq> n" if "i \<in> set (entry_queue (lock_entry s))"
  proof
    assume "waitLockMode (lock_procs s i) = n"
    then have "(i, n) \<in> queue (abs_system N tag s)" using that by (auto simp: queue_pairs_def)
    then show False using accounted_more(3) [OF acc, of i n] fast by simp
  qed
qed

lemma transfer_moves:
  assumes eff: "transfer_effect (lock_procs s) tag i (locktag_field2 tag) (lock_entry s, fast_paths s i) D (entry, fp)"
    and i: "i < N" "D \<noteq> {} \<Longrightarrow> fast_tag tag \<and> databaseId (fast_paths s i) = locktag_field1 tag"
  shows "(system_proto N tag C)\<^sup>*\<^sup>* (abs_system N tag s)
      (abs_system N tag (s\<lparr>lock_entry := entry, fast_paths := (fast_paths s)(i := fp)\<rparr>))"
    and "tag_modes tag fp = tag_modes tag (fast_paths s i) - D"
proof -
  have e: "D \<subseteq> fast_modes (fast_paths s i) (locktag_field2 tag)" "entry_holds entry = entry_holds (lock_entry s) \<union> {i} \<times> D"
    "entry_queue entry = entry_queue (lock_entry s)" "databaseId fp = databaseId (fast_paths s i)"
    "fast_modes fp (locktag_field2 tag) = fast_modes (fast_paths s i) (locktag_field2 tag) - D"
    using eff by (simp_all add: transfer_effect_def)
  show modes: "tag_modes tag fp = tag_modes tag (fast_paths s i) - D" using e by (simp add: tag_modes_def)
  have "D \<subseteq> tag_modes tag (fast_paths s i)" using e(1) i(2) by (cases "D = {}") (auto simp: tag_modes_def)
  then have "{i} \<times> D \<subseteq> fast (abs_system N tag s)" "finite ({i} \<times> D)"
    using i(1) finite_subset [OF _ tag_modes_finite] by (auto simp: fast_holds_def)
  then have "(system_proto N tag C)\<^sup>*\<^sup>* (abs_system N tag s) ((abs_system N tag s)\<lparr>tab := tab (abs_system N tag s) \<union> {i} \<times> D,
      fast := fast (abs_system N tag s) - {i} \<times> D\<rparr>)"
    by (intro moves)
  moreover have "(abs_system N tag s)\<lparr>tab := tab (abs_system N tag s) \<union> {i} \<times> D,
      fast := fast (abs_system N tag s) - {i} \<times> D\<rparr> = abs_system N tag (s\<lparr>lock_entry := entry, fast_paths := (fast_paths s)(i := fp)\<rparr>)"
    using e(2,3) fast_update(3) [where fps = "fast_paths s" and p = i, OF modes] by (simp add: abs_system_def)
  ultimately show "(system_proto N tag C)\<^sup>*\<^sup>* (abs_system N tag s)
      (abs_system N tag (s\<lparr>lock_entry := entry, fast_paths := (fast_paths s)(i := fp)\<rparr>))" by simp
qed

lemma transfer_follows:
  assumes inv: "system_inv N tag part C s" and p: "phases s p = Transferring m i" "i < N" "\<forall>n. phases s i \<noteq> Checked n"
    and run: "transfer_backend room (lock_procs s) tag i (lock_entry s, fast_paths s i) = (res, entry, fp)"
  shows "follows N tag part C s (s\<lparr>lock_entry := entry, fast_paths := (fast_paths s)(i := fp),
      phases := (phases s)(p := if res = Inr True then Transferring m (Suc i) else Failed m)\<rparr>)" (is "follows _ _ _ _ _ ?t")
proof -
  let ?u = "s\<lparr>lock_entry := entry, fast_paths := (fast_paths s)(i := fp)\<rparr>"
  note proc = system_invD(4) [OF inv]
  have tag: "fast_tag tag" using process_okD(5) [OF proc [of p]] p(1) by simp
  obtain ok D where res: "res = Inr ok"
    and eff: "transfer_effect (lock_procs s) tag i (locktag_field2 tag) (lock_entry s, fast_paths s i) D (entry, fp)"
    and db: "D \<noteq> {} \<longrightarrow> databaseId (fast_paths s i) = locktag_field1 tag"
    and all: "ok \<longrightarrow> databaseId (fast_paths s i) = locktag_field1 tag \<longrightarrow> fast_modes fp (locktag_field2 tag) = {}"
    using transfer_backend_result [OF system_invD(3) [OF inv] process_okD(1) [OF proc [of i]], where i = i and room = room]
      movable [OF inv p(2) tag] run by fastforce
  have moved: "(system_proto N tag C)\<^sup>*\<^sup>* (abs_system N tag s) (abs_system N tag ?u)"
    using transfer_moves(1) [OF eff p(2)] tag db by blast
  have sound: "entry_sound (lock_procs s) tag entry" "fast_ok fp" "databaseId fp = databaseId (fast_paths s i)"
    using eff by (simp_all add: transfer_effect_def)
  have aims: "aims_at (if res = Inr True then Transferring m (Suc i) else Failed m) = Some m" by simp
  have procs: "process_ok tag (phases ?t q) (fast_paths ?t q) (backends s q)" for q
    by (rule process_ok_change [OF proc [of q]])
      (use p(1,3) sound(2,3) tag process_okD(1,4,6) [OF proc [of q]] in \<open>auto split: if_splits\<close>)
  have sys: "system_ok N tag part C ?t" using system_invD [OF inv] sound(1) procs by (simp add: system_ok_def)
  have "system_proto N tag C (abs_system N tag ?u) (abs_system N tag ?t)"
  proof (cases ok)
    case True
    have "(i, n) \<notin> fast_holds N tag ((fast_paths s)(i := fp))" for n
      using all True sound(3) by (auto simp: fast_member tag_modes_def)
    then have "system_proto N tag C (abs_system N tag ?u) ((abs_system N tag ?u)\<lparr>at := (at (abs_system N tag ?u))(p := Transferring m (Suc i))\<rparr>)"
      by (intro proto_step.advance [where i = i]) (use p in simp_all)
    then show ?thesis using True res by (simp add: abs_system_def)
  next
    case False
    have "system_proto N tag C (abs_system N tag ?u) ((abs_system N tag ?u)\<lparr>at := (at (abs_system N tag ?u))(p := Failed m)\<rparr>)"
      by (rule proto_step.fail [where i = i]) (use p in simp)
    then show ?thesis using False res by (simp add: abs_system_def)
  qed
  with moved sys show ?thesis unfolding follows_def by (blast intro: rtranclp.rtrancl_into_rtrancl)
qed

lemma transferred_follows:
  assumes inv: "system_inv N tag part C s" and p: "phases s p = Transferring m i" "N \<le> i"
  shows "follows N tag part C s (s\<lparr>phases := (phases s)(p := Requesting m)\<rparr>)" (is "follows _ _ _ _ _ ?t")
proof (rule follows_step [OF proto_step.transferred [where p = p and m = m and i = i]])
  show "(abs_system N tag s)\<lparr>at := (at (abs_system N tag s))(p := Requesting m)\<rparr> = abs_system N tag ?t"
    by (simp add: abs_system_def)
  have "process_ok tag (Requesting m) (fast_paths s p) (backends s p)"
    by (rule process_ok_change [OF system_invD(4) [OF inv, of p]]) (use p process_okD(1) [OF system_invD(4) [OF inv, of p]] in simp_all)
  then show "system_ok N tag part C ?t" using system_invD [OF inv] by (simp add: system_ok_def)
qed (use p in simp_all)

lemma not_queued:
  assumes inv: "system_inv N tag part C s" and p: "\<And>m. phases s p \<noteq> Waiting m" "\<And>m. phases s p \<noteq> Cancelling m"
  shows "p \<notin> set (entry_queue (lock_entry s))"
  using accounted_raw(7) [OF system_invD(6) [OF inv], of p "waitLockMode (lock_procs s p)"] p
  by (auto simp: queue_pairs_def)

lemma queued_mode:
  assumes inv: "system_inv N tag part C s" and p: "phases s p = Waiting m \<or> phases s p = Cancelling m"
  shows "p \<in> set (entry_queue (lock_entry s)) \<longleftrightarrow> (p, m) \<in> queue_pairs (lock_procs s) (entry_queue (lock_entry s))"
proof
  assume "p \<in> set (entry_queue (lock_entry s))"
  then have "(p, waitLockMode (lock_procs s p)) \<in> queue (abs_system N tag s)" by (auto simp: queue_pairs_def)
  moreover from this have "waitLockMode (lock_procs s p) = m"
    using accounted_more(4,5) [OF system_invD(6) [OF inv]] p by fastforce
  ultimately show "(p, m) \<in> queue_pairs (lock_procs s) (entry_queue (lock_entry s))" by simp
qed (auto simp: queue_pairs_def)

lemma other_phase:
  assumes inv: "system_inv N tag part C s" and ph: "aims_at ph = aims_at (phases s p)" "\<And>m. ph \<noteq> Checked m"
    "\<And>m i. ph \<noteq> Transferring m i" "\<And>m. ph \<noteq> Cancelling m"
  shows "process_ok tag ph (fast_paths s p) (backends s p)"
  by (rule process_ok_change [OF system_invD(4) [OF inv, of p]])
    (use ph process_okD(1) [OF system_invD(4) [OF inv, of p]] in simp_all)

lemma new_backend:
  assumes inv: "system_inv N tag part C s" and b: "local_ok ph b" "\<And>m. aims_at ph = Some m \<Longrightarrow> mode m" "\<And>m. ph \<noteq> Checked m"
    "\<And>m i. ph \<noteq> Transferring m i" "\<And>m. ph = Cancelling m \<Longrightarrow> m \<notin> counts_of b"
  shows "process_ok tag ph (fast_paths s p) b"
  by (rule process_okI [OF process_okD(1) [OF system_invD(4) [OF inv, of p]] b(1,2)]) (use b(3-5) in simp_all)

lemma request_follows:
  assumes inv: "system_inv N tag part C s" and p: "phases s p = Requesting m"
    and run: "request_lock lock_room proclock_room p tag m dontWait (lock_entry s, lock_procs s) = Some (outcome, entry, procs)"
  shows "follows N tag part C s (s\<lparr>lock_entry := entry, lock_procs := procs,
      backends := (if outcome = LockGranted then (backends s)(p := got_lock m (backends s p)) else backends s),
      phases := (phases s)(p := after_request m outcome)\<rparr>)" (is "follows _ _ _ _ _ ?t")
proof -
  note i = system_invD [OF inv]
  let ?Q = "entry_queue (lock_entry s)" and ?a = "abs_system N tag s"
  have m: "mode m" using process_okD(3) [OF i(4) [of p]] p by simp
  have free: "(p, m) \<notin> entry_holds (lock_entry s)" using accounted_more(2) [OF i(6), of p m] p by auto
  have out: "p \<notin> set ?Q" by (rule not_queued [OF inv]) (simp_all add: p)
  have eff: "request_effect (lock_procs s) tag (lock_entry s) p m dontWait outcome entry procs"
    using request_lock_result [OF i(3,1) m free out, of lock_room proclock_room dontWait] run by auto
  then have same: "same_waits ?Q (lock_procs s) procs" and sound: "entry_sound procs tag entry"
    by (simp_all add: request_effect_def)
  have groups: "groups_ok procs" "compatible procs tag = C" using same_waits_groups [OF same] i(1,2) by simp_all
  have bad: "follows N tag part C s ?t"
    if o: "outcome \<noteq> LockGranted" "after_request m outcome = ph" "aims_at ph = Some m" "\<And>n. ph \<noteq> Checked n" "\<And>n i. ph \<noteq> Transferring n i"
        "\<And>n. ph \<noteq> Cancelling n"
      and st: "(system_proto N tag C)\<^sup>*\<^sup>* ?a (?a\<lparr>tab := entry_holds entry, queue := queue_pairs procs (entry_queue entry),
        at := (phases s)(p := ph)\<rparr>)" for ph
  proof -
    have "?a\<lparr>tab := entry_holds entry, queue := queue_pairs procs (entry_queue entry), at := (phases s)(p := ph)\<rparr> = abs_system N tag ?t"
      using o by (simp add: abs_system_def)
    moreover have "aims_at ph = aims_at (phases s p)" using p o(3) by simp
    then have "system_ok N tag part C ?t"
      using i sound groups other_phase [OF inv _ o(4-6)] o(1,2) by (simp add: system_ok_def)
    ultimately show ?thesis using st by (simp add: follows_def)
  qed
  have failed: "system_proto N tag C a (a\<lparr>at := (at a)(p := Failed m)\<rparr>)" if "at a p = Requesting m" for a
    by (rule proto_step.fail) (use that in simp)
  show ?thesis
  proof (cases "outcome = LockGranted")
    case True
    then have e: "entry_queue entry = ?Q" "entry_holds entry = insert (p, m) (entry_holds (lock_entry s))"
      "\<forall>y \<in> entry_holds (lock_entry s). C (p, m) y" using eff i(2) by (simp_all add: request_effect_def)
    have "aims_at (phases s p) = Some m" using p by simp
    note b = got_lock_result [OF process_okD(2) [OF i(4) [of p]] this]
    have "system_proto N tag C ?a (?a\<lparr>tab := insert (p, m) (tab ?a), held := insert (p, m) (held ?a), at := (at ?a)(p := Idle)\<rparr>)"
      by (rule proto_step.grant) (use p e(3) in \<open>simp_all add: may_coexist_def\<close>)
    then show ?thesis
    proof (rule follows_step)
      show "?a\<lparr>tab := insert (p, m) (tab ?a), held := insert (p, m) (held ?a), at := (at ?a)(p := Idle)\<rparr> = abs_system N tag ?t"
        using True e b queue_pairs_same [OF same]
        by (simp add: abs_system_def after_request_def holds_update(2) counts_update(1))
      show "system_ok N tag part C ?t"
        using True i sound groups b new_backend [OF inv b(3), of p]
        by (simp add: system_ok_def after_request_def counts_update(1))
    qed
  next
    case notgranted: False
    show ?thesis
    proof (cases "outcome = Sleeping")
      case True
      then have e: "waitLockMode (procs p) = m" "entry_holds entry = entry_holds (lock_entry s)"
        "\<exists>xs ys. ?Q = xs @ ys \<and> entry_queue entry = xs @ p # ys" using eff by (simp_all add: request_effect_def)
      then have "queue_pairs procs (entry_queue entry) = insert (p, m) (queue_pairs procs ?Q)" by (auto simp: queue_pairs_def)
      then have q: "queue_pairs procs (entry_queue entry) = insert (p, m) (queue_pairs (lock_procs s) ?Q)"
        using queue_pairs_same [OF same] by simp
      have "system_proto N tag C ?a (?a\<lparr>queue := insert (p, m) (queue ?a), at := (at ?a)(p := Waiting m)\<rparr>)"
        by (rule proto_step.sleep) (use p in simp)
      moreover have "?a\<lparr>queue := insert (p, m) (queue ?a), at := (at ?a)(p := Waiting m)\<rparr>
          = ?a\<lparr>tab := entry_holds entry, queue := queue_pairs procs (entry_queue entry), at := (phases s)(p := Waiting m)\<rparr>"
        using q e(2) by (simp add: abs_system_def)
      ultimately show ?thesis using True by (intro bad [of "Waiting m"]) (simp_all add: after_request_def)
    next
      case False
      have ph: "after_request m outcome = Failed m" using notgranted False by (cases outcome) (simp_all add: after_request_def)
      have "(system_proto N tag C)\<^sup>*\<^sup>* ?a (?a\<lparr>tab := entry_holds entry, queue := queue_pairs procs (entry_queue entry)\<rparr>)"
      proof (cases "outcome = LockDeadlock")
        case True
        then obtain W procs1 where w: "same_waits ?Q (lock_procs s) procs1"
          "effect procs1 tag ?Q (entry_holds (lock_entry s)) W entry procs" using eff by (auto simp: request_effect_def)
        have "compatible procs1 tag = C" using same_waits_groups [OF w(1)] i(2) by simp
        from effect_wakes(1) [OF w(2) this, of N ?a] show ?thesis
          using queue_pairs_same [OF w(1)] by (simp add: abs_system_def)
      next
        case other: False
        then have "entry_holds entry = entry_holds (lock_entry s)" "entry_queue entry = ?Q"
          using eff notgranted False by (cases outcome; auto simp: request_effect_def)+
        then show ?thesis using queue_pairs_same [OF same] by (simp add: abs_system_def)
      qed
      moreover have "system_proto N tag C (?a\<lparr>tab := entry_holds entry, queue := queue_pairs procs (entry_queue entry)\<rparr>)
          (?a\<lparr>tab := entry_holds entry, queue := queue_pairs procs (entry_queue entry), at := (phases s)(p := Failed m)\<rparr>)"
        using failed [of "?a\<lparr>tab := entry_holds entry, queue := queue_pairs procs (entry_queue entry)\<rparr>"] p by simp
      ultimately show ?thesis using notgranted ph by (intro bad [of "Failed m"]) simp_all
    qed
  qed
qed

lemma awake_follows:
  assumes inv: "system_inv N tag part C s" and p: "phases s p = Waiting m" "p \<notin> set (entry_queue (lock_entry s))"
  shows "follows N tag part C s (s\<lparr>backends := (backends s)(p := got_lock m (backends s p)), phases := (phases s)(p := Idle)\<rparr>)"
    (is "follows _ _ _ _ _ ?t")
proof -
  let ?a = "abs_system N tag s"
  have "aims_at (phases s p) = Some m" using p by simp
  note b = got_lock_result [OF process_okD(2) [OF system_invD(4) [OF inv, of p]] this]
  have "(p, m) \<notin> queue ?a" using queued_mode [OF inv, of p m] p by simp
  then have "system_proto N tag C ?a (?a\<lparr>held := insert (p, m) (held ?a), at := (at ?a)(p := Idle)\<rparr>)"
    by (intro proto_step.awake) (use p in simp_all)
  then show ?thesis
  proof (rule follows_step)
    show "?a\<lparr>held := insert (p, m) (held ?a), at := (at ?a)(p := Idle)\<rparr> = abs_system N tag ?t"
      using b by (simp add: abs_system_def holds_update(2) counts_update(1))
    show "system_ok N tag part C ?t"
      using system_invD [OF inv] b new_backend [OF inv b(3)] by (simp add: system_ok_def counts_update(1))
  qed
qed

text \<open>Giving back the count of a strong lock, if there is one.\<close>

lemma uncounted:
  assumes inv: "system_inv N tag part C s" and cs: "cs = (if m \<in> counts_of (backends s p) then (counts s)(part := counts s part - 1) else counts s)"
    and b: "counts_of b = counts_of (backends s p) - {m}"
  shows "count_ok (cs part) (local_counts ((backends s)(p := b))) (others s)"
    "local_counts ((backends s)(p := b)) = local_counts (backends s) - {(p, m)}"
proof -
  show lc: "local_counts ((backends s)(p := b)) = local_counts (backends s) - {(p, m)}" by (rule counts_update(3)) (rule b)
  show "count_ok (cs part) (local_counts ((backends s)(p := b))) (others s)"
  proof (cases "m \<in> counts_of (backends s p)")
    case True
    then have "(p, m) \<in> local_counts (backends s)" by (simp add: local_counts_def)
    then show ?thesis using count_delete [OF system_invD(5) [OF inv]] True cs by (simp add: lc)
  next
    case False
    then have "local_counts (backends s) - {(p, m)} = local_counts (backends s)" by (auto simp: local_counts_def)
    then show ?thesis using system_invD(5) [OF inv] cs False by (simp add: lc)
  qed
qed

lemma abort_strong_follows:
  assumes inv: "system_inv N tag part C s" and p: "aims_at (phases s p) = Some m" "ph = Cancelling m \<or> ph = Idle"
    and run: "AbortStrongLockAcquire part (counts s, backends s p) = (cs, b)"
    and step: "system_proto N tag C (abs_system N tag s)
      ((abs_system N tag s)\<lparr>counted := counted (abs_system N tag s) - {(p, m)}, at := (at (abs_system N tag s))(p := ph)\<rparr>)"
  shows "follows N tag part C s (s\<lparr>counts := cs, backends := (backends s)(p := b), phases := (phases s)(p := ph)\<rparr>)"
    (is "follows _ _ _ _ _ ?t")
proof -
  let ?a = "abs_system N tag s"
  note r = AbortStrongLockAcquire_result [OF process_okD(2) [OF system_invD(4) [OF inv, of p]] p(1) run]
  note u = uncounted [OF inv r(3,2)]
  have "mode m" using process_okD(3) [OF system_invD(4) [OF inv, of p]] p(1) by simp
  then have proc: "process_ok tag ph (fast_paths s p) b"
    using p(2) new_backend [OF inv r(4)] new_backend [OF inv r(5)] r(2) by auto
  show ?thesis
  proof (rule follows_step [OF step])
    show "?a\<lparr>counted := counted ?a - {(p, m)}, at := (at ?a)(p := ph)\<rparr> = abs_system N tag ?t"
      using r(1) u(2) by (simp add: abs_system_def holds_update(1))
    show "system_ok N tag part C ?t" using system_invD [OF inv] u(1) proc by (simp add: system_ok_def)
  qed
qed

lemma cancel_follows:
  assumes "system_inv N tag part C s" "phases s p = Waiting m" "AbortStrongLockAcquire part (counts s, backends s p) = (cs, b)"
  shows "follows N tag part C s (s\<lparr>counts := cs, backends := (backends s)(p := b), phases := (phases s)(p := Cancelling m)\<rparr>)"
proof (rule abort_strong_follows [OF assms(1) _ _ assms(3)])
  show "system_proto N tag C (abs_system N tag s)
      ((abs_system N tag s)\<lparr>counted := counted (abs_system N tag s) - {(p, m)}, at := (at (abs_system N tag s))(p := Cancelling m)\<rparr>)"
    by (rule proto_step.cancel) (simp add: assms(2))
qed (simp_all add: assms(2))

lemma abort_follows:
  assumes "system_inv N tag part C s" "phases s p = Failed m" "AbortStrongLockAcquire part (counts s, backends s p) = (cs, b)"
  shows "follows N tag part C s (s\<lparr>counts := cs, backends := (backends s)(p := b), phases := (phases s)(p := Idle)\<rparr>)"
proof (rule abort_strong_follows [OF assms(1) _ _ assms(3)])
  show "system_proto N tag C (abs_system N tag s)
      ((abs_system N tag s)\<lparr>counted := counted (abs_system N tag s) - {(p, m)}, at := (at (abs_system N tag s))(p := Idle)\<rparr>)"
    by (rule proto_step.abort) (simp add: assms(2))
qed (simp_all add: assms(2))

lemma entry_soundD: "system_inv N tag part C s \<Longrightarrow> lock_entry s = Some lk \<Longrightarrow> sound (lock_procs s) lk \<and> lock_tag lk = tag"
  using system_invD(3) [of N tag part C s] by simp

lemma leave_follows:
  assumes inv: "system_inv N tag part C s" and p: "phases s p = Waiting m \<or> phases s p = Cancelling m" "lock_entry s = Some lk"
      "p \<in> set (waitProcs lk)"
    and run: "RemoveFromWaitQueue p p (lk, lock_procs s) = Some (entry, procs)"
  shows "follows N tag part C s (s\<lparr>lock_entry := entry, lock_procs := procs, phases := (phases s)(p := Failed m)\<rparr>)"
    (is "follows _ _ _ _ _ ?t")
proof -
  let ?a = "abs_system N tag s" and ?Q = "waitProcs lk"
  let ?procs = "(lock_procs s)(p := (lock_procs s p)\<lparr>waitLock := None, waitStatus := PROC_WAIT_STATUS_ERROR\<rparr>)"
  note i = system_invD [OF inv]
  have snd: "lock_ok None (lock_procs s) lk" "tidy {} lk" and tag: "lock_tag lk = tag"
    using entry_soundD [OF inv p(2)] by (simp_all add: sound_def)
  have d: "distinct ?Q" using snd(1) by (simp add: lock_ok_def)
  obtain W where eff: "effect ?procs tag (remove1 p ?Q) (holdset lk) W entry procs"
    using RemoveFromWaitQueue_result [OF snd i(1) p(3), of p] run tag by auto
  have same: "same_waits [] (lock_procs s) ?procs" "same_waits ?Q (lock_procs s) ?procs" by (simp_all add: same_waits_def)
  have C: "compatible ?procs tag = C" using same_waits_groups [OF same(1)] i(2) by simp
  have inq: "(p, m) \<in> queue_pairs (lock_procs s) ?Q" using queued_mode [OF inv p(1)] p(2,3) by simp
  have q: "queue_pairs ?procs (remove1 p ?Q) = queue_pairs (lock_procs s) ?Q - {(p, m)}"
  proof -
    have "queue_pairs ?procs (remove1 p ?Q) = queue_pairs (lock_procs s) (remove1 p ?Q)"
      by (rule queue_pairs_same) (simp add: same_waits_def)
    also have "\<dots> = queue_pairs (lock_procs s) ?Q - {(p, m)}" using d inq by (auto simp: queue_pairs_def)
    finally show ?thesis .
  qed
  have "system_proto N tag C ?a (?a\<lparr>queue := queue ?a - {(p, m)}, at := (at ?a)(p := Failed m)\<rparr>)"
    by (rule proto_step.leave) (use p inq in simp_all)
  moreover have "?a\<lparr>queue := queue ?a - {(p, m)}, at := (at ?a)(p := Failed m)\<rparr>
      = (abs_system N tag ?t)\<lparr>tab := holdset lk, queue := queue_pairs ?procs (remove1 p ?Q)\<rparr>"
    using p(2) by (simp add: abs_system_def q)
  moreover note w = effect_wakes(1) [OF eff C, of N "abs_system N tag ?t"] and w' = effect_wakes(2-4) [OF eff C]
  have "(abs_system N tag ?t)\<lparr>tab := entry_holds entry, queue := queue_pairs procs (entry_queue entry)\<rparr> = abs_system N tag ?t"
    by (simp add: abs_system_def)
  ultimately have "(system_proto N tag C)\<^sup>*\<^sup>* ?a (abs_system N tag ?t)"
    using w by (metis converse_rtranclp_into_rtranclp)
  moreover have "aims_at (Failed m) = aims_at (phases s p)" using p(1) by auto
  then have "process_ok tag (Failed m) (fast_paths s p) (backends s p)" by (rule other_phase [OF inv]) simp_all
  then have "system_ok N tag part C ?t"
    using i w' same_waits_groups [OF same(1)] by (simp add: system_ok_def)
  ultimately show ?thesis by (simp add: follows_def)
qed

lemma late_follows:
  assumes inv: "system_inv N tag part C s" and p: "phases s p = Cancelling m" "p \<notin> set (entry_queue (lock_entry s))"
  shows "follows N tag part C s (s\<lparr>given_up := insert (p, m) (given_up s), phases := (phases s)(p := Idle)\<rparr>)"
    (is "follows _ _ _ _ _ ?t")
proof -
  let ?a = "abs_system N tag s"
  have "(p, m) \<notin> queue ?a" using queued_mode [OF inv, of p m] p by simp
  then have "system_proto N tag C ?a (?a\<lparr>stale := insert (p, m) (stale ?a), at := (at ?a)(p := Idle)\<rparr>)"
    by (intro proto_step.late) (use p in simp_all)
  then show ?thesis
  proof (rule follows_step)
    show "?a\<lparr>stale := insert (p, m) (stale ?a), at := (at ?a)(p := Idle)\<rparr> = abs_system N tag ?t" by (simp add: abs_system_def)
    have "local_ok Idle (backends s p)"
      using process_okD(2,6) [OF system_invD(4) [OF inv, of p]] p(1) by (auto simp: local_ok_def)
    then have "process_ok tag Idle (fast_paths s p) (backends s p)" by (intro new_backend [OF inv]) simp_all
    then show "system_ok N tag part C ?t" using system_invD [OF inv] by (simp add: system_ok_def)
  qed
qed

lemma release_follows:
  assumes inv: "system_inv N tag part C s" and p: "phases s p = Idle" and run: "release_local m (backends s p) = (final, b)"
  shows "follows N tag part C s (s\<lparr>backends := (backends s)(p := b),
      given_up := (if final then insert (p, m) (given_up s) else given_up s)\<rparr>)" (is "follows _ _ _ _ _ ?t")
proof -
  let ?a = "abs_system N tag s"
  have "local_ok Idle (backends s p)" using process_okD(2) [OF system_invD(4) [OF inv, of p]] p by simp
  note r = release_local_result [OF this run]
  have sys: "system_ok N tag part C ?t"
    using system_invD [OF inv] r(2) new_backend [OF inv r(3), of p] p by (simp add: system_ok_def counts_update(1))
  show ?thesis
  proof (cases final)
    case True
    then have "system_proto N tag C ?a (?a\<lparr>held := held ?a - {(p, m)}, stale := insert (p, m) (stale ?a)\<rparr>)"
      by (intro proto_step.let_go) (use p r(4) in \<open>simp_all add: local_holds_def\<close>)
    then show ?thesis
      by (rule follows_step [OF _ _ sys]) (use True r in \<open>simp add: abs_system_def holds_update(3) counts_update(1)\<close>)
  next
    case False
    then have "abs_system N tag ?t = ?a" using r by (simp add: abs_system_def holds_update(1) counts_update(1))
    then show ?thesis using sys by (simp add: follows_def)
  qed
qed

lemma give_up_follows:
  assumes inv: "system_inv N tag part C s" and p: "phases s p = Idle" "(p, m) \<in> local_holds (backends s)"
  shows "follows N tag part C s (s\<lparr>backends := (backends s)(p := set_locallock m (\<lambda>l. l\<lparr>nLocks := 0\<rparr>) (backends s p)),
      given_up := insert (p, m) (given_up s)\<rparr>)" (is "follows _ _ _ _ _ ?t")
proof -
  let ?a = "abs_system N tag s"
  have "local_ok Idle (backends s p)" "m \<in> holds_of (backends s p)"
    using process_okD(2) [OF system_invD(4) [OF inv, of p]] p by (simp_all add: local_holds_def)
  note r = give_up_result [OF this]
  have "system_proto N tag C ?a (?a\<lparr>held := held ?a - {(p, m)}, stale := insert (p, m) (stale ?a)\<rparr>)"
    by (rule proto_step.let_go) (use p in simp_all)
  then show ?thesis
  proof (rule follows_step)
    show "?a\<lparr>held := held ?a - {(p, m)}, stale := insert (p, m) (stale ?a)\<rparr> = abs_system N tag ?t"
      using r by (simp add: abs_system_def holds_update(3) counts_update(1))
    show "system_ok N tag part C ?t"
      using system_invD [OF inv] r(2) new_backend [OF inv r(3), of p] p by (simp add: system_ok_def counts_update(1))
  qed
qed

lemma stale_idle: "system_inv N tag part C s \<Longrightarrow> (p, m) \<in> given_up s \<Longrightarrow> phases s p = Idle"
  using accounted_raw(4) [of N "weak_mode tag" "abs_system N tag s" p m] system_invD(6) [of N tag part C s] by simp

lemma fast_release_follows:
  assumes inv: "system_inv N tag part C s" and p: "p < N" "(p, m) \<in> given_up s" "mode m"
    and run: "release_fast tag m (fast_paths s p) = (released, fp)"
  shows "follows N tag part C s (s\<lparr>fast_paths := (fast_paths s)(p := fp),
      given_up := (if released then given_up s - {(p, m)} else given_up s)\<rparr>)" (is "follows _ _ _ _ _ ?t")
proof -
  let ?a = "abs_system N tag s" and ?fp = "fast_paths s p"
  note i = system_invD [OF inv] and idle = stale_idle [OF inv p(2)]
  have ok: "fast_ok ?fp" by (rule process_okD(1) [OF i(4) [of p]])
  have res: "fast_ok fp \<and> tag_modes tag fp = (if released then tag_modes tag ?fp - {m} else tag_modes tag ?fp)
    \<and> (released \<longrightarrow> m \<in> tag_modes tag ?fp)"
  proof (cases "EligibleForRelationFastPath (databaseId ?fp) tag m \<and> 0 < LocalUseCount ?fp")
    case True
    then have "m \<in> {1, 2, 3}" "fast_tag tag" "databaseId ?fp = locktag_field1 tag"
      using p(3) by (auto simp: EligibleForRelationFastPath_def fast_tag_def mode_cases)
    then show ?thesis
      using FastPathUnGrantRelationLock_result [OF ok, of m "locktag_field2 tag" released fp] run True
      by (auto simp: release_fast_def tag_modes_def)
  next
    case False
    then show ?thesis using run ok by (auto simp: release_fast_def)
  qed
  have "process_ok tag (phases s p) fp (backends s p)"
    by (rule process_ok_change [OF i(4) [of p]]) (use idle res in simp_all)
  then have sys: "system_ok N tag part C ?t" using i by (simp add: system_ok_def)
  show ?thesis
  proof (cases released)
    case True
    then have "system_proto N tag C ?a (?a\<lparr>fast := fast ?a - {(p, m)}, stale := stale ?a - {(p, m)}\<rparr>)"
      by (intro proto_step.fast_out) (use p res in \<open>simp_all add: fast_self\<close>)
    then show ?thesis
    proof (rule follows_step [OF _ _ sys])
      have "tag_modes tag fp = tag_modes tag ?fp - {m}" using True res by simp
      from fast_update(3) [where fps = "fast_paths s" and p = p and N = N, OF this] True
      show "?a\<lparr>fast := fast ?a - {(p, m)}, stale := stale ?a - {(p, m)}\<rparr> = abs_system N tag ?t"
        by (simp add: abs_system_def)
    qed
  next
    case False
    then have "abs_system N tag ?t = ?a" using res by (simp add: abs_system_def fast_update(1))
    then show ?thesis using sys by (simp add: follows_def)
  qed
qed

text \<open>Taking holds out of the table is a sequence of steps of the protocol.\<close>

lemma outs:
  assumes "finite D" "D \<subseteq> tab a" "D \<subseteq> stale a"
  shows "(proto_step N ok strong weak)\<^sup>*\<^sup>* a (a\<lparr>tab := tab a - D, stale := stale a - (D - counted a)\<rparr>)"
  using assms
proof (induction D rule: finite_induct)
  case (insert y D)
  let ?a = "a\<lparr>tab := tab a - D, stale := stale a - (D - counted a)\<rparr>"
  have before: "(proto_step N ok strong weak)\<^sup>*\<^sup>* a ?a" using insert by auto
  have "proto_step N ok strong weak ?a (?a\<lparr>tab := tab ?a - {y}, stale := stale ?a - ({y} - counted ?a)\<rparr>)"
    by (rule proto_step.table_out) (use insert in auto)
  moreover have "tab a - D - {y} = tab a - insert y D"
    "stale a - (D - counted a) - ({y} - counted a) = stale a - (insert y D - counted a)" by auto
  then have "?a\<lparr>tab := tab ?a - {y}, stale := stale ?a - ({y} - counted ?a)\<rparr>
      = a\<lparr>tab := tab a - insert y D, stale := stale a - (insert y D - counted a)\<rparr>"
    by simp
  ultimately have "proto_step N ok strong weak ?a (a\<lparr>tab := tab a - insert y D, stale := stale a - (insert y D - counted a)\<rparr>)"
    by (simp only:)
  with before show ?case by (rule rtranclp.rtrancl_into_rtrancl)
qed simp

lemma taken_out_follows:
  assumes inv: "system_inv N tag part C s" and lk: "lock_entry s = Some lk"
    and D: "finite D" "D \<subseteq> holdset lk" "D \<subseteq> given_up s"
    and eff: "effect (lock_procs s) tag (waitProcs lk) (holdset lk - D) W entry procs"
  shows "follows N tag part C s (s\<lparr>lock_entry := entry, lock_procs := procs,
      given_up := given_up s - (D - local_counts (backends s))\<rparr>)" (is "follows _ _ _ _ _ ?t")
proof -
  let ?a = "abs_system N tag s"
  note i = system_invD [OF inv]
  have "(system_proto N tag C)\<^sup>*\<^sup>* ?a (?a\<lparr>tab := tab ?a - D, stale := stale ?a - (D - counted ?a)\<rparr>)"
    by (rule outs) (use D lk in simp_all)
  moreover have "?a\<lparr>tab := tab ?a - D, stale := stale ?a - (D - counted ?a)\<rparr>
      = (abs_system N tag ?t)\<lparr>tab := holdset lk - D, queue := queue_pairs (lock_procs s) (waitProcs lk)\<rparr>"
    using lk by (simp add: abs_system_def)
  moreover have "(system_proto N tag C)\<^sup>*\<^sup>* \<dots> ((abs_system N tag ?t)\<lparr>tab := entry_holds entry,
      queue := queue_pairs procs (entry_queue entry)\<rparr>)"
    by (rule effect_wakes(1) [OF eff i(2)])
  moreover have "(abs_system N tag ?t)\<lparr>tab := entry_holds entry, queue := queue_pairs procs (entry_queue entry)\<rparr> = abs_system N tag ?t"
    by (simp add: abs_system_def)
  ultimately have "(system_proto N tag C)\<^sup>*\<^sup>* ?a (abs_system N tag ?t)" by simp
  moreover have "system_ok N tag part C ?t"
    using i effect_wakes(2-4) [OF eff i(2)] by (simp add: system_ok_def)
  ultimately show ?thesis by (simp add: follows_def)
qed

lemma idle_not_queued: "system_inv N tag part C s \<Longrightarrow> phases s p = Idle \<Longrightarrow> p \<notin> set (entry_queue (lock_entry s))"
  by (rule not_queued) simp_all

lemma table_release_follows:
  assumes inv: "system_inv N tag part C s" and p: "(p, m) \<in> given_up s" "lock_entry s = Some lk" "(p, m) \<in> holdset lk"
    and run: "release_lock p p m (lk, lock_procs s) = Some (entry, procs)"
  shows "follows N tag part C s (s\<lparr>lock_entry := entry, lock_procs := procs,
      given_up := given_up s - ({(p, m)} - local_counts (backends s))\<rparr>)"
proof -
  have e: "sound (lock_procs s) lk" "lock_tag lk = tag" "p \<notin> set (waitProcs lk)"
    using entry_soundD [OF inv p(2)] idle_not_queued [OF inv stale_idle [OF inv p(1)]] p(2) by simp_all
  obtain W where "effect (lock_procs s) tag (waitProcs lk) (holdset lk - {(p, m)}) W entry procs"
    using release_lock_result [OF e(1) system_invD(1) [OF inv] p(3) e(3), of p] run e(2) by auto
  then show ?thesis by (rule taken_out_follows [OF inv p(2), rotated -1]) (use p in simp_all)
qed

lemma table_release_all_follows:
  assumes inv: "system_inv N tag part C s" and p: "phases s p = Idle" "lock_entry s = Some lk"
    "\<forall>m. mode m \<and> bit M m \<longrightarrow> (p, m) \<in> given_up s \<and> (p, m) \<in> holdset lk"
    and run: "release_proclock p p M (lk, lock_procs s) = Some (entry, procs)"
  shows "follows N tag part C s (s\<lparr>lock_entry := entry, lock_procs := procs,
      given_up := given_up s - ({(p, m) | m. mode m \<and> bit M m} - local_counts (backends s))\<rparr>)"
proof -
  have e: "sound (lock_procs s) lk" "lock_tag lk = tag" "p \<notin> set (waitProcs lk)"
    using entry_soundD [OF inv p(2)] idle_not_queued [OF inv p(1)] p(2) by simp_all
  obtain W where eff: "effect (lock_procs s) tag (waitProcs lk) (holdset lk - {(p, m) | m. mode m \<and> bit M m}) W entry procs"
    using release_proclock_result [OF e(1) system_invD(1) [OF inv] e(3), of M p] p(3) run e(2) by auto
  have "finite {(p, m) | m. mode m \<and> bit M m}"
    by (rule finite_subset [of _ "{p} \<times> {..9}"]) (auto simp: mode_def)
  then show ?thesis by (rule taken_out_follows [OF inv p(2) _ _ _ eff]) (use p(3) in auto)
qed

lemma forget_follows:
  assumes inv: "system_inv N tag part C s" and p: "phases s p = Idle" "locallocks (backends s p) m = Some l" "nLocks l \<le> 0"
    and run: "RemoveLocalLock part m (counts s, backends s p) = (cs, b)"
  shows "follows N tag part C s (s\<lparr>counts := cs, backends := (backends s)(p := b),
      given_up := (if holdsStrongLockCount l then given_up s - ({(p, m)} - entry_holds (lock_entry s)) else given_up s)\<rparr>)"
    (is "follows _ _ _ _ _ ?t")
proof -
  let ?a = "abs_system N tag s"
  note i = system_invD [OF inv]
  have "local_ok Idle (backends s p)" using process_okD(2) [OF i(4) [of p]] p(1) by simp
  note r = RemoveLocalLock_result [OF this p(2,3) run]
  note u = uncounted [OF inv r(4,2)]
  have sys: "system_ok N tag part C ?t"
    using i u(1) new_backend [OF inv r(3), of p] p(1) by (simp add: system_ok_def)
  show ?thesis
  proof (cases "holdsStrongLockCount l")
    case True
    then have counted: "(p, m) \<in> counted ?a" using r(5) by (simp add: local_counts_def)
    moreover have "(p, m) \<notin> held ?a" using p(2,3) by (simp add: local_holds_def holds_of_def)
    ultimately have "(p, m) \<in> stale ?a" using strong_countedD(5) [OF i(7)] p(1) by fastforce
    then have "system_proto N tag C ?a (?a\<lparr>counted := counted ?a - {(p, m)}, stale := stale ?a - ({(p, m)} - tab ?a)\<rparr>)"
      by (intro proto_step.uncount counted)
    then show ?thesis
      by (rule follows_step [OF _ _ sys]) (use True r(1) u(2) in \<open>simp add: abs_system_def holds_update(1)\<close>)
  next
    case False
    then have "abs_system N tag ?t = ?a"
      using r u(2) by (auto simp: abs_system_def holds_update(1) local_counts_def)
    then show ?thesis using sys by (simp add: follows_def)
  qed
qed

lemma move_own_follows:
  assumes inv: "system_inv N tag part C s" and p: "p < N" "phases s p = Idle" "fast_tag tag"
      "databaseId (fast_paths s p) = locktag_field1 tag" "m \<in> {1, 2, 3}"
    and run: "move_own lock_room proclock_room (lock_procs s) p tag m (lock_entry s, fast_paths s p) = (res, entry, fp)"
  shows "follows N tag part C s (s\<lparr>lock_entry := entry, fast_paths := (fast_paths s)(p := fp)\<rparr>)"
    (is "follows _ _ _ _ _ ?t")
proof -
  note i = system_invD [OF inv]
  obtain D where eff: "transfer_effect (lock_procs s) tag p (locktag_field2 tag) (lock_entry s, fast_paths s p) D (entry, fp)"
    using move_own_result [OF i(3) process_okD(1) [OF i(4) [of p]] p(5), where i = p and lock_room = lock_room
        and proclock_room = proclock_room] movable [OF inv p(1,3,4)] run by fastforce
  then have sound: "entry_sound (lock_procs s) tag entry" "fast_ok fp" by (simp_all add: transfer_effect_def)
  have "process_ok tag (phases s p) fp (backends s p)"
    by (rule process_ok_change [OF i(4) [of p]]) (use p(2) sound(2) in simp_all)
  then have "system_ok N tag part C ?t" using i sound(1) by (simp add: system_ok_def)
  then show ?thesis using transfer_moves(1) [OF eff p(1)] p(3,4) by (simp add: follows_def)
qed

lemma rearrange_follows:
  assumes inv: "system_inv N tag part C s" and lk: "lock_entry s = Some lk" "mset order = mset (waitProcs lk)"
    and run: "rearrange_queue me order (lk, lock_procs s) = Some (lk', procs)"
  shows "follows N tag part C s (s\<lparr>lock_entry := Some lk', lock_procs := procs\<rparr>)" (is "follows _ _ _ _ _ ?t")
proof -
  let ?a = "abs_system N tag s"
  note i = system_invD [OF inv]
  have e: "sound (lock_procs s) lk" "lock_tag lk = tag" using entry_soundD [OF inv lk(1)] by simp_all
  obtain W where eff: "effect (lock_procs s) tag order (holdset lk) W (Some lk') procs"
    using rearrange_queue_result [OF e(1) i(1) lk(2), of me] run e(2) by auto
  have "queue_pairs (lock_procs s) order = queue_pairs (lock_procs s) (waitProcs lk)"
    using mset_eq_setD [OF lk(2)] by (simp add: queue_pairs_def)
  then have "?a = (abs_system N tag ?t)\<lparr>tab := holdset lk, queue := queue_pairs (lock_procs s) order\<rparr>"
    using lk by (simp add: abs_system_def)
  moreover have "(system_proto N tag C)\<^sup>*\<^sup>* \<dots> ((abs_system N tag ?t)\<lparr>tab := entry_holds (Some lk'),
      queue := queue_pairs procs (entry_queue (Some lk'))\<rparr>)"
    by (rule effect_wakes(1) [OF eff i(2)])
  moreover have "(abs_system N tag ?t)\<lparr>tab := entry_holds (Some lk'), queue := queue_pairs procs (entry_queue (Some lk'))\<rparr> = abs_system N tag ?t"
    by (simp add: abs_system_def)
  ultimately have "(system_proto N tag C)\<^sup>*\<^sup>* ?a (abs_system N tag ?t)" by (simp only:)
  moreover have "system_ok N tag part C ?t"
    using i effect_wakes(2-4) [OF eff i(2)] by (simp add: system_ok_def)
  ultimately show ?thesis by (simp add: follows_def)
qed

lemma elsewhere_follows:
  assumes inv: "system_inv N tag part C s" and same: "same_waits (entry_queue (lock_entry s)) (lock_procs s) procs"
    and fps: "\<forall>q. fast_ok (fps q) \<and> tag_modes tag (fps q) = tag_modes tag (fast_paths s q) \<and>
        ((\<exists>n. phases s q = Checked n) \<longrightarrow> fps q = fast_paths s q)"
    and cs: "unat (cs part) + others s = unat (counts s part) + k"
  shows "follows N tag part C s (s\<lparr>lock_procs := procs, fast_paths := fps, counts := cs, others := k\<rparr>)"
    (is "follows _ _ _ _ _ ?t")
proof -
  note i = system_invD [OF inv]
  have "entry_sound procs tag (lock_entry s)"
    using i(3) same sound_procs by (cases "lock_entry s") auto
  moreover have "process_ok tag (phases s q) (fps q) (backends s q)" for q
    by (rule process_ok_change [OF i(4) [of q]]) (use fps i(4) [of q] in \<open>auto simp: process_ok_def\<close>)
  moreover have "count_ok (cs part) (local_counts (backends s)) k"
    using i(5) cs by (simp add: count_ok_def)
  ultimately have "system_ok N tag part C ?t"
    using same_waits_groups [OF same] i(1,2) by (simp add: system_ok_def)
  moreover have "abs_system N tag ?t = abs_system N tag s"
    using fps queue_pairs_same [OF same] by (simp add: abs_system_def fast_holds_def)
  ultimately show ?thesis by (simp add: follows_def)
qed

section \<open>Runs\<close>

lemma system_step_follows:
  assumes "lock_system_step N tag part s t" and inv: "system_inv N tag part C s"
  shows "follows N tag part C s t"
  using assms(1)
proof cases
  case again
  then show ?thesis using again_follows [OF inv] by simp
next
  case start
  then show ?thesis using start_follows [OF inv] by simp
next
  case fast_grant
  then show ?thesis using fast_grant_follows [OF inv] by simp
next
  case transfer
  then show ?thesis using transfer_follows [OF inv] by simp
next
  case transferred
  then show ?thesis using transferred_follows [OF inv] by simp
next
  case request
  then show ?thesis using request_follows [OF inv] by simp
next
  case awake
  then show ?thesis using awake_follows [OF inv] by simp
next
  case cancel
  then show ?thesis using cancel_follows [OF inv] by simp
next
  case leave
  then show ?thesis using leave_follows [OF inv] by simp
next
  case late
  then show ?thesis using late_follows [OF inv] by simp
next
  case abort
  then show ?thesis using abort_follows [OF inv] by simp
next
  case release
  then show ?thesis using release_follows [OF inv] by simp
next
  case give_up
  then show ?thesis using give_up_follows [OF inv] by simp
next
  case fast_release
  then show ?thesis using fast_release_follows [OF inv] by simp
next
  case table_release
  then show ?thesis using table_release_follows [OF inv] by simp
next
  case table_release_all
  then show ?thesis using table_release_all_follows [OF inv] by simp
next
  case forget
  then show ?thesis using forget_follows [OF inv] by simp
next
  case move_own
  then show ?thesis using move_own_follows [OF inv] by simp
next
  case rearrange
  then show ?thesis using rearrange_follows [OF inv] by simp
next
  case elsewhere
  then show ?thesis using elsewhere_follows [OF inv] by simp
qed

text \<open>The start: nobody has a lock, and the counts are zero.\<close>

definition no_locks :: backend_locks where
  "no_locks = \<lparr>locallocks = (\<lambda>_. None), StrongLockInProgress = None\<rparr>"

definition start_system :: "procs \<Rightarrow> (nat \<Rightarrow> uint32) \<Rightarrow> lock_system" where
  "start_system procs databases = \<lparr>lock_entry = None, lock_procs = procs,
     fast_paths = (\<lambda>q. \<lparr>databaseId = databases q, fpLockBits = 0, fpRelId = (\<lambda>_. 0), LocalUseCount = 0\<rparr>),
     counts = (\<lambda>_. 0), backends = (\<lambda>_. no_locks), phases = (\<lambda>_. Idle), given_up = {}, others = 0\<rparr>"

abbreviation system_safe :: "nat \<Rightarrow> LOCKTAG \<Rightarrow> (hold \<Rightarrow> hold \<Rightarrow> bool) \<Rightarrow> proto \<Rightarrow> bool" where
  "system_safe N tag C \<equiv> lock_protocol.safe N (may_coexist C) (strong_mode tag) (weak_mode tag)"

lemma start_ok:
  assumes "groups_ok procs"
  shows "system_ok N tag part (compatible procs tag) (start_system procs dbs)"
    "system_safe N tag (compatible procs tag) (abs_system N tag (start_system procs dbs))"
proof -
  have none: "holds_of no_locks = {}" "counts_of no_locks = {}" by (simp_all add: holds_of_def counts_of_def no_locks_def)
  then have local: "local_holds (\<lambda>_. no_locks) = {}" "local_counts (\<lambda>_. no_locks) = {}"
    by (simp_all add: local_holds_def local_counts_def)
  have bits: "\<not> fast_bit \<lparr>databaseId = d, fpLockBits = 0, fpRelId = r, LocalUseCount = 0\<rparr> f m" for d r f m
    by (simp add: fast_bit_def)
  then have empty: "used_slots \<lparr>databaseId = d, fpLockBits = 0, fpRelId = r, LocalUseCount = 0\<rparr> = {}"
    "tag_modes tag \<lparr>databaseId = d, fpLockBits = 0, fpRelId = r, LocalUseCount = 0\<rparr> = {}" for d r
    by (simp_all add: used_slots_def slot_used_def tag_modes_def fast_modes_def)
  have "local_ok Idle no_locks" using none by (simp add: local_ok_def no_locks_def)
  then show "system_ok N tag part (compatible procs tag) (start_system procs dbs)"
    using assms empty(1) local by (simp add: system_ok_def start_system_def process_ok_def fast_ok_def count_ok_def)
  have "abs_system N tag (start_system procs dbs) = \<lparr>tab = {}, fast = {}, queue = {}, held = {}, counted = {}, stale = {}, at = (\<lambda>_. Idle)\<rparr>"
    using empty(2) local by (simp add: abs_system_def start_system_def fast_holds_def queue_pairs_def)
  then show "system_safe N tag (compatible procs tag) (abs_system N tag (start_system procs dbs))"
    by (simp add: lock_manager.safe_def accounted_def strong_counted_def closed_def exclusive_def)
qed

lemma system_run:
  assumes run: "(lock_system_step N tag part)\<^sup>*\<^sup>* (start_system procs dbs) t" and groups: "groups_ok procs"
  shows "system_ok N tag part (compatible procs tag) t \<and> system_safe N tag (compatible procs tag) (abs_system N tag t)"
  using run
proof (induction rule: rtranclp_induct)
  case base
  then show ?case using start_ok [OF groups] by blast
next
  case (step t u)
  then have "system_inv N tag part (compatible procs tag) t" by (simp add: system_inv_def lock_manager.safe_def)
  then have "follows N tag part (compatible procs tag) t u" by (rule system_step_follows [OF step(2)])
  then show ?case using lock_manager.safe_run step(3) by (auto simp: follows_def)
qed

lemma system_run_inv:
  assumes "(lock_system_step N tag part)\<^sup>*\<^sup>* (start_system procs dbs) t" "groups_ok procs"
  shows "system_inv N tag part (compatible procs tag) t"
  using system_run [OF assms] by (simp add: system_inv_def lock_manager.safe_def)

lemma held_mode:
  assumes inv: "system_inv N tag part C s" and hold: "(p, m) \<in> local_holds (backends s)"
  shows "mode m"
proof -
  consider "(p, m) \<in> entry_holds (lock_entry s)" | "(p, m) \<in> fast_holds N tag (fast_paths s)"
    using accounted_raw(3) [OF system_invD(6) [OF inv], of p m] hold by auto
  then show ?thesis
  proof cases
    case 1
    then show ?thesis using system_invD(3) [OF inv] by (cases "lock_entry s") (auto simp: sound_def dest: holdset_mode)
  next
    case 2
    then show ?thesis by (auto simp: fast_holds_def tag_modes_def fast_modes_def fast_bit_def mode_def split: if_splits)
  qed
qed

end
