(* ===== verification/LockSafety.thy ===== *)
theory LockSafety
  imports LockRefinement
begin

text \<open>
  What the heavyweight locks promise in every run that starts without locks: no clash, a well-formed
  table, no lost wakeup; and the conflict test of the table against its plain meaning.
\<close>

section \<open>An example run\<close>

text \<open>Process 0 has a relation locked in AccessShareLock mode in its fast path.  Process 2 takes a ShareLock, for
  which it moves the lock of process 0 to the table, and then process 0 has to wait for a RowExclusiveLock.\<close>

definition example_tag :: LOCKTAG where
  "example_tag = \<lparr>locktag_field1 = 5, locktag_field2 = 16384, locktag_field3 = 0, locktag_field4 = 0,
     locktag_type = LOCKTAG_RELATION, locktag_lockmethodid = 1\<rparr>"

definition example_backends :: procs where
  "example_backends = (\<lambda>_. \<lparr>lockGroupLeader = None, waitLock = None, waitLockMode = 0, waitStatus = PROC_WAIT_STATUS_OK,
     heldLocks = 0\<rparr>)"

definition example_empty :: fast_path where
  "example_empty = \<lparr>databaseId = 5, fpLockBits = 0, fpRelId = (\<lambda>_. 0), LocalUseCount = 0\<rparr>"

definition example_fast :: fast_path where
  "example_fast = \<lparr>databaseId = 5, fpLockBits = push_bit 45 1, fpRelId = (\<lambda>_. 0)(15 := 16384), LocalUseCount = 1\<rparr>"

definition example_moved :: LOCK where
  "example_moved = \<lparr>lock_tag = example_tag, grantMask = LOCKBIT_ON AccessShareLock, waitMask = 0,
     procLocks = [\<lparr>myProc = 0, groupLeader = 0, holdMask = LOCKBIT_ON AccessShareLock, releaseMask = 0\<rparr>],
     waitProcs = [], requested = (\<lambda>_. 0)(AccessShareLock := 1), nRequested = 1,
     granted = (\<lambda>_. 0)(AccessShareLock := 1), nGranted = 1\<rparr>"

definition example_held :: LOCK where
  "example_held = example_moved\<lparr>grantMask := LOCKBIT_ON AccessShareLock OR LOCKBIT_ON ShareLock,
     procLocks := procLocks example_moved @ [\<lparr>myProc = 2, groupLeader = 2, holdMask = LOCKBIT_ON ShareLock, releaseMask = 0\<rparr>],
     requested := (requested example_moved)(ShareLock := 1), nRequested := 2,
     granted := (granted example_moved)(ShareLock := 1), nGranted := 2\<rparr>"

definition example_queued :: LOCK where
  "example_queued = example_held\<lparr>waitMask := LOCKBIT_ON RowExclusiveLock, waitProcs := [0],
     requested := (requested example_held)(RowExclusiveLock := 1), nRequested := 3\<rparr>"

definition example_backends' :: procs where
  "example_backends' = example_backends(0 := \<lparr>lockGroupLeader = None, waitLock = Some example_tag, waitLockMode = RowExclusiveLock,
     waitStatus = PROC_WAIT_STATUS_WAITING, heldLocks = LOCKBIT_ON AccessShareLock\<rparr>)"

lemma slot_numbers: "[0..<16] = [0, 1, 2, 3, 4, 5, 6, 7, 8, 9, 10, 11, 12, 13, 14, 15 :: nat]" "[1..<4] = [1, 2, 3 :: nat]"
  by code_simp+

lemma example_grant: "FastPathGrantRelationLock 16384 1 example_empty = (True, example_fast)"
  by (simp add: FastPathGrantRelationLock_def slot_numbers FAST_PATH_GET_BITS_def FAST_PATH_SET_LOCKMODE_def
      FAST_PATH_BIT_POSITION_def example_empty_def example_fast_def)

lemma example_table:
  "SetupLockInTable True True example_backends 0 example_tag AccessShareLock None = (Inr True, Some (example_moved\<lparr>grantMask := 0,
     procLocks := [\<lparr>myProc = 0, groupLeader = 0, holdMask = 0, releaseMask = 0\<rparr>], granted := (\<lambda>_. 0), nGranted := 0\<rparr>))"
  "GrantLock 0 AccessShareLock (example_moved\<lparr>grantMask := 0,
     procLocks := [\<lparr>myProc = 0, groupLeader = 0, holdMask = 0, releaseMask = 0\<rparr>], granted := (\<lambda>_. 0), nGranted := 0\<rparr>) = example_moved"
  by (simp_all add: SetupLockInTable_def new_lock_def new_proclock_def example_moved_def example_backends_def Let_def
      GrantLock_def set_proclock_def)

lemma example_transfer:
  "transfer_backend (\<lambda>_. (True, True)) example_backends example_tag 0 (None, example_fast)
     = (Inr True, Some example_moved, example_fast\<lparr>fpLockBits := 0\<rparr>)"
proof -
  have find: "find_slot 16384 example_fast [0..<16] = Some 15" by code_simp
  have "FAST_PATH_CHECK_LOCKMODE example_fast 15 1" by code_simp
  moreover have "\<not> FAST_PATH_CHECK_LOCKMODE (example_fast\<lparr>fpLockBits := 0\<rparr>) 15 m" for m
    unfolding FAST_PATH_CHECK_LOCKMODE_def by simp
  moreover have "FAST_PATH_CLEAR_LOCKMODE example_fast 15 1 = example_fast\<lparr>fpLockBits := 0\<rparr>"
    by (simp add: FAST_PATH_CLEAR_LOCKMODE_def FAST_PATH_BIT_POSITION_def example_fast_def)
  ultimately have "transfer_modes (\<lambda>_. (True, True)) example_backends 0 example_tag 15 [1, 2, 3] (None, example_fast)
      = (Inr True, Some example_moved, example_fast\<lparr>fpLockBits := 0\<rparr>)"
    by (simp only: transfer_modes.simps fst_conv snd_conv example_table prod.case sum.case bool.case option.map not_True_eq_False
        if_False if_True not_False_eq_True)
  moreover have "databaseId example_fast = 5" "locktag_field1 example_tag = 5" "locktag_field2 example_tag = 16384"
    by (simp_all add: example_fast_def example_tag_def)
  ultimately show ?thesis unfolding transfer_backend_def by (simp only: find slot_numbers(2) prod.case option.case) (simp add: slot_numbers(2) del: One_nat_def)
qed

lemma example_no_transfer:
  "transfer_backend (\<lambda>_. (True, True)) example_backends example_tag q (entry, example_empty) = (Inr True, entry, example_empty)"
proof -
  have "find_slot 16384 example_empty [0..<16] = None" by code_simp
  then show ?thesis by (simp add: transfer_backend_def example_empty_def example_tag_def)
qed

lemma example_request: "request_lock True True 2 example_tag ShareLock False (Some example_moved, example_backends)
    = Some (LockGranted, Some example_held, example_backends)"
proof -
  let ?lk = "example_held\<lparr>grantMask := LOCKBIT_ON AccessShareLock,
     procLocks := procLocks example_moved @ [\<lparr>myProc = 2, groupLeader = 2, holdMask = 0, releaseMask = 0\<rparr>],
     granted := granted example_moved, nGranted := 1\<rparr>"
  have "SetupLockInTable True True example_backends 2 example_tag ShareLock (Some example_moved) = (Inr True, Some ?lk)"
    by (simp add: SetupLockInTable_def example_held_def example_moved_def new_proclock_def example_backends_def Let_def)
  moreover have "LockCheckConflicts 2 example_backends ShareLock ?lk \<lparr>myProc = 2, groupLeader = 2, holdMask = 0, releaseMask = 0\<rparr> = Some False"
    by code_simp
  moreover have "GrantLock 2 ShareLock ?lk = example_held"
    by (simp add: GrantLock_def set_proclock_def example_held_def example_moved_def Let_def)
  moreover have "find_proclock 2 (procLocks ?lk) = Some \<lparr>myProc = 2, groupLeader = 2, holdMask = 0, releaseMask = 0\<rparr>"
    "waitMask ?lk = 0" by (simp_all add: example_held_def example_moved_def)
  ultimately show ?thesis by (simp add: request_lock_def)
qed

lemma example_wait: "request_lock True True 0 example_tag RowExclusiveLock False (Some example_held, example_backends)
    = Some (Sleeping, Some example_queued, example_backends')"
proof -
  let ?lk = "example_queued\<lparr>waitMask := 0, waitProcs := []\<rparr>"
  let ?pl = "\<lparr>myProc = 0, groupLeader = 0, holdMask = LOCKBIT_ON AccessShareLock, releaseMask = 0\<rparr>"
  have "SetupLockInTable True True example_backends 0 example_tag RowExclusiveLock (Some example_held) = (Inr True, Some ?lk)"
    by (simp add: SetupLockInTable_def example_held_def example_moved_def example_queued_def Let_def)
  moreover have "LockCheckConflicts 0 example_backends RowExclusiveLock ?lk ?pl = Some True" by code_simp
  moreover have "find_proclock 0 (procLocks ?lk) = Some ?pl" "waitMask ?lk = 0"
    by (simp_all add: example_held_def example_moved_def example_queued_def)
  moreover have "ProcSleep 0 RowExclusiveLock (?lk, example_backends(0 := (example_backends 0)\<lparr>heldLocks := LOCKBIT_ON AccessShareLock\<rparr>))
      = Some (PROC_WAIT_STATUS_WAITING, Some example_queued, example_backends')"
    by (simp add: ProcSleep_def group_held_locks_def enter_queue_def example_backends_def example_backends'_def Let_def
        example_queued_def example_held_def example_moved_def)
  ultimately show ?thesis by (simp add: request_lock_def)
qed


definition example_local :: "LOCKMODE \<Rightarrow> int \<Rightarrow> bool \<Rightarrow> backend_locks" where
  "example_local m n strong = \<lparr>locallocks = (\<lambda>_. None)(m := Some \<lparr>nLocks = n, holdsStrongLockCount = strong\<rparr>), StrongLockInProgress = None\<rparr>"

text \<open>After the first lock, before and after the ShareLock is granted, and at the end.\<close>

definition example_begun :: lock_system where
  "example_begun = (start_system example_backends (\<lambda>_. 5))\<lparr>fast_paths := (\<lambda>_. example_empty)(0 := example_fast),
     counts := (\<lambda>_. 0)(7 := 1), backends := (\<lambda>_. no_locks)(0 := example_local AccessShareLock 1 False,
       2 := (example_local ShareLock 0 True)\<lparr>StrongLockInProgress := Some ShareLock\<rparr>),
     phases := (\<lambda>_. Idle)(2 := Transferring ShareLock 0)\<rparr>"

definition example_shared :: lock_system where
  "example_shared = example_begun\<lparr>lock_entry := Some example_held,
     fast_paths := (\<lambda>_. example_empty)(0 := example_fast\<lparr>fpLockBits := 0\<rparr>),
     backends := (\<lambda>_. no_locks)(0 := example_local AccessShareLock 1 False, 2 := example_local ShareLock 1 True),
     phases := (\<lambda>_. Idle)\<rparr>"

definition example_waiting :: lock_system where
  "example_waiting = example_shared\<lparr>lock_entry := Some example_queued, lock_procs := example_backends',
     backends := (backends example_shared)(0 := (example_local AccessShareLock 1 False)\<lparr>locallocks :=
       (locallocks (example_local AccessShareLock 1 False))(RowExclusiveLock := Some \<lparr>nLocks = 0, holdsStrongLockCount = False\<rparr>)\<rparr>),
     phases := (\<lambda>_. Idle)(0 := Waiting RowExclusiveLock)\<rparr>"

lemma example_begins:
  "(lock_system_step 3 example_tag 7)\<^sup>*\<^sup>* (start_system example_backends (\<lambda>_. 5)) example_begun"
proof -
  let ?s = "start_system example_backends (\<lambda>_. 5)"
  have fp: "fast_paths ?s = (\<lambda>_. example_empty)" by (simp add: start_system_def example_empty_def)
  let ?t = "?s\<lparr>counts := counts ?s, backends := (backends ?s)(0 := example_local AccessShareLock 0 False),
    phases := (phases ?s)(0 := Checked AccessShareLock)\<rparr>"
  have "lock_system_step 3 example_tag 7 ?s ?t"
    by (rule lock_system_step.start [where b = "example_local AccessShareLock 0 False"])
      (simp_all add: start_system_def mode_def acquire_local_def no_locks_def example_local_def start_acquire_def
        fast_path_open_def EligibleForRelationFastPath_def example_tag_def, simp)
  moreover
  let ?u = "?t\<lparr>fast_paths := (fast_paths ?t)(0 := example_fast),
      backends := (if True then (backends ?t)(0 := GrantLockLocal AccessShareLock (backends ?t 0)) else backends ?t),
      phases := (phases ?t)(0 := if True then Idle else Requesting AccessShareLock)\<rparr>"
  have "lock_system_step 3 example_tag 7 ?t ?u"
    by (rule lock_system_step.fast_grant) (use example_grant in \<open>simp_all add: fp example_tag_def\<close>)
  moreover
  have "?u = (start_system example_backends (\<lambda>_. 5))\<lparr>fast_paths := (\<lambda>_. example_empty)(0 := example_fast),
     backends := (\<lambda>_. no_locks)(0 := example_local AccessShareLock 1 False)\<rparr>" (is "_ = ?v")
    by (simp add: fp) (simp add: start_system_def GrantLockLocal_def set_locallock_def example_local_def fun_eq_iff)
  moreover
  let ?w = "?v\<lparr>counts := (counts ?v)(7 := counts ?v 7 + 1), backends := (backends ?v)(2 := (example_local ShareLock 0 True)\<lparr>StrongLockInProgress := Some ShareLock\<rparr>),
    phases := (phases ?v)(2 := Transferring ShareLock 0)\<rparr>"
  have "lock_system_step 3 example_tag 7 ?v ?w"
    by (rule lock_system_step.start [where b = "example_local ShareLock 0 False" and m = ShareLock])
      (simp_all add: start_system_def mode_def acquire_local_def no_locks_def example_local_def start_acquire_def
        fast_path_open_def EligibleForRelationFastPath_def ConflictsWithRelationFastPath_def example_tag_def
        BeginStrongLockAcquire_def set_locallock_def fun_eq_iff)
  moreover
  have "?w = example_begun" by (simp add: example_begun_def start_system_def)
  ultimately show ?thesis by (metis (no_types, lifting) converse_rtranclp_into_rtranclp rtranclp.rtrancl_refl)
qed


lemma example_shares: "(lock_system_step 3 example_tag 7)\<^sup>*\<^sup>* example_begun example_shared"
proof -
  let ?s = "example_begun" and ?fps = "(\<lambda>_. example_empty)(0 := example_fast\<lparr>fpLockBits := 0\<rparr>)"
  let ?at = "\<lambda>i. example_begun\<lparr>lock_entry := Some example_moved, fast_paths := ?fps,
    phases := (\<lambda>_. Idle)(2 := Transferring ShareLock i)\<rparr>"
  have begun: "lock_entry ?s = None" "lock_procs ?s = example_backends" "fast_paths ?s = (\<lambda>_. example_empty)(0 := example_fast)"
    "phases ?s = (\<lambda>_. Idle)(2 := Transferring ShareLock 0)"
    by (simp_all add: example_begun_def start_system_def)
  have "lock_system_step 3 example_tag 7 ?s (?s\<lparr>lock_entry := Some example_moved,
      fast_paths := (fast_paths ?s)(0 := example_fast\<lparr>fpLockBits := 0\<rparr>),
      phases := (phases ?s)(2 := if (Inr True :: bool result) = Inr True then Transferring ShareLock (Suc 0) else Failed ShareLock)\<rparr>)"
    by (rule lock_system_step.transfer) (use example_transfer in \<open>simp_all add: begun\<close>)
  then have first: "lock_system_step 3 example_tag 7 ?s (?at 1)" by (simp add: begun)
  have more: "lock_system_step 3 example_tag 7 (?at i) (?at (Suc i))" if "0 < i" "i < 3" for i
  proof -
    have "lock_system_step 3 example_tag 7 (?at i) ((?at i)\<lparr>lock_entry := Some example_moved,
        fast_paths := (fast_paths (?at i))(i := example_empty),
        phases := (phases (?at i))(2 := if (Inr True :: bool result) = Inr True then Transferring ShareLock (Suc i) else Failed ShareLock)\<rparr>)"
      by (rule lock_system_step.transfer) (use that example_no_transfer in \<open>simp_all add: begun\<close>)
    moreover have "?fps(i := example_empty) = ?fps" using that by (simp add: fun_eq_iff)
    ultimately show ?thesis by simp
  qed
  let ?t = "(?at 3)\<lparr>phases := (phases (?at 3))(2 := Requesting ShareLock)\<rparr>"
  let ?u = "?t\<lparr>lock_entry := Some example_held, lock_procs := example_backends,
      backends := (if LockGranted = LockGranted then (backends ?t)(2 := got_lock ShareLock (backends ?t 2)) else backends ?t),
      phases := (phases ?t)(2 := after_request ShareLock LockGranted)\<rparr>"
  have request: "lock_system_step 3 example_tag 7 ?t ?u"
    by (rule lock_system_step.request) (use example_request in \<open>simp_all add: begun\<close>)
  have "?u = example_shared"
    by (simp add: begun) (simp add: example_shared_def example_begun_def start_system_def after_request_def got_lock_def GrantLockLocal_def
        FinishStrongLockAcquire_def set_locallock_def example_local_def fun_eq_iff)
  with request have "lock_system_step 3 example_tag 7 ?t example_shared" by simp
  moreover have "lock_system_step 3 example_tag 7 (?at 3) ?t" by (rule lock_system_step.transferred) (simp, rule order_refl)
  moreover have "lock_system_step 3 example_tag 7 (?at 2) (?at 3)" using more [of 2] by simp
  moreover have "lock_system_step 3 example_tag 7 (?at 1) (?at 2)" using more [of 1] by (simp add: numeral_2_eq_2)
  ultimately show ?thesis using first by (meson converse_rtranclp_into_rtranclp rtranclp.rtrancl_refl)
qed

lemma example_waits: "(lock_system_step 3 example_tag 7)\<^sup>*\<^sup>* example_shared example_waiting"
proof -
  let ?s = "example_shared"
  let ?b = "(example_local AccessShareLock 1 False)\<lparr>locallocks :=
       (locallocks (example_local AccessShareLock 1 False))(RowExclusiveLock := Some \<lparr>nLocks = 0, holdsStrongLockCount = False\<rparr>)\<rparr>"
  have shared: "lock_procs ?s = example_backends" "lock_entry ?s = Some example_held" "phases ?s = (\<lambda>_. Idle)"
    "counts ?s = (\<lambda>_. 0)(7 := 1)" "given_up ?s = {}" "backends ?s 0 = example_local AccessShareLock 1 False"
    by (simp_all add: example_shared_def example_begun_def start_system_def)
  let ?t = "?s\<lparr>counts := counts ?s, backends := (backends ?s)(0 := ?b), phases := (phases ?s)(0 := Requesting RowExclusiveLock)\<rparr>"
  have "lock_system_step 3 example_tag 7 ?s ?t"
    by (rule lock_system_step.start [where b = ?b and m = RowExclusiveLock])
      (simp_all add: shared mode_def acquire_local_def example_local_def start_acquire_def fast_path_open_def
        ConflictsWithRelationFastPath_def)
  moreover
  let ?u = "?t\<lparr>lock_entry := Some example_queued, lock_procs := example_backends',
      backends := (if Sleeping = LockGranted then (backends ?t)(0 := got_lock RowExclusiveLock (backends ?t 0)) else backends ?t),
      phases := (phases ?t)(0 := after_request RowExclusiveLock Sleeping)\<rparr>"
  have "lock_system_step 3 example_tag 7 ?t ?u"
    by (rule lock_system_step.request) (use example_wait in \<open>simp_all add: shared\<close>)
  moreover have "?u = example_waiting"
    by (simp add: example_waiting_def shared after_request_def)
  ultimately show ?thesis by (metis (no_types, lifting) converse_rtranclp_into_rtranclp rtranclp.rtrancl_refl)
qed

lemma example_runs:
  "(lock_system_step 3 example_tag 7)\<^sup>*\<^sup>* (start_system example_backends (\<lambda>_. 5)) example_shared"
  "(lock_system_step 3 example_tag 7)\<^sup>*\<^sup>* (start_system example_backends (\<lambda>_. 5)) example_waiting"
  "groups_ok example_backends"
  using rtranclp_trans [OF example_begins example_shares] rtranclp_trans [OF _ example_waits]
  by (auto simp: groups_ok_def example_backends_def)

section \<open>Properties\<close>

lemma blocked_iff:
  "(\<exists>y \<in> H. \<not> compatible procs tag (p, m) y) \<longleftrightarrow> (\<exists>(q, n) \<in> H. q \<noteq> p
    \<and> (leader_of procs q \<noteq> leader_of procs p \<or> locktag_type tag \<in> {LOCKTAG_RELATION_EXTEND, LOCKTAG_PAGE})
    \<and> DoLockModesConflict m n)"
  by (rule bex_cong) (auto simp: compatible_def DoLockModesConflict_def)

text \<open>A lock whose release has begun is found where the code looks for it.\<close>

lemma fast_released:
  assumes "(p, m) \<in> fast_holds N tag (fast_paths s)" "fast_ok (fast_paths s p)"
  shows "fst (release_fast tag m (fast_paths s p))"
proof -
  let ?fp = "fast_paths s p"
  have m: "m \<in> fast_modes ?fp (locktag_field2 tag)" "fast_tag tag" "databaseId ?fp = locktag_field1 tag"
    using assms(1) by (auto simp: fast_holds_def tag_modes_def split: if_splits)
  then obtain f where f: "f < 16" "fast_bit ?fp f m" by (auto simp: fast_modes_def)
  then have "m \<in> {1, 2, 3}" by (simp add: fast_bit_def)
  moreover have "finite (used_slots ?fp)" "f \<in> used_slots ?fp" using f by (auto simp: used_slots_def slot_used_def)
  then have "0 < card (used_slots ?fp)" by (auto simp: card_gt_0_iff)
  then have "0 < LocalUseCount ?fp" using assms(2) by (simp add: fast_ok_def)
  moreover obtain released fp' where run: "FastPathUnGrantRelationLock (locktag_field2 tag) m ?fp = (released, fp')"
    by (cases "FastPathUnGrantRelationLock (locktag_field2 tag) m ?fp")
  ultimately show ?thesis
    using FastPathUnGrantRelationLock_result(1) [OF assms(2) _ run] m
    by (auto simp: release_fast_def EligibleForRelationFastPath_def fast_tag_def)
qed

lemma queued_holder:
  assumes inv: "system_inv N tag part C s" and p: "phases s p = Waiting m" "p \<in> set (entry_queue (lock_entry s))"
  obtains lk xs ys where "lock_entry s = Some lk" "waitProcs lk = xs @ p # ys" "waitLockMode (lock_procs s p) = m"
    "sound (lock_procs s) lk" "lock_tag lk = tag"
proof -
  obtain lk where lk: "lock_entry s = Some lk" "p \<in> set (waitProcs lk)" using p(2) by (cases "lock_entry s") auto
  then obtain xs ys where "waitProcs lk = xs @ p # ys" by (meson split_list)
  moreover have "waitLockMode (lock_procs s p) = m" using queued_mode [OF inv, of p m] p by (auto simp: queue_pairs_def)
  ultimately show ?thesis using that lk(1) entry_soundD [OF inv lk(1)] by blast
qed



text \<open>C10. The shared state stays well formed.  The LOCK of the object agrees with who holds and who waits for it:
  the counts of requests and of granted locks per mode and in total, \<open>grantMask\<close>, \<open>waitMask\<close>, and the \<open>holdMask\<close>
  of every PROCLOCK; no PROCLOCK is idle and no LOCK is left that nobody needs (\<open>entry_sound\<close>).  So a request that
  reaches the table, the transfer of the locks of any backend and a cancelled wait find no damage and do not
  panic, and a lock to be released is found: in the fast path, or in the table, or only its count is left.\<close>

theorem lock_table_well_formed:
  assumes "(lock_system_step N tag part)\<^sup>*\<^sup>* (start_system procs databases) t" "groups_ok procs"
  shows "entry_sound (lock_procs t) tag (lock_entry t)
    \<and> (\<forall>p m lock_room proclock_room dontWait. phases t p = Requesting m \<longrightarrow>
         (\<exists>outcome s. request_lock lock_room proclock_room p tag m dontWait (lock_entry t, lock_procs t) = Some (outcome, s)
            \<and> (\<forall>e. outcome \<noteq> RequestError e)))
    \<and> (\<forall>p m i room. phases t p = Transferring m i \<longrightarrow> i < N \<longrightarrow>
         (\<exists>ok s. transfer_backend room (lock_procs t) tag i (lock_entry t, fast_paths t i) = (Inr ok, s)))
    \<and> (\<forall>p lk. lock_entry t = Some lk \<longrightarrow> p \<in> set (waitProcs lk) \<longrightarrow>
         (\<exists>s. RemoveFromWaitQueue p p (lk, lock_procs t) = Some s))
    \<and> (\<forall>p m. (p, m) \<in> given_up t \<longrightarrow> fst (release_fast tag m (fast_paths t p))
         \<or> (\<exists>lk s. lock_entry t = Some lk \<and> (p, m) \<in> holdset lk \<and> release_lock p p m (lk, lock_procs t) = Some s)
         \<or> (\<exists>l. locallocks (backends t p) m = Some l \<and> holdsStrongLockCount l))"
proof (intro conjI allI impI)
  note inv = system_run_inv [OF assms]
  note i = system_invD [OF inv]
  show "entry_sound (lock_procs t) tag (lock_entry t)" by (rule i(3))
  show "\<exists>outcome s. request_lock lock_room proclock_room p tag m dontWait (lock_entry t, lock_procs t) = Some (outcome, s)
      \<and> (\<forall>e. outcome \<noteq> RequestError e)" if p: "phases t p = Requesting m" for p m lock_room proclock_room dontWait
  proof -
    have "mode m" using process_okD(3) [OF i(4) [of p]] p by simp
    moreover have "(p, m) \<notin> entry_holds (lock_entry t)" using accounted_more(2) [OF i(6), of p m] p by auto
    moreover have "p \<notin> set (entry_queue (lock_entry t))" by (rule not_queued [OF inv]) (simp_all add: p)
    ultimately show ?thesis
      using request_lock_result [OF i(3,1), of m p lock_room proclock_room dontWait] by (fastforce simp: request_effect_def)
  qed
  show "\<exists>ok s. transfer_backend room (lock_procs t) tag i (lock_entry t, fast_paths t i) = (Inr ok, s)"
    if p: "phases t p = Transferring m i" "i < N" for p m i room
    using transfer_backend_result [OF i(3) process_okD(1) [OF i(4) [of i]], where i = i and room = room]
      movable [OF inv p(2) process_okD(5) [OF i(4) [of p] p(1)]] by fastforce
  show "\<exists>s. RemoveFromWaitQueue p p (lk, lock_procs t) = Some s"
    if "lock_entry t = Some lk" "p \<in> set (waitProcs lk)" for p lk
    using RemoveFromWaitQueue_result [of "lock_procs t" lk p p] i(1) entry_soundD [OF inv that(1)] that(2)
    by (fastforce simp: sound_def)
  show "fst (release_fast tag m (fast_paths t p))
      \<or> (\<exists>lk s. lock_entry t = Some lk \<and> (p, m) \<in> holdset lk \<and> release_lock p p m (lk, lock_procs t) = Some s)
      \<or> (\<exists>l. locallocks (backends t p) m = Some l \<and> holdsStrongLockCount l)" if p: "(p, m) \<in> given_up t" for p m
  proof -
    consider "(p, m) \<in> entry_holds (lock_entry t)" | "(p, m) \<in> fast_holds N tag (fast_paths t)" | "m \<in> counts_of (backends t p)"
      using accounted_raw(4) [OF i(6), of p m] p by (auto simp: local_counts_def)
    then show ?thesis
    proof cases
      case 1
      then obtain lk where lk: "lock_entry t = Some lk" "(p, m) \<in> holdset lk" by (cases "lock_entry t") auto
      moreover have "p \<notin> set (waitProcs lk)" using idle_not_queued [OF inv stale_idle [OF inv p]] lk(1) by simp
      ultimately show ?thesis
        using release_lock_result [of "lock_procs t" lk p m p] i(1) entry_soundD [OF inv lk(1)] by blast
    next
      case 2
      then show ?thesis using fast_released process_okD(1) [OF i(4) [of p]] by blast
    qed (simp add: counts_of_def)
  qed
qed

lemma lock_table_well_formed_example:
  "entry_sound example_backends' example_tag (Some example_queued)
    \<and> RemoveFromWaitQueue 0 0 (example_queued, example_backends') \<noteq> None"
proof -
  have "lock_entry example_waiting = Some example_queued" "lock_procs example_waiting = example_backends'"
    "0 \<in> set (waitProcs example_queued)"
    by (simp_all add: example_waiting_def example_queued_def)
  then show ?thesis using lock_table_well_formed [OF example_runs(2,3)] by auto
qed

text \<open>C11. Nobody waits without a reason, so no wakeup is ever lost: a process that waits for a mode is in the
  queue, and then the mode conflicts with one that a process before it awaits or with one that a process
  outside its group holds; or else it already has the lock in the table and only has to notice.\<close>

theorem lock_waiters_have_reason:
  assumes "(lock_system_step N tag part)\<^sup>*\<^sup>* (start_system procs databases) t" "groups_ok procs" "phases t p = Waiting m"
  shows "(p, m) \<in> entry_holds (lock_entry t) \<and> p \<notin> set (entry_queue (lock_entry t))
    \<or> (\<exists>lk xs ys. lock_entry t = Some lk \<and> waitProcs lk = xs @ p # ys
        \<and> ((\<exists>q \<in> set xs. DoLockModesConflict m (waitLockMode (lock_procs t q)))
           \<or> (\<exists>(q, n) \<in> holdset lk. q \<noteq> p
                \<and> (leader_of (lock_procs t) q \<noteq> leader_of (lock_procs t) p
                   \<or> locktag_type tag \<in> {LOCKTAG_RELATION_EXTEND, LOCKTAG_PAGE})
                \<and> DoLockModesConflict m n)))"
proof (cases "p \<in> set (entry_queue (lock_entry t))")
  case True
  note inv = system_run_inv [OF assms(1,2)]
  obtain lk xs ys where lk: "lock_entry t = Some lk" "waitProcs lk = xs @ p # ys" "waitLockMode (lock_procs t p) = m"
    "sound (lock_procs t) lk" "lock_tag lk = tag" by (rule queued_holder [OF inv assms(3) True])
  have ok: "lock_ok None (lock_procs t) lk" using lk(4) by (simp add: sound_def)
  have "(\<exists>n \<in> awaited (lock_procs t) xs. conflict m n) \<or> blocked_by (lock_procs t) lk p m"
    using lk by (auto simp: sound_def reasons_append)
  then have "(\<exists>q \<in> set xs. DoLockModesConflict m (waitLockMode (lock_procs t q))) \<or> blocked_by (lock_procs t) lk p m"
    by (auto simp: DoLockModesConflict_def)
  then show ?thesis unfolding blocked_by_holdset [OF ok] lk(5) blocked_iff using lk(1,2) by blast
next
  case False
  have "(p, m) \<notin> queue_pairs (lock_procs t) (entry_queue (lock_entry t))"
    using False queued_mode [OF system_run_inv [OF assms(1,2)], of p m] assms(3) by simp
  then show ?thesis
    using False accounted_raw(5) [OF system_invD(6) [OF system_run_inv [OF assms(1,2)]], of p m] assms(3) by simp
qed

lemma lock_waiters_have_reason_example:
  "phases example_waiting 0 = Waiting RowExclusiveLock
    \<and> (\<exists>(q, n) \<in> holdset example_queued. q \<noteq> 0 \<and> DoLockModesConflict RowExclusiveLock n)"
proof -
  have waiting: "phases example_waiting 0 = Waiting RowExclusiveLock" "lock_entry example_waiting = Some example_queued"
    "waitProcs example_queued = [0]"
    by (simp_all add: example_waiting_def example_queued_def)
  then show ?thesis
    using lock_waiters_have_reason [OF example_runs(2,3) waiting(1)] by (auto simp: Cons_eq_append_conv)
qed

text \<open>C18. The conflict test of the code, which counts holders per mode and subtracts, is the plain question:
  does some other process, outside the group of the asker where groups count, hold a mode that conflicts
  with the requested one?  It never panics.  This holds in the middle of a request too, when the request
  is counted and not yet granted.\<close>

theorem LockCheckConflicts_reference:
  assumes "lock_ok x procs lk" "groups_ok procs" "mode m" "find_proclock p (procLocks lk) = Some pl"
  shows "LockCheckConflicts MyProc procs m lk pl = Some (\<exists>(q, n) \<in> holdset lk. q \<noteq> p
    \<and> (leader_of procs q \<noteq> leader_of procs p \<or> locktag_type (lock_tag lk) \<in> {LOCKTAG_RELATION_EXTEND, LOCKTAG_PAGE})
    \<and> DoLockModesConflict m n)"
  unfolding LockCheckConflicts_exact [OF assms] blocked_by_holdset [OF assms(1)] blocked_iff ..

lemma LockCheckConflicts_reference_example:
  "LockCheckConflicts 0 example_backends' RowExclusiveLock example_queued
     \<lparr>myProc = 0, groupLeader = 0, holdMask = LOCKBIT_ON AccessShareLock, releaseMask = 0\<rparr> = Some True"
proof -
  have "system_inv 3 example_tag 7 (compatible example_backends example_tag) example_waiting"
    by (rule system_run_inv [OF example_runs(2,3)])
  then have ok: "lock_ok None example_backends' example_queued" "groups_ok example_backends'"
    using system_invD(1,3) [of 3 example_tag 7 "compatible example_backends example_tag" example_waiting]
    by (auto simp: example_waiting_def sound_def)
  have found: "find_proclock 0 (procLocks example_queued)
      = Some \<lparr>myProc = 0, groupLeader = 0, holdMask = LOCKBIT_ON AccessShareLock, releaseMask = 0\<rparr>"
    by (simp add: example_queued_def example_held_def example_moved_def)
  have held: "(2, ShareLock) \<in> holdset example_queued"
    by (simp add: example_queued_def example_held_def example_moved_def holdset_iff)
  have "DoLockModesConflict RowExclusiveLock ShareLock" by code_simp
  moreover have "leader_of example_backends' 2 \<noteq> leader_of example_backends' 0"
    by (simp add: leader_of_def example_backends'_def example_backends_def)
  moreover have "mode RowExclusiveLock" by (simp add: mode_def)
  ultimately show ?thesis unfolding LockCheckConflicts_reference [OF ok \<open>mode RowExclusiveLock\<close> found]
    by (intro arg_cong [where f = Some] iffD2 [OF eq_True] bexI [OF _ held]) simp
qed

end
