(* ===== verification/Spec2Isabelle.thy ===== *)
theory Spec2Isabelle
  imports Prelude BitUtils SetSpecs Bitmapset Transam XactState FullXid Varsup XactBlock XactFrames XactCommands
    XactRequests SimpleQuery Session SessionProps HeapTuple ProcArray Multixact
    MultixactStore HeapVisibility RowVisibility LockTable LockInvariants LockRequests FastPath FastTransfer LockProtocol LockSystem
    LockRefinement LockSafety
begin

text \<open>
  The transaction core of the PostgreSQL 14.2 server in \<^verbatim>\<open>src/WebChat/postgresql-14.2\<close>, the C
  program of this repository.  (The web application beside it, in OCaml and Vue, keeps its
  messages in that server.)  All paths below are relative to that directory.

  \<^bold>\<open>How the parts work together.\<close>  Every transaction has a 32-bit identifier (xid), compared modulo
  \<open>2 ^ 32\<close>.  Its outcome is two bits in the commit log; a subtransaction has its parent in
  pg_subtrans.  A running transaction has an entry in the process array, from which a backend
  takes a snapshot: the set of xids it must treat as running.  Each row version carries in its
  header the xids that inserted and deleted it, with hint bits that cache their outcome, and the
  numbers of the commands that did so; several transactions that lock or update one row share a
  multixact.  The visibility tests put all of this together: they decide for a snapshot which
  row versions exist, for an update which it may touch and for vacuum which it may remove.

  \<^bold>\<open>Theories.\<close>
  \<^item> \<open>Prelude\<close>: the C integer types, errors of \<open>elog\<close> and \<open>ereport\<close>, fallible calls.
  \<^item> \<open>BitUtils\<close> (\<^verbatim>\<open>src/port/pg_bitutils.c\<close>, \<^verbatim>\<open>src/include/port/pg_bitutils.h\<close>): positions of the first
    and last one bit and population counts, with their tables.
  \<^item> \<open>SetSpecs\<close>: the contract of a set of nonnegative integers as locales, and what follows from it
    for both iteration idioms.
  \<^item> \<open>Bitmapset\<close> (\<^verbatim>\<open>src/backend/nodes/bitmapset.c\<close>): every operation on bitmapsets; the locales of
    \<open>SetSpecs\<close> are interpreted on it.
  \<^item> \<open>Transam\<close> (\<^verbatim>\<open>transam.h\<close>, \<^verbatim>\<open>transam.c\<close>, \<^verbatim>\<open>clog.c\<close>, \<^verbatim>\<open>subtrans.c\<close> of \<^verbatim>\<open>src/backend/access/transam\<close>): xid
    arithmetic, the status bits, commits and aborts of a transaction tree as sequences of atomic
    page updates, parents, and the outcome queries.
  \<^item> \<open>XactState\<close> (\<^verbatim>\<open>src/backend/access/transam/xact.c\<close>): the backend's own xids and the test for them.
  \<^item> \<open>FullXid\<close> (\<^verbatim>\<open>src/include/access/transam.h\<close>): 64-bit transaction ids, and the windows within which
    32-bit comparison is an order.
  \<^item> \<open>Varsup\<close> (\<^verbatim>\<open>src/backend/access/transam/varsup.c\<close>): allocation of transaction ids under the
    wraparound limits, and of object ids under the logged limit.
  \<^item> \<open>XactBlock\<close> (\<^verbatim>\<open>src/backend/access/transam/xact.c\<close>): the stack of (sub)transactions as a state
    machine: starting, committing, preparing and aborting, the commands around every statement,
    transaction blocks and savepoints, with every error and the state it leaves.
  \<^item> \<open>XactFrames\<close>: rules for backward reasoning about these operations, the shapes of the stack, and
    the recovery of an abort from every state an error can leave.
  \<^item> \<open>XactCommands\<close>: what the end of a command makes of the stack.
  \<^item> \<open>XactRequests\<close>: how each request of the client marks the stack for it.
  \<^item> \<open>SimpleQuery\<close> (\<^verbatim>\<open>src/backend/tcop/postgres.c\<close>, \<^verbatim>\<open>src/backend/tcop/utility.c\<close>,
    \<^verbatim>\<open>src/backend/commands/variable.c\<close>, \<^verbatim>\<open>src/pl/plpgsql/src/pl_exec.c\<close>): the statements of a query, transaction
    statements, exception blocks, and the error handler of the session.
  \<^item> \<open>Session\<close>: the session as its client knows it, a machine of four kinds of states, and the proof
    that the session of \<open>SimpleQuery\<close> implements it.
  \<^item> \<open>SessionProps\<close>: the properties of sessions.
  \<^item> \<open>HeapTuple\<close> (\<^verbatim>\<open>src/include/access/htup_details.h\<close>, \<^verbatim>\<open>src/backend/utils/time/combocid.c\<close>): the header
    of a row version and combo command ids.
  \<^item> \<open>ProcArray\<close> (\<^verbatim>\<open>src/backend/storage/ipc/procarray.c\<close>, \<^verbatim>\<open>src/backend/utils/time/snapmgr.c\<close>): taking a
    snapshot, testing an xid against it, and the running test.
  \<^item> \<open>Multixact\<close> and \<open>MultixactStore\<close> (\<^verbatim>\<open>src/backend/access/transam/multixact.c\<close>): allocation, recording and
    reading of multixacts; the map they implement, under the contract \<open>growing_store\<close>.
  \<^item> \<open>HeapVisibility\<close> and \<open>RowVisibility\<close> (\<^verbatim>\<open>src/backend/access/heap/heapam_visibility.c\<close>): all visibility
    tests with the hint bits they leave; their specification, the locale \<open>visibility_env\<close> of what they
    ask of other modules, and its interpretation on the models above.

  \<^item> \<open>LockTable\<close> (\<^verbatim>\<open>lock.c\<close>, \<^verbatim>\<open>proc.c\<close>, \<^verbatim>\<open>deadlock.c\<close> of \<^verbatim>\<open>src/backend/storage/lmgr\<close>, \<^verbatim>\<open>src/include/storage/lock.h\<close>):
    the shared table entry of one object: conflicts, requests, the queue, grants, wakeups and releases.
  \<^item> \<open>LockInvariants\<close> and \<open>LockRequests\<close>: its invariant \<open>lock_ok\<close>, that each waiter has a reason
    (\<open>reasons\<close>), and the effect of every operation on the set of holds and the queue.
  \<^item> \<open>FastPath\<close> and \<open>FastTransfer\<close>: the fast path slots of a backend, the count of strong locks and the
    local lock table of \<^verbatim>\<open>lock.c\<close>; the transfer of locks from the fast path to the table.
  \<^item> \<open>LockProtocol\<close>: the protocol of fast path, count and table on sets of holds, and its safety, in the locale
    \<open>lock_protocol\<close>.
  \<^item> \<open>LockSystem\<close>: all backends on one object as a step relation, one step for every part of \<open>LockAcquireExtended\<close>,
    \<open>LockRelease\<close>, \<open>LockReleaseAll\<close>, \<open>LockErrorCleanup\<close> (\<^verbatim>\<open>proc.c\<close>) that the code does under one lock on shared memory.
    A step uses the operations of \<open>LockTable\<close> and \<open>FastPath\<close>; \<open>elsewhere\<close> is any work on other objects.
  \<^item> \<open>LockRefinement\<close>: every step of \<open>LockSystem\<close> is a sequence of steps of \<open>LockProtocol\<close>.
  \<^item> \<open>LockSafety\<close>: an example run, and the properties of the locks.

  \<^bold>\<open>Conventions.\<close>  A struct is a record, an enum a datatype (or its number where the code stores it
  unchecked), an integer a word of its width; C \<open>int\<close> is \<open>int\<close> where it cannot overflow.  State is
  passed explicitly.  Pages of the SLRU areas are addressed by page number; the buffer that holds
  them is not represented.  A function whose loop may not end is a \<open>partial_function\<close> or returns
  \<open>None\<close> where the code would wait; theorems say when it returns.  Locks make the operations atomic;
  where the code lets other backends look in between (a commit over several log pages), the
  steps are listed.  What other modules do in the middle of an operation is an
  environment \<open>answers\<close>: at every call it may raise an error, and it gives the answers the code
  reads.  \<open>Assert\<close> is not a test of a production build.  No fuel is used.

  \<^bold>\<open>What the lemmas show.\<close>  Set algebra of bitmapsets up to refinement, and iteration that ends; the
  order of xids within half the ring; that the log answers from a coherent cache and that a
  commit becomes visible in one step; that a snapshot holds exactly the running transactions and
  agrees with the running test; that multixacts read back what was stored, for good, around the
  wraparound of ids and of member slots; that the transaction stack of a session goes only through
  the states its client knows, that an abort recovers from every state an error can leave, that an
  exception block keeps its errors to itself, and what AND CHAIN hands on; that every visibility test returns what its
  specification says, that hint bits change no snapshot's view, and that vacuum removes only what
  no snapshot can see; that no two backends ever have conflicting locks, that the lock table stays
  well formed, and that nobody waits for a lock without a reason.

  \<^bold>\<open>Not modelled.\<close>  Parsing, planning and execution of queries, buffer management and storage,
  the write-ahead log and replication, the extended query protocol, COMMIT inside procedures, FATAL
  errors by an administrator, parallel workers (beyond their tests in \<^verbatim>\<open>xact.c\<close>), the client libraries and tools: dominated by I/O, process
  control or heuristics over large node trees.  Within the modelled files: memory management,
  WAL records and redo, startup and truncation of the SLRU areas, standby bookkeeping beyond the
  queries, and the modification of heap pages.  Of the heavyweight locks: the search of the deadlock
  detector (any order of a queue that it may choose is a step), changes of lock groups while locks are held,
  locks of prepared transactions and of virtual transaction ids, resource owners, lock timeouts.  A
  process has at most one request under way and starts it after the releases it has begun; a strong count
  does not reach \<open>2 ^ 32\<close>.  A lock that is granted while its request is being cancelled counts as given up at
  once (the code enters it in the local table first, and the abort that follows releases it).
\<close>

end
